(* ===== verification/Qemu_Prelude.thy ===== *)
theory Qemu_Prelude
  imports Main "HOL-Library.Word" "HOL-Library.Signed_Division"
begin

text \<open>
  Shared vocabulary of the development: the fixed-width integers of the C sources, the faults a
  device model can end in, results of fallible code, checked array accesses, the interrupt lines
  a device drives, the QEMU timer a device owns, and the small arithmetic helpers of
  \<^verbatim>\<open>qemu-common.h\<close> and \<^verbatim>\<open>vl.c\<close> that every timer device calls
  (\<^verbatim>\<open>muldiv64\<close>, \<^verbatim>\<open>to_bcd\<close>, \<^verbatim>\<open>from_bcd\<close>).
\<close>

unbundle bit_operations_syntax

section \<open>Machine integers\<close>

type_synonym u8 = "8 word"
type_synonym u16 = "16 word"
type_synonym u32 = "32 word"
type_synonym u64 = "64 word"

text \<open>
  \<^verbatim>\<open>target_phys_addr_t\<close>: the configured target (\<^verbatim>\<open>arm-softmmu/config-target.h\<close>) has
  \<^verbatim>\<open>TARGET_PHYS_ADDR_BITS\<close> 64.
\<close>

type_synonym hwaddr = "64 word"

named_theorems res_simps \<open>rewriting of fallible computations\<close>
named_theorems irq_simps \<open>levels of interrupt lines\<close>

section \<open>Faults and fallible results\<close>

text \<open>
  \<^verbatim>\<open>hw_error\<close> prints a message and aborts the emulator.  The other constructors are the ways
  the C code leaves its defined behaviour: an array access outside the declared bounds, a
  division by zero, a call through a null pointer, a shift by a count outside the width and, for
  the one unbounded loop of the DMA
  engine, running out of the fuel the model gives it.
\<close>

datatype fault = HwError string | ArrayBounds | DivZero | NullDeref | ShiftRange | OutOfFuel

type_synonym 'a res = "fault + 'a"

definition rbind :: "'a res \<Rightarrow> ('a \<Rightarrow> 'b res) \<Rightarrow> 'b res" where
  "rbind m f = (case m of Inl e \<Rightarrow> Inl e | Inr x \<Rightarrow> f x)"

lemma rbind_Inl [simp, res_simps]: "rbind (Inl e) f = Inl e"
  by (simp add: rbind_def)

lemma rbind_Inr [simp, res_simps]: "rbind (Inr x) f = f x"
  by (simp add: rbind_def)

lemma rbind_eq_Inr [res_simps]: "rbind m f = Inr y \<longleftrightarrow> (\<exists>x. m = Inr x \<and> f x = Inr y)"
  by (cases m) auto

lemma rbind_eq_Inl [res_simps]:
  "rbind m f = Inl e \<longleftrightarrow> m = Inl e \<or> (\<exists>x. m = Inr x \<and> f x = Inl e)"
  by (cases m) auto

lemma rbind_InrE:
  assumes "rbind m f = Inr y"
  obtains x where "m = Inr x" and "f x = Inr y"
  using assms by (auto simp: rbind_eq_Inr)

lemma rbind_assoc: "rbind (rbind m f) g = rbind m (\<lambda>x. rbind (f x) g)"
  by (cases m) simp_all

lemma rbind_cong [fundef_cong]:
  "m = m' \<Longrightarrow> (\<And>x. m' = Inr x \<Longrightarrow> f x = f' x) \<Longrightarrow> rbind m f = rbind m' f'"
  by (cases m') simp_all

lemma if_res_eq_Inr:
  "((if b then Inl e else m) = Inr y) \<longleftrightarrow> \<not> b \<and> m = Inr y"
  "((if b then m else Inl e) = Inr y) \<longleftrightarrow> b \<and> m = Inr y"
  by auto

text \<open>C arrays: reading or writing outside the declared bounds is a fault of the model.\<close>

definition arr_get :: "'a list \<Rightarrow> nat \<Rightarrow> 'a res" where
  "arr_get xs i = (if i < length xs then Inr (xs ! i) else Inl ArrayBounds)"

definition arr_set :: "'a list \<Rightarrow> nat \<Rightarrow> 'a \<Rightarrow> 'a list res" where
  "arr_set xs i v = (if i < length xs then Inr (xs[i := v]) else Inl ArrayBounds)"

lemma arr_get_Inr [simp]: "i < length xs \<Longrightarrow> arr_get xs i = Inr (xs ! i)"
  by (simp add: arr_get_def)

lemma arr_get_out [simp]: "length xs \<le> i \<Longrightarrow> arr_get xs i = Inl ArrayBounds"
  by (simp add: arr_get_def)

lemma arr_set_Inr [simp]: "i < length xs \<Longrightarrow> arr_set xs i v = Inr (xs[i := v])"
  by (simp add: arr_set_def)

lemma arr_set_out [simp]: "length xs \<le> i \<Longrightarrow> arr_set xs i v = Inl ArrayBounds"
  by (simp add: arr_set_def)

lemma arr_get_eq_Inr: "arr_get xs i = Inr x \<longleftrightarrow> i < length xs \<and> x = xs ! i"
  by (auto simp: arr_get_def)

lemma arr_set_eq_Inr: "arr_set xs i v = Inr ys \<longleftrightarrow> i < length xs \<and> ys = xs[i := v]"
  by (auto simp: arr_set_def)

text \<open>A C \<^verbatim>\<open>for\<close> loop whose body may fault: the body over the list of index values.\<close>

primrec rfold :: "('a \<Rightarrow> 's \<Rightarrow> 's res) \<Rightarrow> 'a list \<Rightarrow> 's \<Rightarrow> 's res" where
  "rfold f [] s = Inr s"
| "rfold f (x # xs) s = rbind (f x s) (rfold f xs)"

lemma rfold_append: "rfold f (xs @ ys) s = rbind (rfold f xs s) (rfold f ys)"
  by (induction xs arbitrary: s) (auto simp: rbind_assoc intro!: rbind_cong)

lemma rfold_invariant:
  assumes "rfold f xs s = Inr s'" and "P s"
    and "\<And>x s s'. x \<in> set xs \<Longrightarrow> P s \<Longrightarrow> f x s = Inr s' \<Longrightarrow> P s'"
  shows "P s'"
  using assms by (induction xs arbitrary: s) (auto elim!: rbind_InrE)

lemma rfold_total:
  assumes "P s" and "\<And>x s. x \<in> set xs \<Longrightarrow> P s \<Longrightarrow> \<exists>s'. f x s = Inr s' \<and> P s'"
  shows "\<exists>s'. rfold f xs s = Inr s' \<and> P s'"
  using assms
proof (induction xs arbitrary: s)
  case Nil
  then show ?case by simp
next
  case (Cons x xs)
  then obtain s1 where "f x s = Inr s1" "P s1" by force
  with Cons.IH [of s1] Cons.prems(2) show ?case by simp
qed

section \<open>Interrupt lines\<close>

text \<open>
  A \<^verbatim>\<open>qemu_irq\<close> is a call into the receiving device (\<^verbatim>\<open>hw/irq.c\<close>).  A device model
  keeps the calls it has made, most recent first, as pairs of the line and the level: the
  receiver's handler is run over the reversed log.  The level of a line is the level of the last
  call on it, and lines start low (the comment of \<^verbatim>\<open>qemu_irq_invert\<close> says so).
\<close>

type_synonym 'l irq_log = "('l \<times> bool) list"

definition qemu_set_irq :: "'l \<Rightarrow> bool \<Rightarrow> 'l irq_log \<Rightarrow> 'l irq_log" where
  "qemu_set_irq l level log = (l, level) # log"

definition qemu_irq_raise :: "'l \<Rightarrow> 'l irq_log \<Rightarrow> 'l irq_log" where
  "qemu_irq_raise l log = qemu_set_irq l True log"

definition qemu_irq_lower :: "'l \<Rightarrow> 'l irq_log \<Rightarrow> 'l irq_log" where
  "qemu_irq_lower l log = qemu_set_irq l False log"

fun irq_level :: "'l irq_log \<Rightarrow> 'l \<Rightarrow> bool" where
  "irq_level [] l = False"
| "irq_level ((m, level) # log) l = (if m = l then level else irq_level log l)"

lemma irq_level_set [simp, irq_simps]:
  "irq_level (qemu_set_irq m b log) l = (if m = l then b else irq_level log l)"
  by (simp add: qemu_set_irq_def)

lemma irq_level_raise [simp, irq_simps]:
  "irq_level (qemu_irq_raise m log) l = (m = l \<or> irq_level log l)"
  by (simp add: qemu_irq_raise_def)

lemma irq_level_lower [simp, irq_simps]:
  "irq_level (qemu_irq_lower m log) l = (m \<noteq> l \<and> irq_level log l)"
  by (simp add: qemu_irq_lower_def)

text \<open>The calls that lead from one state of a line to a later one, in the order they were made.\<close>

definition new_calls :: "'l irq_log \<Rightarrow> 'l irq_log \<Rightarrow> ('l \<times> bool) list" where
  "new_calls old new = rev (take (length new - length old) new)"

text \<open>Pin numbers of \<^verbatim>\<open>s5pc1xx_gpio_regs.h\<close>, as the macro \<^verbatim>\<open>CASE_ID\<close> builds them.\<close>

definition CASE_ID :: "u32 \<Rightarrow> u32 \<Rightarrow> u32 \<Rightarrow> u32" where
  "CASE_ID device inst event = push_bit 11 device OR push_bit 6 inst OR event"

section \<open>Time\<close>

text \<open>
  A \<^verbatim>\<open>QEMUTimer\<close> owned by a device is seen from the device as its pending expiry time, if
  any; \<^verbatim>\<open>qemu_mod_timer\<close> and \<^verbatim>\<open>qemu_del_timer\<close> set and clear it (the list of
  active timers that implements this is modelled in its own theory).  \<^verbatim>\<open>get_ticks_per_sec\<close>
  is a constant of \<^verbatim>\<open>qemu-timer.h\<close>.
\<close>

type_synonym timer = "u64 option"

definition get_ticks_per_sec :: "'a::len word" where
  "get_ticks_per_sec = 1000000000"

section \<open>Guest memory\<close>

text \<open>
  The RAM case of \<^verbatim>\<open>cpu_physical_memory_rw\<close> (\<^verbatim>\<open>exec.c\<close>): a map from addresses to bytes.
\<close>

definition cpu_physical_memory_read :: "(hwaddr \<Rightarrow> u8) \<Rightarrow> hwaddr \<Rightarrow> nat \<Rightarrow> u8 list" where
  "cpu_physical_memory_read m a k = map (\<lambda>i. m (a + of_nat i)) [0..<k]"

fun cpu_physical_memory_write :: "(hwaddr \<Rightarrow> u8) \<Rightarrow> hwaddr \<Rightarrow> u8 list \<Rightarrow> (hwaddr \<Rightarrow> u8)" where
  "cpu_physical_memory_write m a [] = m"
| "cpu_physical_memory_write m a (b # bs) = cpu_physical_memory_write (m(a := b)) (a + 1) bs"

section \<open>Arithmetic helpers of the sources\<close>

definition muldiv64 :: "u64 \<Rightarrow> u32 \<Rightarrow> u32 \<Rightarrow> u64 res" where
  "muldiv64 a b c =
     (if c = 0 then Inl DivZero
      else
        let low = (ucast a :: u32);
            high = (ucast (drop_bit 32 a) :: u32);
            rl = (ucast low :: u64) * (ucast b :: u64);
            rh = (ucast high :: u64) * (ucast b :: u64);
            rh = rh + drop_bit 32 rl;
            res_high = (ucast (rh div ucast c) :: u32);
            res_low = (ucast ((push_bit 32 (rh mod ucast c) + (rl AND 0xffffffff)) div ucast c)
                        :: u32)
        in Inr (push_bit 32 (ucast res_high :: u64) OR (ucast res_low :: u64)))"

definition to_bcd :: "u8 \<Rightarrow> u8" where
  "to_bcd val = push_bit 4 (val div 10) OR (val mod 10)"

definition from_bcd :: "u8 \<Rightarrow> u8" where
  "from_bcd val = drop_bit 4 val * 10 + (val AND 0x0f)"

section \<open>Lemmas on words and products\<close>

lemma nat_muldiv:
  fixes a b c k :: nat
  assumes c: "0 < c"
  defines "rl \<equiv> a mod k * b"
  defines "rh \<equiv> a div k * b + rl div k"
  shows "rh div c * k + ((rh mod c) * k + rl mod k) div c = a * b div c"
proof -
  have "rh * k + rl mod k = a div k * b * k + (rl div k * k + rl mod k)"
    by (simp add: rh_def algebra_simps)
  also have "... = a div k * b * k + rl" by (simp only: div_mult_mod_eq)
  also have "... = (a div k * k + a mod k) * b"
    by (simp only: rl_def algebra_simps)
  also have "... = a * b" by (simp only: div_mult_mod_eq)
  finally have ab: "a * b = rh * k + rl mod k" by simp
  have "rh * k = (rh div c * c + rh mod c) * k" by (simp only: div_mult_mod_eq)
  then have "a * b = (rh mod c * k + rl mod k) + (rh div c * k) * c" 
    unfolding ab by (simp only: algebra_simps)
  then have "a * b div c = rh div c * k + (rh mod c * k + rl mod k) div c"
    using c by simp
  then show ?thesis by simp
qed

lemma mult_u32_bound:
  fixes x y :: nat assumes "x < 2^32" "y < 2^32" shows "x * y + (2^32 - 1) < 2^64"
proof -
  have "x * y \<le> (2^32 - 1) * (2^32 - 1)" using assms by (intro mult_le_mono) auto
  then show ?thesis by simp
qed

lemma unat_u32_less: "unat (x :: u32) < 2 ^ 32"
  using unsigned_less [of x] by simp

lemma unat_u64_less: "unat (x :: u64) < 2 ^ 64"
  using unsigned_less [of x] by simp

lemma unat_ucast_mod: "unat (ucast (x :: 'a::len word) :: 'b::len word) = unat x mod 2 ^ LENGTH('b)"
  by (simp add: unsigned_ucast_eq take_bit_eq_mod)

lemma sdiv_of_nat: "int a sdiv int b = int (a div b)"
  by (cases "a = 0"; cases "b = 0") (simp_all add: signed_divide_int_def zdiv_int)

lemma sint_u32_small:
  assumes "unat (x :: u32) < 2 ^ 31"
  shows "sint x = int (unat x)"
proof -
  have "int (unat x) < int (2 ^ 31)" using assms by (simp only: of_nat_less_iff)
  then have u: "uint x < 2 ^ 31" by simp
  have "sint x = signed_take_bit 31 (uint x)" unfolding sint_uint by simp
  also have "... = uint x"
    using u by (intro signed_take_bit_int_eq_self) (auto intro: order_trans [of _ 0])
  finally show ?thesis by simp
qed

lemma unat_sub_u32: "unat y \<le> unat x \<Longrightarrow> unat (x - y :: u32) = unat x - unat y"
  by (simp add: unat_sub_if_size)

text \<open>Setting and clearing the bits of a mask.\<close>

lemma mask_set_and [simp]: "(w OR m) AND m = (m :: 'a::len word)"
  by (rule bit_word_eqI) (auto simp: bit_simps)

lemma mask_set_or_and [simp]: "((w OR m) OR y) AND m = (m :: 'a::len word)"
  by (rule bit_word_eqI) (auto simp: bit_simps)

lemma mask_clear_and [simp]: "(w AND NOT m) AND m = (0 :: 'a::len word)"
  by (rule bit_word_eqI) (auto simp: bit_simps)

lemma or_and_nonzero: "x AND m \<noteq> 0 \<Longrightarrow> (x OR y) AND m \<noteq> (0 :: 'a::len word)"
  by (simp add: bit.conj_disj_distrib2 or_eq_0_iff)

lemma div_mod_shift:
  fixes r c k l :: nat
  assumes "0 < c" "l < k" shows "(r mod c * k + l) div c < k" "r mod c * k + l < c * k"
proof -
  have "r mod c * k + l < (r mod c + 1) * k" using assms by simp
  also have "... \<le> c * k" using assms by (intro mult_le_mono) (auto simp: Suc_le_eq)
  finally show *: "r mod c * k + l < c * k" .
  show "(r mod c * k + l) div c < k" using * assms by (simp add: less_mult_imp_div_less mult.commute)
qed

lemma unat_word_eqI: "unat x = unat y \<Longrightarrow> x = y"
  by (rule unsigned_word_eqI)

lemma word_join:
  assumes "l < 2^32"
  shows "push_bit 32 (ucast (of_nat h :: u32) :: u64) OR (ucast (of_nat l :: u32) :: u64) = of_nat (h * 2^32 + l)"
proof -
  have "push_bit 32 (ucast (of_nat h :: u32) :: u64) AND (ucast (of_nat l :: u32) :: u64) = 0"
    by (rule bit_word_eqI) (auto simp: bit_simps)
  then have A: "push_bit 32 (ucast (of_nat h :: u32) :: u64) OR (ucast (of_nat l :: u32) :: u64)
     = push_bit 32 (ucast (of_nat h :: u32) :: u64) + (ucast (of_nat l :: u32) :: u64)"
    by (simp add: disjunctive_add_eq_or)
  have B: "push_bit 32 (ucast (of_nat h :: u32) :: u64) = of_nat (h * 2^32)"
  proof (rule unat_word_eqI)
    have "unat (of_nat (h * 2^32) :: u64) = (h * 2^32) mod (2^32 * 2^32)"
      by (simp only: unat_of_nat) simp
    also have "... = (h mod 2^32) * 2^32" by (rule mod_mult_mult2)
    finally show "unat (push_bit 32 (ucast (of_nat h :: u32) :: u64)) = unat (of_nat (h * 2^32) :: u64)"
      by (simp add: push_bit_eq_mult unat_word_ariths unat_of_nat unat_ucast_mod mult.commute)
  qed
  have C: "(ucast (of_nat l :: u32) :: u64) = of_nat l"
    using assms by (intro unat_word_eqI) (simp add: unat_ucast_mod unat_of_nat)
  show ?thesis using A by (simp only: B C of_nat_add)
qed

lemma unat_and_0xf: "unat (w AND 0xf :: u32) < 16"
proof -
  have "w AND 0xf = take_bit 4 w"
    using take_bit_eq_mask [of 4 w] by (simp add: mask_eq_exp_minus_1)
  then show ?thesis by (simp add: take_bit_eq_mod unat_mod_distrib)
qed

lemma unat_drop_bit_div: "unat (drop_bit n x) = unat x div 2 ^ n"
  by (simp only: unat_drop_bit_eq) (simp add: drop_bit_eq_div)

lemma word_index:
  assumes "b \<le> offset" "offset < b + 4 * m" "unat b + 4 * unat m < 2 ^ 64"
  shows "unat (drop_bit 2 (offset - b :: hwaddr)) < unat m"
proof -
  have "unat (offset - b) = unat offset - unat b" using assms(1) by (simp add: unat_sub)
  moreover have "unat (4 * m) = 4 * unat m"
    using assms(3) by (subst unat_mult_lem [THEN iffD1]) auto
  moreover from this have "unat (b + 4 * m) = unat b + 4 * unat m"
    using assms(3) by (subst unat_add_lem [THEN iffD1]) auto
  ultimately show ?thesis
    using assms(1,2) by (simp only: unat_drop_bit_div) (auto simp: word_less_nat_alt word_le_nat_alt)
qed

text \<open>The two 64-bit intermediate results of \<open>muldiv64\<close> do not wrap around.\<close>

lemma muldiv64_rl:
  fixes a :: u64 and b :: u32
  shows "unat ((ucast (ucast a :: u32) :: u64) * (ucast b :: u64)) = unat a mod 2^32 * unat b"
proof -
  have "unat a mod 2^32 * unat b < 2^64"
    using mult_u32_bound [of "unat a mod 2^32" "unat b"] unat_u32_less [of b] by simp
  moreover have "unat (ucast b :: u64) = unat b"
    and "unat (ucast (ucast a :: u32) :: u64) = unat a mod 2^32"
    using unat_u32_less [of b] by (simp_all add: unat_ucast_mod)
  ultimately show ?thesis by (simp add: unat_word_ariths)
qed

lemma muldiv64_rh:
  fixes a RL :: u64 and b :: u32
  assumes RL: "unat RL < 2^64"
  shows "unat ((ucast (ucast (drop_bit 32 a) :: u32) :: u64) * (ucast b :: u64) + drop_bit 32 RL)
    = unat a div 2^32 * unat b + unat RL div 2^32"
proof -
  have ah: "unat a div 2^32 < 2^32"
    using unat_u64_less [of a] by (simp add: less_mult_imp_div_less)
  have "unat RL div 2^32 \<le> 2^32 - 1"
    using RL by (simp add: less_mult_imp_div_less Suc_le_eq [symmetric] less_eq_div_iff_mult_less_eq)
  then have sum: "unat a div 2^32 * unat b + unat RL div 2^32 < 2^64"
    using mult_u32_bound [OF ah unat_u32_less [of b]] by simp
  have "unat (ucast b :: u64) = unat b"
    and "unat (ucast (ucast (drop_bit 32 a) :: u32) :: u64) = unat a div 2^32"
    using unat_u32_less [of b] ah
    by (simp_all add: unat_ucast_mod unat_div_distrib drop_bit_eq_div)
  then have m: "unat ((ucast (ucast (drop_bit 32 a) :: u32) :: u64) * (ucast b :: u64))
      = (unat a div 2^32 * unat b) mod 2^64"
    by (simp only: unat_word_ariths) simp
  have d: "unat (drop_bit 32 RL) = unat RL div 2^32"
    by (simp only: unat_drop_bit_eq) (simp add: drop_bit_eq_div)
  have "unat ((ucast (ucast (drop_bit 32 a) :: u32) :: u64) * (ucast b :: u64) + drop_bit 32 RL)
      = ((unat a div 2^32 * unat b) mod 2^64 + unat RL div 2^32) mod 2^64"
    by (simp only: unat_word_ariths(1) d m) simp
  then show ?thesis using sum by (simp only: mod_add_left_eq) simp
qed

lemma muldiv64_halves:
  fixes RL RH :: u64 and c :: u32
  assumes c: "c \<noteq> 0"
  defines "lo \<equiv> (unat RH mod unat c * 2^32 + unat RL mod 2^32) div unat c"
  shows "(ucast (RH div ucast c) :: u32) = of_nat (unat RH div unat c)"
    and "(ucast ((push_bit 32 (RH mod ucast c) + (RL AND 0xffffffff)) div ucast c) :: u32)
           = of_nat lo"
    and "lo < 2^32"
proof -
  have c0: "0 < unat c" using c by (simp add: unat_gt_0)
  have uc: "unat (ucast c :: u64) = unat c"
    using unat_u32_less [of c] by (simp add: unat_ucast_mod)
  have bound: "unat RH mod unat c * 2^32 + unat RL mod 2^32 < 2^64"
    using div_mod_shift(2) [OF c0, of "unat RL mod 2^32" "2^32" "unat RH"] unat_u32_less [of c]
    by (auto intro: less_trans simp: mult.commute)
  show "lo < 2^32"
    unfolding lo_def by (rule div_mod_shift(1) [OF c0]) simp
  have "unat (RH div ucast c) = unat RH div unat c"
    by (simp add: unat_div_distrib uc)
  then show "(ucast (RH div ucast c) :: u32) = of_nat (unat RH div unat c)"
    by (intro unat_word_eqI) (simp only: unat_ucast_mod unat_of_nat)
  have "unat (RL AND 0xffffffff) = unat RL mod 2^32"
    using take_bit_eq_mask [of 32 "unat RL"]
    by (simp add: unsigned_and_eq mask_eq_exp_minus_1 take_bit_eq_mod)
  moreover have "unat (push_bit 32 (RH mod ucast c)) = unat RH mod unat c * 2^32"
    using bound by (simp add: push_bit_eq_mult unat_word_ariths(2) unat_mod_distrib uc mult.commute)
  ultimately have "unat ((push_bit 32 (RH mod ucast c) + (RL AND 0xffffffff)) div ucast c) = lo"
    using bound by (simp add: unat_div_distrib uc unat_word_ariths(1) lo_def)
  then show "(ucast ((push_bit 32 (RH mod ucast c) + (RL AND 0xffffffff)) div ucast c) :: u32)
      = of_nat lo"
    by (intro unat_word_eqI) (simp only: unat_ucast_mod unat_of_nat)
qed

text \<open>
  \<open>muldiv64\<close> computes the exact quotient of the 96-bit product, truncated to 64 bits.
\<close>

lemma muldiv64_eq:
  assumes c: "c \<noteq> 0"
  shows "muldiv64 a b c = Inr (of_nat (unat a * unat b div unat c))"
proof -
  define RL where "RL = (ucast (ucast a :: u32) :: u64) * (ucast b :: u64)"
  define RH where
    "RH = (ucast (ucast (drop_bit 32 a) :: u32) :: u64) * (ucast b :: u64) + drop_bit 32 RL"
  have RL: "unat RL = unat a mod 2^32 * unat b"
    unfolding RL_def by (rule muldiv64_rl)
  have RH: "unat RH = unat a div 2^32 * unat b + unat RL div 2^32"
    unfolding RH_def by (rule muldiv64_rh) (rule unat_u64_less)
  have "unat RH div unat c * 2^32 + (unat RH mod unat c * 2^32 + unat RL mod 2^32) div unat c
      = unat a * unat b div unat c"
    using nat_muldiv [of "unat c" "unat a" "2^32" "unat b"] c
    by (simp only: RL RH) (simp add: unat_gt_0)
  then show ?thesis
    using c unfolding muldiv64_def Let_def RL_def [symmetric] RH_def [symmetric]
    by (simp only: muldiv64_halves(1) [OF c, of RH] muldiv64_halves(2) [OF c, of RH RL] if_False
          word_join [OF muldiv64_halves(3) [OF c]])
qed

lemma muldiv64_zero [simp]: "muldiv64 a b 0 = Inl DivZero"
  by (simp add: muldiv64_def)

text \<open>Binary-coded decimal: the two conversions are inverse on two-digit values.\<close>

lemma bcd_table:
  "list_all (\<lambda>n. from_bcd (to_bcd (of_nat n)) = of_nat n
      \<and> unat (to_bcd (of_nat n)) = n div 10 * 16 + n mod 10) [0..<100]"
  by code_simp

lemma bcd_small:
  assumes "v < 100"
  shows "from_bcd (to_bcd v) = v" and "unat (to_bcd v) = unat v div 10 * 16 + unat v mod 10"
proof -
  have "unat v < 100" using assms by (simp add: word_less_nat_alt)
  then have "unat v \<in> set [0..<100]" by simp
  with bcd_table have "from_bcd (to_bcd (of_nat (unat v))) = of_nat (unat v)
      \<and> unat (to_bcd (of_nat (unat v))) = unat v div 10 * 16 + unat v mod 10"
    unfolding list_all_iff by (rule bspec)
  then show "from_bcd (to_bcd v) = v" and "unat (to_bcd v) = unat v div 10 * 16 + unat v mod 10"
    by simp_all
qed

text \<open>What a write to the guest's memory leaves at an address.\<close>

lemma cpu_physical_memory_write_eq:
  "length bs < 2 ^ 64 \<Longrightarrow> cpu_physical_memory_write m a bs x =
     (if unat (x - a) < length bs then bs ! unat (x - a) else m x)"
proof (induction bs arbitrary: m a)
  case Nil
  then show ?case by simp
next
  case (Cons b bs)
  show ?case
  proof (cases "x = a")
    case True
    then have "unat (x - (a + 1)) = 2 ^ 64 - 1" by (simp add: unsigned_minus_1_eq_mask mask_eq_exp_minus_1)
    with True Cons show ?thesis by (simp add: Cons.IH)
  next
    case False
    then have "x - a \<noteq> 0" by simp
    then have "unat (x - a - 1) = unat (x - a) - 1" "0 < unat (x - a)"
      by (rule unat_minus_one) (use \<open>x - a \<noteq> 0\<close> in \<open>simp add: unat_gt_0\<close>)
    then have "unat (x - a) = Suc (unat (x - a - 1))" by simp
    then show ?thesis using False Cons by (simp add: diff_diff_eq)
  qed
qed

end
