(* ===== verification/Cyclic_Queue.thy ===== *)
theory Cyclic_Queue
  imports Qemu_Prelude
begin

text \<open>
  Cyclic buffers.  Two devices keep bytes in an array with a read index and a write index that
  wrap around: the receive queue of the UART (\<^verbatim>\<open>hw/s5pc1xx_uart.c\<close>) and the MFIFO of the
  PL330 DMA controller (\<^verbatim>\<open>hw/pl330.c\<close>).  This theory has the facts on such index pairs the
  two share, and the interface \<open>byte_fifo\<close> both implement: the contents as a list, elements
  leave in the order they came.  The clients of the two queues use only that interface.
\<close>

section \<open>Index pairs on a ring\<close>

text \<open>Number of occupied cells, as both sources compute it, and the occupied cells in order.\<close>

definition ring_count :: "nat \<Rightarrow> nat \<Rightarrow> nat \<Rightarrow> nat" where
  "ring_count n s t = (if s \<le> t then t - s else n - s + t)"

definition ring_list :: "'a list \<Rightarrow> nat \<Rightarrow> nat \<Rightarrow> 'a list" where
  "ring_list xs s t =
     map (\<lambda>i. xs ! ((s + i) mod length xs)) [0..<ring_count (length xs) s t]"

lemma length_ring_list [simp]: "length (ring_list xs s t) = ring_count (length xs) s t"
  by (simp add: ring_list_def)

lemma ring_count_same [simp]: "ring_count n s s = 0"
  by (simp add: ring_count_def)

lemma ring_list_same [simp]: "ring_list xs s s = []"
  by (simp add: ring_list_def)

lemma Suc_mod_ring: "i < n \<Longrightarrow> Suc i mod n = (if Suc i = n then 0 else Suc i)"
  by auto

lemma ring_count_less:
  assumes "s < n" and "t < n"
  shows "ring_count n s t < n"
  using assms by (auto simp: ring_count_def)

lemma ring_count_eq_0:
  assumes "s < n" and "t < n"
  shows "ring_count n s t = 0 \<longleftrightarrow> s = t"
  using assms by (auto simp: ring_count_def)

lemma ring_count_push:
  assumes "s < n" and "t < n"
  shows "Suc t mod n \<noteq> s \<Longrightarrow> ring_count n s (Suc t mod n) = Suc (ring_count n s t)"
  using assms by (auto simp: ring_count_def Suc_mod_ring split: if_splits)

lemma ring_count_pop:
  assumes "s < n" and "t < n"
  shows "s \<noteq> t \<Longrightarrow> ring_count n s t = Suc (ring_count n (Suc s mod n) t)"
  using assms by (auto simp: ring_count_def Suc_mod_ring split: if_splits)

lemma ring_full:
  assumes "s < n" and "t < n"
  shows "Suc t mod n = s \<longleftrightarrow> Suc (ring_count n s t) = n"
  using assms by (auto simp: ring_count_def Suc_mod_ring split: if_splits)

lemma ring_last_index:
  assumes "s < n" and "t < n"
  shows "(s + ring_count n s t) mod n = t"
  using assms by (auto simp: ring_count_def)

lemma ring_index_neq:
  assumes "s < n" and "t < n" and "i < ring_count n s t"
  shows "(s + i) mod n \<noteq> t"
proof (cases "s + i < n")
  case True
  with assms show ?thesis by (auto simp: ring_count_def split: if_splits)
next
  case False
  with assms have "(s + i) mod n = s + i - n"
    using ring_count_less [OF assms(1,2)] by (simp add: mod_if)
  with assms False show ?thesis by (auto simp: ring_count_def split: if_splits)
qed

lemma ring_list_push:
  assumes "s < length xs" and "t < length xs" and "Suc t mod length xs \<noteq> s"
  shows "ring_list (xs[t := x]) s (Suc t mod length xs) = ring_list xs s t @ [x]"
proof -
  let ?n = "length xs" and ?k = "ring_count (length xs) s t"
  have "(xs[t := x]) ! ((s + i) mod ?n) = xs ! ((s + i) mod ?n)" if "i < ?k" for i
    using ring_index_neq [OF assms(1,2) that] by (intro nth_list_update_neq) simp
  moreover have "(xs[t := x]) ! ((s + ?k) mod ?n) = x"
    using assms by (simp only: ring_last_index nth_list_update_eq)
  ultimately show ?thesis
    by (simp only: ring_list_def length_list_update ring_count_push [OF assms] upt_Suc_append
          map_append) (simp cong: map_cong)
qed

lemma ring_list_pop:
  assumes "s < length xs" and "t < length xs" and "s \<noteq> t"
  shows "ring_list xs s t = xs ! s # ring_list xs (Suc s mod length xs) t"
proof -
  have "(s + Suc i) mod length xs = (Suc s mod length xs + i) mod length xs" for i
    by (simp add: mod_simps)
  then show ?thesis
    using assms
    by (simp only: ring_list_def ring_count_pop [OF assms] map_upt_Suc) simp
qed

section \<open>The queue interface\<close>

text \<open>Taking \<open>k\<close> elements one after the other.\<close>

primrec rpops :: "('q \<Rightarrow> ('a \<times> 'q) res) \<Rightarrow> nat \<Rightarrow> 'q \<Rightarrow> ('a list \<times> 'q) res" where
  "rpops pop 0 q = Inr ([], q)"
| "rpops pop (Suc k) q =
     rbind (pop q) (\<lambda>(x, q1). rbind (rpops pop k q1) (\<lambda>(xs, q2). Inr (x # xs, q2)))"

locale byte_fifo =
  fixes invar :: "'q \<Rightarrow> bool"
    and capacity :: "'q \<Rightarrow> nat"
    and contents :: "'q \<Rightarrow> 'a list"
    and push :: "'a \<Rightarrow> 'q \<Rightarrow> 'q res"
    and pop :: "'q \<Rightarrow> ('a \<times> 'q) res"
  assumes push_ok: "\<lbrakk>invar q; length (contents q) < capacity q\<rbrakk> \<Longrightarrow>
      \<exists>q'. push x q = Inr q' \<and> invar q' \<and> contents q' = contents q @ [x]
        \<and> capacity q' = capacity q"
    and pop_ok: "\<lbrakk>invar q; contents q = x # xs\<rbrakk> \<Longrightarrow>
      \<exists>q'. pop q = Inr (x, q') \<and> invar q' \<and> contents q' = xs \<and> capacity q' = capacity q"
begin

lemma push_all:
  assumes "invar q" and "length (contents q) + length xs \<le> capacity q"
  shows "\<exists>q'. rfold push xs q = Inr q' \<and> invar q' \<and> contents q' = contents q @ xs
    \<and> capacity q' = capacity q"
  using assms
proof (induction xs arbitrary: q)
  case Nil
  then show ?case by simp
next
  case (Cons x xs)
  then obtain q1 where q1: "push x q = Inr q1" "invar q1" "contents q1 = contents q @ [x]"
    "capacity q1 = capacity q"
    using push_ok [of q x] by auto
  with Cons.IH [of q1] Cons.prems show ?case by simp
qed

lemma pop_all:
  assumes "invar q" and "k \<le> length (contents q)"
  shows "\<exists>q'. rpops pop k q = Inr (take k (contents q), q') \<and> invar q'
    \<and> contents q' = drop k (contents q) \<and> capacity q' = capacity q"
  using assms
proof (induction k arbitrary: q)
  case 0
  then show ?case by simp
next
  case (Suc k)
  then obtain x xs where xs: "contents q = x # xs" by (cases "contents q") auto
  with Suc.prems obtain q1 where q1: "pop q = Inr (x, q1)" "invar q1" "contents q1 = xs"
    "capacity q1 = capacity q"
    using pop_ok by blast
  with Suc.IH [of q1] Suc.prems xs show ?case by auto
qed

text \<open>First in, first out: what is pushed comes out in order, behind what was there before.\<close>

lemma push_then_pop_all:
  assumes "invar q" and "length (contents q) + length xs \<le> capacity q"
  shows "\<exists>q1 q2. rfold push xs q = Inr q1
    \<and> rpops pop (length (contents q) + length xs) q1 = Inr (contents q @ xs, q2)
    \<and> invar q2 \<and> contents q2 = []"
proof -
  obtain q1 where q1: "rfold push xs q = Inr q1" "invar q1" "contents q1 = contents q @ xs"
    using push_all [OF assms] by blast
  then show ?thesis
    using pop_all [of q1 "length (contents q) + length xs"] by auto
qed

end

end
