(* ===== verification/S5pc1xx_Uart.thy ===== *)
theory S5pc1xx_Uart
  imports Cyclic_Queue
begin

text \<open>
  The UART of the S5PC110 board, \<^verbatim>\<open>hw/s5pc1xx_uart.c\<close>: the cyclic receive queue
  \<^verbatim>\<open>UartQueue\<close>, the register file, the memory-mapped read and write handlers, the handlers
  the character back end calls, and reset.  The queue implements the interface
  \<open>byte_fifo\<close>; the handlers keep a well-formedness invariant and drive the interrupt line
  exactly while an unmasked interrupt is pending.
\<close>

section \<open>Data\<close>

abbreviation QUEUE_SIZE :: nat where "QUEUE_SIZE \<equiv> 257"

definition INT_RXD :: u32 where "INT_RXD = 1"
definition INT_ERROR :: u32 where "INT_ERROR = 2"
definition INT_TXD :: u32 where "INT_TXD = 4"
definition TRSTATUS_TRANSMITTER_READY :: u32 where "TRSTATUS_TRANSMITTER_READY = 4"
definition TRSTATUS_BUFFER_EMPTY :: u32 where "TRSTATUS_BUFFER_EMPTY = 2"
definition TRSTATUS_DATA_READY :: u32 where "TRSTATUS_DATA_READY = 1"
definition UFSTAT_RX_FIFO_FULL :: u32 where "UFSTAT_RX_FIFO_FULL = 0x100"
definition UFCON_FIFO_ENABLED :: u32 where "UFCON_FIFO_ENABLED = 1"
definition UFCON_TX_LEVEL :: u32 where "UFCON_TX_LEVEL = 0x700"
definition UFSTAT_TX_COUNT :: u32 where "UFSTAT_TX_COUNT = 0xFF0000"

lemmas uart_consts = INT_RXD_def INT_ERROR_def INT_TXD_def TRSTATUS_TRANSMITTER_READY_def
  TRSTATUS_BUFFER_EMPTY_def TRSTATUS_DATA_READY_def UFSTAT_RX_FIFO_FULL_def
  UFCON_FIFO_ENABLED_def UFCON_TX_LEVEL_def UFSTAT_TX_COUNT_def

record UartQueue =
  queue :: "u8 list"
  q_s :: u32
  q_t :: u32
  q_size :: u32

text \<open>
  The character back end \<^verbatim>\<open>chr\<close> is \<open>None\<close> for a null pointer, else the bytes written
  to it so far.  \<open>uart_irq\<close> is the log of the calls on the single interrupt line.
\<close>

record S5pc1xxUartState =
  rx :: UartQueue
  ulcon :: u32
  ucon :: u32
  ufcon :: u32
  umcon :: u32
  utrstat :: u32
  uerstat :: u32
  ufstat :: u32
  umstat :: u32
  utxh :: u32
  urxh :: u32
  ubrdiv :: u32
  udivslot :: u32
  uintp :: u32
  uintsp :: u32
  uintm :: u32
  chr :: "u8 list option"
  uart_irq :: "unit irq_log"
  instance_num :: u32

section \<open>The receive queue\<close>

definition QI :: "u32 \<Rightarrow> u32" where
  "QI x = (x + 1) mod 257"

definition queue_elem_count :: "UartQueue \<Rightarrow> int" where
  "queue_elem_count s =
     (if q_t s \<ge> q_s s then sint (q_t s - q_s s) else sint (257 - q_s s + q_t s))"

definition queue_empty_count :: "UartQueue \<Rightarrow> int" where
  "queue_empty_count s = sint (q_size s - word_of_int (queue_elem_count s) - 1)"

definition queue_empty :: "UartQueue \<Rightarrow> bool" where
  "queue_empty s \<longleftrightarrow> queue_elem_count s = 0"

definition queue_push :: "u8 \<Rightarrow> UartQueue \<Rightarrow> UartQueue res" where
  "queue_push x s =
     rbind (arr_set (queue s) (unat (q_t s)) x) (\<lambda>xs. Inr (s\<lparr>queue := xs, q_t := QI (q_t s)\<rparr>))"

definition queue_get :: "UartQueue \<Rightarrow> (u8 \<times> UartQueue) res" where
  "queue_get s =
     rbind (arr_get (queue s) (unat (q_s s))) (\<lambda>x. Inr (x, s\<lparr>q_s := QI (q_s s)\<rparr>))"

definition queue_reset :: "UartQueue \<Rightarrow> UartQueue" where
  "queue_reset s = s\<lparr>q_s := 0, q_t := 0\<rparr>"

section \<open>The device\<close>

text \<open>
  The logical operator \<open>&&\<close> of C, as a number.  \<^verbatim>\<open>s5pc1xx_uart_update\<close> uses it where
  a bitwise mask was meant.
\<close>

definition c_land :: "u32 \<Rightarrow> u32 \<Rightarrow> int" where
  "c_land x y = (if x \<noteq> 0 \<and> y \<noteq> 0 then 1 else 0)"

definition s5pc1xx_uart_update :: "S5pc1xxUartState \<Rightarrow> S5pc1xxUartState" where
  "s5pc1xx_uart_update s =
     (let s = (if c_land (ufcon s) UFCON_FIFO_ENABLED \<noteq> 0 then
                 (if drop_bit 16 (c_land (ufstat s) UFSTAT_TX_COUNT)
                       \<le> drop_bit 8 (c_land (ufcon s) UFCON_TX_LEVEL) * 2
                  then s\<lparr>uintsp := uintsp s OR INT_TXD\<rparr> else s)
               else s);
          s = s\<lparr>uintp := uintsp s AND NOT (uintm s)\<rparr>
      in if uintp s \<noteq> 0
         then s\<lparr>uart_irq := qemu_irq_raise () (uart_irq s)\<rparr>
         else s\<lparr>uart_irq := qemu_irq_lower () (uart_irq s)\<rparr>)"

definition s5pc1xx_uart_gpio_read :: "S5pc1xxUartState \<Rightarrow> u32 \<Rightarrow> u32" where
  "s5pc1xx_uart_gpio_read s io_index =
     (if io_index = CASE_ID 2 (instance_num s) 1 then uintsp s AND INT_RXD
      else if io_index = CASE_ID 2 (instance_num s) 2 then uintsp s AND INT_TXD
      else if io_index = CASE_ID 2 (instance_num s) 3 then NOT (umstat s AND 1)
      else if io_index = CASE_ID 2 (instance_num s) 4 then NOT (umcon s AND 1)
      else 0)"

definition uart_read_urxh :: "S5pc1xxUartState \<Rightarrow> (u32 \<times> S5pc1xxUartState) res" where
  "uart_read_urxh s =
     (if ufcon s AND 1 \<noteq> 0 then
        if \<not> queue_empty (rx s) then
          rbind (queue_get (rx s)) (\<lambda>(res, q).
            let s = s\<lparr>rx := q\<rparr> in
            Inr (ucast res,
                 if queue_empty (rx s)
                 then s\<lparr>utrstat := utrstat s AND NOT TRSTATUS_DATA_READY\<rparr>
                 else s\<lparr>utrstat := utrstat s OR TRSTATUS_DATA_READY\<rparr>))
        else Inr (0, s5pc1xx_uart_update (s\<lparr>uintsp := uintsp s OR INT_ERROR\<rparr>))
      else
        let s = s\<lparr>utrstat := utrstat s AND NOT TRSTATUS_DATA_READY\<rparr> in Inr (urxh s, s))"

definition s5pc1xx_uart_mm_read ::
    "S5pc1xxUartState \<Rightarrow> hwaddr \<Rightarrow> (u32 \<times> S5pc1xxUartState) res" where
  "s5pc1xx_uart_mm_read s offset =
     (if offset = 0x00 then Inr (ulcon s, s)
      else if offset = 0x04 then Inr (ucon s, s)
      else if offset = 0x08 then Inr (ufcon s, s)
      else if offset = 0x0C then Inr (umcon s, s)
      else if offset = 0x10 then Inr (utrstat s, s)
      else if offset = 0x14 then Inr (uerstat s, s\<lparr>uerstat := 0\<rparr>)
      else if offset = 0x18 then
        let s = s\<lparr>ufstat := word_of_int (queue_elem_count (rx s)) AND 0xff\<rparr>;
            s = (if queue_empty_count (rx s) = 0
                 then s\<lparr>ufstat := ufstat s OR UFSTAT_RX_FIFO_FULL\<rparr> else s)
        in Inr (ufstat s, s)
      else if offset = 0x1C then Inr (umstat s, s)
      else if offset = 0x24 then uart_read_urxh s
      else if offset = 0x28 then Inr (ubrdiv s, s)
      else if offset = 0x2C then Inr (udivslot s, s)
      else if offset = 0x30 then Inr (uintp s, s)
      else if offset = 0x34 then Inr (uintsp s, s)
      else if offset = 0x38 then Inr (uintm s, s)
      else Inl (HwError ''s5pc1xx_uart: bad read offset''))"

definition uart_write_utxh :: "u32 \<Rightarrow> S5pc1xxUartState \<Rightarrow> S5pc1xxUartState" where
  "uart_write_utxh val s =
     (case chr s of
        None \<Rightarrow> s
      | Some out \<Rightarrow>
          let s = s\<lparr>utrstat := utrstat s AND
                         NOT (TRSTATUS_TRANSMITTER_READY OR TRSTATUS_BUFFER_EMPTY)\<rparr>;
              s = s\<lparr>chr := Some (out @ [ucast val])\<rparr>;
              s = s\<lparr>utrstat := utrstat s OR
                         (TRSTATUS_TRANSMITTER_READY OR TRSTATUS_BUFFER_EMPTY)\<rparr>
          in s\<lparr>uintsp := uintsp s OR INT_TXD\<rparr>)"

definition s5pc1xx_uart_mm_write ::
    "S5pc1xxUartState \<Rightarrow> hwaddr \<Rightarrow> u32 \<Rightarrow> S5pc1xxUartState res" where
  "s5pc1xx_uart_mm_write s offset val =
     rbind
       (if offset = 0x00 then Inr (s\<lparr>ulcon := val\<rparr>)
        else if offset = 0x04 then Inr (s\<lparr>ucon := val\<rparr>)
        else if offset = 0x08 then
          let s = s\<lparr>ufcon := val\<rparr>;
              s = (if val AND 2 \<noteq> 0 then s\<lparr>rx := queue_reset (rx s)\<rparr> else s)
          in Inr (s\<lparr>ufcon := ufcon s AND NOT 6\<rparr>)
        else if offset = 0x0C then Inr (s\<lparr>umcon := val\<rparr>)
        else if offset = 0x20 then Inr (uart_write_utxh val s)
        else if offset = 0x28 then Inr (s\<lparr>ubrdiv := val\<rparr>)
        else if offset = 0x2C then Inr (s\<lparr>udivslot := val\<rparr>)
        else if offset = 0x30 then
          Inr (s\<lparr>uintp := uintp s AND NOT val, uintsp := uintsp s AND NOT val\<rparr>)
        else if offset = 0x34 then Inr (s\<lparr>uintsp := val\<rparr>)
        else if offset = 0x38 then Inr (s\<lparr>uintm := val\<rparr>)
        else Inl (HwError ''s5pc1xx_uart: bad write offset''))
       (\<lambda>s. Inr (s5pc1xx_uart_update s))"

definition s5pc1xx_uart_can_receive :: "S5pc1xxUartState \<Rightarrow> int" where
  "s5pc1xx_uart_can_receive s = queue_empty_count (rx s)"

definition s5pc1xx_uart_trigger_level :: "S5pc1xxUartState \<Rightarrow> S5pc1xxUartState" where
  "s5pc1xx_uart_trigger_level s =
     (if \<not> queue_empty (rx s) then s\<lparr>uintsp := uintsp s OR INT_RXD\<rparr> else s)"

text \<open>
  The loop of the overflow branch of \<^verbatim>\<open>s5pc1xx_uart_receive\<close>: its bound
  \<open>queue_empty_count\<close> is evaluated again before every iteration.
\<close>

function uart_push_while :: "u8 list \<Rightarrow> nat \<Rightarrow> UartQueue \<Rightarrow> UartQueue res" where
  "uart_push_while buf i q =
     (if int i < queue_empty_count q
      then rbind (arr_get buf i) (\<lambda>x. rbind (queue_push x q) (\<lambda>q'. uart_push_while buf (Suc i) q'))
      else Inr q)"
  by pat_completeness auto
termination
  by (relation "measure (\<lambda>(buf, i, q). length buf - i)") (auto simp: arr_get_eq_Inr)

declare uart_push_while.simps [simp del]

text \<open>
  \<^verbatim>\<open>s5pc1xx_uart_receive\<close> gets a buffer and its size; the size is the length of the list.
\<close>

definition s5pc1xx_uart_receive :: "S5pc1xxUartState \<Rightarrow> u8 list \<Rightarrow> S5pc1xxUartState res" where
  "s5pc1xx_uart_receive s buf =
     rbind
       (if ufcon s AND 1 \<noteq> 0 then
          rbind
            (if queue_empty_count (rx s) < int (length buf) then
               rbind (uart_push_while buf 0 (rx s)) (\<lambda>q.
                 let s = s\<lparr>rx := q\<rparr>; s = s\<lparr>uintp := uintp s OR INT_ERROR\<rparr>
                 in Inr (s\<lparr>utrstat := utrstat s OR TRSTATUS_DATA_READY\<rparr>))
             else
               rbind (rfold queue_push buf (rx s)) (\<lambda>q.
                 let s = s\<lparr>rx := q\<rparr> in Inr (s\<lparr>utrstat := utrstat s OR TRSTATUS_DATA_READY\<rparr>)))
            (\<lambda>s. Inr (s5pc1xx_uart_trigger_level s))
        else
          rbind (arr_get buf 0) (\<lambda>b.
            Inr (s\<lparr>urxh := ucast b, uintsp := uintsp s OR INT_RXD,
                   utrstat := utrstat s OR TRSTATUS_DATA_READY\<rparr>)))
       (\<lambda>s. Inr (s5pc1xx_uart_update s))"

definition s5pc1xx_uart_reset :: "S5pc1xxUartState \<Rightarrow> S5pc1xxUartState" where
  "s5pc1xx_uart_reset s =
     s\<lparr>ulcon := 0, ucon := 0, ufcon := 0, umcon := 0, utrstat := 6, uerstat := 0, ufstat := 0,
       umstat := 0, ubrdiv := 0, udivslot := 0, uintp := 0, uintsp := 0, uintm := 0,
       rx := queue_reset (rx s)\<rparr>"

text \<open>
  \<^verbatim>\<open>s5pc1xx_uart_init1\<close>: the device structure is zeroed when it is allocated, the properties
  \<^verbatim>\<open>queue-size\<close>, \<^verbatim>\<open>instance\<close> and \<^verbatim>\<open>chr\<close> are set, then the device is reset.
\<close>

definition s5pc1xx_uart_init1 :: "u32 \<Rightarrow> u32 \<Rightarrow> u8 list option \<Rightarrow> S5pc1xxUartState" where
  "s5pc1xx_uart_init1 inst queue_size c =
     s5pc1xx_uart_reset
       \<lparr>rx = \<lparr>queue = replicate QUEUE_SIZE 0, q_s = 0, q_t = 0, q_size = queue_size\<rparr>,
        ulcon = 0, ucon = 0, ufcon = 0, umcon = 0, utrstat = 0, uerstat = 0, ufstat = 0,
        umstat = 0, utxh = 0, urxh = 0, ubrdiv = 0, udivslot = 0, uintp = 0, uintsp = 0,
        uintm = 0, chr = c, uart_irq = [], instance_num = inst\<rparr>"

section \<open>The queue implements the queue interface\<close>

definition queue_contents :: "UartQueue \<Rightarrow> u8 list" where
  "queue_contents q = ring_list (queue q) (unat (q_s q)) (unat (q_t q))"

definition queue_capacity :: "UartQueue \<Rightarrow> nat" where
  "queue_capacity q = unat (q_size q) - 1"

definition queue_invar :: "UartQueue \<Rightarrow> bool" where
  "queue_invar q \<longleftrightarrow> length (queue q) = QUEUE_SIZE \<and> unat (q_s q) < QUEUE_SIZE
     \<and> unat (q_t q) < QUEUE_SIZE \<and> 0 < unat (q_size q) \<and> unat (q_size q) \<le> QUEUE_SIZE
     \<and> ring_count QUEUE_SIZE (unat (q_s q)) (unat (q_t q)) < unat (q_size q)"

lemma unat_QI: "unat x < QUEUE_SIZE \<Longrightarrow> unat (QI x) = Suc (unat x) mod QUEUE_SIZE"
  unfolding QI_def by (simp add: unat_mod_distrib unat_word_ariths)

lemma queue_elem_count_eq:
  assumes "queue_invar q"
  shows "queue_elem_count q = int (length (queue_contents q))"
proof -
  have "257 - unat (q_s q) + unat (q_t q) < 2 ^ 32" "unat (q_s q) \<le> unat (257 :: u32)"
    using assms by (auto simp: queue_invar_def)
  then have "unat (257 - q_s q + q_t q) = 257 - unat (q_s q) + unat (q_t q)"
    by (simp only: unat_word_ariths(1) unat_sub_u32) simp
  then show ?thesis
    using assms
    by (auto simp: queue_elem_count_def queue_contents_def ring_count_def queue_invar_def
          sint_u32_small unat_sub_u32 word_le_nat_alt)
qed

lemma queue_room: "queue_invar q \<Longrightarrow> length (queue_contents q) \<le> queue_capacity q"
  by (auto simp: queue_invar_def queue_contents_def queue_capacity_def)

lemma queue_empty_count_eq:
  assumes "queue_invar q"
  shows "queue_empty_count q = int (queue_capacity q - length (queue_contents q))"
proof -
  let ?n = "length (queue_contents q)"
  have size: "unat (q_size q) \<le> 257" "?n < unat (q_size q)"
    using assms by (auto simp: queue_invar_def queue_contents_def)
  then have "unat (q_size q - of_nat ?n - 1) = unat (q_size q) - ?n - 1"
    by (simp add: unat_sub_u32 unat_of_nat)
  with size show ?thesis
    using assms
    by (simp add: queue_empty_count_def queue_elem_count_eq queue_capacity_def sint_u32_small)
qed

lemma queue_empty_iff: "queue_invar q \<Longrightarrow> queue_empty q \<longleftrightarrow> queue_contents q = []"
  by (simp add: queue_empty_def queue_elem_count_eq)

lemma queue_push_ok:
  assumes inv: "queue_invar q" and room: "length (queue_contents q) < queue_capacity q"
  shows "\<exists>q'. queue_push x q = Inr q' \<and> queue_invar q'
    \<and> queue_contents q' = queue_contents q @ [x] \<and> queue_capacity q' = queue_capacity q"
proof -
  let ?s = "unat (q_s q)" and ?t = "unat (q_t q)"
  let ?q = "q\<lparr>queue := (queue q)[?t := x], q_t := QI (q_t q)\<rparr>"
  have len: "length (queue q) = 257" "?s < 257" "?t < 257"
    using inv by (auto simp: queue_invar_def)
  have "Suc (ring_count 257 ?s ?t) < 257"
    using room inv by (auto simp: queue_capacity_def queue_contents_def queue_invar_def)
  then have free: "Suc ?t mod 257 \<noteq> ?s"
    using ring_full [OF len(2,3)] by simp
  have "queue_contents ?q = queue_contents q @ [x]"
    using ring_list_push [of ?s "queue q" ?t x] len free
    by (simp add: queue_contents_def unat_QI)
  moreover have "queue_invar ?q"
    using room inv ring_count_push [OF len(2,3) free] len
    by (simp add: queue_invar_def unat_QI queue_contents_def queue_capacity_def)
  ultimately show ?thesis
    using len by (simp add: queue_push_def queue_capacity_def)
qed

lemma queue_get_ok:
  assumes inv: "queue_invar q" and cont: "queue_contents q = x # xs"
  shows "\<exists>q'. queue_get q = Inr (x, q') \<and> queue_invar q' \<and> queue_contents q' = xs
    \<and> queue_capacity q' = queue_capacity q"
proof -
  let ?s = "unat (q_s q)" and ?t = "unat (q_t q)"
  let ?q = "q\<lparr>q_s := QI (q_s q)\<rparr>"
  have len: "length (queue q) = 257" "?s < 257" "?t < 257"
    using inv by (auto simp: queue_invar_def)
  have ne: "?s \<noteq> ?t" using cont by (auto simp: queue_contents_def)
  have "queue_contents q = queue q ! ?s # queue_contents ?q"
    using ring_list_pop [of ?s "queue q" ?t] len ne by (simp add: queue_contents_def unat_QI)
  with cont have "queue q ! ?s = x" "queue_contents ?q = xs" by simp_all
  moreover have "queue_invar ?q"
    using inv ring_count_pop [OF len(2,3) ne] len by (simp add: queue_invar_def unat_QI)
  ultimately show ?thesis
    using len by (simp add: queue_get_def queue_capacity_def)
qed

lemma queue_reset_ok:
  "queue_invar q \<Longrightarrow> queue_invar (queue_reset q) \<and> queue_contents (queue_reset q) = []
     \<and> queue_capacity (queue_reset q) = queue_capacity q"
  by (auto simp: queue_invar_def queue_reset_def queue_contents_def queue_capacity_def)

interpretation uq: byte_fifo queue_invar queue_capacity queue_contents queue_push queue_get
  by unfold_locales (blast intro: queue_push_ok queue_get_ok)+

section \<open>The device keeps its invariant\<close>

text \<open>
  Between two calls of a handler the queue is well formed, the pending register is the source
  register without the masked interrupts, and the line is high exactly while it is not zero.
\<close>

definition uart_inv :: "S5pc1xxUartState \<Rightarrow> bool" where
  "uart_inv s \<longleftrightarrow> queue_invar (rx s) \<and> uintp s = uintsp s AND NOT (uintm s)
     \<and> (irq_level (uart_irq s) () \<longleftrightarrow> uintp s \<noteq> 0)"

lemma uart_update_fields [simp]:
  "rx (s5pc1xx_uart_update s) = rx s" "ufcon (s5pc1xx_uart_update s) = ufcon s"
  "utrstat (s5pc1xx_uart_update s) = utrstat s" "uintm (s5pc1xx_uart_update s) = uintm s"
  "chr (s5pc1xx_uart_update s) = chr s" "urxh (s5pc1xx_uart_update s) = urxh s"
  by (simp_all add: s5pc1xx_uart_update_def Let_def)

lemma uart_update_uintsp:
  "uintsp (s5pc1xx_uart_update s) = uintsp s OR (if ufcon s \<noteq> 0 then INT_TXD else 0)"
  by (simp add: s5pc1xx_uart_update_def Let_def c_land_def uart_consts)

lemma uart_update_uintp:
  "uintp (s5pc1xx_uart_update s) = uintsp (s5pc1xx_uart_update s) AND NOT (uintm s)"
  by (simp add: s5pc1xx_uart_update_def Let_def)

lemma uart_update_irq:
  "irq_level (uart_irq (s5pc1xx_uart_update s)) () \<longleftrightarrow> uintp (s5pc1xx_uart_update s) \<noteq> 0"
  by (simp add: s5pc1xx_uart_update_def Let_def)

lemma uart_update_log:
  "uart_irq (s5pc1xx_uart_update s) = (if uintp (s5pc1xx_uart_update s) \<noteq> 0
     then qemu_irq_raise () (uart_irq s) else qemu_irq_lower () (uart_irq s))"
  by (simp add: s5pc1xx_uart_update_def Let_def)

lemma uart_inv_update [simp]: "uart_inv (s5pc1xx_uart_update s) \<longleftrightarrow> queue_invar (rx s)"
  by (auto simp: uart_inv_def uart_update_uintp uart_update_irq)

lemma uart_inv_cong:
  "\<lbrakk>uart_inv s; queue_invar (rx s'); uintp s' = uintp s; uintsp s' = uintsp s;
    uintm s' = uintm s; uart_irq s' = uart_irq s\<rbrakk> \<Longrightarrow> uart_inv s'"
  by (simp add: uart_inv_def)

lemma uart_inv_queue: "uart_inv s \<Longrightarrow> queue_invar (rx s)"
  by (simp add: uart_inv_def)

lemma uart_init_inv:
  "0 < unat queue_size \<Longrightarrow> unat queue_size \<le> QUEUE_SIZE \<Longrightarrow>
     uart_inv (s5pc1xx_uart_init1 inst queue_size c)"
  by (simp add: uart_inv_def s5pc1xx_uart_init1_def s5pc1xx_uart_reset_def queue_invar_def
        queue_reset_def)

lemma uart_write_inv:
  assumes "uart_inv s" and "s5pc1xx_uart_mm_write s offset val = Inr s'"
  shows "uart_inv s'"
proof -
  have "queue_invar (rx s)" using assms(1) by (rule uart_inv_queue)
  moreover have "rx (uart_write_utxh val s) = rx s"
    by (simp add: uart_write_utxh_def Let_def split: option.split)
  ultimately show ?thesis
    using assms(2)
    by (auto simp: s5pc1xx_uart_mm_write_def Let_def rbind_eq_Inr queue_reset_ok split: if_splits)
qed

lemma uart_read_urxh_fifo:
  assumes "uart_inv s" and "ufcon s AND 1 \<noteq> 0" and "queue_contents (rx s) = x # xs"
  shows "\<exists>s'. uart_read_urxh s = Inr (ucast x, s') \<and> uart_inv s' \<and> ufcon s' = ufcon s
    \<and> queue_contents (rx s') = xs \<and> (utrstat s' AND TRSTATUS_DATA_READY \<noteq> 0 \<longleftrightarrow> xs \<noteq> [])"
proof -
  have inv: "queue_invar (rx s)" using assms(1) by (rule uart_inv_queue)
  then obtain q where q: "queue_get (rx s) = Inr (x, q)" "queue_invar q" "queue_contents q = xs"
    using queue_get_ok [OF inv assms(3)] by blast
  have "TRSTATUS_DATA_READY \<noteq> 0" by (simp add: uart_consts)
  then show ?thesis
    using assms q inv
    by (auto simp: uart_read_urxh_def queue_empty_iff Let_def intro: uart_inv_cong [OF assms(1)])
qed

lemma uart_read_urxh_inv:
  assumes inv: "uart_inv s" and read: "uart_read_urxh s = Inr (v, s')"
  shows "uart_inv s'"
proof (cases "ufcon s AND 1 \<noteq> 0 \<and> queue_contents (rx s) \<noteq> []")
  case True
  then obtain x xs where "queue_contents (rx s) = x # xs" by (cases "queue_contents (rx s)") auto
  then show ?thesis using uart_read_urxh_fifo [OF inv] True read by fastforce
next
  case False
  have "queue_invar (rx s)" using inv by (rule uart_inv_queue)
  then show ?thesis
    using False read
    by (auto simp: uart_read_urxh_def queue_empty_iff Let_def intro: uart_inv_cong [OF inv]
        split: if_splits)
qed

lemma uart_read_inv:
  assumes "uart_inv s" and "s5pc1xx_uart_mm_read s offset = Inr (v, s')"
  shows "uart_inv s'"
proof (cases "offset = 0x24")
  case True
  with assms show ?thesis
    by (auto simp: s5pc1xx_uart_mm_read_def intro: uart_read_urxh_inv)
next
  case False
  with assms show ?thesis
    by (auto simp: s5pc1xx_uart_mm_read_def Let_def uart_inv_queue [OF assms(1)]
        intro: uart_inv_cong [OF assms(1)] split: if_splits)
qed

text \<open>
  The overflow loop stores \<open>i\<close> bytes where \<open>i\<close> is the first index not below the room that
  is left: about half of the room.
\<close>

lemma uart_push_while_ok:
  assumes "queue_invar q" and "queue_capacity q - length (queue_contents q) = free"
    and "i + free \<le> length buf"
  shows "\<exists>q'. uart_push_while buf i q = Inr q' \<and> queue_invar q'
    \<and> queue_contents q' = queue_contents q @ take ((free + 1 - i) div 2) (drop i buf)
    \<and> queue_capacity q' = queue_capacity q"
  using assms
proof (induction buf i q arbitrary: free rule: uart_push_while.induct)
  case (1 buf i q)
  note free = queue_empty_count_eq [OF "1.prems"(1), unfolded "1.prems"(2)]
  show ?case
  proof (cases "i < free")
    case False
    then show ?thesis
      using "1.prems" free by (simp add: uart_push_while.simps [of buf i q])
  next
    case True
    then have i: "i < length buf" using "1.prems"(3) by simp
    have "length (queue_contents q) < queue_capacity q" using True "1.prems"(2) by linarith
    then obtain q1 where q1: "queue_push (buf ! i) q = Inr q1" "queue_invar q1"
      "queue_contents q1 = queue_contents q @ [buf ! i]" "queue_capacity q1 = queue_capacity q"
      using queue_push_ok [OF "1.prems"(1)] by blast
    have "\<exists>q'. uart_push_while buf (Suc i) q1 = Inr q' \<and> queue_invar q'
      \<and> queue_contents q' = queue_contents q1 @ take ((free - 1 + 1 - Suc i) div 2) (drop (Suc i) buf)
      \<and> queue_capacity q' = queue_capacity q1"
      using True free q1 i "1.prems"
      by (intro "1.IH" [of "buf ! i" q1 "free - 1"]) simp_all
    moreover have "(free + 1 - i) div 2 = Suc ((free - Suc i) div 2)"
      using True by simp
    ultimately show ?thesis
      using True free q1 i
      by (auto simp: uart_push_while.simps [of buf i q] Cons_nth_drop_Suc [symmetric])
  qed
qed

lemma uart_receive_inv:
  assumes inv: "uart_inv s" and recv: "s5pc1xx_uart_receive s buf = Inr s'"
  shows "uart_inv s'"
proof -
  note q = uart_inv_queue [OF inv]
  have trig: "rx (s5pc1xx_uart_trigger_level t) = rx t" for t
    by (simp add: s5pc1xx_uart_trigger_level_def)
  have over: "queue_invar q'"
    if "queue_empty_count (rx s) < int (length buf)" "uart_push_while buf 0 (rx s) = Inr q'" for q'
    using uart_push_while_ok [OF q refl, of 0 buf] that by (auto simp: queue_empty_count_eq [OF q])
  have room: "queue_invar q'"
    if "\<not> queue_empty_count (rx s) < int (length buf)" "rfold queue_push buf (rx s) = Inr q'" for q'
    using uq.push_all [OF q, of buf] that queue_room [OF q]
    by (auto simp: queue_empty_count_eq [OF q])
  show ?thesis
    using recv q over room
    by (auto simp: s5pc1xx_uart_receive_def Let_def rbind_eq_Inr trig split: if_splits)
qed

section \<open>Reachable states and the properties of the device\<close>

inductive uart_reach :: "S5pc1xxUartState \<Rightarrow> bool" where
  uart_start: "0 < unat queue_size \<Longrightarrow> unat queue_size \<le> QUEUE_SIZE \<Longrightarrow>
     uart_reach (s5pc1xx_uart_init1 inst queue_size c)"
| uart_read: "uart_reach s \<Longrightarrow> s5pc1xx_uart_mm_read s offset = Inr (v, s') \<Longrightarrow> uart_reach s'"
| uart_write: "uart_reach s \<Longrightarrow> s5pc1xx_uart_mm_write s offset val = Inr s' \<Longrightarrow> uart_reach s'"
| uart_receive: "uart_reach s \<Longrightarrow> s5pc1xx_uart_receive s buf = Inr s' \<Longrightarrow> uart_reach s'"

lemma uart_reach_inv: "uart_reach s \<Longrightarrow> uart_inv s"
  by (induction rule: uart_reach.induct)
     (auto intro: uart_init_inv uart_read_inv uart_write_inv uart_receive_inv)

text \<open>
  Property C7.  In every state the UART can reach, whatever the guest reads and writes and
  whatever the character device delivers, the interrupt line is high exactly when some
  unmasked interrupt source is pending, and the receive queue holds at most
  \<^verbatim>\<open>queue-size\<close> - 1 bytes inside its 257-byte array.
\<close>

theorem uart_irq_line_correct:
  assumes "uart_reach s"
  shows "(irq_level (uart_irq s) () \<longleftrightarrow> uintsp s AND NOT (uintm s) \<noteq> 0)
    \<and> length (queue (rx s)) = QUEUE_SIZE
    \<and> length (queue_contents (rx s)) \<le> unat (q_size (rx s)) - 1"
  using uart_reach_inv [OF assms] queue_room [of "rx s"]
  by (auto simp: uart_inv_def queue_capacity_def queue_invar_def)

theorem uart_irq_line_correct_witness:
  "\<exists>s. uart_reach s \<and> irq_level (uart_irq s) () \<and> uintsp s AND NOT (uintm s) \<noteq> 0"
proof -
  let ?s0 = "s5pc1xx_uart_init1 0 256 None"
  have r0: "uart_reach ?s0" by (rule uart_start) simp_all
  obtain s1 where s1: "s5pc1xx_uart_mm_write ?s0 0x34 1 = Inr s1"
    by (simp add: s5pc1xx_uart_mm_write_def)
  have r1: "uart_reach s1" using r0 s1 by (rule uart_write)
  have "uintp s1 \<noteq> 0"
    using s1 by (auto simp: s5pc1xx_uart_mm_write_def uart_update_uintp uart_update_uintsp
        s5pc1xx_uart_init1_def s5pc1xx_uart_reset_def)
  then show ?thesis
    using r1 uart_irq_line_correct [OF r1] uart_reach_inv [OF r1] by (auto simp: uart_inv_def)
qed

text \<open>
  In FIFO mode a message not longer than \<open>can_receive\<close> announced is appended to the receive queue as
  a whole, the data-ready bit is set and, unless the queue is still empty, a receive interrupt is
  pending; the UART makes one call on its line.
\<close>

lemma uart_receive_fifo:
  assumes inv: "uart_inv s" and fifo: "ufcon s AND 1 \<noteq> 0"
    and fits: "int (length buf) \<le> s5pc1xx_uart_can_receive s"
  shows "\<exists>s'. s5pc1xx_uart_receive s buf = Inr s' \<and> uart_inv s' \<and> ufcon s' = ufcon s
    \<and> queue_contents (rx s') = queue_contents (rx s) @ buf
    \<and> utrstat s' AND TRSTATUS_DATA_READY \<noteq> 0
    \<and> (queue_contents (rx s') \<noteq> [] \<longrightarrow> uintsp s' AND INT_RXD \<noteq> 0) \<and> uintm s' = uintm s
    \<and> uart_irq s' = (if uintp s' \<noteq> 0 then qemu_irq_raise () (uart_irq s) else qemu_irq_lower () (uart_irq s))"
proof -
  note q = uart_inv_queue [OF inv]
  have "length (queue_contents (rx s)) + length buf \<le> queue_capacity (rx s)"
    using fits queue_room [OF q]
    by (simp add: s5pc1xx_uart_can_receive_def queue_empty_count_eq [OF q])
  then obtain q' where q': "rfold queue_push buf (rx s) = Inr q'" "queue_invar q'"
    "queue_contents q' = queue_contents (rx s) @ buf"
    using uq.push_all [OF q] by blast
  have "INT_RXD \<noteq> 0" and "TRSTATUS_DATA_READY \<noteq> 0" by (simp_all add: uart_consts)
  then show ?thesis
    using fifo fits q'
    by (simp add: s5pc1xx_uart_receive_def s5pc1xx_uart_can_receive_def Let_def
        s5pc1xx_uart_trigger_level_def uart_update_uintsp uart_update_log queue_empty_iff)
qed

text \<open>The UART in FIFO mode with some bytes received, used as the input of witnesses.\<close>

definition uart_demo :: S5pc1xxUartState where
  "uart_demo = (s5pc1xx_uart_init1 0 4 None)\<lparr>ufcon := 1\<rparr>"

lemma uart_demo_inv: "uart_inv uart_demo"
  by (simp add: uart_demo_def uart_inv_def s5pc1xx_uart_init1_def s5pc1xx_uart_reset_def
      queue_invar_def queue_reset_def)

lemma uart_demo_fifo [simp]: "ufcon uart_demo = 1" "queue_contents (rx uart_demo) = []"
  "s5pc1xx_uart_can_receive uart_demo = 3"
  by (simp_all add: uart_demo_def s5pc1xx_uart_init1_def s5pc1xx_uart_reset_def queue_reset_def
      queue_contents_def s5pc1xx_uart_can_receive_def queue_empty_count_def queue_elem_count_def)

text \<open>
  A message longer than the room that is left (which the back end may deliver only
  by ignoring \<open>can_receive\<close>) is not cut at the room that is left: the loop bound is evaluated again
  after every byte, so only the first half of the room is filled, and the error bit it sets in
  \<open>uintp\<close> is overwritten by the following update, so no error interrupt is recorded.
\<close>

lemma uart_overflow_half:
  assumes inv: "uart_inv s" and fifo: "ufcon s AND 1 \<noteq> 0"
    and long: "s5pc1xx_uart_can_receive s < int (length buf)"
  shows "\<exists>s'. s5pc1xx_uart_receive s buf = Inr s' \<and> uart_inv s'
    \<and> queue_contents (rx s') = queue_contents (rx s)
        @ take (nat ((s5pc1xx_uart_can_receive s + 1) div 2)) buf
    \<and> uintsp s' AND INT_ERROR = uintsp s AND INT_ERROR"
proof -
  note q = uart_inv_queue [OF inv]
  let ?free = "queue_capacity (rx s) - length (queue_contents (rx s))"
  have can: "s5pc1xx_uart_can_receive s = int ?free"
    by (simp add: s5pc1xx_uart_can_receive_def queue_empty_count_eq [OF q])
  obtain q' where q': "uart_push_while buf 0 (rx s) = Inr q'" "queue_invar q'"
    "queue_contents q' = queue_contents (rx s) @ take ((?free + 1) div 2) buf"
    using uart_push_while_ok [OF q refl, of 0 buf] long can by auto
  have half: "nat ((int ?free + 1) div 2) = (?free + 1) div 2"
    by linarith
  have "((x OR INT_RXD) OR INT_TXD) AND INT_ERROR = x AND INT_ERROR"
    "(x OR INT_TXD) AND INT_ERROR = x AND INT_ERROR" for x
    by (simp_all add: uart_consts bit.conj_disj_distrib2)
  then show ?thesis
    using fifo long q' half can
    by (auto simp: s5pc1xx_uart_receive_def s5pc1xx_uart_can_receive_def Let_def
        s5pc1xx_uart_trigger_level_def uart_update_uintsp queue_empty_iff)
qed

lemma uart_reads_fifo:
  assumes "uart_inv s" and "ufcon s AND 1 \<noteq> 0" and "queue_contents (rx s) = xs"
    and "xs = [] \<longrightarrow> utrstat s AND TRSTATUS_DATA_READY = 0"
  shows "\<exists>s'. rpops (\<lambda>s. s5pc1xx_uart_mm_read s 0x24) (length xs) s = Inr (map ucast xs, s')
    \<and> queue_contents (rx s') = [] \<and> utrstat s' AND TRSTATUS_DATA_READY = 0"
  using assms
proof (induction xs arbitrary: s)
  case Nil
  then show ?case by simp
next
  case (Cons x xs)
  obtain s1 where s1: "uart_read_urxh s = Inr (ucast x, s1)" "uart_inv s1" "ufcon s1 = ufcon s"
    "queue_contents (rx s1) = xs" "utrstat s1 AND TRSTATUS_DATA_READY \<noteq> 0 \<longleftrightarrow> xs \<noteq> []"
    using uart_read_urxh_fifo [OF Cons.prems(1-3)] by blast
  have "s5pc1xx_uart_mm_read s 0x24 = Inr (ucast x, s1)"
    using s1(1) by (simp add: s5pc1xx_uart_mm_read_def)
  then show ?case
    using Cons.IH [OF s1(2) _ s1(4)] s1 Cons.prems(2) by fastforce
qed

text \<open>
  Property C24.  Round trip through the guest interface: after a message was received into an
  empty queue in FIFO mode, reading \<^verbatim>\<open>URXH\<close> once per byte returns exactly the message, and
  the data-ready bit is clear after the last byte.
\<close>

theorem uart_fifo_roundtrip:
  assumes inv: "uart_inv s" and fifo: "ufcon s AND 1 \<noteq> 0"
    and empty: "queue_contents (rx s) = []" and ne: "buf \<noteq> []"
    and fits: "int (length buf) \<le> s5pc1xx_uart_can_receive s"
  shows "\<exists>s1 s2. s5pc1xx_uart_receive s buf = Inr s1
    \<and> rpops (\<lambda>s. s5pc1xx_uart_mm_read s 0x24) (length buf) s1 = Inr (map ucast buf, s2)
    \<and> utrstat s2 AND TRSTATUS_DATA_READY = 0"
proof -
  obtain s1 where s1: "s5pc1xx_uart_receive s buf = Inr s1" "uart_inv s1" "ufcon s1 = ufcon s"
    "queue_contents (rx s1) = buf"
    using uart_receive_fifo [OF inv fifo fits] empty by auto
  with uart_reads_fifo [of s1 buf] fifo ne show ?thesis by auto
qed

theorem uart_fifo_roundtrip_witness:
  "\<exists>s1 s2. s5pc1xx_uart_receive uart_demo [65, 66] = Inr s1
    \<and> rpops (\<lambda>s. s5pc1xx_uart_mm_read s 0x24) (length [65, 66 :: u8]) s1
      = Inr (map ucast [65, 66 :: u8], s2)"
proof -
  have "ufcon uart_demo AND 1 \<noteq> 0" "queue_contents (rx uart_demo) = []" "[65, 66 :: u8] \<noteq> []"
    "int (length [65, 66 :: u8]) \<le> s5pc1xx_uart_can_receive uart_demo"
    by simp_all
  from uart_fifo_roundtrip [OF uart_demo_inv this] show ?thesis by blast
qed

text \<open>
  With any bit of \<^verbatim>\<open>UFCON\<close> set, every register write leaves the transmit
  interrupt source pending, even the write to \<^verbatim>\<open>UINTP\<close> or \<^verbatim>\<open>UINTSP\<close> that clears it
  and whatever the transmit trigger level in \<^verbatim>\<open>UFCON\<close> is: the comparison of the level uses the
  logical operator where a bit mask is meant, so it always holds.
\<close>

lemma uart_txd_always_pending:
  assumes "s5pc1xx_uart_mm_write s offset val = Inr s'" and "ufcon s' \<noteq> 0"
  shows "uintsp s' AND INT_TXD = INT_TXD"
  using assms
  by (auto simp: s5pc1xx_uart_mm_write_def rbind_eq_Inr uart_update_uintsp)

text \<open>
  On a well-formed device the read handler is total: it faults only on an offset
  that is not a readable register, by \<^verbatim>\<open>hw_error\<close>, never by an access outside the queue.
\<close>

lemma uart_read_fault_iff:
  assumes "uart_inv s"
  shows "s5pc1xx_uart_mm_read s offset = Inl e \<longleftrightarrow>
    e = HwError ''s5pc1xx_uart: bad read offset''
      \<and> offset \<notin> {0x00, 0x04, 0x08, 0x0C, 0x10, 0x14, 0x18, 0x1C, 0x24, 0x28, 0x2C, 0x30, 0x34, 0x38}"
proof -
  have "\<exists>r. uart_read_urxh s = Inr r"
  proof (cases "ufcon s AND 1 \<noteq> 0 \<and> queue_contents (rx s) \<noteq> []")
    case True
    then show ?thesis
      using uart_read_urxh_fifo [OF assms, of "hd (queue_contents (rx s))" "tl (queue_contents (rx s))"]
      by auto
  next
    case False
    then show ?thesis
      by (auto simp: uart_read_urxh_def Let_def queue_empty_iff [OF uart_inv_queue [OF assms]])
  qed
  then show ?thesis
    by (auto simp: s5pc1xx_uart_mm_read_def Let_def)
qed

end
