(* ===== verification/Pl192.thy ===== *)
theory Pl192
  imports Qemu_Prelude
begin

text \<open>
  The PL192 vectored interrupt controller and its daisy chain, \<^verbatim>\<open>hw/pl192.c\<close>.  The board
  has four of them; each but the first passes its interrupts to the one before it through the
  daisy-chain port, and only the first is connected to the CPU.  Controllers refer to each other
  by pointers, so the model keeps them in a list and a pointer is an index.  The mutual recursion
  of \<^verbatim>\<open>pl192_raise\<close>, \<^verbatim>\<open>pl192_lower\<close> and \<^verbatim>\<open>pl192_update\<close> follows the
  \<^verbatim>\<open>daisy\<close> pointers; it is given fuel, and on the chains \<^verbatim>\<open>pl192_chain\<close> builds
  (pointers to earlier controllers) the fuel of \<open>vic_fuel\<close> is shown to be enough.
\<close>

section \<open>Data\<close>

definition PL192_DAISY_IRQ :: u32 where "PL192_DAISY_IRQ = 32"
definition PL192_NO_IRQ :: u32 where "PL192_NO_IRQ = 33"

abbreviation PL192_INT_SOURCES :: nat where "PL192_INT_SOURCES \<equiv> 32"
abbreviation PL192_PRIO_LEVELS :: nat where "PL192_PRIO_LEVELS \<equiv> 16"

text \<open>
  \<open>has_irq\<close> and \<open>has_fiq\<close> say whether the parent interrupts \<^verbatim>\<open>irq\<close> and
  \<^verbatim>\<open>fiq\<close> are connected (non-null).
\<close>

record pl192_state =
  irq_status :: u32
  fiq_status :: u32
  rawintr :: u32
  intselect :: u32
  intenable :: u32
  softint :: u32
  protection :: u32
  sw_priority_mask :: u32
  vect_addr :: "u32 list"
  vect_priority :: "u32 list"
  address :: u32
  current :: u32
  current_highest :: u32
  stack_i :: nat
  priority_stack :: "u32 list"
  irq_stack :: "u8 list"
  priority :: u32
  daisy_vectaddr :: u32
  daisy_priority :: u32
  daisy_callback :: "nat option"
  daisy_input :: bool
  has_irq :: bool
  has_fiq :: bool
  daisy :: "nat option"

datatype vic_line = CpuIrq nat | CpuFiq nat

record vic_sys =
  vics :: "pl192_state list"
  cpu :: "vic_line irq_log"

definition vic_get :: "vic_sys \<Rightarrow> nat \<Rightarrow> pl192_state res" where
  "vic_get S i = arr_get (vics S) i"

definition vic_put :: "nat \<Rightarrow> pl192_state \<Rightarrow> vic_sys \<Rightarrow> vic_sys" where
  "vic_put i s S = S\<lparr>vics := (vics S)[i := s]\<rparr>"

definition pl192_id :: "u8 list" where
  "pl192_id = [0x92, 0x11, 0x04, 0x00, 0x0D, 0xF0, 0x05, 0xB1]"

section \<open>The priority sorter\<close>

text \<open>The loop body that enters source \<open>i\<close> into the table of priority levels.\<close>

definition sorter_enter :: "pl192_state \<Rightarrow> nat \<Rightarrow> u32 list \<Rightarrow> u32 list res" where
  "sorter_enter s i prio_irq =
     (if bit (irq_status s) i
      then rbind (arr_get (vect_priority s) i) (\<lambda>p. arr_set prio_irq (unat p) (of_nat i))
      else Inr prio_irq)"

definition sorter_table :: "pl192_state \<Rightarrow> u32 list res" where
  "sorter_table s =
     rbind (if daisy_input s
            then arr_set (replicate PL192_PRIO_LEVELS PL192_NO_IRQ) (unat (daisy_priority s))
                   PL192_DAISY_IRQ
            else Inr (replicate PL192_PRIO_LEVELS PL192_NO_IRQ))
       (rfold (sorter_enter s) (rev [0..<PL192_INT_SOURCES]))"

definition pl192_priority_sorter :: "pl192_state \<Rightarrow> u32 res" where
  "pl192_priority_sorter s =
     rbind (sorter_table s) (\<lambda>prio_irq.
       Inr (case find (\<lambda>i. bit (sw_priority_mask s) i \<and> prio_irq ! i \<le> PL192_DAISY_IRQ)
                   [0..<PL192_PRIO_LEVELS] of
              Some i \<Rightarrow> prio_irq ! i
            | None \<Rightarrow> PL192_NO_IRQ))"

section \<open>Raising, lowering and updating along the daisy chain\<close>

definition pl192_status :: "pl192_state \<Rightarrow> pl192_state" where
  "pl192_status s =
     s\<lparr>irq_status := (rawintr s OR softint s) AND intenable s AND NOT (intselect s),
       fiq_status := (rawintr s OR softint s) AND intenable s AND intselect s\<rparr>"

fun pl192_raise :: "nat \<Rightarrow> nat \<Rightarrow> bool \<Rightarrow> vic_sys \<Rightarrow> vic_sys res"
  and pl192_lower :: "nat \<Rightarrow> nat \<Rightarrow> bool \<Rightarrow> vic_sys \<Rightarrow> vic_sys res"
  and pl192_update :: "nat \<Rightarrow> nat \<Rightarrow> vic_sys \<Rightarrow> vic_sys res" where
  "pl192_raise 0 i is_fiq S = Inl OutOfFuel"
| "pl192_raise (Suc n) i is_fiq S =
     rbind (vic_get S i) (\<lambda>s.
       if is_fiq then
         if has_fiq s then Inr (S\<lparr>cpu := qemu_irq_raise (CpuFiq i) (cpu S)\<rparr>)
         else (case daisy s of
                 Some d \<Rightarrow> pl192_raise n d is_fiq S
               | None \<Rightarrow> Inl (HwError ''pl192: cannot raise FIQ''))
       else
         if has_irq s then Inr (S\<lparr>cpu := qemu_irq_raise (CpuIrq i) (cpu S)\<rparr>)
         else (case daisy s of
                 Some d \<Rightarrow>
                   rbind (vic_get S d) (\<lambda>t.
                     pl192_update n d
                       (vic_put d (t\<lparr>daisy_vectaddr := address s, daisy_callback := Some i,
                                      daisy_input := True\<rparr>) S))
               | None \<Rightarrow> Inl (HwError ''pl192: cannot raise IRQ'')))"
| "pl192_lower 0 i is_fiq S = Inl OutOfFuel"
| "pl192_lower (Suc n) i is_fiq S =
     rbind (vic_get S i) (\<lambda>s.
       let S = (if is_fiq \<and> has_fiq s then S\<lparr>cpu := qemu_irq_lower (CpuFiq i) (cpu S)\<rparr> else S);
           S = (if \<not> is_fiq \<and> has_irq s then S\<lparr>cpu := qemu_irq_lower (CpuIrq i) (cpu S)\<rparr> else S)
       in (case daisy s of
             None \<Rightarrow> Inr S
           | Some d \<Rightarrow>
               if \<not> is_fiq then
                 rbind (vic_get S d) (\<lambda>t. pl192_update n d (vic_put d (t\<lparr>daisy_input := False\<rparr>) S))
               else pl192_lower n d is_fiq S))"
| "pl192_update 0 i S = Inl OutOfFuel"
| "pl192_update (Suc n) i S =
     rbind (vic_get S i) (\<lambda>s.
       let s = pl192_status s; S = vic_put i s S in
       rbind (if fiq_status s \<noteq> 0 then pl192_raise n i True S else pl192_lower n i True S) (\<lambda>S.
       rbind (vic_get S i) (\<lambda>s.
         if irq_status s \<noteq> 0 \<or> daisy_input s then
           rbind (pl192_priority_sorter s) (\<lambda>h.
           rbind (if h < 32 then arr_get (vect_addr s) (unat h) else Inr (daisy_vectaddr s)) (\<lambda>a.
             let s = s\<lparr>current_highest := h, address := a\<rparr>; S = vic_put i s S in
             if h \<noteq> current s then
               rbind (if h < 32 then
                        rbind (arr_get (vect_priority s) (unat h)) (\<lambda>p. Inr (p \<ge> priority s))
                      else Inr False) (\<lambda>masked.
               if masked then Inr S
               else if h = PL192_DAISY_IRQ \<and> daisy_priority s \<ge> priority s then Inr S
               else if h \<le> PL192_DAISY_IRQ then pl192_raise n i False S
               else pl192_lower n i False S)
             else Inr S))
         else
           pl192_lower n i False (vic_put i (s\<lparr>current_highest := PL192_NO_IRQ\<rparr>) S))))"

text \<open>Fuel: two calls per controller of the chain, and the two calls of the last one.\<close>

definition vic_fuel :: "vic_sys \<Rightarrow> nat" where
  "vic_fuel S = 2 * length (vics S) + 2"

definition vic_update :: "nat \<Rightarrow> vic_sys \<Rightarrow> vic_sys res" where
  "vic_update i S = pl192_update (vic_fuel S) i S"

definition vic_lower :: "nat \<Rightarrow> vic_sys \<Rightarrow> vic_sys res" where
  "vic_lower i S = pl192_lower (vic_fuel S) i False S"

section \<open>Acknowledging and finishing an interrupt\<close>

definition pl192_mask_priority :: "pl192_state \<Rightarrow> pl192_state res" where
  "pl192_mask_priority s =
     (if stack_i s \<ge> PL192_INT_SOURCES then Inl (HwError ''pl192: internal error'')
      else
        let s = s\<lparr>stack_i := stack_i s + 1\<rparr> in
        rbind (if current s = PL192_DAISY_IRQ then Inr (daisy_priority s)
               else arr_get (vect_priority s) (unat (current s))) (\<lambda>p.
        rbind (arr_set (priority_stack s) (stack_i s) p) (\<lambda>ps.
        rbind (arr_set (irq_stack s) (stack_i s) (ucast (current s))) (\<lambda>is.
          Inr (s\<lparr>priority := p, priority_stack := ps, irq_stack := is\<rparr>)))))"

definition pl192_unmask_priority :: "pl192_state \<Rightarrow> pl192_state res" where
  "pl192_unmask_priority s =
     (if stack_i s < 1 then Inl (HwError ''pl192: internal error'')
      else
        let s = s\<lparr>stack_i := stack_i s - 1\<rparr> in
        rbind (arr_get (priority_stack s) (stack_i s)) (\<lambda>p.
        rbind (arr_get (irq_stack s) (stack_i s)) (\<lambda>c.
          Inr (s\<lparr>priority := p, current := ucast c\<rparr>))))"

text \<open>Running an operation on the controller a pointer refers to.\<close>

definition vic_apply :: "(pl192_state \<Rightarrow> pl192_state res) \<Rightarrow> nat \<Rightarrow> vic_sys \<Rightarrow> vic_sys res" where
  "vic_apply f i S = rbind (vic_get S i) (\<lambda>s. rbind (f s) (\<lambda>s. Inr (vic_put i s S)))"

definition vic_apply_ptr ::
    "(pl192_state \<Rightarrow> pl192_state res) \<Rightarrow> nat option \<Rightarrow> vic_sys \<Rightarrow> vic_sys res" where
  "vic_apply_ptr f p S = (case p of None \<Rightarrow> Inl NullDeref | Some i \<Rightarrow> vic_apply f i S)"

definition pl192_irq_ack :: "nat \<Rightarrow> vic_sys \<Rightarrow> (u32 \<times> vic_sys) res" where
  "pl192_irq_ack i S =
     rbind (vic_get S i) (\<lambda>s.
       let is_daisy = (current_highest s = PL192_DAISY_IRQ); res = address s in
       rbind (vic_apply pl192_mask_priority i (vic_put i (s\<lparr>current := current_highest s\<rparr>) S)) (\<lambda>S.
       rbind (if is_daisy then vic_apply_ptr pl192_mask_priority (daisy_callback s) S else Inr S) (\<lambda>S.
       rbind (vic_update i S) (\<lambda>S. Inr (res, S)))))"

definition pl192_irq_fin :: "nat \<Rightarrow> vic_sys \<Rightarrow> vic_sys res" where
  "pl192_irq_fin i S =
     rbind (vic_get S i) (\<lambda>s.
       let is_daisy = (current s = PL192_DAISY_IRQ) in
       rbind (vic_apply pl192_unmask_priority i S) (\<lambda>S.
       rbind (if is_daisy then vic_apply_ptr pl192_unmask_priority (daisy_callback s) S else Inr S) (\<lambda>S.
       rbind (vic_update i S) (\<lambda>S.
       rbind (vic_get S i) (\<lambda>s. if current s = PL192_NO_IRQ then vic_lower i S else Inr S)))))"

section \<open>Register access\<close>

definition pl192_read :: "nat \<Rightarrow> hwaddr \<Rightarrow> vic_sys \<Rightarrow> (u32 \<times> vic_sys) res" where
  "pl192_read i offset S =
     rbind (vic_get S i) (\<lambda>s.
       if offset AND 3 \<noteq> 0 then Inl (HwError ''pl192: bad read offset'')
       else if offset \<ge> 0xfe0 \<and> offset < 0x1000 then
         rbind (arr_get pl192_id (unat (drop_bit 2 (offset - 0xfe0)))) (\<lambda>v. Inr (ucast v, S))
       else if offset \<ge> 0x100 \<and> offset < 0x180 then
         rbind (arr_get (vect_addr s) (unat (drop_bit 2 (offset - 0x100)))) (\<lambda>v. Inr (v, S))
       else if offset \<ge> 0x200 \<and> offset < 0x280 then
         rbind (arr_get (vect_priority s) (unat (drop_bit 2 (offset - 0x200)))) (\<lambda>v. Inr (v, S))
       else if offset = 0x00 then Inr (irq_status s, S)
       else if offset = 0x04 then Inr (fiq_status s, S)
       else if offset = 0x08 then Inr (rawintr s, S)
       else if offset = 0x0C then Inr (intselect s, S)
       else if offset = 0x10 then Inr (intenable s, S)
       else if offset = 0x18 then Inr (softint s, S)
       else if offset = 0x20 then Inr (protection s, S)
       else if offset = 0x24 then Inr (sw_priority_mask s, S)
       else if offset = 0x28 then Inr (daisy_priority s, S)
       else if offset = 0x14 \<or> offset = 0x1C then
         Inl (HwError ''pl192: attempt to read write-only register'')
       else if offset = 0xF00 then pl192_irq_ack i S
       else if offset = 0x300 \<or> offset = 0x30 \<or> offset = 0x34 then Inr (0, S)
       else Inl (HwError ''pl192: bad read offset''))"

definition pl192_write :: "nat \<Rightarrow> hwaddr \<Rightarrow> u32 \<Rightarrow> vic_sys \<Rightarrow> vic_sys res" where
  "pl192_write i offset val S =
     rbind (vic_get S i) (\<lambda>s.
       if offset AND 3 \<noteq> 0 then Inl (HwError ''pl192: bad write offset'')
       else if offset \<ge> 0xfe0 \<and> offset < 0x1000 then
         Inl (HwError ''pl192: attempt to write to a read-only register'')
       else if offset \<ge> 0x100 \<and> offset < 0x180 then
         rbind (arr_set (vect_addr s) (unat (drop_bit 2 (offset - 0x100))) val) (\<lambda>xs.
           vic_update i (vic_put i (s\<lparr>vect_addr := xs\<rparr>) S))
       else if offset \<ge> 0x200 \<and> offset < 0x280 then
         rbind (arr_set (vect_priority s) (unat (drop_bit 2 (offset - 0x200))) (val AND 0xf)) (\<lambda>xs.
           vic_update i (vic_put i (s\<lparr>vect_priority := xs\<rparr>) S))
       else if offset = 0x00 then Inr S
       else if offset = 0x04 \<or> offset = 0x08 then
         Inl (HwError ''pl192: attempt to write to a read-only register'')
       else if offset = 0x0C then vic_update i (vic_put i (s\<lparr>intselect := val\<rparr>) S)
       else if offset = 0x10 then
         vic_update i (vic_put i (s\<lparr>intenable := intenable s OR val\<rparr>) S)
       else if offset = 0x14 then
         vic_update i (vic_put i (s\<lparr>intenable := intenable s AND NOT val\<rparr>) S)
       else if offset = 0x18 then vic_update i (vic_put i (s\<lparr>softint := softint s OR val\<rparr>) S)
       else if offset = 0x1C then
         vic_update i (vic_put i (s\<lparr>softint := softint s AND NOT val\<rparr>) S)
       else if offset = 0x20 then vic_update i (vic_put i (s\<lparr>protection := val AND 1\<rparr>) S)
       else if offset = 0x24 then
         vic_update i (vic_put i (s\<lparr>sw_priority_mask := val AND 0xffff\<rparr>) S)
       else if offset = 0x28 then
         vic_update i (vic_put i (s\<lparr>daisy_priority := val AND 0xf\<rparr>) S)
       else if offset = 0xF00 then pl192_irq_fin i S
       else if offset = 0x300 \<or> offset = 0x30 \<or> offset = 0x34 then Inr S
       else Inl (HwError ''pl192: bad write offset''))"

definition pl192_irq_handler :: "nat \<Rightarrow> nat \<Rightarrow> bool \<Rightarrow> vic_sys \<Rightarrow> vic_sys res" where
  "pl192_irq_handler i irq level S =
     rbind (vic_get S i) (\<lambda>s.
       vic_update i
         (vic_put i
            (if level then s\<lparr>rawintr := rawintr s OR push_bit irq 1\<rparr>
             else s\<lparr>rawintr := rawintr s AND NOT (push_bit irq 1)\<rparr>) S))"

section \<open>Reset and chaining\<close>

definition pl192_reset :: "pl192_state \<Rightarrow> pl192_state" where
  "pl192_reset s =
     s\<lparr>vect_priority := map (\<lambda>_. 0xf) (vect_priority s), sw_priority_mask := 0xffff,
       daisy_priority := 0xf, current := PL192_NO_IRQ, current_highest := PL192_NO_IRQ,
       stack_i := 0, priority_stack := (priority_stack s)[0 := 0x10],
       irq_stack := (irq_stack s)[0 := ucast PL192_NO_IRQ], priority := 0x10\<rparr>"

text \<open>\<^verbatim>\<open>pl192_init1\<close>: the structure is zeroed on allocation, then reset.\<close>

definition pl192_init1 :: "bool \<Rightarrow> bool \<Rightarrow> pl192_state" where
  "pl192_init1 irq fiq =
     pl192_reset
       \<lparr>irq_status = 0, fiq_status = 0, rawintr = 0, intselect = 0, intenable = 0, softint = 0,
        protection = 0, sw_priority_mask = 0, vect_addr = replicate PL192_INT_SOURCES 0,
        vect_priority = replicate PL192_INT_SOURCES 0, address = 0, current = 0,
        current_highest = 0, stack_i = 0, priority_stack = replicate (PL192_PRIO_LEVELS + 1) 0,
        irq_stack = replicate (PL192_PRIO_LEVELS + 1) 0, priority = 0, daisy_vectaddr = 0,
        daisy_priority = 0, daisy_callback = None, daisy_input = False, has_irq = irq,
        has_fiq = fiq, daisy = None\<rparr>"

definition pl192_chain :: "nat \<Rightarrow> nat \<Rightarrow> vic_sys \<Rightarrow> vic_sys res" where
  "pl192_chain first_ix next_ix S =
     rbind (vic_get S next_ix) (\<lambda>s2. Inr (vic_put next_ix (s2\<lparr>daisy := Some first_ix\<rparr>) S))"

section \<open>Correctness of the priority sorter\<close>

text \<open>
  \<open>vic_wf s\<close>: the shape of a controller's arrays and the ranges its registers are masked to.
  Source number 32 stands for the daisy-chain input.
\<close>

definition vic_prio :: "pl192_state \<Rightarrow> nat \<Rightarrow> nat" where
  "vic_prio s k = unat (if k = 32 then daisy_priority s else vect_priority s ! k)"

definition vic_requests :: "pl192_state \<Rightarrow> nat \<Rightarrow> bool" where
  "vic_requests s k \<longleftrightarrow> (if k < 32 then bit (irq_status s) k else k = 32 \<and> daisy_input s)"

definition vic_pending :: "pl192_state \<Rightarrow> nat \<Rightarrow> bool" where
  "vic_pending s k \<longleftrightarrow> vic_requests s k \<and> bit (sw_priority_mask s) (vic_prio s k)"

definition vic_wf :: "pl192_state \<Rightarrow> bool" where
  "vic_wf s \<longleftrightarrow> length (vect_addr s) = 32 \<and> length (vect_priority s) = 32
     \<and> (\<forall>p \<in> set (vect_priority s). unat p < 16) \<and> unat (daisy_priority s) < 16"

lemma vic_prio_less: "vic_wf s \<Longrightarrow> k \<le> 32 \<Longrightarrow> vic_prio s k < 16"
  by (auto simp: vic_wf_def vic_prio_def)

lemma find_append_case:
  "find P (xs @ ys) = (case find P xs of Some x \<Rightarrow> Some x | None \<Rightarrow> find P ys)"
  by (induction xs) auto

lemma find_upt_Some:
  "find P [0..<n] = Some i \<longleftrightarrow> i < n \<and> P i \<and> (\<forall>j<i. \<not> P j)"
  by (force simp: find_Some_iff)

lemma find_upt_None: "find P [0..<n] = None \<longleftrightarrow> (\<forall>i<n. \<not> P i)"
  by (auto simp: find_None_iff)

lemma sorter_loop:
  assumes wf: "vic_wf s" and "n \<le> 32" and "length T = 16"
  shows "\<exists>T'. rfold (sorter_enter s) (rev [0..<n]) T = Inr T' \<and> length T' = 16
     \<and> (\<forall>p<16. T' ! p = (case find (\<lambda>k. bit (irq_status s) k \<and> vic_prio s k = p) [0..<n] of
            Some k \<Rightarrow> of_nat k | None \<Rightarrow> T ! p))"
  using assms(2,3)
proof (induction n arbitrary: T)
  case 0
  then show ?case by simp
next
  case (Suc n)
  have n: "vic_prio s n = unat (vect_priority s ! n)" using Suc.prems by (simp add: vic_prio_def)
  have p16: "vic_prio s n < 16" using vic_prio_less [OF wf, of n] Suc.prems by simp
  let ?T = "if bit (irq_status s) n then T[vic_prio s n := of_nat n] else T"
  have enter: "sorter_enter s n T = Inr ?T"
    using wf Suc.prems p16 by (simp add: sorter_enter_def vic_wf_def n)
  have "length ?T = 16" "n \<le> 32" using Suc.prems by simp_all
  then obtain T' where T': "rfold (sorter_enter s) (rev [0..<n]) ?T = Inr T'" "length T' = 16"
     "\<forall>p<16. T' ! p = (case find (\<lambda>k. bit (irq_status s) k \<and> vic_prio s k = p) [0..<n] of
            Some k \<Rightarrow> of_nat k | None \<Rightarrow> ?T ! p)"
    using Suc.IH [of ?T] by blast
  have "T' ! p = (case find (\<lambda>k. bit (irq_status s) k \<and> vic_prio s k = p) [0..<Suc n] of
            Some k \<Rightarrow> of_nat k | None \<Rightarrow> T ! p)" if "p < 16" for p
    using T'(3) that Suc.prems(2) p16
    by (auto simp: find_append_case nth_list_update split: option.splits)
  with T' enter show ?case by (intro exI [of _ T']) simp
qed

lemma sorter_table_spec:
  assumes wf: "vic_wf s"
  shows "\<exists>T. sorter_table s = Inr T \<and> length T = 16
     \<and> (\<forall>p<16. (\<exists>k\<le>32. vic_requests s k \<and> vic_prio s k = p \<and> T ! p = of_nat k
                  \<and> (\<forall>j<k. \<not> (vic_requests s j \<and> vic_prio s j = p)))
              \<or> T ! p = PL192_NO_IRQ \<and> (\<forall>k. \<not> (vic_requests s k \<and> vic_prio s k = p)))"
proof -
  define T0 where "T0 = (if daisy_input s
    then (replicate 16 PL192_NO_IRQ)[unat (daisy_priority s) := PL192_DAISY_IRQ]
    else replicate 16 PL192_NO_IRQ)"
  have T0: "length T0 = 16" "\<And>p. p < 16 \<Longrightarrow> T0 ! p =
     (if daisy_input s \<and> vic_prio s 32 = p then PL192_DAISY_IRQ else PL192_NO_IRQ)"
    by (auto simp: T0_def vic_prio_def nth_list_update)
  have "sorter_table s = rfold (sorter_enter s) (rev [0..<32]) T0"
    using wf by (simp add: sorter_table_def T0_def vic_wf_def)
  then obtain T where T: "sorter_table s = Inr T" "length T = 16"
    "\<forall>p<16. T ! p = (case find (\<lambda>k. bit (irq_status s) k \<and> vic_prio s k = p) [0..<32] of
            Some k \<Rightarrow> of_nat k | None \<Rightarrow> T0 ! p)"
    using sorter_loop [OF wf, of 32 T0] T0(1) by auto
  have "(\<exists>k\<le>32. vic_requests s k \<and> vic_prio s k = p \<and> T ! p = of_nat k
                  \<and> (\<forall>j<k. \<not> (vic_requests s j \<and> vic_prio s j = p)))
              \<or> T ! p = PL192_NO_IRQ \<and> (\<forall>k. \<not> (vic_requests s k \<and> vic_prio s k = p))"
    if p: "p < 16" for p
  proof (cases "find (\<lambda>k. bit (irq_status s) k \<and> vic_prio s k = p) [0..<32]")
    case (Some k)
    then have "k < 32" "bit (irq_status s) k" "vic_prio s k = p"
      "\<forall>j<k. \<not> (bit (irq_status s) j \<and> vic_prio s j = p)"
      by (auto simp: find_upt_Some)
    moreover have "T ! p = of_nat k" using T(3) p Some by simp
    ultimately show ?thesis
      by (intro disjI1 exI [of _ k]) (auto simp: vic_requests_def)
  next
    case None
    then have *: "\<forall>j<32. \<not> (bit (irq_status s) j \<and> vic_prio s j = p)" "T ! p = T0 ! p"
      using T(3) p by (simp_all only: find_upt_None) (simp add: None)
    show ?thesis
    proof (cases "daisy_input s \<and> vic_prio s 32 = p")
      case True
      then show ?thesis using * T0(2) [OF p]
        by (intro disjI1 exI [of _ 32]) (auto simp: vic_requests_def PL192_DAISY_IRQ_def)
    next
      case False
      then show ?thesis using * T0(2) [OF p] by (auto simp: vic_requests_def)
    qed
  qed
  with T show ?thesis by blast
qed

lemma vic_requests_le: "vic_requests s k \<Longrightarrow> k \<le> 32"
  by (auto simp: vic_requests_def split: if_splits)

text \<open>The source the sorter reports, 33 when there is none.\<close>

definition vic_highest :: "pl192_state \<Rightarrow> nat \<Rightarrow> bool" where
  "vic_highest s h \<longleftrightarrow>
     (if h = 33 then \<forall>k \<le> 32. \<not> vic_pending s k
      else h \<le> 32 \<and> vic_pending s h \<and>
        (\<forall>k \<le> 32. vic_pending s k \<longrightarrow> vic_prio s h < vic_prio s k \<or> vic_prio s h = vic_prio s k \<and> h \<le> k))"

lemma of_nat_le_daisy: "k \<le> 33 \<Longrightarrow> (of_nat k :: u32) \<le> PL192_DAISY_IRQ \<longleftrightarrow> k \<le> 32"
  by (simp add: PL192_DAISY_IRQ_def word_le_nat_alt unat_of_nat)

lemma pl192_priority_sorter_highest:
  assumes wf: "vic_wf s"
  shows "\<exists>h. pl192_priority_sorter s = Inr (of_nat h) \<and> vic_highest s h"
proof -
  obtain T where T: "sorter_table s = Inr T" "length T = 16"
     "\<And>p. p < 16 \<Longrightarrow> (\<exists>k\<le>32. vic_requests s k \<and> vic_prio s k = p \<and> T ! p = of_nat k
                  \<and> (\<forall>j<k. \<not> (vic_requests s j \<and> vic_prio s j = p)))
              \<or> T ! p = PL192_NO_IRQ \<and> (\<forall>k. \<not> (vic_requests s k \<and> vic_prio s k = p))"
    using sorter_table_spec [OF wf] by blast
  have no: "\<not> PL192_NO_IRQ \<le> PL192_DAISY_IRQ" "PL192_NO_IRQ = of_nat 33"
    by (simp_all add: PL192_NO_IRQ_def PL192_DAISY_IRQ_def)
  let ?P = "\<lambda>i. bit (sw_priority_mask s) i \<and> T ! i \<le> PL192_DAISY_IRQ"
  have level: "?P p \<longleftrightarrow> (\<exists>k\<le>32. vic_pending s k \<and> vic_prio s k = p)" if "p < 16" for p
    using T(3) [OF that] no(1) vic_requests_le
    by (fastforce simp: vic_pending_def of_nat_le_daisy)
  show ?thesis
  proof (cases "find ?P [0..<16]")
    case None
    then have "\<forall>k\<le>32. \<not> vic_pending s k"
      using level vic_prio_less [OF wf] by (auto simp: find_upt_None)
    with None T(1) no(2) show ?thesis
      by (intro exI [of _ 33]) (simp add: pl192_priority_sorter_def vic_highest_def)
  next
    case (Some p)
    then have p: "p < 16" "?P p" "\<And>q. q < p \<Longrightarrow> \<not> ?P q" by (auto simp: find_upt_Some)
    then obtain k where k: "k \<le> 32" "vic_requests s k" "vic_prio s k = p" "T ! p = of_nat k"
      "\<forall>j<k. \<not> (vic_requests s j \<and> vic_prio s j = p)"
      using T(3) [OF p(1)] no(1) by auto
    have "p < vic_prio s j \<or> p = vic_prio s j \<and> k \<le> j" if j: "j \<le> 32" "vic_pending s j" for j
    proof -
      have "\<not> vic_prio s j < p"
        using level [OF vic_prio_less [OF wf j(1)]] p(3) [of "vic_prio s j"] j by blast
      moreover have "k \<le> j" if "vic_prio s j = p"
        using k(5) j(2) that by (auto simp: vic_pending_def not_le [symmetric])
      ultimately show ?thesis by linarith
    qed
    then have "vic_highest s k" using k p(2) by (auto simp: vic_highest_def vic_pending_def)
    with Some T(1) k(4) show ?thesis by (auto simp: pl192_priority_sorter_def)
  qed
qed

lemma vic_highest_unique: "vic_highest s h \<Longrightarrow> vic_highest s k \<Longrightarrow> h = k"
  unfolding vic_highest_def by (auto split: if_splits) (metis le_antisym less_asym)+

section \<open>Well-formed chains and the settled state of an update\<close>

text \<open>
  The board's chain: controller 0 drives the CPU, every other controller drives the daisy input
  of the one before it.  The part of a controller that an update does not write is its
  configuration; well-formedness depends on the configuration only.
\<close>

definition vic_cfg :: "pl192_state \<Rightarrow> pl192_state" where
  "vic_cfg s = s\<lparr>irq_status := 0, fiq_status := 0, address := 0, current_highest := 0,
     daisy_vectaddr := 0, daisy_callback := None, daisy_input := False\<rparr>"

definition vic_stack_ok :: "pl192_state \<Rightarrow> bool" where
  "vic_stack_ok s \<longleftrightarrow> length (priority_stack s) = 17 \<and> length (irq_stack s) = 17 \<and> stack_i s < 17
     \<and> priority s = priority_stack s ! stack_i s \<and> current s = ucast (irq_stack s ! stack_i s)"

definition vic_ok :: "nat \<Rightarrow> pl192_state \<Rightarrow> bool" where
  "vic_ok i s \<longleftrightarrow> vic_wf s \<and> vic_stack_ok s \<and> has_irq s = (i = 0) \<and> has_fiq s = (i = 0)
     \<and> daisy s = (if i = 0 then None else Some (i - 1))"

definition vics_ok :: "vic_sys \<Rightarrow> bool" where
  "vics_ok S \<longleftrightarrow> (\<forall>i < length (vics S). vic_ok i (vics S ! i))"

lemma vic_wf_cfg [simp]: "vic_wf (vic_cfg s) = vic_wf s"
  by (simp add: vic_wf_def vic_cfg_def)

lemma vic_ok_cfg: "vic_ok i s \<longleftrightarrow> vic_ok i (vic_cfg s)"
  by (simp add: vic_ok_def vic_stack_ok_def) (simp add: vic_cfg_def)

lemma vics_ok_cong:
  assumes "map vic_cfg (vics S') = map vic_cfg (vics S)"
  shows "vics_ok S' \<longleftrightarrow> vics_ok S"
proof -
  have len: "length (vics S') = length (vics S)" using assms by (rule map_eq_imp_length_eq)
  have "vic_ok i (vics S' ! i) = vic_ok i (vics S ! i)" if "i < length (vics S)" for i
    using arg_cong [OF assms, of "\<lambda>xs. xs ! i"] that len
    by (simp add: vic_ok_cfg [of i "vics S' ! i"] vic_ok_cfg [of i "vics S ! i"])
  then show ?thesis by (simp add: vics_ok_def len)
qed

lemma vics_okD: "vics_ok S \<Longrightarrow> i < length (vics S) \<Longrightarrow> vic_ok i (vics S ! i)"
  by (simp add: vics_ok_def)

lemma vic_get_Inr [simp]: "i < length (vics S) \<Longrightarrow> vic_get S i = Inr (vics S ! i)"
  by (simp add: vic_get_def)

lemma vic_put_simps [simp]:
  "vics (vic_put i s S) = (vics S)[i := s]" "cpu (vic_put i s S) = cpu S"
  "vic_put i s (vic_put i t S) = vic_put i s S"
  "(vic_put i s S)\<lparr>cpu := l\<rparr> = vic_put i s (S\<lparr>cpu := l\<rparr>)"
  by (simp_all add: vic_put_def)

lemma map_cfg_put [simp]:
  assumes "vic_cfg s = vic_cfg (vics S ! i)"
  shows "map vic_cfg (vics (vic_put i s S)) = map vic_cfg (vics S)"
  using assms by (simp add: map_update) (metis list_update_id map_update)

lemma vic_cfg_updates [simp]:
  "vic_cfg (pl192_status s) = vic_cfg s" "vic_cfg (s\<lparr>current_highest := h\<rparr>) = vic_cfg s"
  "vic_cfg (s\<lparr>address := a\<rparr>) = vic_cfg s" "vic_cfg (s\<lparr>daisy_input := d\<rparr>) = vic_cfg s"
  "vic_cfg (s\<lparr>daisy_vectaddr := v\<rparr>) = vic_cfg s" "vic_cfg (s\<lparr>daisy_callback := c\<rparr>) = vic_cfg s"
  by (simp_all add: vic_cfg_def pl192_status_def)

lemma vics_ok_put:
  "vics_ok S \<Longrightarrow> vic_cfg s = vic_cfg (vics S ! i) \<Longrightarrow> vics_ok (vic_put i s S)"
  using vics_ok_cong [OF map_cfg_put] by blast

lemma vics_ok_cpu [simp]: "vics_ok (S\<lparr>cpu := l\<rparr>) = vics_ok S"
  by (simp add: vics_ok_def)

text \<open>
  What an update decides for its controller, and the state the chain settles in: a structural
  recursion towards the CPU that needs no fuel and has no fault.
\<close>

datatype vic_action = Keep | Raise | Lower

definition vic_decide :: "pl192_state \<Rightarrow> pl192_state \<times> vic_action" where
  "vic_decide s =
     (if irq_status s \<noteq> 0 \<or> daisy_input s then
        let h = projr (pl192_priority_sorter s) in
        (s\<lparr>current_highest := h,
           address := if h < 32 then vect_addr s ! unat h else daisy_vectaddr s\<rparr>,
         if h = current s \<or> h \<le> 32 \<and> unat (priority s) \<le> vic_prio s (unat h) then Keep
         else if h \<le> 32 then Raise else Lower)
      else (s\<lparr>current_highest := PL192_NO_IRQ\<rparr>, Lower))"

definition vic_local :: "nat \<Rightarrow> vic_sys \<Rightarrow> vic_sys" where
  "vic_local i S =
     (let s = pl192_status (vics S ! i) in
      vic_put i (fst (vic_decide s)) (S\<lparr>cpu := qemu_set_irq (CpuFiq 0) (fiq_status s \<noteq> 0) (cpu S)\<rparr>))"

primrec vic_settle :: "nat \<Rightarrow> vic_sys \<Rightarrow> vic_sys" where
  "vic_settle 0 S =
     (let a = snd (vic_decide (pl192_status (vics S ! 0))); S = vic_local 0 S in
      if a = Keep then S else S\<lparr>cpu := qemu_set_irq (CpuIrq 0) (a = Raise) (cpu S)\<rparr>)"
| "vic_settle (Suc d) S =
     (let a = snd (vic_decide (pl192_status (vics S ! Suc d)));
          S = vic_local (Suc d) S; s = vics S ! Suc d; t = vics S ! d in
      if a = Keep then S
      else vic_settle d (vic_put d
             (if a = Raise then t\<lparr>daisy_vectaddr := address s, daisy_callback := Some (Suc d),
                                   daisy_input := True\<rparr>
              else t\<lparr>daisy_input := False\<rparr>) S))"

lemma vic_decide_cfg [simp]: "vic_cfg (fst (vic_decide s)) = vic_cfg s"
  by (simp add: vic_decide_def Let_def)

lemma vic_local_cfg [simp]: "map vic_cfg (vics (vic_local i S)) = map vic_cfg (vics S)"
  by (simp add: vic_local_def Let_def del: vic_put_simps)

lemma vic_local_ok [simp]: "vics_ok (vic_local i S) = vics_ok S"
  by (rule vics_ok_cong) simp

lemma vic_local_length [simp]: "length (vics (vic_local i S)) = length (vics S)"
  using map_eq_imp_length_eq [OF vic_local_cfg] .

lemma vic_settle_cfg [simp]: "map vic_cfg (vics (vic_settle i S)) = map vic_cfg (vics S)"
  by (induction i arbitrary: S) (simp_all add: Let_def del: vic_put_simps)

lemma vic_settle_ok [simp]: "vics_ok (vic_settle i S) = vics_ok S"
  by (rule vics_ok_cong) simp

lemma vic_settle_length [simp]: "length (vics (vic_settle i S)) = length (vics S)"
  using map_eq_imp_length_eq [OF vic_settle_cfg] .

lemma vic_settle_above: "i < j \<Longrightarrow> vics (vic_settle i S) ! j = vics S ! j"
  by (induction i arbitrary: S) (simp_all add: Let_def vic_local_def)

lemma pl192_raise_fiq:
  "vics_ok S \<Longrightarrow> i < length (vics S) \<Longrightarrow> i < n \<Longrightarrow>
   pl192_raise n i True S = Inr (S\<lparr>cpu := qemu_irq_raise (CpuFiq 0) (cpu S)\<rparr>)"
proof (induction i arbitrary: n)
  case 0
  then show ?case using vics_okD [of S 0] by (cases n) (auto simp: vic_ok_def)
next
  case (Suc i)
  then show ?case using vics_okD [of S "Suc i"] by (cases n) (auto simp: vic_ok_def)
qed

lemma pl192_lower_fiq:
  "vics_ok S \<Longrightarrow> i < length (vics S) \<Longrightarrow> i < n \<Longrightarrow>
   pl192_lower n i True S = Inr (S\<lparr>cpu := qemu_irq_lower (CpuFiq 0) (cpu S)\<rparr>)"
proof (induction i arbitrary: n)
  case 0
  then show ?case using vics_okD [of S 0] by (cases n) (auto simp: vic_ok_def Let_def)
next
  case (Suc i)
  then show ?case using vics_okD [of S "Suc i"] by (cases n) (auto simp: vic_ok_def Let_def)
qed

declare pl192_raise.simps [simp del] pl192_lower.simps [simp del] pl192_update.simps [simp del]

lemma vic_highest_cases:
  assumes wf: "vic_wf s"
  obtains h where "pl192_priority_sorter s = Inr (of_nat h)" "vic_highest s h" "h \<le> 33"
proof -
  obtain h where h: "pl192_priority_sorter s = Inr (of_nat h)" "vic_highest s h"
    using pl192_priority_sorter_highest [OF wf] by blast
  moreover have "h \<le> 33" using h(2) by (auto simp: vic_highest_def split: if_splits)
  ultimately show ?thesis using that by blast
qed

lemma vic_wf_status [simp]: "vic_wf (pl192_status s) = vic_wf s"
  by (simp add: vic_wf_def pl192_status_def)

lemma pl192_update_step:
  assumes ok: "vics_ok S" and i: "i < length (vics S)" "i < n"
  shows "pl192_update (Suc n) i S =
    (case snd (vic_decide (pl192_status (vics S ! i))) of
       Keep \<Rightarrow> Inr (vic_local i S)
     | Raise \<Rightarrow> pl192_raise n i False (vic_local i S)
     | Lower \<Rightarrow> pl192_lower n i False (vic_local i S))"
proof -
  let ?s = "pl192_status (vics S ! i)"
  have wf: "vic_wf ?s" using vics_okD [OF ok i(1)] by (simp add: vic_ok_def)
  then have len: "length (vect_addr ?s) = 32" "length (vect_priority ?s) = 32"
    by (simp_all add: vic_wf_def)
  obtain h where h: "pl192_priority_sorter ?s = Inr h"
    using vic_highest_cases [OF wf] by blast
  let ?S1 = "vic_put i ?s (S\<lparr>cpu := qemu_set_irq (CpuFiq 0) (fiq_status ?s \<noteq> 0) (cpu S)\<rparr>)"
  have fiq: "(if fiq_status ?s \<noteq> 0 then pl192_raise n i True (vic_put i ?s S)
              else pl192_lower n i True (vic_put i ?s S)) = Inr ?S1"
    using pl192_raise_fiq [OF vics_ok_put [OF ok], of ?s i i n]
      pl192_lower_fiq [OF vics_ok_put [OF ok], of ?s i i n] i
    by (simp add: qemu_irq_raise_def qemu_irq_lower_def)
  have lt: "x < 32 \<longleftrightarrow> unat x < 32" "x = 32 \<longleftrightarrow> unat x = 32" for x :: u32
    by (simp_all add: word_less_nat_alt word_unat_eq_iff)
  show ?thesis
    using i fiq h len
    by (auto simp: pl192_update.simps(2) vic_decide_def vic_local_def Let_def PL192_DAISY_IRQ_def vic_prio_def lt
        word_le_nat_alt not_le split: if_splits)
qed

lemma pl192_update_settle:
  "vics_ok S \<Longrightarrow> i < length (vics S) \<Longrightarrow> 2 * i + 2 \<le> n \<Longrightarrow>
   pl192_update n i S = Inr (vic_settle i S)"
proof (induction i arbitrary: n S)
  case 0
  then obtain m where n: "n = Suc (Suc m)" by (metis add_2_eq_Suc le_Suc_ex mult_0_right add_0)
  have ok: "vic_ok 0 (vics (vic_local 0 S) ! 0)"
    using "0.prems" by (intro vics_okD) simp_all
  show ?case
    using 0 ok unfolding n
    by (auto simp: pl192_update_step pl192_raise.simps(2) pl192_lower.simps(2) Let_def vic_ok_def qemu_irq_raise_def qemu_irq_lower_def
        split: vic_action.splits)
next
  case (Suc i)
  then obtain m where n: "n = Suc (Suc m)" "2 * i + 2 \<le> m"
    by (metis Suc_le_D add_2_eq_Suc' mult_Suc_right add_2_eq_Suc Suc_le_mono)
  let ?L = "vic_local (Suc i) S"
  have ok: "vic_ok (Suc i) (vics ?L ! Suc i)" "vics_ok ?L" "i < length (vics ?L)"
    using Suc.prems by (simp_all add: vics_okD)
  note IH = Suc.IH [OF vics_ok_put [OF ok(2)], of _ i m]
  show ?case
    using Suc.prems ok IH unfolding n(1)
    by (auto simp: pl192_update_step pl192_raise.simps(2) pl192_lower.simps(2) Let_def vic_ok_def n(2) split: vic_action.splits)
qed

lemma vic_update_settle:
  "vics_ok S \<Longrightarrow> i < length (vics S) \<Longrightarrow> vic_update i S = Inr (vic_settle i S)"
  unfolding vic_update_def vic_fuel_def by (rule pl192_update_settle) simp_all

section \<open>Every handler keeps the chain well-formed\<close>

lemma vics_ok_put_ok: "vics_ok S \<Longrightarrow> vic_ok i s \<Longrightarrow> vics_ok (vic_put i s S)"
  by (simp add: vics_ok_def) (metis nth_list_update_eq nth_list_update_neq)

lemma vic_lower_settle:
  assumes "vics_ok S" and "i < length (vics S)"
  shows "\<exists>S'. vic_lower i S = Inr S' \<and> map vic_cfg (vics S') = map vic_cfg (vics S)"
proof (cases i)
  case 0
  with assms vics_okD [OF assms] show ?thesis
    by (simp add: vic_lower_def vic_fuel_def pl192_lower.simps Let_def vic_ok_def)
next
  case (Suc d)
  let ?S = "vic_put d ((vics S ! d)\<lparr>daisy_input := False\<rparr>) S"
  have "vics_ok ?S" using assms by (intro vics_ok_put) simp_all
  then have "vic_lower i S = Inr (vic_settle d ?S)"
    using assms vics_okD [OF assms] Suc
    by (simp add: vic_lower_def vic_fuel_def pl192_lower.simps Let_def vic_ok_def pl192_update_settle)
  then show ?thesis by (simp del: vic_put_simps)
qed

lemma vic_apply_ok:
  assumes "vic_apply f i S = Inr S'" and "vics_ok S"
    and "\<And>s s'. vic_ok i s \<Longrightarrow> f s = Inr s' \<Longrightarrow> vic_ok i s'"
  shows "vics_ok S' \<and> length (vics S') = length (vics S)"
  using assms vics_okD [of S i]
  by (auto simp: vic_apply_def rbind_eq_Inr vic_get_def arr_get_eq_Inr intro!: vics_ok_put_ok)

lemma ucast_u8_u32: "unat (c :: u32) < 256 \<Longrightarrow> ucast (ucast c :: u8) = c"
  by (rule unat_word_eqI) (simp add: unat_ucast_mod)

lemma pl192_mask_priority_ok:
  assumes "vic_ok i s" and "pl192_mask_priority (s\<lparr>current := c\<rparr>) = Inr s'"
  shows "vic_ok i s'"
proof -
  have "unat c < 256"
    using assms
    by (auto simp: pl192_mask_priority_def Let_def rbind_eq_Inr arr_get_eq_Inr vic_ok_def vic_wf_def
        PL192_DAISY_IRQ_def split: if_splits)
  then show ?thesis
    using assms
    by (auto simp: pl192_mask_priority_def Let_def rbind_eq_Inr arr_get_eq_Inr arr_set_eq_Inr
        vic_ok_def vic_wf_def vic_stack_ok_def ucast_u8_u32 split: if_splits)
qed

lemma pl192_unmask_priority_ok:
  "vic_ok i s \<Longrightarrow> pl192_unmask_priority s = Inr s' \<Longrightarrow> vic_ok i s'"
  by (auto simp: pl192_unmask_priority_def Let_def rbind_eq_Inr arr_get_eq_Inr
      vic_ok_def vic_wf_def vic_stack_ok_def split: if_splits)

lemma pl192_irq_ack_ok:
  assumes "pl192_irq_ack i S = Inr (v, S')" and "vics_ok S"
  shows "vics_ok S' \<and> length (vics S') = length (vics S)"
proof -
  have i: "i < length (vics S)"
    using assms(1) by (auto simp: pl192_irq_ack_def rbind_eq_Inr vic_get_def arr_get_eq_Inr)
  let ?s = "vics S ! i"
  obtain s1 S2 where s1: "pl192_mask_priority (?s\<lparr>current := current_highest ?s\<rparr>) = Inr s1"
    and S2: "(if current_highest ?s = PL192_DAISY_IRQ
       then vic_apply_ptr pl192_mask_priority (daisy_callback ?s) (vic_put i s1 S)
       else Inr (vic_put i s1 S)) = Inr S2"
    and S': "vic_update i S2 = Inr S'"
    using assms(1) i by (auto simp: pl192_irq_ack_def Let_def rbind_eq_Inr vic_apply_def)
  have "vics_ok (vic_put i s1 S)"
    using assms(2) i pl192_mask_priority_ok [OF vics_okD s1] by (simp add: vics_ok_put_ok)
  moreover have "vic_ok j s \<Longrightarrow> pl192_mask_priority s = Inr s' \<Longrightarrow> vic_ok j s'" for j s s'
    using pl192_mask_priority_ok [of j s "current s" s'] by simp
  ultimately have "vics_ok S2 \<and> length (vics S2) = length (vics S)"
    using S2 vic_apply_ok [of pl192_mask_priority]
    by (fastforce simp: vic_apply_ptr_def split: if_splits option.splits)
  then show ?thesis using S' i by (auto simp: vic_update_settle)
qed

lemma pl192_irq_fin_ok:
  assumes "pl192_irq_fin i S = Inr S'" and ok: "vics_ok S"
  shows "vics_ok S' \<and> length (vics S') = length (vics S)"
proof -
  have i: "i < length (vics S)"
    using assms(1) by (auto simp: pl192_irq_fin_def rbind_eq_Inr vic_get_def arr_get_eq_Inr)
  obtain S1 S2 S3 where S1: "vic_apply pl192_unmask_priority i S = Inr S1"
    and S2: "(if current (vics S ! i) = PL192_DAISY_IRQ
       then vic_apply_ptr pl192_unmask_priority (daisy_callback (vics S ! i)) S1
       else Inr S1) = Inr S2"
    and S3: "vic_update i S2 = Inr S3"
    and S': "S' = S3 \<or> vic_lower i S3 = Inr S'"
    using assms(1) i unfolding pl192_irq_fin_def Let_def
    by (elim rbind_InrE) (simp, metis Inr_inject)
  have 1: "vics_ok S1 \<and> length (vics S1) = length (vics S)"
    using vic_apply_ok [OF S1 ok] pl192_unmask_priority_ok by blast
  then have 2: "vics_ok S2 \<and> length (vics S2) = length (vics S)"
    using S2 vic_apply_ok [of pl192_unmask_priority _ S1 S2] pl192_unmask_priority_ok
    by (fastforce simp: vic_apply_ptr_def split: if_splits option.splits)
  then have 3: "vics_ok S3 \<and> length (vics S3) = length (vics S)"
    using S3 i by (auto simp: vic_update_settle)
  then have "map vic_cfg (vics S') = map vic_cfg (vics S3)"
    using S' i vic_lower_settle [of S3 i] by auto
  with 3 show ?thesis using vics_ok_cong map_eq_imp_length_eq by metis
qed

lemma pl192_init1_ok: "vic_ok 0 (pl192_init1 True True)"
  "vic_ok (Suc d) ((pl192_init1 False False)\<lparr>daisy := Some d\<rparr>)"
  by (simp_all add: pl192_init1_def pl192_reset_def vic_ok_def vic_wf_def vic_stack_ok_def
      PL192_NO_IRQ_def)

lemma vic_write_field:
  assumes "vics_ok S" and "vic_ok i s" and "i < length (vics S)"
  shows "\<exists>S'. vic_update i (vic_put i s S) = Inr S' \<and> vics_ok S' \<and> length (vics S') = length (vics S)"
  using assms by (simp add: vic_update_settle vics_ok_put_ok)

lemma pl192_write_ok:
  assumes "vics_ok S" and "i < length (vics S)"
  shows "(\<exists>S'. pl192_write i offset val S = Inr S' \<and> vics_ok S' \<and> length (vics S') = length (vics S))
    \<or> (\<exists>msg. pl192_write i offset val S = Inl (HwError msg)) \<or> offset = 0xF00"
proof -
  have ix: "offset \<ge> 0x100 \<Longrightarrow> offset < 0x180 \<Longrightarrow> unat (drop_bit 2 (offset - 0x100)) < 32"
    "offset \<ge> 0x200 \<Longrightarrow> offset < 0x280 \<Longrightarrow> unat (drop_bit 2 (offset - 0x200)) < 32"
    using word_index [of "0x100" offset 32] word_index [of "0x200" offset 32] by simp_all
  have ok: "vic_ok i (vics S ! i)" using vics_okD [OF assms] .
  have fields: "vic_ok i ((vics S ! i)\<lparr>intselect := v\<rparr>)" "vic_ok i ((vics S ! i)\<lparr>intenable := v\<rparr>)"
    "vic_ok i ((vics S ! i)\<lparr>softint := v\<rparr>)" "vic_ok i ((vics S ! i)\<lparr>protection := v\<rparr>)"
    "vic_ok i ((vics S ! i)\<lparr>sw_priority_mask := v\<rparr>)" 
    "vic_ok i ((vics S ! i)\<lparr>daisy_priority := v AND 0xf\<rparr>)"
    "vic_ok i ((vics S ! i)\<lparr>vect_addr := (vect_addr (vics S ! i))[k := v]\<rparr>)"
    "vic_ok i ((vics S ! i)\<lparr>vect_priority := (vect_priority (vics S ! i))[k := v AND 0xf]\<rparr>)" for v k
    using ok unat_and_0xf [of v] set_update_subset_insert [of "vect_priority (vics S ! i)" k "v AND 0xf"]
    by (auto simp: vic_ok_def vic_wf_def vic_stack_ok_def)
  have len: "length (vect_addr (vics S ! i)) = 32" "length (vect_priority (vics S ! i)) = 32"
    using ok by (simp_all add: vic_ok_def vic_wf_def)
  show ?thesis
    using assms fields [THEN vic_write_field [OF assms(1) _ assms(2)]]
    by (simp add: pl192_write_def ix len)
qed

lemma pl192_read_ok:
  assumes "vics_ok S" and "i < length (vics S)"
  shows "(\<exists>v. pl192_read i offset S = Inr (v, S))
    \<or> (\<exists>msg. pl192_read i offset S = Inl (HwError msg)) \<or> offset = 0xF00"
proof -
  have ix: "offset \<ge> 0x100 \<Longrightarrow> offset < 0x180 \<Longrightarrow> unat (drop_bit 2 (offset - 0x100)) < 32"
    "offset \<ge> 0x200 \<Longrightarrow> offset < 0x280 \<Longrightarrow> unat (drop_bit 2 (offset - 0x200)) < 32"
    "offset \<ge> 0xfe0 \<Longrightarrow> offset < 0x1000 \<Longrightarrow> unat (drop_bit 2 (offset - 0xfe0)) < length pl192_id"
    using word_index [of "0x100" offset 32] word_index [of "0x200" offset 32]
      word_index [of "0xfe0" offset 8] by (simp_all add: pl192_id_def)
  have "length (vect_addr (vics S ! i)) = 32" "length (vect_priority (vics S ! i)) = 32"
    using vics_okD [OF assms] by (simp_all add: vic_ok_def vic_wf_def)
  then show ?thesis
    using assms by (simp add: pl192_read_def ix)
qed

text \<open>
  The chain \<^verbatim>\<open>s5pc1xx_init\<close> builds: \<open>n + 1\<close> controllers, the first connected to the CPU, each
  other one chained to its predecessor.
\<close>

definition pl192_board :: "nat \<Rightarrow> vic_sys res" where
  "pl192_board n =
     rfold (\<lambda>i. pl192_chain i (Suc i)) [0..<n]
       \<lparr>vics = pl192_init1 True True # replicate n (pl192_init1 False False), cpu = []\<rparr>"

lemma pl192_chain_loop:
  assumes "m \<le> n"
  shows "rfold (\<lambda>i. pl192_chain i (Suc i)) [0..<m]
       \<lparr>vics = pl192_init1 True True # replicate n (pl192_init1 False False), cpu = []\<rparr>
     = Inr \<lparr>vics = pl192_init1 True True
         # map (\<lambda>d. if d < m then (pl192_init1 False False)\<lparr>daisy := Some d\<rparr> else pl192_init1 False False)
             [0..<n], cpu = []\<rparr>"
  using assms
proof (induction m)
  case 0
  then show ?case by (simp add: map_replicate_const)
next
  case (Suc m)
  then have "m < n" by simp
  with Suc show ?case
    by (auto simp: rfold_append pl192_chain_def vic_put_def vic_get_def nth_list_update
        intro!: nth_equalityI)
qed

lemma pl192_board_ok:
  "\<exists>S. pl192_board n = Inr S \<and> vics_ok S \<and> length (vics S) = Suc n \<and> cpu S = []"
  using pl192_chain_loop [of n n] pl192_init1_ok
  by (auto simp: pl192_board_def vics_ok_def nth_Cons split: nat.splits)

inductive vic_reach :: "nat \<Rightarrow> vic_sys \<Rightarrow> bool" for n where
  vic_start: "pl192_board n = Inr S \<Longrightarrow> vic_reach n S"
| vic_read: "vic_reach n S \<Longrightarrow> pl192_read i offset S = Inr (v, S') \<Longrightarrow> vic_reach n S'"
| vic_write: "vic_reach n S \<Longrightarrow> pl192_write i offset val S = Inr S' \<Longrightarrow> vic_reach n S'"
| vic_input: "vic_reach n S \<Longrightarrow> pl192_irq_handler i irq level S = Inr S' \<Longrightarrow> vic_reach n S'"

lemma pl192_irq_handler_ok:
  assumes "vics_ok S" and "i < length (vics S)"
  shows "\<exists>S'. pl192_irq_handler i irq level S = Inr S' \<and> vics_ok S' \<and> length (vics S') = length (vics S)"
proof -
  have "vic_ok i ((vics S ! i)\<lparr>rawintr := v\<rparr>)" for v
    using vics_okD [OF assms] by (simp add: vic_ok_def vic_wf_def vic_stack_ok_def)
  from vic_write_field [OF assms(1) this assms(2)] show ?thesis
    using assms by (simp add: pl192_irq_handler_def)
qed

lemma vic_get_InrD: "vic_get S i = Inr s \<Longrightarrow> i < length (vics S)"
  by (simp add: vic_get_def arr_get_eq_Inr)

lemma vic_reach_ok: "vic_reach n S \<Longrightarrow> vics_ok S \<and> length (vics S) = Suc n"
proof (induction rule: vic_reach.induct)
  case (vic_start S)
  then show ?case using pl192_board_ok [of n] by auto
next
  case (vic_read S i offset v S')
  have i: "i < length (vics S)"
    using vic_read.hyps(2) unfolding pl192_read_def by (auto simp only: rbind_eq_Inr dest: vic_get_InrD)
  show ?case
  proof (cases "offset = 0xF00")
    case True
    then have "pl192_irq_ack i S = Inr (v, S')" using vic_read.hyps(2) i by (simp add: pl192_read_def)
    then show ?thesis using pl192_irq_ack_ok vic_read.IH by metis
  next
    case False
    then show ?thesis using pl192_read_ok [of S i offset] i vic_read by auto
  qed
next
  case (vic_write S i offset val S')
  have i: "i < length (vics S)"
    using vic_write.hyps(2) unfolding pl192_write_def by (auto simp only: rbind_eq_Inr dest: vic_get_InrD)
  show ?case
  proof (cases "offset = 0xF00")
    case True
    then have "pl192_irq_fin i S = Inr S'" using vic_write.hyps(2) i by (simp add: pl192_write_def)
    then show ?thesis using pl192_irq_fin_ok vic_write.IH by metis
  next
    case False
    then show ?thesis using pl192_write_ok [of S i offset val] i vic_write by auto
  qed
next
  case (vic_input S i irq level S')
  have i: "i < length (vics S)"
    using vic_input.hyps(2) unfolding pl192_irq_handler_def by (auto simp only: rbind_eq_Inr dest: vic_get_InrD)
  then show ?case using pl192_irq_handler_ok [of S i irq level] vic_input by auto
qed

section \<open>The raw interrupt inputs\<close>

text \<open>
  Only the interrupt handler changes the levels of the inputs: updates, register accesses,
  acknowledging and finishing leave them alone.
\<close>

definition raw_inputs :: "vic_sys \<Rightarrow> u32 list" where
  "raw_inputs S = map rawintr (vics S)"

lemma raw_put: "vic_get S i = Inr s \<Longrightarrow> rawintr s' = rawintr s \<Longrightarrow> raw_inputs (vic_put i s' S) = raw_inputs S"
  by (simp add: raw_inputs_def vic_put_def map_update vic_get_def arr_get_eq_Inr)
     (metis length_map list_update_id nth_map)

lemma raw_cpu [simp]: "raw_inputs (S\<lparr>cpu := l\<rparr>) = raw_inputs S"
  by (simp add: raw_inputs_def)

lemma vic_get_cpu: "vic_get (S\<lparr>cpu := l\<rparr>) i = vic_get S i"
  by (simp add: vic_get_def)

lemma status_raw [simp]: "rawintr (pl192_status s) = rawintr s"
  by (simp add: pl192_status_def)

lemma chain_raw:
  "(\<forall>i f S S'. pl192_raise n i f S = Inr S' \<longrightarrow> raw_inputs S' = raw_inputs S)
   \<and> (\<forall>i f S S'. pl192_lower n i f S = Inr S' \<longrightarrow> raw_inputs S' = raw_inputs S)
   \<and> (\<forall>i S S'. pl192_update n i S = Inr S' \<longrightarrow> raw_inputs S' = raw_inputs S)"
proof (induction n)
  case 0
  then show ?case by (simp add: pl192_raise.simps pl192_lower.simps pl192_update.simps)
next
  case (Suc n)
  have raise: "raw_inputs S' = raw_inputs S" if "pl192_raise n i f S = Inr S'" for i f S S' using Suc that by blast
  have lower: "raw_inputs S' = raw_inputs S" if "pl192_lower n i f S = Inr S'" for i f S S' using Suc that by blast
  have update: "raw_inputs S' = raw_inputs S" if "pl192_update n i S = Inr S'" for i S S' using Suc that by blast
  have 1: "raw_inputs S' = raw_inputs S" if "pl192_raise (Suc n) i f S = Inr S'" for i f S S'
    using that by (auto elim!: rbind_InrE split: if_splits option.splits dest!: raise update simp: raw_put pl192_raise.simps)
  have 2: "raw_inputs S' = raw_inputs S" if "pl192_lower (Suc n) i f S = Inr S'" for i f S S'
    using that by (auto elim!: rbind_InrE split: if_splits option.splits dest!: lower update simp: raw_put vic_get_cpu Let_def pl192_lower.simps)
  have 3: "raw_inputs S' = raw_inputs S" if u: "pl192_update (Suc n) i S = Inr S'" for i S S'
  proof -
    obtain s where s: "vic_get S i = Inr s" using u by (auto elim!: rbind_InrE simp: pl192_update.simps)
    let ?S1 = "vic_put i (pl192_status s) S"
    obtain S2 s2 where S2: "raw_inputs S2 = raw_inputs ?S1" "vic_get S2 i = Inr s2"
      and r: "raw_inputs S' = raw_inputs (vic_put i (s2\<lparr>current_highest := PL192_NO_IRQ\<rparr>) S2) \<or>
        (\<exists>h a. raw_inputs S' = raw_inputs (vic_put i (s2\<lparr>current_highest := h, address := a\<rparr>) S2))"
      using u s by (fastforce elim!: rbind_InrE split: if_splits dest!: raise lower simp: Let_def pl192_update.simps)
    have "raw_inputs S' = raw_inputs S2" using r raw_put [OF S2(2)] by auto
    also have "\<dots> = raw_inputs S" using S2(1) raw_put [OF s] by simp
    finally show ?thesis .
  qed
  from 1 2 3 show ?case by blast
qed

lemma vic_update_raw: "vic_update i S = Inr S' \<Longrightarrow> raw_inputs S' = raw_inputs S"
  using chain_raw by (auto simp: vic_update_def)

lemma vic_lower_raw: "vic_lower i S = Inr S' \<Longrightarrow> raw_inputs S' = raw_inputs S"
  using chain_raw by (auto simp: vic_lower_def)

lemma mask_raw: "pl192_mask_priority s = Inr s' \<Longrightarrow> rawintr s' = rawintr s"
  by (auto simp: pl192_mask_priority_def Let_def elim!: rbind_InrE split: if_splits)

lemma unmask_raw: "pl192_unmask_priority s = Inr s' \<Longrightarrow> rawintr s' = rawintr s"
  by (auto simp: pl192_unmask_priority_def Let_def elim!: rbind_InrE split: if_splits)

lemma vic_apply_raw:
  assumes "vic_apply f i S = Inr S'" and "\<And>s s'. f s = Inr s' \<Longrightarrow> rawintr s' = rawintr s"
  shows "raw_inputs S' = raw_inputs S"
  using assms by (auto simp: vic_apply_def raw_put elim!: rbind_InrE)

lemma vic_apply_ptr_raw:
  assumes "vic_apply_ptr f p S = Inr S'" and "\<And>s s'. f s = Inr s' \<Longrightarrow> rawintr s' = rawintr s"
  shows "raw_inputs S' = raw_inputs S"
  using assms vic_apply_raw [of f] by (auto simp: vic_apply_ptr_def split: option.splits)

lemma pl192_irq_ack_raw:
  assumes "pl192_irq_ack i S = Inr (v, S')"
  shows "raw_inputs S' = raw_inputs S"
proof -
  obtain s S1 S2 where s: "vic_get S i = Inr s"
    and S1: "vic_apply pl192_mask_priority i (vic_put i (s\<lparr>current := current_highest s\<rparr>) S) = Inr S1"
    and S2: "S2 = S1 \<or> vic_apply_ptr pl192_mask_priority (daisy_callback s) S1 = Inr S2"
    and S': "vic_update i S2 = Inr S'"
    using assms unfolding pl192_irq_ack_def Let_def
    by (elim rbind_InrE) (simp, metis Inr_inject)
  show ?thesis
    using vic_apply_raw [OF S1 mask_raw] vic_apply_ptr_raw [OF _ mask_raw] vic_update_raw [OF S'] S2
    by (auto simp: raw_put [OF s])
qed

lemma pl192_irq_fin_raw:
  assumes "pl192_irq_fin i S = Inr S'"
  shows "raw_inputs S' = raw_inputs S"
proof -
  obtain S1 S2 S3 where S1: "vic_apply pl192_unmask_priority i S = Inr S1"
    and S3: "vic_update i S2 = Inr S3"
    and S2: "S2 = S1 \<or> (\<exists>p. vic_apply_ptr pl192_unmask_priority p S1 = Inr S2)"
    and S': "S' = S3 \<or> vic_lower i S3 = Inr S'"
    using assms unfolding pl192_irq_fin_def Let_def
    by (elim rbind_InrE) (rule that, assumption, assumption, auto split: if_splits)
  show ?thesis
    using vic_apply_raw [OF S1 unmask_raw] vic_apply_ptr_raw [OF _ unmask_raw] vic_update_raw [OF S3]
      vic_lower_raw S2 S' by metis
qed

lemma pl192_write_raw: "pl192_write i offset val S = Inr S' \<Longrightarrow> raw_inputs S' = raw_inputs S"
  unfolding pl192_write_def
  by (auto elim!: rbind_InrE split: if_splits dest!: vic_update_raw pl192_irq_fin_raw simp: raw_put)

lemma pl192_read_raw: "pl192_read i offset S = Inr (v, S') \<Longrightarrow> raw_inputs S' = raw_inputs S"
  unfolding pl192_read_def
  by (auto elim!: rbind_InrE split: if_splits dest!: pl192_irq_ack_raw)

section \<open>Delivery through the chain\<close>

text \<open>A controller with no enabled request, nothing in service and no masked priority level.\<close>

definition vic_idle :: "pl192_state \<Rightarrow> bool" where
  "vic_idle s \<longleftrightarrow> irq_status (pl192_status s) = 0 \<and> \<not> daisy_input s \<and> current s = PL192_NO_IRQ
     \<and> priority s = 0x10 \<and> sw_priority_mask s = 0xffff"

lemma bit_ffff: "bit (0xffff :: u32) p \<longleftrightarrow> p < 16"
proof -
  have "(0xffff :: u32) = mask 16" by (simp add: mask_eq_exp_minus_1)
  then show ?thesis by (simp only: bit_mask_iff) auto
qed

lemma vic_highest_single:
  assumes wf: "vic_wf s" and "k \<le> 32" "\<And>j. vic_requests s j \<longleftrightarrow> j = k" and "sw_priority_mask s = 0xffff"
  shows "pl192_priority_sorter s = Inr (of_nat k)"
proof -
  obtain h where h: "pl192_priority_sorter s = Inr (of_nat h)" "vic_highest s h"
    using pl192_priority_sorter_highest [OF wf] by blast
  have "vic_highest s k"
    using assms(2-) vic_prio_less [OF wf assms(2)] bit_ffff [of "vic_prio s k"]
    by (simp add: vic_highest_def vic_pending_def)
  with h show ?thesis using vic_highest_unique by blast
qed

lemma vic_decide_single:
  assumes wf: "vic_wf s" and k: "k \<le> 32" "\<And>j. vic_requests s j \<longleftrightarrow> j = k"
    and idle: "sw_priority_mask s = 0xffff" "current s = PL192_NO_IRQ" "priority s = 0x10"
  shows "vic_decide s =
    (s\<lparr>current_highest := of_nat k, address := if k < 32 then vect_addr s ! k else daisy_vectaddr s\<rparr>, Raise)"
proof -
  have u: "unat (of_nat k :: u32) = k" using k(1) by (simp add: unat_of_nat)
  have "irq_status s \<noteq> 0 \<or> daisy_input s"
    using k(2) [of k] by (auto simp: vic_requests_def split: if_splits)
  moreover have "(of_nat k :: u32) \<noteq> PL192_NO_IRQ" "(of_nat k :: u32) \<le> 32"
    "(of_nat k :: u32) < 32 \<longleftrightarrow> k < 32"
    using k(1) by (auto simp: PL192_NO_IRQ_def word_unat_eq_iff word_le_nat_alt word_less_nat_alt u)
  ultimately show ?thesis
    using vic_highest_single [OF wf k idle(1)] vic_prio_less [OF wf k(1)] idle
    by (simp add: vic_decide_def Let_def u)
qed

lemma status_fields [simp]:
  "daisy_input (pl192_status s) = daisy_input s" "sw_priority_mask (pl192_status s) = sw_priority_mask s"
  "current (pl192_status s) = current s" "priority (pl192_status s) = priority s"
  "vect_addr (pl192_status s) = vect_addr s" "daisy_vectaddr (pl192_status s) = daisy_vectaddr s"
  "rawintr (pl192_status s) = rawintr s"
  by (simp_all add: pl192_status_def)

lemma vic_settle_raise:
  assumes "vics_ok S" and "i < length (vics S)"
    and "vic_decide (pl192_status (vics S ! i)) = (s', Raise)"
    and "\<And>j. j < i \<Longrightarrow> vic_idle (vics S ! j)"
  shows "irq_level (cpu (vic_settle i S)) (CpuIrq 0) \<and> address (vics (vic_settle i S) ! 0) = address s'"
  using assms
proof (induction i arbitrary: S s')
  case 0
  then show ?case by (simp add: Let_def vic_local_def)
next
  case (Suc d)
  define t where "t = (vics S ! d)\<lparr>daisy_vectaddr := address s', daisy_callback := Some (Suc d),
    daisy_input := True\<rparr>"
  define S1 where "S1 = vic_put d t (vic_local (Suc d) S)"
  have d: "vics (vic_local (Suc d) S) ! d = vics S ! d" "vics S1 ! d = t" "length (vics S1) = length (vics S)"
    using Suc.prems(2) by (simp_all add: S1_def vic_local_def Let_def)
  have idle: "vic_idle (vics S ! d)" using Suc.prems(4) by simp
  have "vic_wf (vics S ! d)" using vics_okD [OF Suc.prems(1), of d] Suc.prems(2) by (simp add: vic_ok_def)
  then have wf: "vic_wf (pl192_status t)" unfolding vic_wf_status by (simp add: t_def vic_wf_def)
  have "irq_status (pl192_status t) = 0" using idle by (simp add: vic_idle_def t_def pl192_status_def)
  then have "vic_requests (pl192_status t) j \<longleftrightarrow> j = 32" for j
    by (auto simp: vic_requests_def t_def)
  from vic_decide_single [OF wf _ this] idle
  have "vic_decide (pl192_status (vics S1 ! d)) =
    ((pl192_status t)\<lparr>current_highest := 32, address := address s'\<rparr>, Raise)"
    unfolding d by (simp add: vic_idle_def t_def)
  moreover have "vics_ok S1"
    unfolding S1_def using Suc.prems(1) by (intro vics_ok_put) (simp_all add: d t_def)
  moreover have "vic_idle (vics S1 ! j)" if "j < d" for j
    using that Suc.prems(4) [of j] by (simp add: S1_def vic_local_def Let_def)
  ultimately have "irq_level (cpu (vic_settle d S1)) (CpuIrq 0)
    \<and> address (vics (vic_settle d S1) ! 0) = address s'"
    using Suc.IH [of S1] Suc.prems(2) d(3) by simp
  moreover have "vic_settle (Suc d) S = vic_settle d S1"
    using Suc.prems(2,3) d(1) by (simp add: Let_def S1_def t_def vic_local_def)
  ultimately show ?case by simp
qed

lemma vic_settle_quiet:
  assumes "irq_status (pl192_status (vics S ! i)) = 0" "\<not> daisy_input (vics S ! i)"
    and "i < length (vics S)" and "\<And>j. j < i \<Longrightarrow> vic_idle (vics S ! j)"
  shows "\<not> irq_level (cpu (vic_settle i S)) (CpuIrq 0)
    \<and> (irq_level (cpu (vic_settle i S)) (CpuFiq 0) \<longleftrightarrow> fiq_status (pl192_status (vics S ! 0)) \<noteq> 0)"
  using assms
proof (induction i arbitrary: S)
  case 0
  then show ?case by (simp add: Let_def vic_decide_def vic_local_def)
next
  case (Suc d)
  let ?S1 = "vic_put d ((vics S ! d)\<lparr>daisy_input := False\<rparr>) (vic_local (Suc d) S)"
  have same: "vics ?S1 ! j = vics S ! j" if "j \<le> d" for j
  proof (cases "j = d")
    case True
    then show ?thesis using Suc.prems(3) Suc.prems(4) [of d] by (simp add: vic_local_def Let_def vic_idle_def)
  qed (use that in \<open>simp add: vic_local_def Let_def\<close>)
  have "vic_settle (Suc d) S = vic_settle d ?S1"
    using Suc.prems(1,2) by (simp add: Let_def vic_decide_def vic_local_def)
  moreover have "\<not> irq_level (cpu (vic_settle d ?S1)) (CpuIrq 0)
    \<and> (irq_level (cpu (vic_settle d ?S1)) (CpuFiq 0) \<longleftrightarrow> fiq_status (pl192_status (vics ?S1 ! 0)) \<noteq> 0)"
    using Suc.prems(3,4) same
    by (intro Suc.IH) (simp_all del: vic_put_simps add: vic_idle_def, simp)
  ultimately show ?case using same [of 0] by simp
qed

lemma vic_cfg_fields:
  assumes "vic_cfg s = vic_cfg t"
  shows "current s = current t" "priority s = priority t" "stack_i s = stack_i t"
    "priority_stack s = priority_stack t" "irq_stack s = irq_stack t"
    "vect_priority s = vect_priority t"
  using arg_cong [OF assms, of current] arg_cong [OF assms, of priority]
    arg_cong [OF assms, of stack_i] arg_cong [OF assms, of priority_stack]
    arg_cong [OF assms, of irq_stack] arg_cong [OF assms, of vect_priority]
  by (simp_all add: vic_cfg_def)

lemma vic_settle_cfg_nth:
  "j < length (vics S) \<Longrightarrow> vic_cfg (vics (vic_settle i S) ! j) = vic_cfg (vics S ! j)"
  using arg_cong [OF vic_settle_cfg, of "\<lambda>xs. xs ! j" i S] by (simp del: vic_settle_cfg)

lemma vic_requests_none:
  "(\<forall>k. \<not> vic_requests s k) \<longleftrightarrow> irq_status s = 0 \<and> \<not> daisy_input s"
proof -
  have "irq_status s = 0 \<longleftrightarrow> (\<forall>k<32. \<not> bit (irq_status s) k)"
    by (auto intro!: bit_word_eqI)
  then show ?thesis by (auto simp: vic_requests_def)
qed

section \<open>Properties\<close>

text \<open>
  Property C8.  The priority sorter returns the source to serve: among the requesting sources
  (the daisy input counts as source 32) whose priority level is not masked by
  \<^verbatim>\<open>SWPRIORITYMASK\<close>, one of the numerically smallest priority and among those the smallest
  source number; it returns 33, no interrupt, exactly when there is no such source.
\<close>

theorem pl192_sorter_correct:
  assumes "vic_wf s"
  shows "\<exists>h. pl192_priority_sorter s = Inr (of_nat h) \<and>
    (h = 33 \<and> (\<forall>k. \<not> vic_pending s k) \<or>
     h \<le> 32 \<and> vic_pending s h \<and> (\<forall>k. vic_pending s k \<longrightarrow>
        vic_prio s h < vic_prio s k \<or> vic_prio s h = vic_prio s k \<and> h \<le> k))"
proof -
  obtain h where "pl192_priority_sorter s = Inr (of_nat h)" "vic_highest s h" "h \<le> 33"
    using vic_highest_cases [OF assms] by blast
  moreover have "vic_pending s k \<Longrightarrow> k \<le> 32" for k
    using vic_requests_le by (auto simp: vic_pending_def)
  ultimately show ?thesis unfolding vic_highest_def by (metis le_neq_implies_less)
qed

definition vic_demo :: pl192_state where
  "vic_demo = (pl192_init1 True True)\<lparr>irq_status := 0xA0, intenable := 0xA0, rawintr := 0xA0\<rparr>"

lemma vic_demo_wf: "vic_wf vic_demo"
  by (simp add: vic_demo_def pl192_init1_def pl192_reset_def vic_wf_def)

theorem pl192_sorter_correct_witness:
  "pl192_priority_sorter vic_demo = Inr 5 \<and> (\<exists>h. Inr 5 = (Inr (of_nat h) :: u32 res) \<and> h \<le> 33)"
proof -
  have *: "pl192_priority_sorter vic_demo = Inr 5" by code_simp
  obtain h where "pl192_priority_sorter vic_demo = Inr (of_nat h)" "h \<le> 33"
    using pl192_sorter_correct [OF vic_demo_wf] by force
  with * show ?thesis by auto
qed

text \<open>
  Property C25.  Updates along the daisy chain terminate: in every state the chain of \<open>n + 1\<close>
  controllers can reach, two calls per controller on the way to the CPU are enough, the result
  does not depend on the fuel, and it is the state of the structural recursion \<open>vic_settle\<close>.
\<close>

theorem pl192_update_terminates:
  assumes "vic_reach n S" and "i \<le> n" and "2 * i + 2 \<le> fuel"
  shows "pl192_update fuel i S = Inr (vic_settle i S)"
  using assms vic_reach_ok [OF assms(1)] by (intro pl192_update_settle) auto

theorem pl192_update_terminates_witness:
  "\<exists>S. pl192_board 3 = Inr S \<and> pl192_update 8 3 S = Inr (vic_settle 3 S)"
proof -
  obtain S where S: "pl192_board 3 = Inr S" using pl192_board_ok by blast
  then have "vic_reach 3 S" by (rule vic_start)
  from pl192_update_terminates [OF this, of 3 8] S show ?thesis by auto
qed

text \<open>
  Property C27.  In every reachable state an interrupt input may change on any controller, and
  any register but \<^verbatim>\<open>VECTADDR\<close> may be read or written: the only fault is \<^verbatim>\<open>hw_error\<close>
  on a bad register; no array is accessed out of bounds and no pointer is missing.
\<close>

theorem pl192_handlers_safe:
  assumes "vic_reach n S" and "i \<le> n"
  shows "(\<exists>S'. pl192_irq_handler i irq level S = Inr S' \<and> vic_reach n S')
    \<and> (offset \<noteq> 0xF00 \<longrightarrow>
        (\<exists>v. pl192_read i offset S = Inr (v, S)) \<or> (\<exists>msg. pl192_read i offset S = Inl (HwError msg)))
    \<and> (offset \<noteq> 0xF00 \<longrightarrow>
        (\<exists>S'. pl192_write i offset val S = Inr S') \<or> (\<exists>msg. pl192_write i offset val S = Inl (HwError msg)))"
proof -
  have ok: "vics_ok S" "i < length (vics S)" using vic_reach_ok [OF assms(1)] assms(2) by auto
  show ?thesis
    using pl192_irq_handler_ok [OF ok, of irq level] pl192_read_ok [OF ok, of offset]
      pl192_write_ok [OF ok, of offset val] vic_input [OF assms(1)] by blast
qed

theorem pl192_handlers_safe_witness:
  "\<exists>S S'. pl192_board 3 = Inr S \<and> pl192_irq_handler 2 7 True S = Inr S'"
proof -
  obtain S where S: "pl192_board 3 = Inr S" using pl192_board_ok by blast
  then have "vic_reach 3 S" by (rule vic_start)
  from pl192_handlers_safe [OF this, of 2 7 True 0 0] S show ?thesis by auto
qed

text \<open>
  The CPU lines after an update of the first controller: FIQ follows the enabled
  requests selected as FIQ.  IRQ is low when nothing requests; otherwise, with \<open>h\<close> the source
  the sorter picks, it is raised when \<open>h\<close> is not already in service and its priority is above the
  one in service, lowered when all requests are masked, and left alone else (also when all
  requests are masked and nothing is in service, since \<open>h\<close> and \<open>current\<close> are both 33 then).
\<close>

lemma pl192_cpu_lines:
  assumes "vics_ok S" and "vics S \<noteq> []"
  defines "s \<equiv> pl192_status (vics S ! 0)"
  shows "\<exists>S' h. vic_update 0 S = Inr S' \<and> vic_highest s h
    \<and> (irq_level (cpu S') (CpuFiq 0) \<longleftrightarrow>
         (rawintr s OR softint s) AND intenable s AND intselect s \<noteq> 0)
    \<and> (irq_level (cpu S') (CpuIrq 0) \<longleftrightarrow>
         (if \<forall>k. \<not> vic_requests s k then False
          else if h = unat (current s) \<or> h \<le> 32 \<and> unat (priority s) \<le> vic_prio s h
          then irq_level (cpu S) (CpuIrq 0)
          else h \<le> 32))"
proof -
  have ok: "vic_ok 0 (vics S ! 0)" using assms by (intro vics_okD) auto
  then have "vic_wf s" by (simp add: s_def vic_ok_def)
  then obtain h where h: "pl192_priority_sorter s = Inr (of_nat h)" "vic_highest s h" "h \<le> 33"
    by (rule vic_highest_cases)
  have u: "unat (of_nat h :: u32) = h" using h(3) by (simp add: unat_of_nat)
  have eq: "(of_nat h = current s) \<longleftrightarrow> h = unat (current s)" "(of_nat h :: u32) \<le> 32 \<longleftrightarrow> h \<le> 32"
    by (auto simp: word_unat_eq_iff word_le_nat_alt u)
  have upd: "vic_update 0 S = Inr (vic_settle 0 S)"
    using assms(1,2) by (intro vic_update_settle) auto
  have fiq: "fiq_status s = (rawintr s OR softint s) AND intenable s AND intselect s"
    by (simp add: s_def pl192_status_def)
  show ?thesis
    using upd h(1,2) eq fiq
    by (intro exI [of _ "vic_settle 0 S"] exI [of _ h] conjI)
       (simp_all add: vic_local_def vic_decide_def Let_def vic_requests_none u flip: s_def)
qed

lemma vic_delivered:
  assumes "vic_reach n S" and "c \<le> n" and "k < 32"
    and "\<And>j. j \<le> c \<Longrightarrow> vic_idle (vics S ! j)"
    and "bit (intenable (vics S ! c)) k" and "\<not> bit (intselect (vics S ! c)) k"
  shows "\<exists>S'. pl192_irq_handler c k True S = Inr S' \<and> irq_level (cpu S') (CpuIrq 0)
    \<and> address (vics S' ! 0) = vect_addr (vics S ! c) ! k"
proof -
  have ok: "vics_ok S" "c < length (vics S)" using vic_reach_ok [OF assms(1)] assms(2) by auto
  define s where "s = (vics S ! c)\<lparr>rawintr := rawintr (vics S ! c) OR push_bit k 1\<rparr>"
  have idle: "vic_idle (vics S ! c)" using assms(4) by simp
  have wf: "vic_wf (pl192_status s)"
    using vics_okD [OF ok] by (simp add: s_def vic_ok_def) (simp add: vic_wf_def)
  have none: "\<not> bit (irq_status (pl192_status (vics S ! c))) j" for j
    using idle by (simp add: vic_idle_def)
  have "bit (irq_status (pl192_status s)) j \<longleftrightarrow> j = k" for j
    using none [of j] assms(3,5,6) by (auto simp: s_def pl192_status_def bit_simps)
  then have "vic_requests (pl192_status s) j \<longleftrightarrow> j = k" for j
    using idle assms(3) by (auto simp: vic_requests_def s_def vic_idle_def)
  from vic_decide_single [OF wf _ this]
  have "vic_decide (pl192_status s) = ((pl192_status s)\<lparr>current_highest := of_nat k,
      address := vect_addr (vics S ! c) ! k\<rparr>, Raise)"
    using idle assms(3) by (simp add: s_def vic_idle_def)
  moreover have put: "vics_ok (vic_put c s S)"
    using vics_okD [OF ok] ok by (intro vics_ok_put_ok) (auto simp: s_def vic_ok_def vic_wf_def vic_stack_ok_def)
  ultimately show ?thesis
    using vic_settle_raise [OF put, of c] ok assms(4) vic_update_settle [OF put, of c]
    by (simp add: pl192_irq_handler_def s_def)
qed

text \<open>
  Property C5.  Delivery: when an enabled interrupt source \<open>k\<close> of controller \<open>c\<close> becomes active on
  a chain whose controllers up to \<open>c\<close> are idle, the CPU interrupt is raised and the address the CPU
  will read from the first controller is the vector address programmed for \<open>k\<close> in controller
  \<open>c\<close>, passed on from controller to controller.
\<close>

theorem pl192_irq_delivered:
  assumes "vic_reach n S" and "c \<le> n" and "k < 32"
    and "\<And>j. j \<le> c \<Longrightarrow> vic_idle (vics S ! j)"
    and "bit (intenable (vics S ! c)) k" and "\<not> bit (intselect (vics S ! c)) k"
  shows "\<exists>S'. pl192_irq_handler c k True S = Inr S' \<and> irq_level (cpu S') (CpuIrq 0)
    \<and> address (vics S' ! 0) = vect_addr (vics S ! c) ! k"
  using assms by (rule vic_delivered)

text \<open>The chain of the board after the guest enabled source 3 of its last controller.\<close>

definition vic_demo_chain :: "vic_sys res" where
  "vic_demo_chain = rbind (pl192_board 3) (pl192_write 3 0x10 8)"

definition vic_demo_ready :: "vic_sys \<Rightarrow> bool" where
  "vic_demo_ready S \<longleftrightarrow> list_all vic_idle (vics S) \<and> bit (intenable (vics S ! 3)) 3
     \<and> \<not> bit (intselect (vics S ! 3)) 3 \<and> length (vics S) = 4"

lemma vic_demo_chain_ready: "\<exists>S. vic_demo_chain = Inr S \<and> vic_reach 3 S \<and> vic_demo_ready S"
proof -
  have "(case vic_demo_chain of Inl e \<Rightarrow> False | Inr S \<Rightarrow> vic_demo_ready S)" by code_simp
  moreover have "vic_demo_chain = Inr S \<Longrightarrow> vic_reach 3 S" for S
    by (auto simp: vic_demo_chain_def rbind_eq_Inr intro: vic_start vic_write)
  ultimately show ?thesis by (auto split: sum.splits)
qed

theorem pl192_irq_delivered_witness:
  "\<exists>S S'. vic_demo_chain = Inr S \<and> pl192_irq_handler 3 3 True S = Inr S' \<and> irq_level (cpu S') (CpuIrq 0)"
proof -
  obtain S where S: "vic_demo_chain = Inr S" "vic_reach 3 S" "vic_demo_ready S"
    using vic_demo_chain_ready by blast
  have "vic_idle (vics S ! j)" if "j \<le> 3" for j
    using S(3) that by (simp add: vic_demo_ready_def list_all_length)
  with pl192_irq_delivered [OF S(2), of 3 3] S show ?thesis by (auto simp: vic_demo_ready_def)
qed

lemma pl192_ack_own:
  assumes "vics_ok S" and "i < length (vics S)"
    and "current_highest (vics S ! i) < 32" and "stack_i (vics S ! i) < 16"
  shows "\<exists>S1. pl192_irq_ack i S = Inr (address (vics S ! i), S1) \<and> vics_ok S1 \<and> i < length (vics S1)
    \<and> current (vics S1 ! i) = current_highest (vics S ! i)
    \<and> priority (vics S1 ! i) = vect_priority (vics S ! i) ! unat (current_highest (vics S ! i))
    \<and> stack_i (vics S1 ! i) = Suc (stack_i (vics S ! i))
    \<and> priority_stack (vics S1 ! i) ! stack_i (vics S ! i) = priority (vics S ! i)
    \<and> ucast (irq_stack (vics S1 ! i) ! stack_i (vics S ! i)) = current (vics S ! i)"
proof -
  let ?s = "vics S ! i"
  let ?h = "current_highest ?s"
  have ok: "vic_ok i ?s" using vics_okD [OF assms(1,2)] .
  have h: "unat ?h < 32" "?h \<noteq> PL192_DAISY_IRQ"
    using assms(3) by (auto simp: word_less_nat_alt PL192_DAISY_IRQ_def)
  obtain s1 where s1: "pl192_mask_priority (?s\<lparr>current := ?h\<rparr>) = Inr s1"
    and s1_fields: "current s1 = ?h" "priority s1 = vect_priority ?s ! unat ?h"
      "stack_i s1 = Suc (stack_i ?s)" "priority_stack s1 ! stack_i ?s = priority ?s"
      "ucast (irq_stack s1 ! stack_i ?s) = current ?s"
    using ok h assms(4) by (auto simp: pl192_mask_priority_def vic_ok_def vic_wf_def vic_stack_ok_def)
  define P where "P = vic_put i s1 S"
  have P: "vics_ok P" "i < length (vics P)" "vics P ! i = s1"
    using pl192_mask_priority_ok [OF ok s1] assms(1,2) by (simp_all add: P_def vics_ok_put_ok)
  have "pl192_irq_ack i S = Inr (address ?s, vic_settle i P)"
    using assms(2) h s1 vic_update_settle [OF P(1,2)]
    by (simp add: pl192_irq_ack_def Let_def vic_apply_def P_def)
  then show ?thesis
    using P s1_fields vic_cfg_fields [OF vic_settle_cfg_nth [OF P(2), of i]] by simp
qed

lemma pl192_fin_own:
  assumes ok: "vics_ok S" and i: "i < length (vics S)"
    and "current (vics S ! i) \<noteq> PL192_DAISY_IRQ" and m: "stack_i (vics S ! i) = Suc m"
  shows "\<exists>S2. pl192_irq_fin i S = Inr S2 \<and> stack_i (vics S2 ! i) = m
    \<and> priority (vics S2 ! i) = priority_stack (vics S ! i) ! m
    \<and> current (vics S2 ! i) = ucast (irq_stack (vics S ! i) ! m)"
proof -
  let ?s = "vics S ! i"
  have ok_i: "vic_ok i ?s" using vics_okD [OF ok i] .
  then obtain s2 where s2: "pl192_unmask_priority ?s = Inr s2" and s2_fields: "stack_i s2 = m"
      "priority s2 = priority_stack ?s ! m" "current s2 = ucast (irq_stack ?s ! m)"
    using m by (auto simp: pl192_unmask_priority_def vic_ok_def vic_stack_ok_def)
  define P where "P = vic_put i s2 S"
  have P: "vics_ok P" "i < length (vics P)" "vics P ! i = s2"
    using pl192_unmask_priority_ok [OF ok_i s2] ok i by (simp_all add: P_def vics_ok_put_ok)
  let ?Q = "vic_settle i P"
  obtain R where R: "vic_lower i ?Q = Inr R" "map vic_cfg (vics R) = map vic_cfg (vics ?Q)"
    using vic_lower_settle [of ?Q i] P by auto
  have cfg: "vic_cfg (vics T ! i) = vic_cfg s2" if "T = ?Q \<or> T = R" for T
    using that arg_cong [OF R(2), of "\<lambda>xs. xs ! i"] vic_settle_cfg_nth [OF P(2), of i] P
      map_eq_imp_length_eq [OF R(2)] by (auto simp del: vic_settle_cfg)
  have "pl192_irq_fin i S = Inr (if current (vics ?Q ! i) = PL192_NO_IRQ then R else ?Q)"
    using i assms(3) s2 R P vic_update_settle [OF P(1,2)]
    by (simp add: pl192_irq_fin_def Let_def vic_apply_def P_def)
  then show ?thesis
    using vic_cfg_fields [OF cfg] s2_fields by auto
qed

text \<open>
  Property C11.  Acknowledge and finish are inverse on the priority logic: when the interrupt to
  serve is one of the controller's own sources and a level of the 16-deep stack is free, reading
  \<^verbatim>\<open>VECTADDR\<close> returns the vector address and puts the source and its priority in service,
  and the following write to \<^verbatim>\<open>VECTADDR\<close> restores the source, priority and stack level that
  were in service before.
\<close>

theorem pl192_ack_fin_restores:
  assumes "vics_ok S" and "i < length (vics S)"
    and "current_highest (vics S ! i) < 32" and "stack_i (vics S ! i) < 16"
  shows "\<exists>S1 S2. pl192_read i 0xF00 S = Inr (address (vics S ! i), S1)
    \<and> current (vics S1 ! i) = current_highest (vics S ! i)
    \<and> priority (vics S1 ! i) = vect_priority (vics S ! i) ! unat (current_highest (vics S ! i))
    \<and> pl192_write i 0xF00 val S1 = Inr S2
    \<and> current (vics S2 ! i) = current (vics S ! i) \<and> priority (vics S2 ! i) = priority (vics S ! i)
    \<and> stack_i (vics S2 ! i) = stack_i (vics S ! i)"
proof -
  obtain S1 where S1: "pl192_irq_ack i S = Inr (address (vics S ! i), S1)" "vics_ok S1"
    "i < length (vics S1)" "current (vics S1 ! i) = current_highest (vics S ! i)"
    "priority (vics S1 ! i) = vect_priority (vics S ! i) ! unat (current_highest (vics S ! i))"
    "stack_i (vics S1 ! i) = Suc (stack_i (vics S ! i))"
    "priority_stack (vics S1 ! i) ! stack_i (vics S ! i) = priority (vics S ! i)"
    "ucast (irq_stack (vics S1 ! i) ! stack_i (vics S ! i)) = current (vics S ! i)"
    using pl192_ack_own [OF assms] by blast
  have "current (vics S1 ! i) \<noteq> PL192_DAISY_IRQ"
    using S1(4) assms(3) by (auto simp: PL192_DAISY_IRQ_def)
  from pl192_fin_own [OF S1(2,3) this S1(6)] S1 assms(2) show ?thesis
    by (auto simp: pl192_read_def pl192_write_def)
qed

theorem pl192_ack_fin_restores_witness:
  "\<exists>S1 S2. pl192_read 0 0xF00 \<lparr>vics = [vic_demo\<lparr>current_highest := 5\<rparr>], cpu = []\<rparr> = Inr (0, S1)
     \<and> current (vics S1 ! 0) = 5 \<and> pl192_write 0 0xF00 0 S1 = Inr S2 \<and> current (vics S2 ! 0) = 33"
proof -
  let ?S = "\<lparr>vics = [vic_demo\<lparr>current_highest := 5\<rparr>], cpu = []\<rparr> :: vic_sys"
  have ok: "vics_ok ?S"
    by (simp add: vics_ok_def vic_ok_def vic_stack_ok_def vic_demo_def pl192_init1_def pl192_reset_def
        vic_wf_def PL192_NO_IRQ_def)
  have "stack_i vic_demo = 0" "address vic_demo = 0" "current vic_demo = 33"
    by (simp_all add: vic_demo_def pl192_init1_def pl192_reset_def PL192_NO_IRQ_def)
  with pl192_ack_fin_restores [OF ok, of 0 0] show ?thesis by fastforce
qed

text \<open>
  Property C35.  Acknowledging an interrupt that came through the daisy chain reads outside the
  priority table: \<^verbatim>\<open>pl192_irq_ack\<close> masks the priority of the chained controller by its
  \<open>current\<close>, which nothing has set, so with no interrupt in service there the index is 33.
\<close>

theorem pl192_daisy_ack_out_of_bounds:
  assumes "vics_ok S" and "0 < length (vics S)" and "current_highest (vics S ! 0) = PL192_DAISY_IRQ"
    and "stack_i (vics S ! 0) < 16" and "daisy_callback (vics S ! 0) = Some j"
    and "0 < j" and "j < length (vics S)" and "current (vics S ! j) = PL192_NO_IRQ"
  shows "pl192_read 0 0xF00 S = Inl ArrayBounds"
proof -
  have ok: "vic_ok 0 (vics S ! 0)" "vic_ok j (vics S ! j)" using assms vics_okD by blast+
  let ?s = "(vics S ! 0)\<lparr>current := PL192_DAISY_IRQ\<rparr>"
  obtain s1 where s1: "pl192_mask_priority ?s = Inr s1"
    using ok(1) assms(4) by (simp add: pl192_mask_priority_def vic_ok_def vic_stack_ok_def)
  have "pl192_mask_priority (vics S ! j) = Inl ArrayBounds"
    using ok(2) assms(8)
    by (simp add: pl192_mask_priority_def vic_ok_def vic_wf_def vic_stack_ok_def
        PL192_NO_IRQ_def PL192_DAISY_IRQ_def)
  then show ?thesis
    using assms s1 by (simp add: pl192_read_def pl192_irq_ack_def vic_apply_def vic_apply_ptr_def)
qed

theorem pl192_daisy_ack_out_of_bounds_witness:
  "\<exists>S. rbind (rbind (pl192_board 1) (pl192_write 1 0x10 1)) (pl192_irq_handler 1 0 True) = Inr S
    \<and> irq_level (cpu S) (CpuIrq 0) \<and> pl192_read 0 0xF00 S = Inl ArrayBounds"
proof -
  let ?m = "rbind (rbind (pl192_board 1) (pl192_write 1 0x10 1)) (pl192_irq_handler 1 0 True)"
  have m: "(case ?m of Inl e \<Rightarrow> False | Inr S \<Rightarrow> irq_level (cpu S) (CpuIrq 0) \<and> length (vics S) = 2
      \<and> current_highest (vics S ! 0) = PL192_DAISY_IRQ \<and> stack_i (vics S ! 0) = 0
      \<and> daisy_callback (vics S ! 0) = Some 1 \<and> current (vics S ! 1) = PL192_NO_IRQ)"
    by code_simp
  then obtain S where S: "?m = Inr S" by (auto split: sum.splits)
  then obtain S0 S1 where S01: "pl192_board 1 = Inr S0" "pl192_write 1 0x10 1 S0 = Inr S1"
    "pl192_irq_handler 1 0 True S1 = Inr S" by (elim rbind_InrE)
  have "vics_ok S"
    using vic_reach_ok [OF vic_input [OF vic_write [OF vic_start [OF S01(1)] S01(2)] S01(3)]] by blast
  with S m pl192_daisy_ack_out_of_bounds [of S 1] show ?thesis by simp
qed

text \<open>
  A fast interrupt of a chained controller is lost: the update that raises the CPU
  FIQ for it goes on to update the controllers before it, and the first controller, which has
  no FIQ of its own, lowers the line again.
\<close>

lemma pl192_chained_fiq_lost:
  assumes "vics_ok S" and "i < length (vics S)"
    and "irq_status (pl192_status (vics S ! i)) = 0" and "\<not> daisy_input (vics S ! i)"
    and "fiq_status (pl192_status (vics S ! i)) \<noteq> 0"
    and "\<And>j. j < i \<Longrightarrow> vic_idle (vics S ! j)" and "fiq_status (pl192_status (vics S ! 0)) = 0"
  shows "\<exists>S'. vic_update i S = Inr S' \<and> \<not> irq_level (cpu S') (CpuFiq 0)"
  using vic_settle_quiet [OF assms(3,4,2,6)] vic_update_settle [OF assms(1,2)] assms(7) by simp

end
