(* ===== verification/Pl330_Queues.thy ===== *)
theory Pl330_Queues
  imports Cyclic_Queue "HOL-Library.Multiset"
begin

text \<open>
  The two data structures of the PL330 DMA controller (\<^verbatim>\<open>hw/pl330.c\<close>): the MFIFO, a cyclic
  buffer of tagged bytes between loads and stores, and the read and write queues, tables of
  pending transfers whose entries carry per-channel sequence numbers.
\<close>

section \<open>The MFIFO\<close>

datatype fifo_result = PL330_FIFO_OK | PL330_FIFO_STALL | PL330_FIFO_ERR

definition PL330_UNTAGGED :: u8 where "PL330_UNTAGGED = 0xff"

record pl330_fifo =
  buf :: "u8 list"
  tags :: "u8 list"
  fifo_s :: nat
  fifo_t :: nat
  buf_size :: nat

definition pl330_fifo_init :: "nat \<Rightarrow> pl330_fifo" where
  "pl330_fifo_init sz =
     \<lparr>buf = replicate sz 0, tags = replicate sz 0, fifo_s = 0, fifo_t = 0, buf_size = sz\<rparr>"

definition pl330_fifo_inc :: "nat \<Rightarrow> nat \<Rightarrow> nat" where
  "pl330_fifo_inc x sz = Suc x mod sz"

definition pl330_fifo_num_free :: "pl330_fifo \<Rightarrow> nat" where
  "pl330_fifo_num_free s =
     (if fifo_t s < fifo_s s then fifo_s s - fifo_t s else buf_size s - fifo_t s + fifo_s s)"

definition pl330_fifo_num_used :: "pl330_fifo \<Rightarrow> nat" where
  "pl330_fifo_num_used s =
     (if fifo_t s \<ge> fifo_s s then fifo_t s - fifo_s s else buf_size s - fifo_s s + fifo_t s)"

text \<open>
  One iteration of the loop of \<^verbatim>\<open>pl330_fifo_push\<close>, and the loop over the bytes still to be
  pushed; it stops at the first byte without room.
\<close>

definition fifo_put :: "u8 \<times> u8 \<Rightarrow> pl330_fifo \<Rightarrow> pl330_fifo res" where
  "fifo_put bt s =
     rbind (arr_set (buf s) (fifo_t s) (fst bt)) (\<lambda>b.
     rbind (arr_set (tags s) (fifo_t s) (snd bt)) (\<lambda>tg.
       Inr (s\<lparr>buf := b, tags := tg, fifo_t := pl330_fifo_inc (fifo_t s) (buf_size s)\<rparr>)))"

fun fifo_push_loop :: "u8 list \<Rightarrow> u8 \<Rightarrow> pl330_fifo \<Rightarrow> (fifo_result \<times> pl330_fifo) res" where
  "fifo_push_loop [] tg s = Inr (PL330_FIFO_OK, s)"
| "fifo_push_loop (b # bs) tg s =
     (if pl330_fifo_inc (fifo_t s) (buf_size s) \<noteq> fifo_s s
      then rbind (fifo_put (b, tg) s) (fifo_push_loop bs tg)
      else Inr (PL330_FIFO_STALL, s))"

definition pl330_fifo_push :: "pl330_fifo \<Rightarrow> u8 list \<Rightarrow> u8 \<Rightarrow> (fifo_result \<times> pl330_fifo) res" where
  "pl330_fifo_push s bs tg =
     rbind (fifo_push_loop bs tg s) (\<lambda>(r, s').
       Inr (r, if r = PL330_FIFO_STALL then s'\<lparr>fifo_s := fifo_s s, fifo_t := fifo_t s\<rparr> else s'))"

definition fifo_take :: "pl330_fifo \<Rightarrow> ((u8 \<times> u8) \<times> pl330_fifo) res" where
  "fifo_take s =
     rbind (arr_get (buf s) (fifo_s s)) (\<lambda>b.
     rbind (arr_get (tags s) (fifo_s s)) (\<lambda>tg.
       Inr ((b, tg), s\<lparr>fifo_s := pl330_fifo_inc (fifo_s s) (buf_size s)\<rparr>)))"

fun fifo_get_loop :: "nat \<Rightarrow> u8 \<Rightarrow> pl330_fifo \<Rightarrow> (fifo_result \<times> u8 list \<times> pl330_fifo) res" where
  "fifo_get_loop 0 tg s = Inr (PL330_FIFO_OK, [], s)"
| "fifo_get_loop (Suc k) tg s =
     (if fifo_t s = fifo_s s then Inr (PL330_FIFO_STALL, [], s)
      else rbind (fifo_take s) (\<lambda>((b, tg'), s').
        if tg' = tg
        then rbind (fifo_get_loop k tg s') (\<lambda>(r, bs, s''). Inr (r, b # bs, s''))
        else Inr (PL330_FIFO_ERR, [], s)))"

definition pl330_fifo_get :: "pl330_fifo \<Rightarrow> nat \<Rightarrow> u8 \<Rightarrow> (fifo_result \<times> u8 list \<times> pl330_fifo) res" where
  "pl330_fifo_get s len tg =
     rbind (fifo_get_loop len tg s) (\<lambda>(r, bs, s').
       Inr (r, bs, if r = PL330_FIFO_OK then s' else s'\<lparr>fifo_s := fifo_s s, fifo_t := fifo_t s\<rparr>))"

definition pl330_fifo_reset :: "pl330_fifo \<Rightarrow> pl330_fifo" where
  "pl330_fifo_reset s = s\<lparr>fifo_s := 0, fifo_t := 0\<rparr>"

definition pl330_fifo_tag :: "pl330_fifo \<Rightarrow> u8 res" where
  "pl330_fifo_tag s =
     (if fifo_t s = fifo_s s then Inr PL330_UNTAGGED else arr_get (tags s) (fifo_s s))"

text \<open>
  Two loops walk the ring from \<^verbatim>\<open>s\<close> until \<^verbatim>\<open>t\<close>.  The index stays below
  \<^verbatim>\<open>buf_size\<close>, so a walk that has not met \<^verbatim>\<open>t\<close> after \<^verbatim>\<open>buf_size\<close> steps never
  will: the loop does not end, which is \<open>OutOfFuel\<close> here.
\<close>

fun fifo_has_tag_loop :: "nat \<Rightarrow> nat \<Rightarrow> u8 \<Rightarrow> pl330_fifo \<Rightarrow> bool res" where
  "fifo_has_tag_loop n i tg s =
     (if i = fifo_t s then Inr False
      else (case n of 0 \<Rightarrow> Inl OutOfFuel
            | Suc n \<Rightarrow> rbind (arr_get (tags s) i) (\<lambda>x.
                if x = tg then Inr True
                else fifo_has_tag_loop n (pl330_fifo_inc i (buf_size s)) tg s)))"

definition pl330_fifo_has_tag :: "pl330_fifo \<Rightarrow> u8 \<Rightarrow> bool res" where
  "pl330_fifo_has_tag s tg = fifo_has_tag_loop (buf_size s) (fifo_s s) tg s"

fun fifo_remove_loop :: "nat \<Rightarrow> nat \<Rightarrow> nat \<Rightarrow> u8 \<Rightarrow> pl330_fifo \<Rightarrow> (nat \<times> pl330_fifo) res" where
  "fifo_remove_loop n i t tg s =
     (if i = fifo_t s then Inr (t, s)
      else (case n of 0 \<Rightarrow> Inl OutOfFuel
            | Suc n \<Rightarrow> rbind (arr_get (tags s) i) (\<lambda>x.
                if x \<noteq> tg then
                  rbind (arr_get (buf s) i) (\<lambda>b.
                  rbind (arr_set (buf s) t b) (\<lambda>bs.
                  rbind (arr_set (tags s) t x) (\<lambda>ts.
                    fifo_remove_loop n (pl330_fifo_inc i (buf_size s)) (Suc t) tg
                      (s\<lparr>buf := bs, tags := ts\<rparr>))))
                else fifo_remove_loop n (pl330_fifo_inc i (buf_size s)) t tg s)))"

definition pl330_fifo_tagged_remove :: "pl330_fifo \<Rightarrow> u8 \<Rightarrow> pl330_fifo res" where
  "pl330_fifo_tagged_remove s tg =
     rbind (fifo_remove_loop (buf_size s) (fifo_s s) (fifo_s s) tg s) (\<lambda>(t, s').
       Inr (s'\<lparr>fifo_t := t\<rparr>))"

section \<open>The read and write queues\<close>

record pl330_queue_entry =
  e_addr :: hwaddr
  e_len :: nat
  e_n :: int
  e_inc :: bool
  e_z :: bool
  e_tag :: u8
  e_seqn :: u8

text \<open>The table is as long as \<^verbatim>\<open>queue_size\<close> says.\<close>

record pl330_queue =
  queue :: "pl330_queue_entry list"
  lo_seqn :: "u8 list"
  hi_seqn :: "u8 list"

definition pl330_queue_reset :: "pl330_queue \<Rightarrow> pl330_queue" where
  "pl330_queue_reset s = s\<lparr>queue := map (\<lambda>e. e\<lparr>e_tag := PL330_UNTAGGED\<rparr>) (queue s)\<rparr>"

definition pl330_queue_init :: "nat \<Rightarrow> nat \<Rightarrow> pl330_queue" where
  "pl330_queue_init sz channum =
     \<lparr>queue = replicate sz \<lparr>e_addr = 0, e_len = 0, e_n = 0, e_inc = False, e_z = False, e_tag = 0, e_seqn = 0\<rparr>,
      lo_seqn = replicate channum 0, hi_seqn = replicate channum 0\<rparr>"

definition pl330_queue_find_empty :: "pl330_queue \<Rightarrow> nat option" where
  "pl330_queue_find_empty s =
     find (\<lambda>i. e_tag (queue s ! i) = PL330_UNTAGGED) [0..<length (queue s)]"

text \<open>The result is the flag the C function returns, true for a full queue.\<close>

definition pl330_insn_to_queue ::
    "pl330_queue \<Rightarrow> hwaddr \<Rightarrow> nat \<Rightarrow> int \<Rightarrow> bool \<Rightarrow> bool \<Rightarrow> u8 \<Rightarrow> (bool \<times> pl330_queue) res" where
  "pl330_insn_to_queue s a l k i zero tg =
     (case pl330_queue_find_empty s of
        None \<Rightarrow> Inr (True, s)
      | Some e \<Rightarrow>
          rbind (arr_get (hi_seqn s) (unat tg)) (\<lambda>h.
            Inr (False,
              s\<lparr>queue := (queue s)[e := \<lparr>e_addr = a, e_len = l, e_n = k, e_inc = i, e_z = zero, e_tag = tg, e_seqn = h\<rparr>],
                hi_seqn := (hi_seqn s)[unat tg := h + 1]\<rparr>)))"

fun queue_find_loop :: "nat list \<Rightarrow> pl330_queue \<Rightarrow> u8 \<Rightarrow> nat option res" where
  "queue_find_loop [] s tg = Inr None"
| "queue_find_loop (i # is) s tg =
     (let e = queue s ! i in
      if e_tag e \<noteq> PL330_UNTAGGED then
        rbind (arr_get (lo_seqn s) (unat (e_tag e))) (\<lambda>lo.
          if e_seqn e = lo \<and> (e_tag e = tg \<or> tg = PL330_UNTAGGED \<or> e_z e) then Inr (Some i)
          else queue_find_loop is s tg)
      else queue_find_loop is s tg)"

definition pl330_queue_find_insn :: "pl330_queue \<Rightarrow> u8 \<Rightarrow> nat option res" where
  "pl330_queue_find_insn s tg = queue_find_loop [0..<length (queue s)] s tg"

definition pl330_insn_from_queue :: "pl330_queue \<Rightarrow> nat \<Rightarrow> pl330_queue res" where
  "pl330_insn_from_queue s i =
     rbind (arr_get (queue s) i) (\<lambda>e.
     rbind (arr_get (lo_seqn s) (unat (e_tag e))) (\<lambda>lo.
       Inr (s\<lparr>lo_seqn := (lo_seqn s)[unat (e_tag e) := lo + 1],
              queue := (queue s)[i := e\<lparr>e_tag := PL330_UNTAGGED\<rparr>]\<rparr>)))"

definition pl330_tag_from_queue :: "pl330_queue \<Rightarrow> u8 \<Rightarrow> pl330_queue" where
  "pl330_tag_from_queue s tg =
     s\<lparr>queue := map (\<lambda>e. if e_tag e = tg then e\<lparr>e_tag := PL330_UNTAGGED\<rparr> else e) (queue s)\<rparr>"

declare fifo_has_tag_loop.simps [simp del] fifo_remove_loop.simps [simp del]

section \<open>The MFIFO is a bounded queue of tagged bytes\<close>

definition fifo_invar :: "pl330_fifo \<Rightarrow> bool" where
  "fifo_invar s \<longleftrightarrow> length (buf s) = buf_size s \<and> length (tags s) = buf_size s
     \<and> fifo_s s < buf_size s \<and> fifo_t s < buf_size s"

definition fifo_cells :: "pl330_fifo \<Rightarrow> (u8 \<times> u8) list" where
  "fifo_cells s = zip (buf s) (tags s)"

definition fifo_contents :: "pl330_fifo \<Rightarrow> (u8 \<times> u8) list" where
  "fifo_contents s = ring_list (fifo_cells s) (fifo_s s) (fifo_t s)"

definition fifo_capacity :: "pl330_fifo \<Rightarrow> nat" where
  "fifo_capacity s = buf_size s - 1"

lemma fifo_cells_length: "fifo_invar s \<Longrightarrow> length (fifo_cells s) = buf_size s"
  by (simp add: fifo_invar_def fifo_cells_def)

lemma fifo_contents_length: "fifo_invar s \<Longrightarrow>
    length (fifo_contents s) = ring_count (buf_size s) (fifo_s s) (fifo_t s)"
  by (simp add: fifo_contents_def fifo_cells_length)

lemma fifo_room:
  assumes "fifo_invar s"
  shows "length (fifo_contents s) < fifo_capacity s \<longleftrightarrow> pl330_fifo_inc (fifo_t s) (buf_size s) \<noteq> fifo_s s"
    and "length (fifo_contents s) \<le> fifo_capacity s"
  using assms ring_full [of "fifo_s s" "buf_size s" "fifo_t s"]
    ring_count_less [of "fifo_s s" "buf_size s" "fifo_t s"]
  by (auto simp: fifo_contents_length pl330_fifo_inc_def fifo_invar_def fifo_capacity_def)

lemma fifo_put_ok:
  assumes inv: "fifo_invar s" and "length (fifo_contents s) < fifo_capacity s"
  shows "\<exists>s'. fifo_put x s = Inr s' \<and> fifo_invar s' \<and> fifo_contents s' = fifo_contents s @ [x]
    \<and> fifo_capacity s' = fifo_capacity s"
proof -
  let ?t = "Suc (fifo_t s) mod buf_size s"
  have "?t \<noteq> fifo_s s" using fifo_room(1) [OF inv] assms(2) by (simp add: pl330_fifo_inc_def)
  moreover have "zip ((buf s)[fifo_t s := fst x]) ((tags s)[fifo_t s := snd x])
      = (fifo_cells s)[fifo_t s := x]"
    by (simp add: fifo_cells_def zip_update)
  ultimately show ?thesis
    using inv ring_list_push [of "fifo_s s" "fifo_cells s" "fifo_t s" x]
    by (auto simp: fifo_put_def fifo_invar_def fifo_contents_def fifo_capacity_def fifo_cells_def
        pl330_fifo_inc_def)
qed

lemma fifo_take_ok:
  assumes inv: "fifo_invar s" and xs: "fifo_contents s = x # xs"
  shows "\<exists>s'. fifo_take s = Inr (x, s') \<and> fifo_invar s' \<and> fifo_contents s' = xs
    \<and> fifo_capacity s' = fifo_capacity s"
proof -
  have ne: "fifo_s s \<noteq> fifo_t s" using xs by (auto simp: fifo_contents_def)
  have "x # xs = fifo_cells s ! fifo_s s # ring_list (fifo_cells s) (Suc (fifo_s s) mod buf_size s) (fifo_t s)"
    using ring_list_pop [OF _ _ ne, of "fifo_cells s"] inv xs fifo_cells_length [OF inv]
    by (simp add: fifo_contents_def fifo_invar_def)
  then show ?thesis
    using inv by (auto simp: fifo_take_def fifo_invar_def fifo_contents_def fifo_capacity_def
        fifo_cells_def pl330_fifo_inc_def)
qed

interpretation mf: byte_fifo fifo_invar fifo_capacity fifo_contents fifo_put fifo_take
  by unfold_locales (blast intro: fifo_put_ok fifo_take_ok)+

text \<open>The cells up to an earlier write index are a prefix of the contents.\<close>

lemma ring_list_prefix:
  "ring_count (length xs) s t \<le> ring_count (length xs) s t' \<Longrightarrow>
   ring_list xs s t = take (ring_count (length xs) s t) (ring_list xs s t')"
  by (simp add: ring_list_def take_map)

lemma fifo_put_fields:
  "fifo_put x s = Inr s' \<Longrightarrow> fifo_s s' = fifo_s s \<and> buf_size s' = buf_size s"
  by (auto simp: fifo_put_def rbind_eq_Inr)

lemma fifo_push_loop_ok:
  assumes "fifo_invar s"
  shows "\<exists>s' bs'. fifo_push_loop bs tg s =
      Inr (if length (fifo_contents s) + length bs \<le> fifo_capacity s
           then PL330_FIFO_OK else PL330_FIFO_STALL, s')
    \<and> fifo_invar s' \<and> fifo_s s' = fifo_s s \<and> buf_size s' = buf_size s
    \<and> fifo_contents s' = fifo_contents s @ bs'
    \<and> (length (fifo_contents s) + length bs \<le> fifo_capacity s \<longrightarrow> bs' = map (\<lambda>b. (b, tg)) bs)"
  using assms
proof (induction bs tg s rule: fifo_push_loop.induct)
  case (1 tg s)
  then show ?case using fifo_room(2) by auto
next
  case (2 b bs tg s)
  show ?case
  proof (cases "length (fifo_contents s) < fifo_capacity s")
    case False
    then show ?thesis using 2 fifo_room(1) [OF "2.prems"] by auto
  next
    case True
    then have room: "pl330_fifo_inc (fifo_t s) (buf_size s) \<noteq> fifo_s s"
      using fifo_room(1) [OF "2.prems"] by simp
    obtain s1 where s1: "fifo_put (b, tg) s = Inr s1" "fifo_invar s1"
      "fifo_contents s1 = fifo_contents s @ [(b, tg)]" "fifo_capacity s1 = fifo_capacity s"
      using fifo_put_ok [OF "2.prems" True] by blast
    from "2.IH" [OF room s1(1,2)] obtain s' bs' where
      "fifo_push_loop bs tg s1 =
        Inr (if length (fifo_contents s1) + length bs \<le> fifo_capacity s1
             then PL330_FIFO_OK else PL330_FIFO_STALL, s')"
      "fifo_invar s'" "fifo_s s' = fifo_s s1" "buf_size s' = buf_size s1"
      "fifo_contents s' = fifo_contents s1 @ bs'"
      "length (fifo_contents s1) + length bs \<le> fifo_capacity s1 \<longrightarrow> bs' = map (\<lambda>b. (b, tg)) bs"
      by blast
    then show ?thesis
      using s1 room fifo_put_fields [OF s1(1)] by (intro exI [of _ s'] exI [of _ "(b, tg) # bs'"]) auto
  qed
qed

lemma pl330_fifo_push_ok:
  assumes inv: "fifo_invar s"
  shows "\<exists>s'. pl330_fifo_push s bs tg =
      Inr (if length (fifo_contents s) + length bs \<le> fifo_capacity s
           then PL330_FIFO_OK else PL330_FIFO_STALL, s')
    \<and> fifo_invar s' \<and> buf_size s' = buf_size s
    \<and> fifo_contents s' = (if length (fifo_contents s) + length bs \<le> fifo_capacity s
        then fifo_contents s @ map (\<lambda>b. (b, tg)) bs else fifo_contents s)"
proof -
  let ?ok = "length (fifo_contents s) + length bs \<le> fifo_capacity s"
  obtain s' bs' where s': "fifo_push_loop bs tg s = Inr (if ?ok then PL330_FIFO_OK else PL330_FIFO_STALL, s')"
    "fifo_invar s'" "fifo_s s' = fifo_s s" "buf_size s' = buf_size s"
    "fifo_contents s' = fifo_contents s @ bs'" "?ok \<longrightarrow> bs' = map (\<lambda>b. (b, tg)) bs"
    using fifo_push_loop_ok [OF inv] by blast
  let ?r = "s'\<lparr>fifo_s := fifo_s s, fifo_t := fifo_t s\<rparr>"
  have inv': "fifo_invar ?r" using inv s'(2,4) by (simp add: fifo_invar_def)
  have "fifo_contents ?r = take (length (fifo_contents s)) (fifo_contents s')"
    using s' fifo_contents_length [OF inv] fifo_contents_length [OF s'(2)]
      ring_list_prefix [of "fifo_cells s'" "fifo_s s" "fifo_t s" "fifo_t s'"] fifo_cells_length [OF s'(2)]
    by (simp add: fifo_contents_def fifo_cells_def)
  then show ?thesis using s' inv' by (auto simp: pl330_fifo_push_def)
qed

lemma fifo_take_fields:
  "fifo_take s = Inr (x, s') \<Longrightarrow> s' = s\<lparr>fifo_s := pl330_fifo_inc (fifo_s s) (buf_size s)\<rparr>"
  by (auto simp: fifo_take_def rbind_eq_Inr)

lemma fifo_empty_iff:
  assumes "fifo_invar s" shows "fifo_contents s = [] \<longleftrightarrow> fifo_t s = fifo_s s"
proof -
  have "fifo_contents s = [] \<longleftrightarrow> ring_count (buf_size s) (fifo_s s) (fifo_t s) = 0"
    by (simp flip: fifo_contents_length [OF assms])
  also have "... \<longleftrightarrow> fifo_s s = fifo_t s"
    using assms by (intro ring_count_eq_0) (simp_all add: fifo_invar_def)
  finally show ?thesis by auto
qed

text \<open>The longest prefix of bytes that carry one tag.\<close>

definition fifo_run :: "u8 \<Rightarrow> pl330_fifo \<Rightarrow> u8 list" where
  "fifo_run tg s = map fst (takeWhile (\<lambda>x. snd x = tg) (fifo_contents s))"

definition fifo_get_result :: "nat \<Rightarrow> u8 \<Rightarrow> pl330_fifo \<Rightarrow> fifo_result" where
  "fifo_get_result k tg s =
     (if k \<le> length (fifo_run tg s) then PL330_FIFO_OK
      else if length (fifo_run tg s) = length (fifo_contents s) then PL330_FIFO_STALL
      else PL330_FIFO_ERR)"

lemma fifo_get_loop_ok:
  assumes "fifo_invar s"
  shows "\<exists>i. fifo_get_loop k tg s =
      Inr (fifo_get_result k tg s, take k (fifo_run tg s), s\<lparr>fifo_s := i\<rparr>)
    \<and> fifo_invar (s\<lparr>fifo_s := i\<rparr>)
    \<and> fifo_contents (s\<lparr>fifo_s := i\<rparr>) = drop (min k (length (fifo_run tg s))) (fifo_contents s)"
  using assms
proof (induction k arbitrary: s)
  case 0
  then show ?case by (intro exI [of _ "fifo_s s"]) (simp add: fifo_get_result_def)
next
  case (Suc k)
  show ?case
  proof (cases "fifo_contents s")
    case Nil
    then show ?thesis
      using Suc.prems fifo_empty_iff [OF Suc.prems]
      by (intro exI [of _ "fifo_s s"]) (simp add: fifo_get_result_def fifo_run_def)
  next
    case (Cons x xs)
    then obtain s1 where s1: "fifo_take s = Inr (x, s1)" "fifo_invar s1" "fifo_contents s1 = xs"
      using fifo_take_ok [OF Suc.prems] by blast
    note s1_eq = fifo_take_fields [OF s1(1)]
    have ne: "fifo_t s \<noteq> fifo_s s" using fifo_empty_iff [OF Suc.prems] Cons by simp
    show ?thesis
    proof (cases "snd x = tg")
      case False
      then show ?thesis using Cons s1 ne Suc.prems
        by (intro exI [of _ "fifo_s s"]) (cases x, simp add: fifo_get_result_def fifo_run_def)
    next
      case True
      then have run: "fifo_run tg s = fst x # fifo_run tg s1"
        by (simp add: fifo_run_def Cons s1(3))
      then have "fifo_get_result (Suc k) tg s = fifo_get_result k tg s1"
        by (simp add: fifo_get_result_def Cons s1(3))
      with Suc.IH [OF s1(2)] True show ?thesis
        using s1 ne Cons by (cases x) (auto simp: run s1_eq)
    qed
  qed
qed

lemma pl330_fifo_get_ok:
  assumes inv: "fifo_invar s"
  shows "\<exists>s'. pl330_fifo_get s k tg = Inr (fifo_get_result k tg s, take k (fifo_run tg s), s')
    \<and> fifo_invar s' \<and> buf_size s' = buf_size s
    \<and> (if fifo_get_result k tg s = PL330_FIFO_OK then fifo_contents s' = drop k (fifo_contents s) else s' = s)"
proof -
  obtain i where i: "fifo_get_loop k tg s =
      Inr (fifo_get_result k tg s, take k (fifo_run tg s), s\<lparr>fifo_s := i\<rparr>)"
    "fifo_invar (s\<lparr>fifo_s := i\<rparr>)"
    "fifo_contents (s\<lparr>fifo_s := i\<rparr>) = drop (min k (length (fifo_run tg s))) (fifo_contents s)"
    using fifo_get_loop_ok [OF inv] by blast
  have "k \<le> length (fifo_run tg s)" if "fifo_get_result k tg s = PL330_FIFO_OK"
    using that by (auto simp: fifo_get_result_def split: if_splits)
  with i inv show ?thesis by (auto simp: pl330_fifo_get_def min_absorb1)
qed

lemma fifo_has_tag_loop_ok:
  assumes "length (tags s) = buf_size s" "length (buf s) = buf_size s" "i < buf_size s"
    "fifo_t s < buf_size s" "ring_count (buf_size s) i (fifo_t s) \<le> m"
  shows "fifo_has_tag_loop m i tg s = Inr (\<exists>x \<in> set (ring_list (fifo_cells s) i (fifo_t s)). snd x = tg)"
  using assms
proof (induction m arbitrary: i)
  case 0
  then have "i = fifo_t s" using ring_count_eq_0 [of i "buf_size s" "fifo_t s"] by auto
  then show ?case by (simp add: fifo_has_tag_loop.simps)
next
  case (Suc m)
  show ?case
  proof (cases "i = fifo_t s")
    case True
    then show ?thesis by (simp add: fifo_has_tag_loop.simps)
  next
    case False
    let ?i = "pl330_fifo_inc i (buf_size s)"
    have len: "length (fifo_cells s) = buf_size s" using Suc.prems by (simp add: fifo_cells_def)
    have "ring_count (buf_size s) i (fifo_t s) = Suc (ring_count (buf_size s) ?i (fifo_t s))"
      using ring_count_pop [of i _ "fifo_t s"] Suc.prems False by (simp add: pl330_fifo_inc_def)
    then have "fifo_has_tag_loop m ?i tg s
      = Inr (\<exists>x \<in> set (ring_list (fifo_cells s) ?i (fifo_t s)). snd x = tg)"
      using Suc.prems by (intro Suc.IH) (auto simp: pl330_fifo_inc_def)
    moreover have "ring_list (fifo_cells s) i (fifo_t s)
        = fifo_cells s ! i # ring_list (fifo_cells s) ?i (fifo_t s)"
      using ring_list_pop [of i "fifo_cells s" "fifo_t s"] Suc.prems False len
      by (simp add: pl330_fifo_inc_def)
    moreover have "snd (fifo_cells s ! i) = tags s ! i" using Suc.prems by (simp add: fifo_cells_def)
    ultimately show ?thesis
      using False Suc.prems by (auto simp: fifo_has_tag_loop.simps [of "Suc m"])
  qed
qed

lemma pl330_fifo_has_tag_ok:
  assumes "fifo_invar s"
  shows "pl330_fifo_has_tag s tg = Inr (\<exists>x \<in> set (fifo_contents s). snd x = tg)"
  unfolding pl330_fifo_has_tag_def fifo_contents_def
  using assms ring_count_less [of "fifo_s s" "buf_size s" "fifo_t s"]
  by (intro fifo_has_tag_loop_ok) (auto simp: fifo_invar_def)

text \<open>
  The compaction loop of \<^verbatim>\<open>pl330_fifo_tagged_remove\<close>.  The target index \<open>t\<close> is not wrapped
  around: with \<open>j\<close> bytes visited it is at most \<open>j\<close> cells after the start, so the bytes still to
  be visited are intact as long as it stays inside the buffer.
\<close>

lemma ring_list_nth:
  "i < ring_count (length xs) s t \<Longrightarrow> ring_list xs s t ! i = xs ! ((s + i) mod length xs)"
  by (simp add: ring_list_def)

lemma ring_list_drop_update:
  assumes "s < length xs" "t' < length xs" "s \<le> t" "t \<le> s + j"
  shows "drop (Suc j) (ring_list (xs[t := x]) s t') = drop (Suc j) (ring_list xs s t')"
proof -
  have "(s + m) mod length xs \<noteq> t" if "Suc j \<le> m" "m < ring_count (length xs) s t'" for m
  proof -
    have "m < length xs" using that ring_count_less [OF assms(1,2)] by simp
    then show ?thesis using that assms by (auto simp: mod_if split: if_splits)
  qed
  then have "drop (Suc j) (ring_list (xs[t := x]) s t') ! i = drop (Suc j) (ring_list xs s t') ! i"
    if "i < ring_count (length xs) s t' - Suc j" for i
    using that by (simp add: ring_list_nth) (metis add_Suc_right le_add1 less_diff_conv add.commute add_Suc
        nth_list_update_neq)
  then show ?thesis by (intro nth_equalityI) simp_all
qed

definition fifo_move :: "nat \<Rightarrow> u8 \<times> u8 \<Rightarrow> pl330_fifo \<Rightarrow> pl330_fifo" where
  "fifo_move t x s = s\<lparr>buf := (buf s)[t := fst x], tags := (tags s)[t := snd x]\<rparr>"

lemma fifo_move_simps [simp]:
  "fifo_s (fifo_move t x s) = fifo_s s" "fifo_t (fifo_move t x s) = fifo_t s"
  "buf_size (fifo_move t x s) = buf_size s" "fifo_invar (fifo_move t x s) = fifo_invar s"
  "fifo_cells (fifo_move t x s) = (fifo_cells s)[t := x]"
  by (simp_all add: fifo_move_def fifo_invar_def fifo_cells_def zip_update)

lemma fifo_remove_step:
  assumes inv: "fifo_invar s" and j: "j < length (fifo_contents s)"
  defines "x \<equiv> fifo_contents s ! j"
  shows "fifo_remove_loop (Suc m) ((fifo_s s + j) mod buf_size s) t tg s =
    (if snd x = tg then fifo_remove_loop m ((fifo_s s + Suc j) mod buf_size s) t tg s
     else if t < buf_size s
     then fifo_remove_loop m ((fifo_s s + Suc j) mod buf_size s) (Suc t) tg (fifo_move t x s)
     else Inl ArrayBounds)"
proof -
  let ?i = "(fifo_s s + j) mod buf_size s"
  note len = fifo_contents_length [OF inv] fifo_cells_length [OF inv]
  have ne: "?i \<noteq> fifo_t s"
    using ring_index_neq [of "fifo_s s" _ "fifo_t s" j] inv j len by (simp add: fifo_invar_def)
  have i: "?i < buf_size s" "pl330_fifo_inc ?i (buf_size s) = (fifo_s s + Suc j) mod buf_size s"
    using inv by (auto simp: fifo_invar_def pl330_fifo_inc_def mod_Suc_eq)
  have "x = fifo_cells s ! ?i"
    using j len by (simp add: x_def fifo_contents_def ring_list_nth)
  also have "... = (buf s ! ?i, tags s ! ?i)"
    using i(1) inv by (simp add: fifo_cells_def fifo_invar_def)
  finally show ?thesis
    using ne i inv by (auto simp: fifo_remove_loop.simps [of "Suc m"] fifo_invar_def fifo_move_def)
qed

lemma fifo_remove_done:
  assumes "fifo_invar s"
  shows "fifo_remove_loop m ((fifo_s s + length (fifo_contents s)) mod buf_size s) t tg s = Inr (t, s)"
  using assms ring_last_index [of "fifo_s s" "buf_size s" "fifo_t s"]
  by (subst fifo_remove_loop.simps) (simp add: fifo_invar_def fifo_contents_length)

lemma fifo_move_drop:
  assumes "fifo_invar s" "fifo_s s \<le> t" "t \<le> fifo_s s + j"
  shows "drop (Suc j) (fifo_contents (fifo_move t x s)) = drop (Suc j) (fifo_contents s)"
  using ring_list_drop_update [of "fifo_s s" "fifo_cells s" "fifo_t s" t j] assms fifo_cells_length [OF assms(1)]
  by (simp add: fifo_contents_def fifo_invar_def)

lemma fifo_remove_loop_ok:
  assumes "fifo_invar s" and "fifo_s s \<le> t" "t \<le> fifo_s s + j" and "j \<le> length (fifo_contents s)"
    and "length (fifo_contents s) - j \<le> m"
    and "ys = filter (\<lambda>x. snd x \<noteq> tg) (drop j (fifo_contents s))"
    and "t + length ys \<le> buf_size s"
  shows "\<exists>s'. fifo_remove_loop m ((fifo_s s + j) mod buf_size s) t tg s = Inr (t + length ys, s')
    \<and> fifo_invar s' \<and> fifo_s s' = fifo_s s \<and> fifo_t s' = fifo_t s \<and> buf_size s' = buf_size s
    \<and> take (t + length ys) (fifo_cells s') = take t (fifo_cells s) @ ys"
  using assms
proof (induction m arbitrary: s t j ys)
  case 0
  then show ?case using fifo_remove_done [of s 0] by simp
next
  case (Suc m)
  show ?case
  proof (cases "j = length (fifo_contents s)")
    case True
    then show ?thesis using Suc.prems fifo_remove_done [of s] by simp
  next
    case False
    let ?x = "fifo_contents s ! j"
    have j: "j < length (fifo_contents s)" using Suc.prems False by simp
    then have x: "drop j (fifo_contents s) = ?x # drop (Suc j) (fifo_contents s)"
      by (simp add: Cons_nth_drop_Suc)
    note step = fifo_remove_step [OF Suc.prems(1) j, of m t tg]
    show ?thesis
    proof (cases "snd ?x = tg")
      case True
      with Suc.IH [OF Suc.prems(1,2), of "Suc j" ys] show ?thesis
        using Suc.prems x step j by simp
    next
      case False
      let ?s = "fifo_move t ?x s"
      obtain ys' where ys: "ys = ?x # ys'" "ys' = filter (\<lambda>x. snd x \<noteq> tg) (drop (Suc j) (fifo_contents s))"
        using False Suc.prems(6) x by simp
      have len: "length (fifo_contents ?s) = length (fifo_contents s)"
        using Suc.prems(1) by (simp add: fifo_contents_length)
      have t: "t < buf_size s" using ys Suc.prems(7) by simp
      then have "take (Suc t) (fifo_cells ?s) = take t (fifo_cells s) @ [?x]"
        using fifo_cells_length [OF Suc.prems(1)] by (simp add: take_Suc_conv_app_nth)
      with Suc.IH [of ?s "Suc t" "Suc j" ys'] show ?thesis
        using step False t ys len fifo_move_drop [OF Suc.prems(1-3), of ?x] Suc.prems j by auto
    qed
  qed
qed

lemma fifo_remove_loop_overrun:
  assumes "fifo_invar s" and "fifo_s s \<le> t" "t \<le> fifo_s s + j" and "j \<le> length (fifo_contents s)"
    and "length (fifo_contents s) - j \<le> m" and "t \<le> buf_size s"
    and "buf_size s < t + length (filter (\<lambda>x. snd x \<noteq> tg) (drop j (fifo_contents s)))"
  shows "fifo_remove_loop m ((fifo_s s + j) mod buf_size s) t tg s = Inl ArrayBounds"
  using assms
proof (induction m arbitrary: s t j)
  case 0
  then show ?case by simp
next
  case (Suc m)
  let ?x = "fifo_contents s ! j"
  have j: "j < length (fifo_contents s)" using Suc.prems by (cases "j = length (fifo_contents s)") auto
  then have x: "drop j (fifo_contents s) = ?x # drop (Suc j) (fifo_contents s)"
    by (simp add: Cons_nth_drop_Suc)
  note step = fifo_remove_step [OF Suc.prems(1) j, of m t tg]
  show ?case
  proof (cases "snd ?x = tg")
    case True
    with Suc.IH [OF Suc.prems(1,2), of "Suc j"] show ?thesis using Suc.prems x step j by simp
  next
    case False
    let ?s = "fifo_move t ?x s"
    have "length (fifo_contents ?s) = length (fifo_contents s)"
      using Suc.prems(1) by (simp add: fifo_contents_length)
    with Suc.IH [of ?s "Suc t" "Suc j"] show ?thesis
      using step False x fifo_move_drop [OF Suc.prems(1-3), of ?x] Suc.prems j by auto
  qed
qed

lemma pl330_fifo_tagged_remove_ok:
  fixes tg :: u8
  assumes inv: "fifo_invar s"
  defines "ys \<equiv> filter (\<lambda>x. snd x \<noteq> tg) (fifo_contents s)"
  shows "fifo_s s + length ys < buf_size s \<Longrightarrow> \<exists>s'. pl330_fifo_tagged_remove s tg = Inr s'
      \<and> fifo_invar s' \<and> buf_size s' = buf_size s \<and> fifo_contents s' = ys"
    and "fifo_s s + length ys = buf_size s \<Longrightarrow> \<exists>s'. pl330_fifo_tagged_remove s tg = Inr s'
      \<and> fifo_t s' = buf_size s'"
    and "buf_size s < fifo_s s + length ys \<Longrightarrow> pl330_fifo_tagged_remove s tg = Inl ArrayBounds"
proof -
  have small: "fifo_s s < buf_size s" "length (fifo_contents s) \<le> buf_size s"
    using inv fifo_room(2) [OF inv] by (auto simp: fifo_invar_def fifo_capacity_def)
  have loop: "\<exists>s'. fifo_remove_loop (buf_size s) (fifo_s s) (fifo_s s) tg s = Inr (fifo_s s + length ys, s')
    \<and> fifo_invar s' \<and> fifo_s s' = fifo_s s \<and> buf_size s' = buf_size s
    \<and> take (fifo_s s + length ys) (fifo_cells s') = take (fifo_s s) (fifo_cells s) @ ys"
    if "fifo_s s + length ys \<le> buf_size s"
    using fifo_remove_loop_ok [OF inv, of "fifo_s s" 0 "buf_size s" ys tg] that small by (auto simp: ys_def)
  show "buf_size s < fifo_s s + length ys \<Longrightarrow> pl330_fifo_tagged_remove s tg = Inl ArrayBounds"
    using fifo_remove_loop_overrun [OF inv, of "fifo_s s" 0 "buf_size s" tg] small
    by (simp add: pl330_fifo_tagged_remove_def ys_def)
  show "\<exists>s'. pl330_fifo_tagged_remove s tg = Inr s' \<and> fifo_t s' = buf_size s'"
    if "fifo_s s + length ys = buf_size s"
    using loop that by (auto simp: pl330_fifo_tagged_remove_def)
  assume lt: "fifo_s s + length ys < buf_size s"
  then obtain s' where s': "fifo_remove_loop (buf_size s) (fifo_s s) (fifo_s s) tg s = Inr (fifo_s s + length ys, s')"
    "fifo_invar s'" "fifo_s s' = fifo_s s" "buf_size s' = buf_size s"
    "take (fifo_s s + length ys) (fifo_cells s') = take (fifo_s s) (fifo_cells s) @ ys"
    using loop by auto
  let ?r = "s'\<lparr>fifo_t := fifo_s s + length ys\<rparr>"
  have r: "fifo_invar ?r" using s' lt by (simp add: fifo_invar_def)
  have "fifo_contents ?r ! k = ys ! k" if "k < length ys" for k
  proof -
    have "fifo_cells ?r = fifo_cells s'" by (simp add: fifo_cells_def)
    then have "fifo_contents ?r ! k = fifo_cells s' ! (fifo_s s + k)"
      using that lt s'(3,4) fifo_cells_length [OF s'(2)]
      by (simp add: fifo_contents_def ring_list_nth ring_count_def)
    also have "... = take (fifo_s s + length ys) (fifo_cells s') ! (fifo_s s + k)"
      using that by simp
    finally have "fifo_contents ?r ! k = take (fifo_s s + length ys) (fifo_cells s') ! (fifo_s s + k)" .
    then show ?thesis using s'(5) fifo_cells_length [OF inv] small by (simp add: nth_append)
  qed
  moreover have "length (fifo_contents ?r) = length ys"
    using fifo_contents_length [OF r] s'(3,4) by (simp add: ring_count_def)
  ultimately have "fifo_contents ?r = ys" by (intro nth_equalityI) simp_all
  with s' r show "\<exists>s'. pl330_fifo_tagged_remove s tg = Inr s'
      \<and> fifo_invar s' \<and> buf_size s' = buf_size s \<and> fifo_contents s' = ys"
    by (auto simp: pl330_fifo_tagged_remove_def)
qed

section \<open>The read and write queues keep the order of each channel\<close>

text \<open>
  \<open>queue_ok q N\<close>: the shape of a queue that serves the tags below \<open>N\<close>.  \<open>queue_rep q tg es\<close>: the
  entries of channel \<open>tg\<close>, wherever they are in the table, are \<open>es\<close>, with the sequence numbers from
  \<open>lo_seqn\<close> to \<open>hi_seqn - 1\<close> in the order of \<open>es\<close>.
\<close>

definition queue_ok :: "pl330_queue \<Rightarrow> nat \<Rightarrow> bool" where
  "queue_ok q N \<longleftrightarrow> length (lo_seqn q) = N \<and> length (hi_seqn q) = N \<and> N \<le> 255
     \<and> length (queue q) \<le> 16
     \<and> (\<forall>e \<in> set (queue q). e_tag e = PL330_UNTAGGED \<or> unat (e_tag e) < N)"

definition queue_rep :: "pl330_queue \<Rightarrow> u8 \<Rightarrow> pl330_queue_entry list \<Rightarrow> bool" where
  "queue_rep q tg es \<longleftrightarrow>
     unat (hi_seqn q ! unat tg - lo_seqn q ! unat tg) = length es
     \<and> (\<forall>k < length es. e_seqn (es ! k) = lo_seqn q ! unat tg + of_nat k)
     \<and> filter_mset (\<lambda>e. e_tag e = tg) (mset (queue q)) = mset es"

lemma queue_rep_set: "queue_rep q tg es \<Longrightarrow> e \<in> set es \<longleftrightarrow> e \<in> set (queue q) \<and> e_tag e = tg"
  unfolding queue_rep_def
  by (metis (mono_tags, lifting) mem_Collect_eq set_mset_filter set_mset_mset)

lemma queue_rep_length: "queue_rep q tg es \<Longrightarrow> length es \<le> length (queue q)"
  unfolding queue_rep_def by (metis size_filter_mset_lesseq size_mset)

lemma untagged_not_below: "unat tg < N \<Longrightarrow> N \<le> 255 \<Longrightarrow> tg \<noteq> PL330_UNTAGGED"
  by (auto simp: PL330_UNTAGGED_def)

lemma u8_Suc:
  assumes "unat (h - l :: u8) = k" and "k < 255"
  shows "unat (h + 1 - l) = Suc k" and "l + of_nat k = h"
proof -
  have "h + 1 - l = (h - l) + 1" by simp
  also have "unat ((h - l) + 1) = Suc k"
    using assms by (simp add: unat_word_ariths)
  finally show "unat (h + 1 - l) = Suc k" .
  have "(of_nat k :: u8) = h - l" using assms(1) by auto
  then show "l + of_nat k = h" by simp
qed

lemma filter_mset_update:
  assumes "i < length xs"
  shows "filter_mset P (mset (xs[i := x])) =
    (if P x then {#x#} else {#}) + (filter_mset P (mset xs) - (if P (xs ! i) then {#xs ! i#} else {#}))"
  using assms by (simp add: mset_update)

lemma pl330_insn_to_queue_ok:
  fixes a :: hwaddr and l :: nat and k :: int and i zero :: bool and tg :: u8
  assumes ok: "queue_ok q N" and tg: "unat tg < N" and e: "pl330_queue_find_empty q = Some e"
  defines "x \<equiv> \<lparr>e_addr = a, e_len = l, e_n = k, e_inc = i, e_z = zero, e_tag = tg,
    e_seqn = hi_seqn q ! unat tg\<rparr>"
  shows "\<exists>q'. pl330_insn_to_queue q a l k i zero tg = Inr (False, q') \<and> queue_ok q' N
    \<and> (\<forall>es. queue_rep q tg es \<longrightarrow> queue_rep q' tg (es @ [x]))
    \<and> (\<forall>tg' es. tg' \<noteq> tg \<and> unat tg' < N \<and> queue_rep q tg' es \<longrightarrow> queue_rep q' tg' es)"
proof -
  have e': "e < length (queue q)" "e_tag (queue q ! e) = PL330_UNTAGGED"
    using e by (auto simp: pl330_queue_find_empty_def find_Some_iff)
  note unt = untagged_not_below [OF tg]
  define q' where "q' = q\<lparr>queue := (queue q)[e := x], hi_seqn := (hi_seqn q)[unat tg := hi_seqn q ! unat tg + 1]\<rparr>"
  have "pl330_insn_to_queue q a l k i zero tg = Inr (False, q')"
    using ok tg by (simp add: pl330_insn_to_queue_def e q'_def x_def queue_ok_def)
  moreover have "queue_ok q' N"
    using ok tg set_update_subset_insert [of "queue q" e x] by (auto simp: queue_ok_def q'_def x_def)
  moreover have "queue_rep q' tg (es @ [x])" if rep: "queue_rep q tg es" for es
  proof -
    have "length es < 255"
      using queue_rep_length [OF rep] ok by (simp add: queue_ok_def)
    then show ?thesis
      using rep ok tg e' unt u8_Suc [of "hi_seqn q ! unat tg" "lo_seqn q ! unat tg" "length es"]
      by (auto simp: queue_rep_def q'_def x_def queue_ok_def filter_mset_update nth_append less_Suc_eq)
  qed
  moreover have "queue_rep q' tg' es" if "tg' \<noteq> tg" "unat tg' < N" "queue_rep q tg' es" for tg' es
  proof -
    have "tg' \<noteq> PL330_UNTAGGED" "unat tg' \<noteq> unat tg"
      using that ok untagged_not_below [of tg' N] unat_word_eqI [of tg' tg] by (auto simp: queue_ok_def)
    then show ?thesis
      using that(1,3) e' by (auto simp: queue_rep_def q'_def x_def filter_mset_update)
  qed
  ultimately show ?thesis by blast
qed

text \<open>An entry that may be issued when the MFIFO asks for tag \<open>tg\<close>.\<close>

definition entry_issuable :: "pl330_queue \<Rightarrow> u8 \<Rightarrow> pl330_queue_entry \<Rightarrow> bool" where
  "entry_issuable q tg e \<longleftrightarrow> e_tag e \<noteq> PL330_UNTAGGED \<and> e_seqn e = lo_seqn q ! unat (e_tag e)
     \<and> (e_tag e = tg \<or> tg = PL330_UNTAGGED \<or> e_z e)"

lemma pl330_queue_find_insn_eq:
  assumes ok: "queue_ok q N"
  shows "pl330_queue_find_insn q tg = Inr (find (\<lambda>i. entry_issuable q tg (queue q ! i)) [0..<length (queue q)])"
proof -
  have "queue_find_loop is q tg = Inr (find (\<lambda>i. entry_issuable q tg (queue q ! i)) is)"
    if "set is \<subseteq> {..<length (queue q)}" for "is"
    using that
  proof (induction "is")
    case (Cons i "is")
    then have "e_tag (queue q ! i) = PL330_UNTAGGED \<or> unat (e_tag (queue q ! i)) < length (lo_seqn q)"
      using ok nth_mem [of i "queue q"] by (auto simp: queue_ok_def)
    with Cons show ?case by (auto simp: entry_issuable_def Let_def)
  qed simp
  then show ?thesis unfolding pl330_queue_find_insn_def by (simp add: lessThan_atLeast0)
qed

lemma queue_rep_head:
  assumes ok: "queue_ok q N" and rep: "queue_rep q (e_tag e) es" and e: "e \<in> set (queue q)"
    and "e_seqn e = lo_seqn q ! unat (e_tag e)"
  shows "\<exists>es'. es = e # es'"
proof -
  have "e \<in> set es" using queue_rep_set [OF rep] e by simp
  then obtain k where k: "k < length es" "es ! k = e" by (auto simp: in_set_conv_nth)
  have "k < 256" using k queue_rep_length [OF rep] ok by (simp add: queue_ok_def)
  have "e_seqn e = lo_seqn q ! unat (e_tag e) + of_nat k" using rep k by (auto simp: queue_rep_def)
  then have "(of_nat k :: u8) = 0" using assms(4) by simp
  then have "unat (of_nat k :: u8) = 0" by simp
  then have "k = 0" using \<open>k < 256\<close> by (simp add: unat_of_nat)
  with k show ?thesis by (cases es) auto
qed

lemma pl330_insn_from_queue_ok:
  assumes ok: "queue_ok q N" and i: "i < length (queue q)" and e: "queue q ! i = e"
    and tg: "unat (e_tag e) < N" and rep: "queue_rep q (e_tag e) (e # es)"
  shows "\<exists>q'. pl330_insn_from_queue q i = Inr q' \<and> queue_ok q' N \<and> queue_rep q' (e_tag e) es
    \<and> (\<forall>tg' es'. tg' \<noteq> e_tag e \<and> unat tg' < N \<and> queue_rep q tg' es' \<longrightarrow> queue_rep q' tg' es')"
proof -
  let ?lo = "lo_seqn q ! unat (e_tag e)" and ?hi = "hi_seqn q ! unat (e_tag e)"
  define q' where "q' = q\<lparr>lo_seqn := (lo_seqn q)[unat (e_tag e) := ?lo + 1],
    queue := (queue q)[i := e\<lparr>e_tag := PL330_UNTAGGED\<rparr>]\<rparr>"
  have unt: "tg' \<noteq> PL330_UNTAGGED" if "unat tg' < N" for tg'
    using untagged_not_below [OF that] ok by (simp add: queue_ok_def)
  have "pl330_insn_from_queue q i = Inr q'"
    using ok tg i e by (simp add: pl330_insn_from_queue_def q'_def queue_ok_def)
  moreover have "queue_ok q' N"
    using ok set_update_subset_insert [of "queue q" i "e\<lparr>e_tag := PL330_UNTAGGED\<rparr>"]
    by (auto simp: queue_ok_def q'_def)
  moreover have "queue_rep q' (e_tag e) es"
  proof -
    have "unat (?hi - ?lo) = Suc (length es)" using rep by (simp add: queue_rep_def)
    then have "unat (?hi - (?lo + 1)) = length es"
      by (simp add: diff_diff_eq [symmetric] unat_minus_one word_unat_eq_iff)
    moreover have "\<forall>k<length es. e_seqn (es ! k) = ?lo + 1 + of_nat k"
    proof (intro allI impI)
      fix k assume "k < length es"
      then have "e_seqn ((e # es) ! Suc k) = ?lo + of_nat (Suc k)"
        using rep unfolding queue_rep_def by (metis Suc_less_eq length_Cons)
      then show "e_seqn (es ! k) = ?lo + 1 + of_nat k" by (simp add: add.assoc)
    qed
    ultimately show ?thesis
      using rep tg ok i e unt [OF tg] by (auto simp: queue_rep_def q'_def queue_ok_def filter_mset_update)
  qed
  moreover have "queue_rep q' tg' es'" if "tg' \<noteq> e_tag e" "unat tg' < N" "queue_rep q tg' es'" for tg' es'
  proof -
    have "unat tg' \<noteq> unat (e_tag e)" using that(1) unat_word_eqI by blast
    then show ?thesis
      using that(1,3) i e unt [OF that(2)] by (auto simp: queue_rep_def q'_def filter_mset_update)
  qed
  ultimately show ?thesis by blast
qed

lemma pl330_fifo_num_used_eq: "fifo_invar s \<Longrightarrow> pl330_fifo_num_used s = length (fifo_contents s)"
  by (auto simp: fifo_contents_length pl330_fifo_num_used_def ring_count_def)

lemma pl330_fifo_num_free_eq:
  "fifo_invar s \<Longrightarrow> pl330_fifo_num_free s = Suc (fifo_capacity s) - length (fifo_contents s)"
  by (auto simp: fifo_contents_length pl330_fifo_num_free_def ring_count_def fifo_invar_def fifo_capacity_def)

lemma pl330_fifo_tag_eq:
  assumes "fifo_invar s"
  shows "pl330_fifo_tag s = Inr (case fifo_contents s of [] \<Rightarrow> PL330_UNTAGGED | x # xs \<Rightarrow> snd x)"
proof (cases "fifo_contents s")
  case Nil
  then show ?thesis using fifo_empty_iff [OF assms] by (simp add: pl330_fifo_tag_def)
next
  case (Cons x xs)
  then have ne: "fifo_s s \<noteq> fifo_t s" using fifo_empty_iff [OF assms] by auto
  have "x = fifo_cells s ! fifo_s s"
    using ring_list_pop [OF _ _ ne, of "fifo_cells s"] assms Cons fifo_cells_length [OF assms]
    by (simp add: fifo_contents_def fifo_invar_def)
  then show ?thesis using assms ne Cons by (simp add: pl330_fifo_tag_def fifo_cells_def fifo_invar_def)
qed

lemma queue_none_empty:
  assumes ok: "queue_ok q N" and rep: "queue_rep q tg es" and tg: "unat tg < N"
    and none: "\<forall>e \<in> set (queue q). \<not> entry_issuable q tg e"
  shows "es = []"
proof (cases es)
  case (Cons e es')
  then have e: "e \<in> set (queue q)" "e_tag e = tg" using queue_rep_set [OF rep, of e] by auto
  have "e_seqn (es ! 0) = lo_seqn q ! unat tg + of_nat 0"
    using rep Cons unfolding queue_rep_def by blast
  then have "entry_issuable q tg e"
    using e Cons untagged_not_below [OF tg] ok by (simp add: entry_issuable_def queue_ok_def)
  with e none show ?thesis by blast
qed simp

lemma queue_issue:
  assumes ok: "queue_ok q N" and rep: "\<And>t. unat t < N \<Longrightarrow> queue_rep q t (es t)"
    and tg: "unat tg < N"
  shows "\<exists>r. pl330_queue_find_insn q tg = Inr r \<and>
        (case r of None \<Rightarrow> es tg = []
         | Some j \<Rightarrow> (\<exists>q' t xs. t = e_tag (queue q ! j) \<and> es t = queue q ! j # xs
             \<and> pl330_insn_from_queue q j = Inr q'
             \<and> (\<forall>t'. unat t' < N \<longrightarrow> queue_rep q' t' (if t' = t then xs else es t'))))"
proof (cases "find (\<lambda>i. entry_issuable q tg (queue q ! i)) [0..<length (queue q)]")
  case None
  then have none: "\<forall>e \<in> set (queue q). \<not> entry_issuable q tg e"
    by (auto simp: find_None_iff set_conv_nth)
  with None show ?thesis
    using pl330_queue_find_insn_eq [OF ok, of tg] queue_none_empty [OF ok rep [OF tg] tg] by simp
next
  case (Some j)
  then have j: "j < length (queue q)" "entry_issuable q tg (queue q ! j)"
    by (auto simp: find_Some_iff)
  let ?e = "queue q ! j"
  have t: "unat (e_tag ?e) < N" using ok j by (auto simp: queue_ok_def entry_issuable_def)
  then obtain xs where xs: "es (e_tag ?e) = ?e # xs"
    using queue_rep_head [OF ok rep, of ?e] j by (auto simp: entry_issuable_def)
  with pl330_insn_from_queue_ok [OF ok j(1) refl t] rep t show ?thesis
    by (fastforce simp: Some pl330_queue_find_insn_eq [OF ok])
qed

lemma queue_enter:
  assumes ok: "queue_ok q N" and rep: "\<And>t. unat t < N \<Longrightarrow> queue_rep q t (es t)"
    and tg: "unat tg < N"
  shows "case pl330_queue_find_empty q of None \<Rightarrow> pl330_insn_to_queue q a l k i zero tg = Inr (True, q)
      | Some _ \<Rightarrow> \<exists>q' e. pl330_insn_to_queue q a l k i zero tg = Inr (False, q') \<and> e_addr e = a \<and> e_tag e = tg
          \<and> (\<forall>t. unat t < N \<longrightarrow> queue_rep q' t (if t = tg then es t @ [e] else es t))"
proof (cases "pl330_queue_find_empty q")
  case None
  then show ?thesis by (simp add: pl330_insn_to_queue_def)
next
  case (Some e)
  from pl330_insn_to_queue_ok [OF ok tg Some, of a l k i zero] rep show ?thesis
    by (auto simp: Some intro!: exI [of _ "\<lparr>e_addr = a, e_len = l, e_n = k, e_inc = i, e_z = zero,
         e_tag = tg, e_seqn = hi_seqn q ! unat tg\<rparr>"])
qed

section \<open>Properties of the queues\<close>

text \<open>
  Property C28.  \<^verbatim>\<open>pl330_fifo_push\<close> is atomic: the bytes are appended with their tag when all of
  them fit into the \<^verbatim>\<open>buf_size\<close> - 1 usable cells, and otherwise the call stalls and the
  contents are as before, although some cells were already written.  The two counting functions
  agree with the contents: the free count is one more than what can be pushed.
\<close>

theorem pl330_fifo_push_atomic:
  assumes "fifo_invar s"
  shows "pl330_fifo_num_used s = length (fifo_contents s)
    \<and> pl330_fifo_num_free s = buf_size s - length (fifo_contents s)
    \<and> (\<exists>s'. fifo_invar s' \<and>
        pl330_fifo_push s bs tg =
          (if length (fifo_contents s) + length bs < buf_size s
           then Inr (PL330_FIFO_OK, s') else Inr (PL330_FIFO_STALL, s'))
        \<and> fifo_contents s' = fifo_contents s
            @ (if length (fifo_contents s) + length bs < buf_size s then map (\<lambda>b. (b, tg)) bs else []))"
proof -
  have pos: "0 < buf_size s" using assms by (auto simp: fifo_invar_def)
  then have "length (fifo_contents s) + length bs \<le> fifo_capacity s
      \<longleftrightarrow> length (fifo_contents s) + length bs < buf_size s"
    by (auto simp: fifo_capacity_def)
  moreover have "pl330_fifo_num_free s = buf_size s - length (fifo_contents s)"
    using pos by (simp add: pl330_fifo_num_free_eq [OF assms] fifo_capacity_def)
  ultimately show ?thesis
    using pl330_fifo_push_ok [OF assms, of bs tg] pl330_fifo_num_used_eq [OF assms] by (auto split: if_splits)
qed

lemma fifo_init_ok: "0 < sz \<Longrightarrow> fifo_invar (pl330_fifo_init sz)" "fifo_contents (pl330_fifo_init sz) = []"
  by (simp_all add: pl330_fifo_init_def fifo_invar_def fifo_contents_def)

theorem pl330_fifo_push_atomic_witness:
  "\<exists>s'. pl330_fifo_push (pl330_fifo_init 4) [1, 2, 3] 7 = Inr (PL330_FIFO_OK, s')
    \<and> fifo_contents s' = [(1, 7), (2, 7), (3, 7)]"
proof -
  have "fifo_invar (pl330_fifo_init 4)" "buf_size (pl330_fifo_init 4) = 4"
    by (simp add: fifo_init_ok) (simp add: pl330_fifo_init_def)
  with pl330_fifo_push_atomic [of "pl330_fifo_init 4" "[1, 2, 3]" 7] show ?thesis
    by (auto simp: fifo_init_ok)
qed

text \<open>
  Property C29.  What a channel pushed it gets back in order: after a successful push of \<open>bs\<close> behind
  contents that all carry the same tag, a get of that tag of as many bytes as the MFIFO holds
  returns the old bytes followed by \<open>bs\<close> and empties it; a get for another tag reports the
  mismatch and a get of more bytes stalls, both without removing anything.
\<close>

theorem pl330_fifo_push_get:
  assumes inv: "fifo_invar s" and same: "\<And>x. x \<in> set (fifo_contents s) \<Longrightarrow> snd x = tg"
    and push: "pl330_fifo_push s bs tg = Inr (PL330_FIFO_OK, s')" and "bs \<noteq> []" "tg' \<noteq> tg"
  shows "(\<exists>s''. pl330_fifo_get s' (length (fifo_contents s) + length bs) tg =
            Inr (PL330_FIFO_OK, map fst (fifo_contents s) @ bs, s'') \<and> fifo_contents s'' = [])
    \<and> pl330_fifo_get s' (Suc k) tg' = Inr (PL330_FIFO_ERR, [], s')
    \<and> (length (fifo_contents s) + length bs < k \<longrightarrow>
        (\<exists>xs. pl330_fifo_get s' k tg = Inr (PL330_FIFO_STALL, xs, s')))"
proof -
  let ?ys = "fifo_contents s @ map (\<lambda>b. (b, tg)) bs"
  have s': "fifo_invar s'" "fifo_contents s' = ?ys"
    using pl330_fifo_push_ok [OF inv, of bs tg] push by (auto split: if_splits)
  have tags: "\<forall>x \<in> set ?ys. snd x = tg" using same by auto
  then have "takeWhile (\<lambda>x. snd x = tg) ?ys = ?ys" by (simp add: takeWhile_eq_all_conv)
  then have run: "fifo_run tg s' = map fst (fifo_contents s) @ bs"
    unfolding fifo_run_def s'(2) by (simp only: map_append map_map) (simp add: comp_def)
  have "hd ?ys \<in> set ?ys" using assms(4) by (intro hd_in_set) simp
  then have "snd (hd ?ys) \<noteq> tg'" using tags assms(5) by blast
  then have run': "fifo_run tg' s' = []"
    using assms(4) unfolding fifo_run_def s'(2) by (cases ?ys) auto
  have "fifo_get_result (Suc k) tg' s' = PL330_FIFO_ERR"
    using assms(4) by (simp add: fifo_get_result_def run' s'(2))
  moreover have "fifo_get_result k tg s' = PL330_FIFO_STALL" if "length ?ys < k"
    using that by (simp add: fifo_get_result_def run s'(2))
  moreover have "fifo_get_result (length (fifo_contents s) + length bs) tg s' = PL330_FIFO_OK"
    by (simp add: fifo_get_result_def run)
  ultimately show ?thesis
    using pl330_fifo_get_ok [OF s'(1), of "length (fifo_contents s) + length bs" tg]
      pl330_fifo_get_ok [OF s'(1), of "Suc k" tg'] pl330_fifo_get_ok [OF s'(1), of k tg] s'(2)
    by (auto simp: run run')
qed

theorem pl330_fifo_push_get_witness:
  "\<exists>s' s''. pl330_fifo_push (pl330_fifo_init 4) [1, 2] 7 = Inr (PL330_FIFO_OK, s')
    \<and> pl330_fifo_get s' 2 7 = Inr (PL330_FIFO_OK, [1, 2], s'')
    \<and> pl330_fifo_get s' 1 3 = Inr (PL330_FIFO_ERR, [], s')"
proof -
  have inv: "fifo_invar (pl330_fifo_init 4)" by (simp add: fifo_init_ok)
  obtain s' where s': "pl330_fifo_push (pl330_fifo_init 4) [1, 2] 7 = Inr (PL330_FIFO_OK, s')"
    using pl330_fifo_push_ok [OF inv, of "[1, 2]" 7] fifo_init_ok(2) [of 4]
    by (auto simp: fifo_capacity_def pl330_fifo_init_def)
  have "[1, 2 :: u8] \<noteq> []" "(3 :: u8) \<noteq> 7" by simp_all
  from pl330_fifo_push_get [OF inv _ s' this, of 0] s' show ?thesis by (auto simp: fifo_init_ok numeral_2_eq_2)
qed

text \<open>
  Removing a channel's bytes keeps the other bytes in order only while the bytes that
  stay fit before the end of the buffer: the write index of \<^verbatim>\<open>pl330_fifo_tagged_remove\<close> is
  not wrapped around, so with more survivors it writes past the end of the buffer, and when
  they end exactly there the MFIFO is left with an index no other operation can reach.
\<close>

lemma pl330_fifo_tagged_remove_exact:
  assumes "fifo_invar s"
  shows "let ys = filter (\<lambda>x. snd x \<noteq> tg) (fifo_contents s) in
    if fifo_s s + length ys < buf_size s
    then \<exists>s'. pl330_fifo_tagged_remove s tg = Inr s' \<and> fifo_invar s' \<and> fifo_contents s' = ys
    else if fifo_s s + length ys = buf_size s
    then \<exists>s'. pl330_fifo_tagged_remove s tg = Inr s' \<and> fifo_t s' = buf_size s'
    else pl330_fifo_tagged_remove s tg = Inl ArrayBounds"
  using pl330_fifo_tagged_remove_ok [OF assms, of tg] by (auto simp: Let_def)

definition fifo_wrapped_demo :: pl330_fifo where
  "fifo_wrapped_demo = \<lparr>buf = [2, 3, 0, 1], tags = [5, 5, 0, 5], fifo_s = 3, fifo_t = 2, buf_size = 4\<rparr>"


definition queue_demo :: pl330_queue where
  "queue_demo = pl330_queue_reset (pl330_queue_init 3 2)"

lemma queue_demo_ok: "queue_ok queue_demo 2" "unat t < 2 \<Longrightarrow> queue_rep queue_demo t []"
proof -
  show "queue_ok queue_demo 2"
    by (simp add: queue_demo_def pl330_queue_reset_def pl330_queue_init_def queue_ok_def)
  assume "unat t < 2"
  then have "t \<noteq> PL330_UNTAGGED" using untagged_not_below [of t 2] by simp
  with \<open>unat t < 2\<close> show "queue_rep queue_demo t []"
    by (auto simp: queue_demo_def pl330_queue_reset_def pl330_queue_init_def queue_rep_def
        less_Suc_eq numeral_2_eq_2 numeral_3_eq_3)
qed




end
