(* ===== verification/Pl330.thy ===== *)
theory Pl330
  imports Pl330_Queues
begin

text \<open>
  The instruction engine and the register file of the PL330 DMA controller, \<^verbatim>\<open>hw/pl330.c\<close>.
  A channel is referred to by \<open>chan_ref\<close>, which stands for the C pointer to the manager or to an
  element of \<^verbatim>\<open>chan\<close>; the back pointer \<^verbatim>\<open>parent\<close> is the state that is passed along.  The guest's
  memory is the RAM case of \<^verbatim>\<open>cpu_physical_memory_rw\<close>: a map from addresses to bytes.
  The two loops of the engine, \<^verbatim>\<open>pl330_exec_channel\<close> and \<^verbatim>\<open>pl330_exec\<close>, run a
  program of the guest and need not end; they take fuel, and running out of it is the fault
  \<open>OutOfFuel\<close>.
\<close>

section \<open>State\<close>

text \<open>
  The states of a channel.  The enumeration gives some of them the same code (3 and 4); the ones
  the controller assigns have different codes.
\<close>

datatype pl330_chan_enum =
    pl330_chan_stopped | pl330_chan_executing | pl330_chan_completing
  | pl330_chan_waiting_periph | pl330_chan_at_barrier | pl330_chan_waiting_event
  | pl330_chan_updating_pc | pl330_chan_cache_miss | pl330_chan_fault_completing
  | pl330_chan_fault | pl330_chan_killing

fun pl330_chan_code :: "pl330_chan_enum \<Rightarrow> u32" where
  "pl330_chan_code pl330_chan_stopped = 0"
| "pl330_chan_code pl330_chan_executing = 1"
| "pl330_chan_code pl330_chan_completing = 2"
| "pl330_chan_code pl330_chan_waiting_periph = 3"
| "pl330_chan_code pl330_chan_at_barrier = 4"
| "pl330_chan_code pl330_chan_waiting_event = 4"
| "pl330_chan_code pl330_chan_updating_pc = 3"
| "pl330_chan_code pl330_chan_cache_miss = 4"
| "pl330_chan_code pl330_chan_fault_completing = 5"
| "pl330_chan_code pl330_chan_fault = 15"
| "pl330_chan_code pl330_chan_killing = 16"

definition PL330_FAULT_UNDEF_INSTR :: u32 where "PL330_FAULT_UNDEF_INSTR = push_bit 0 1"
definition PL330_FAULT_OPERAND_INVALID :: u32 where "PL330_FAULT_OPERAND_INVALID = push_bit 1 1"
definition PL330_FAULT_DMAGO_ER :: u32 where "PL330_FAULT_DMAGO_ER = push_bit 4 1"
definition PL330_FAULT_EVENT_ER :: u32 where "PL330_FAULT_EVENT_ER = push_bit 5 1"
definition PL330_FAULT_CH_PERIPH_ER :: u32 where "PL330_FAULT_CH_PERIPH_ER = push_bit 6 1"
definition PL330_FAULT_LOCKUP_ER :: u32 where "PL330_FAULT_LOCKUP_ER = push_bit 31 1"

definition PL330_SINGLE :: u8 where "PL330_SINGLE = 0"
definition PL330_BURST :: u8 where "PL330_BURST = 1"
definition PL330_WATCHDOG_LIMIT :: u32 where "PL330_WATCHDOG_LIMIT = 1024"
abbreviation PL330_PERIPH_NUM :: nat where "PL330_PERIPH_NUM \<equiv> 32"

record pl330_chan_state =
  src :: hwaddr
  dst :: hwaddr
  pc :: hwaddr
  control :: u32
  status :: u32
  lc :: "u32 list"
  fault_type :: u32
  ns :: u8
  is_manager :: bool
  request_flag :: u8
  wakeup :: u8
  wfp_sbp :: u8
  state :: pl330_chan_enum
  stall :: bool
  ch_tag :: u8
  watchdog_timer :: u32

datatype chan_ref = Manager | Chan nat

datatype pl330_line = IrqAbort | IrqEvent nat

record pl330_state =
  manager :: pl330_chan_state
  chan :: "pl330_chan_state list"
  fifo :: pl330_fifo
  read_queue :: pl330_queue
  write_queue :: pl330_queue
  inten :: u32
  int_status :: u32
  ev_status :: u32
  cfg :: "u32 list"
  dbg :: "u32 list"
  debug_status :: u8
  dma_irq :: "pl330_line irq_log"
  num_faulting :: u8
  periph_num :: nat
  event_num :: nat
  dma_timer :: timer
  periph_busy :: "bool list"
  mem :: "hwaddr \<Rightarrow> u8"

definition chan_get :: "pl330_state \<Rightarrow> chan_ref \<Rightarrow> pl330_chan_state res" where
  "chan_get S c = (case c of Manager \<Rightarrow> Inr (manager S) | Chan i \<Rightarrow> arr_get (chan S) i)"

definition chan_put :: "chan_ref \<Rightarrow> pl330_chan_state \<Rightarrow> pl330_state \<Rightarrow> pl330_state" where
  "chan_put c ch S =
     (case c of Manager \<Rightarrow> S\<lparr>manager := ch\<rparr> | Chan i \<Rightarrow> S\<lparr>chan := (chan S)[i := ch]\<rparr>)"

section \<open>Instructions\<close>

definition pl330_fault :: "pl330_state \<Rightarrow> chan_ref \<Rightarrow> u32 \<Rightarrow> pl330_state res" where
  "pl330_fault S c flags =
     rbind (chan_get S c) (\<lambda>ch.
       let S = chan_put c (ch\<lparr>fault_type := fault_type ch OR flags, state := pl330_chan_fault\<rparr>) S;
           S = S\<lparr>num_faulting := num_faulting S + 1\<rparr>
       in Inr (if num_faulting S = 1 then S\<lparr>dma_irq := qemu_irq_raise IrqAbort (dma_irq S)\<rparr> else S))"

text \<open>
  The operand checks the peripheral instructions (\<^verbatim>\<open>DMAFLUSHP\<close>, \<^verbatim>\<open>DMALDP\<close>,
  \<^verbatim>\<open>DMASTP\<close>, \<^verbatim>\<open>DMAWFP\<close>) share, and those of the event instructions
  (\<^verbatim>\<open>DMASEV\<close>, \<^verbatim>\<open>DMAWFE\<close>, which checks another mask): the peripheral or event
  number, or the fault to take.
\<close>

definition periph_operand :: "pl330_state \<Rightarrow> pl330_chan_state \<Rightarrow> u8 \<Rightarrow> u32 + nat" where
  "periph_operand S ch arg =
     (if arg AND 7 \<noteq> 0 then Inl PL330_FAULT_OPERAND_INVALID
      else
        let periph_id = unat (drop_bit 3 arg AND 0x1f) in
        if periph_id \<ge> periph_num S then Inl PL330_FAULT_OPERAND_INVALID
        else if ns ch > (if bit (cfg S ! 4) periph_id then 1 else 0) then Inl PL330_FAULT_CH_PERIPH_ER
        else Inr periph_id)"

definition event_operand :: "u8 \<Rightarrow> pl330_state \<Rightarrow> pl330_chan_state \<Rightarrow> u8 \<Rightarrow> u32 + nat" where
  "event_operand m S ch arg =
     (if arg AND m \<noteq> 0 then Inl PL330_FAULT_OPERAND_INVALID
      else
        let ev_id = unat (drop_bit 3 arg AND 0x1f) in
        if ev_id \<ge> event_num S then Inl PL330_FAULT_OPERAND_INVALID
        else if ns ch > (if bit (cfg S ! 3) ev_id then 1 else 0) then Inl PL330_FAULT_EVENT_ER
        else Inr ev_id)"

text \<open>The 32-bit immediate in \<^verbatim>\<open>args[1]\<close> to \<^verbatim>\<open>args[4]\<close>.\<close>

definition args_u32 :: "u8 list \<Rightarrow> u32 res" where
  "args_u32 args =
     rbind (arr_get args 4) (\<lambda>a4. rbind (arr_get args 3) (\<lambda>a3.
     rbind (arr_get args 2) (\<lambda>a2. rbind (arr_get args 1) (\<lambda>a1.
       Inr (push_bit 24 (ucast a4) OR push_bit 16 (ucast a3) OR push_bit 8 (ucast a2) OR ucast a1)))))"

type_synonym insn_exec = "pl330_state \<Rightarrow> chan_ref \<Rightarrow> u8 \<Rightarrow> u8 list \<Rightarrow> nat \<Rightarrow> pl330_state res"

definition pl330_dmaaddh :: insn_exec where
  "pl330_dmaaddh S c opcode args l =
     rbind (chan_get S c) (\<lambda>ch. rbind (arr_get args 0) (\<lambda>a0. rbind (arr_get args 1) (\<lambda>a1.
       let im = (push_bit 8 (ucast a0) OR ucast a1 :: u16) in
       Inr (chan_put c (if bit opcode 1 then ch\<lparr>dst := dst ch + ucast im\<rparr>
                        else ch\<lparr>src := src ch + ucast im\<rparr>) S))))"

definition chan_flush :: "pl330_state \<Rightarrow> u8 \<Rightarrow> pl330_state res" where
  "chan_flush S tg =
     rbind (pl330_fifo_tagged_remove (fifo S) tg) (\<lambda>f.
       Inr (S\<lparr>fifo := f, read_queue := pl330_tag_from_queue (read_queue S) tg,
              write_queue := pl330_tag_from_queue (write_queue S) tg\<rparr>))"

definition pl330_dmaend :: insn_exec where
  "pl330_dmaend S c opcode args l =
     rbind (chan_get S c) (\<lambda>ch.
     rbind (if state ch = pl330_chan_executing \<and> \<not> is_manager ch then
              rbind (pl330_fifo_has_tag (fifo S) (ch_tag ch)) (\<lambda>h.
                if h then Inr True
                else rbind (pl330_queue_find_insn (read_queue S) (ch_tag ch)) (\<lambda>r.
                  if r \<noteq> None then Inr True
                  else rbind (pl330_queue_find_insn (write_queue S) (ch_tag ch)) (\<lambda>w. Inr (w \<noteq> None))))
            else Inr False) (\<lambda>busy.
       if busy then Inr (chan_put c (ch\<lparr>stall := True\<rparr>) S)
       else rbind (chan_flush S (ch_tag ch)) (\<lambda>S.
         Inr (chan_put c (ch\<lparr>state := pl330_chan_stopped\<rparr>) S))))"

definition pl330_dmaflushp :: insn_exec where
  "pl330_dmaflushp S c opcode args l =
     rbind (chan_get S c) (\<lambda>ch. rbind (arr_get args 0) (\<lambda>a0.
       case periph_operand S ch a0 of Inl f \<Rightarrow> pl330_fault S c f | Inr _ \<Rightarrow> Inr S))"

definition pl330_dmago :: insn_exec where
  "pl330_dmago S c opcode args l =
     rbind (chan_get S c) (\<lambda>ch.
       if \<not> is_manager ch then pl330_fault S c PL330_FAULT_OPERAND_INVALID
       else rbind (arr_get args 0) (\<lambda>a0.
         let ns' = (if bit opcode 1 then 1 else 0 :: u8); chan_id = unat (a0 AND 7) in
         if drop_bit 3 a0 \<noteq> 0 then pl330_fault S c PL330_FAULT_OPERAND_INVALID
         else if chan_id \<ge> length (chan S) then pl330_fault S c PL330_FAULT_OPERAND_INVALID
         else rbind (args_u32 args) (\<lambda>pc'.
           let s = chan S ! chan_id in
           if state s \<noteq> pl330_chan_stopped then pl330_fault S c PL330_FAULT_OPERAND_INVALID
           else if ns ch > ns' then pl330_fault S c PL330_FAULT_DMAGO_ER
           else Inr (chan_put (Chan chan_id)
                  (s\<lparr>ns := ns', pc := ucast pc', state := pl330_chan_executing\<rparr>) S))))"

text \<open>
  The modifier bits of loads, stores and loop ends: invalid, not applicable to the current request
  (the instruction is a no-op), or to be performed.
\<close>

definition bs_invalid :: "u8 \<Rightarrow> bool" where
  "bs_invalid opcode \<longleftrightarrow> opcode AND 3 = 2"

definition bs_nop :: "pl330_chan_state \<Rightarrow> u8 \<Rightarrow> bool" where
  "bs_nop ch opcode \<longleftrightarrow>
     opcode AND 3 = 1 \<and> request_flag ch = PL330_BURST \<or> opcode AND 3 = 3 \<and> request_flag ch = PL330_SINGLE"

definition pl330_dmald :: insn_exec where
  "pl330_dmald S c opcode args l =
     rbind (chan_get S c) (\<lambda>ch.
       if bs_invalid opcode then pl330_fault S c PL330_FAULT_OPERAND_INVALID
       else if bs_nop ch opcode then Inr S
       else
         let num = (drop_bit 4 (control ch) AND 0xf) + 1;
             sz = push_bit (unat (drop_bit 1 (control ch) AND 7)) (1 :: u32);
             i = bit (control ch) 0
         in rbind (pl330_insn_to_queue (read_queue S) (src ch) (unat sz) (int (unat num)) i False (ch_tag ch))
              (\<lambda>(full, q).
                Inr (chan_put c (ch\<lparr>stall := full, src := if i then src ch + ucast (sz * num) else src ch\<rparr>)
                       (S\<lparr>read_queue := q\<rparr>))))"

definition pl330_dmaldp :: insn_exec where
  "pl330_dmaldp S c opcode args l =
     rbind (chan_get S c) (\<lambda>ch. rbind (arr_get args 0) (\<lambda>a0.
       case periph_operand S ch a0 of Inl f \<Rightarrow> pl330_fault S c f | Inr _ \<Rightarrow> pl330_dmald S c opcode args l))"

definition pl330_dmalp :: insn_exec where
  "pl330_dmalp S c opcode args l =
     rbind (chan_get S c) (\<lambda>ch. rbind (arr_get args 0) (\<lambda>a0.
     rbind (arr_set (lc ch) (if bit opcode 1 then 1 else 0) (ucast a0)) (\<lambda>lc'.
       Inr (chan_put c (ch\<lparr>lc := lc'\<rparr>) S))))"

definition pl330_dmalpend :: insn_exec where
  "pl330_dmalpend S c opcode args l =
     rbind (chan_get S c) (\<lambda>ch.
       let nf = bit opcode 4; k = (if bit opcode 2 then 1 else 0) in
       if bs_invalid opcode then pl330_fault S c PL330_FAULT_OPERAND_INVALID
       else if bs_nop ch opcode then Inr S
       else rbind (arr_get (lc ch) k) (\<lambda>v.
         if \<not> nf \<or> v \<noteq> 0 then
           rbind (arr_get args 0) (\<lambda>a0.
             Inr (chan_put c (ch\<lparr>lc := if nf then (lc ch)[k := v - 1] else lc ch,
                                  pc := pc ch - ucast a0 - of_nat (l + 1)\<rparr>) S))
         else Inr S))"

definition pl330_dmakill :: insn_exec where
  "pl330_dmakill S c opcode args l =
     rbind (chan_get S c) (\<lambda>ch.
       let faulting = (state ch = pl330_chan_fault \<or> state ch = pl330_chan_fault_completing);
           S = (if faulting then S\<lparr>num_faulting := num_faulting S - 1\<rparr> else S);
           S = (if faulting \<and> num_faulting S = 0
                then S\<lparr>dma_irq := qemu_irq_lower IrqAbort (dma_irq S)\<rparr> else S)
       in rbind (chan_flush S (ch_tag ch)) (\<lambda>S.
            Inr (chan_put c (ch\<lparr>fault_type := if faulting then 0 else fault_type ch,
                                state := pl330_chan_stopped\<rparr>) S)))"

definition pl330_dmamov :: insn_exec where
  "pl330_dmamov S c opcode args l =
     rbind (chan_get S c) (\<lambda>ch. rbind (arr_get args 0) (\<lambda>a0.
       if drop_bit 3 a0 \<noteq> 0 then pl330_fault S c PL330_FAULT_OPERAND_INVALID
       else rbind (args_u32 args) (\<lambda>im.
         let rd = a0 AND 7 in
         if rd = 0 then Inr (chan_put c (ch\<lparr>src := ucast im\<rparr>) S)
         else if rd = 1 then Inr (chan_put c (ch\<lparr>control := im\<rparr>) S)
         else if rd = 2 then Inr (chan_put c (ch\<lparr>dst := ucast im\<rparr>) S)
         else pl330_fault S c PL330_FAULT_OPERAND_INVALID)))"

definition pl330_dmanop :: insn_exec where
  "pl330_dmanop S c opcode args l = Inr S"

definition pl330_dmarmb :: insn_exec where
  "pl330_dmarmb S c opcode args l = Inr S"

definition pl330_dmasev :: insn_exec where
  "pl330_dmasev S c opcode args l =
     rbind (chan_get S c) (\<lambda>ch. rbind (arr_get args 0) (\<lambda>a0.
       case event_operand 7 S ch a0 of
         Inl f \<Rightarrow> pl330_fault S c f
       | Inr ev_id \<Rightarrow>
           if bit (inten S) ev_id
           then Inr (S\<lparr>int_status := int_status S OR push_bit ev_id 1,
                       dma_irq := qemu_irq_raise (IrqEvent ev_id) (dma_irq S)\<rparr>)
           else Inr (S\<lparr>ev_status := ev_status S OR push_bit ev_id 1\<rparr>)))"

text \<open>The queueing part of the stores, with and without data from the MFIFO.\<close>

definition dma_store :: "bool \<Rightarrow> pl330_state \<Rightarrow> chan_ref \<Rightarrow> pl330_chan_state \<Rightarrow> pl330_state res" where
  "dma_store zero S c ch =
     (let num = (drop_bit 18 (control ch) AND 0xf) + 1;
          sz = push_bit (unat (drop_bit 15 (control ch) AND 7)) (1 :: u32);
          i = bit (control ch) 14
      in rbind (pl330_insn_to_queue (write_queue S) (dst ch) (unat sz) (int (unat num)) i zero (ch_tag ch))
           (\<lambda>(full, q).
             Inr (chan_put c (ch\<lparr>stall := full, dst := if i then dst ch + ucast (sz * num) else dst ch\<rparr>)
                    (S\<lparr>write_queue := q\<rparr>))))"

definition pl330_dmast :: insn_exec where
  "pl330_dmast S c opcode args l =
     rbind (chan_get S c) (\<lambda>ch.
       if bs_invalid opcode then pl330_fault S c PL330_FAULT_OPERAND_INVALID
       else if bs_nop ch opcode then Inr S
       else dma_store False S c ch)"

definition pl330_dmastp :: insn_exec where
  "pl330_dmastp S c opcode args l =
     rbind (chan_get S c) (\<lambda>ch. rbind (arr_get args 0) (\<lambda>a0.
       case periph_operand S ch a0 of Inl f \<Rightarrow> pl330_fault S c f | Inr _ \<Rightarrow> pl330_dmast S c opcode args l))"

definition pl330_dmastz :: insn_exec where
  "pl330_dmastz S c opcode args l = rbind (chan_get S c) (\<lambda>ch. dma_store True S c ch)"

definition pl330_dmawfe :: insn_exec where
  "pl330_dmawfe S c opcode args l =
     rbind (chan_get S c) (\<lambda>ch. rbind (arr_get args 0) (\<lambda>a0.
       case event_operand 5 S ch a0 of
         Inl f \<Rightarrow> pl330_fault S c f
       | Inr ev_id \<Rightarrow> Inr (chan_put c (ch\<lparr>wakeup := of_nat ev_id\<rparr>) S)))"

definition pl330_dmawfp :: insn_exec where
  "pl330_dmawfp S c opcode args l =
     rbind (chan_get S c) (\<lambda>ch. rbind (arr_get args 0) (\<lambda>a0.
       case periph_operand S ch a0 of
         Inl f \<Rightarrow> pl330_fault S c f
       | Inr periph_id \<Rightarrow>
           let bs = opcode AND 3 in
           if bs = 3 then pl330_fault S c PL330_FAULT_OPERAND_INVALID
           else
             let ch = (if bs = 0 then ch\<lparr>request_flag := PL330_SINGLE, wfp_sbp := 0\<rparr>
                       else if bs = 1 then ch\<lparr>request_flag := PL330_BURST, wfp_sbp := 2\<rparr>
                       else ch\<lparr>request_flag := PL330_BURST, wfp_sbp := 1\<rparr>)
             in rbind (arr_get (periph_busy S) periph_id) (\<lambda>busy.
                  Inr (chan_put c
                    (if busy then ch\<lparr>state := pl330_chan_waiting_periph\<rparr>
                     else if state ch = pl330_chan_waiting_periph then ch\<lparr>state := pl330_chan_executing\<rparr>
                     else ch) S))))"

definition pl330_dmawmb :: insn_exec where
  "pl330_dmawmb S c opcode args l = Inr S"

section \<open>The execution engine\<close>

record pl330_insn_desc =
  opcode :: u8
  opmask :: u8
  insn_size :: nat
  exec :: insn_exec

definition insn_desc :: "pl330_insn_desc list" where
  "insn_desc =
    [\<lparr>opcode = 0x54, opmask = 0xFD, insn_size = 3, exec = pl330_dmaaddh\<rparr>,
     \<lparr>opcode = 0x00, opmask = 0xFF, insn_size = 1, exec = pl330_dmaend\<rparr>,
     \<lparr>opcode = 0x35, opmask = 0xFF, insn_size = 2, exec = pl330_dmaflushp\<rparr>,
     \<lparr>opcode = 0xA0, opmask = 0xFD, insn_size = 6, exec = pl330_dmago\<rparr>,
     \<lparr>opcode = 0x04, opmask = 0xFC, insn_size = 1, exec = pl330_dmald\<rparr>,
     \<lparr>opcode = 0x25, opmask = 0xFD, insn_size = 2, exec = pl330_dmaldp\<rparr>,
     \<lparr>opcode = 0x20, opmask = 0xFD, insn_size = 2, exec = pl330_dmalp\<rparr>,
     \<lparr>opcode = 0x29, opmask = 0xFD, insn_size = 2, exec = pl330_dmastp\<rparr>,
     \<lparr>opcode = 0x28, opmask = 0xE8, insn_size = 2, exec = pl330_dmalpend\<rparr>,
     \<lparr>opcode = 0x01, opmask = 0xFF, insn_size = 1, exec = pl330_dmakill\<rparr>,
     \<lparr>opcode = 0xBC, opmask = 0xFF, insn_size = 6, exec = pl330_dmamov\<rparr>,
     \<lparr>opcode = 0x18, opmask = 0xFF, insn_size = 1, exec = pl330_dmanop\<rparr>,
     \<lparr>opcode = 0x12, opmask = 0xFF, insn_size = 1, exec = pl330_dmarmb\<rparr>,
     \<lparr>opcode = 0x34, opmask = 0xFF, insn_size = 2, exec = pl330_dmasev\<rparr>,
     \<lparr>opcode = 0x08, opmask = 0xFC, insn_size = 1, exec = pl330_dmast\<rparr>,
     \<lparr>opcode = 0x0C, opmask = 0xFF, insn_size = 1, exec = pl330_dmastz\<rparr>,
     \<lparr>opcode = 0x36, opmask = 0xFF, insn_size = 2, exec = pl330_dmawfe\<rparr>,
     \<lparr>opcode = 0x30, opmask = 0xFC, insn_size = 2, exec = pl330_dmawfp\<rparr>,
     \<lparr>opcode = 0x13, opmask = 0xFF, insn_size = 1, exec = pl330_dmawmb\<rparr>]"

definition debug_insn_desc :: "pl330_insn_desc list" where
  "debug_insn_desc =
    [\<lparr>opcode = 0xA0, opmask = 0xFD, insn_size = 6, exec = pl330_dmago\<rparr>,
     \<lparr>opcode = 0x01, opmask = 0xFF, insn_size = 1, exec = pl330_dmakill\<rparr>,
     \<lparr>opcode = 0x34, opmask = 0xFF, insn_size = 2, exec = pl330_dmasev\<rparr>]"

definition insn_matches :: "u8 \<Rightarrow> pl330_insn_desc \<Rightarrow> bool" where
  "insn_matches op d \<longleftrightarrow> op AND opmask d = opcode d"

definition pl330_fetch_insn :: "pl330_state \<Rightarrow> pl330_chan_state \<Rightarrow> pl330_insn_desc option" where
  "pl330_fetch_insn S ch = find (insn_matches (mem S (pc ch))) insn_desc"

definition pl330_exec_insn :: "pl330_state \<Rightarrow> chan_ref \<Rightarrow> pl330_insn_desc \<Rightarrow> pl330_state res" where
  "pl330_exec_insn S c insn =
     rbind (chan_get S c) (\<lambda>ch.
       let b = cpu_physical_memory_read (mem S) (pc ch) (insn_size insn) in
       exec insn S c (hd b) (tl b) (insn_size insn - 1))"

definition pl330_update_pc :: "pl330_chan_state \<Rightarrow> pl330_insn_desc \<Rightarrow> pl330_chan_state" where
  "pl330_update_pc ch insn = ch\<lparr>pc := pc ch + of_nat (insn_size insn)\<rparr>"

definition pl330_chan_exec :: "pl330_state \<Rightarrow> chan_ref \<Rightarrow> (nat \<times> pl330_state) res" where
  "pl330_chan_exec S c =
     rbind (chan_get S c) (\<lambda>ch.
       if state ch \<noteq> pl330_chan_executing \<and> state ch \<noteq> pl330_chan_waiting_periph then Inr (0, S)
       else
         let S = chan_put c (ch\<lparr>stall := False\<rparr>) S in
         case pl330_fetch_insn S ch of
           None \<Rightarrow> rbind (pl330_fault S c PL330_FAULT_UNDEF_INSTR) (\<lambda>S. Inr (0, S))
         | Some insn \<Rightarrow>
             rbind (pl330_exec_insn S c insn) (\<lambda>S.
             rbind (chan_get S c) (\<lambda>ch.
               if state ch = pl330_chan_executing \<and> \<not> stall ch then
                 Inr (1, chan_put c ((pl330_update_pc ch insn)\<lparr>watchdog_timer := 0\<rparr>) S)
               else if stall ch then
                 let w = watchdog_timer ch + 1; S = chan_put c (ch\<lparr>watchdog_timer := w\<rparr>) S in
                 if w \<ge> PL330_WATCHDOG_LIMIT
                 then rbind (pl330_fault S c PL330_FAULT_LOCKUP_ER) (\<lambda>S. Inr (0, S))
                 else Inr (0, S)
               else Inr (0, S))))"

text \<open>
  One beat of a queue entry: the address moves on and the count goes down; an entry whose count
  reaches zero leaves the queue.
\<close>

definition entry_beat :: "pl330_queue_entry \<Rightarrow> pl330_queue_entry" where
  "entry_beat e = e\<lparr>e_addr := if e_inc e then e_addr e + of_nat (e_len e) else e_addr e, e_n := e_n e - 1\<rparr>"

definition queue_beat :: "pl330_queue \<Rightarrow> nat \<Rightarrow> pl330_queue res" where
  "queue_beat q i =
     (let e = entry_beat (queue q ! i); q = q\<lparr>queue := (queue q)[i := e]\<rparr> in
      if e_n e = 0 then pl330_insn_from_queue q i else Inr q)"

text \<open>The read half and the write half of \<^verbatim>\<open>pl330_exec_cycle\<close>.\<close>

definition exec_read :: "pl330_state \<Rightarrow> (nat \<times> pl330_state) res" where
  "exec_read S =
     rbind (pl330_queue_find_insn (read_queue S) PL330_UNTAGGED) (\<lambda>r.
       case r of
         None \<Rightarrow> Inr (0, S)
       | Some i \<Rightarrow>
           let q = queue (read_queue S) ! i in
           if e_len q \<le> pl330_fifo_num_free (fifo S) then
             rbind (pl330_fifo_push (fifo S) (cpu_physical_memory_read (mem S) (e_addr q) (e_len q)) (e_tag q))
               (\<lambda>(res, f).
                 if res = PL330_FIFO_OK then
                   rbind (queue_beat (read_queue S) i) (\<lambda>rq. Inr (1, S\<lparr>fifo := f, read_queue := rq\<rparr>))
                 else Inr (0, S\<lparr>fifo := f\<rparr>))
           else Inr (0, S))"

definition exec_write :: "pl330_state \<Rightarrow> (nat \<times> pl330_state) res" where
  "exec_write S =
     rbind (pl330_fifo_tag (fifo S)) (\<lambda>tg.
     rbind (pl330_queue_find_insn (write_queue S) tg) (\<lambda>r.
       case r of
         None \<Rightarrow> Inr (0, S)
       | Some i \<Rightarrow>
           let q = queue (write_queue S) ! i in
           if e_z q \<or> e_len q \<le> pl330_fifo_num_used (fifo S) then
             rbind (if e_z q then Inr (PL330_FIFO_OK, replicate (e_len q) 0, fifo S)
                    else pl330_fifo_get (fifo S) (e_len q) (e_tag q))
               (\<lambda>(res, bs, f).
                 if res = PL330_FIFO_OK then
                   rbind (queue_beat (write_queue S) i) (\<lambda>wq.
                     Inr (1, S\<lparr>fifo := f, write_queue := wq,
                               mem := cpu_physical_memory_write (mem S) (e_addr q) bs\<rparr>))
                 else Inr (0, S\<lparr>fifo := f\<rparr>))
           else Inr (0, S)))"

definition pl330_exec_cycle :: "pl330_state \<Rightarrow> chan_ref \<Rightarrow> (nat \<times> pl330_state) res" where
  "pl330_exec_cycle S c =
     rbind (pl330_chan_exec S c) (\<lambda>(n1, S).
     rbind (exec_read S) (\<lambda>(n2, S).
     rbind (exec_write S) (\<lambda>(n3, S). Inr (n1 + n2 + n3, S))))"

fun exec_channel_loop :: "nat \<Rightarrow> pl330_state \<Rightarrow> chan_ref \<Rightarrow> nat \<Rightarrow> (nat \<times> pl330_state) res" where
  "exec_channel_loop 0 S c insr_exec = Inl OutOfFuel"
| "exec_channel_loop (Suc fuel) S c insr_exec =
     rbind (pl330_exec_cycle S c) (\<lambda>(k, S).
       if k \<noteq> 0 then exec_channel_loop fuel S c (Suc insr_exec) else Inr (insr_exec, S))"

definition pl330_exec_channel :: "nat \<Rightarrow> pl330_state \<Rightarrow> chan_ref \<Rightarrow> (nat \<times> pl330_state) res" where
  "pl330_exec_channel fuel S c =
     rbind (exec_channel_loop fuel S c 0) (\<lambda>(insr_exec, S).
     rbind (chan_get S c) (\<lambda>ch.
       if state ch = pl330_chan_executing
       then rbind (pl330_fault S c PL330_FAULT_LOCKUP_ER) (\<lambda>S. Inr (insr_exec, S))
       else Inr (insr_exec, S)))"

text \<open>One round of the outer loop: the manager, then every channel.\<close>

definition exec_round :: "nat \<Rightarrow> pl330_state \<Rightarrow> (nat \<times> pl330_state) res" where
  "exec_round fuel S =
     rfold (\<lambda>c (k, S). rbind (pl330_exec_channel fuel S c) (\<lambda>(k', S). Inr (k + k', S)))
       (Manager # map Chan [0..<length (chan S)]) (0, S)"

fun exec_rounds :: "nat \<Rightarrow> nat \<Rightarrow> pl330_state \<Rightarrow> pl330_state res" where
  "exec_rounds fuel 0 S = Inl OutOfFuel"
| "exec_rounds fuel (Suc m) S =
     rbind (exec_round fuel S) (\<lambda>(k, S). if k \<noteq> 0 then exec_rounds fuel m S else Inr S)"

definition pl330_exec :: "nat \<Rightarrow> pl330_state \<Rightarrow> pl330_state res" where
  "pl330_exec fuel S = exec_rounds fuel fuel S"

definition pl330_exec_cycle_timer :: "nat \<Rightarrow> pl330_state \<Rightarrow> pl330_state res" where
  "pl330_exec_cycle_timer fuel S = pl330_exec fuel S"

text \<open>\<open>now\<close> is the value of \<^verbatim>\<open>qemu_get_clock\<close>.\<close>

definition pl330_dma_stop_irq :: "pl330_state \<Rightarrow> nat \<Rightarrow> bool \<Rightarrow> u64 \<Rightarrow> pl330_state res" where
  "pl330_dma_stop_irq S irq level now =
     rbind (arr_get (periph_busy S) irq) (\<lambda>busy.
       Inr (if busy \<noteq> level
            then S\<lparr>periph_busy := (periph_busy S)[irq := level], dma_timer := Some now\<rparr>
            else S))"

definition pl330_debug_exec :: "pl330_state \<Rightarrow> pl330_state res" where
  "pl330_debug_exec S =
     (let S = S\<lparr>debug_status := 1\<rparr>; d0 = dbg S ! 0; d1 = dbg S ! 1;
          chan_id = unat (drop_bit 8 d0 AND 0x07);
          op = (ucast (drop_bit 16 d0 AND 0xff) :: u8);
          args = map (\<lambda>w. ucast (w AND 0xff) :: u8)
            [drop_bit 24 d0, d1, drop_bit 8 d1, drop_bit 16 d1, drop_bit 24 d1];
          c = (if bit d0 0 then Chan chan_id else Manager)
      in rbind (chan_get S c) (\<lambda>ch.
           case find (insn_matches op) (rev debug_insn_desc) of
             None \<Rightarrow> pl330_fault S c PL330_FAULT_UNDEF_INSTR
           | Some insn \<Rightarrow>
               rbind (exec insn (chan_put c (ch\<lparr>stall := False\<rparr>) S) c op args (insn_size insn - 1)) (\<lambda>S.
               rbind (chan_get S c) (\<lambda>ch.
                 if stall ch then Inl (HwError ''pl330: stall of debug instruction not implemented'')
                 else Inr (S\<lparr>debug_status := 0\<rparr>)))))"

section \<open>Registers\<close>

definition pl330_iomem_write :: "nat \<Rightarrow> pl330_state \<Rightarrow> hwaddr \<Rightarrow> u32 \<Rightarrow> pl330_state res" where
  "pl330_iomem_write fuel S offset val =
     (if offset AND 3 \<noteq> 0 then Inl (HwError ''pl330: bad write offset'')
      else if offset = 0x020 then Inr (S\<lparr>inten := val\<rparr>)
      else if offset = 0x02C then
        Inr (S\<lparr>dma_irq := fold (\<lambda>i log. if bit (int_status S AND inten S AND val) i
                                      then qemu_irq_lower (IrqEvent i) log else log)
                           [0..<event_num S] (dma_irq S),
               int_status := int_status S AND NOT val\<rparr>)
      else if offset = 0xD04 then
        if val AND 3 = 0 then rbind (pl330_debug_exec S) (pl330_exec fuel)
        else Inl (HwError ''pl330: write of illegal value'')
      else if offset = 0xD08 then Inr (S\<lparr>dbg := (dbg S)[0 := val]\<rparr>)
      else if offset = 0xD0C then Inr (S\<lparr>dbg := (dbg S)[1 := val]\<rparr>)
      else Inl (HwError ''pl330: bad write offset''))"

definition pl330_id :: "u32 list" where
  "pl330_id = [0x30, 0x13, 0x04, 0x00, 0xB1, 0x05, 0xF0, 0x0D]"

definition chan_reg :: "pl330_state \<Rightarrow> nat \<Rightarrow> (pl330_chan_state \<Rightarrow> u32 res) \<Rightarrow> u32 res" where
  "chan_reg S chan_id f =
     (if chan_id \<ge> length (chan S) then Inl (HwError ''pl330: bad read offset'')
      else f (chan S ! chan_id))"

definition pl330_iomem_read :: "pl330_state \<Rightarrow> hwaddr \<Rightarrow> u32 res" where
  "pl330_iomem_read S offset =
     (if offset AND 3 \<noteq> 0 then Inl (HwError ''pl330: bad read offset'')
      else if offset \<ge> 0xFE0 \<and> offset < 0xFE0 + 32 then
        arr_get pl330_id (unat (drop_bit 2 (offset - 0xFE0)))
      else if offset \<ge> 0xE00 \<and> offset < 0xE00 + 24 then
        arr_get (cfg S) (unat (drop_bit 2 (offset - 0xE00)))
      else if offset \<ge> 0x400 \<and> offset < 0xD00 then
        let off = offset - 0x400; r = off AND 0x1f in
        chan_reg S (unat (drop_bit 5 off)) (\<lambda>ch.
          if r = 0x00 then Inr (ucast (src ch))
          else if r = 0x04 then Inr (ucast (dst ch))
          else if r = 0x08 then Inr (control ch)
          else if r = 0x0C then arr_get (lc ch) 0
          else if r = 0x10 then arr_get (lc ch) 1
          else Inl (HwError ''pl330: bad read offset''))
      else if offset \<ge> 0x100 \<and> offset < 0x400 then
        let off = offset - 0x100 in
        chan_reg S (unat (drop_bit 3 off)) (\<lambda>ch.
          if bit off 2 then Inr (ucast (pc ch))
          else Inr (push_bit 20 (ucast (ns ch)) OR push_bit 4 (ucast (wakeup ch))
                    OR (pl330_chan_code (state ch) AND 0xf) OR push_bit 13 (ucast (wfp_sbp ch))))
      else if offset \<ge> 0x040 \<and> offset < 0x100 then
        chan_reg S (unat (drop_bit 2 (offset - 0x040))) (\<lambda>ch. Inr (fault_type ch))
      else if offset = 0x000 then
        Inr (push_bit 8 (ucast (ns (manager S))) OR push_bit 4 (ucast (wakeup (manager S)))
             OR (pl330_chan_code (state (manager S)) AND 0xf))
      else if offset = 0x004 then Inr (ucast (pc (manager S)))
      else if offset = 0x020 then Inr (inten S)
      else if offset = 0x024 then Inr (ev_status S)
      else if offset = 0x028 then Inr (int_status S)
      else if offset = 0x02C then Inr 0
      else if offset = 0x030 then Inr (if fault_type (manager S) \<noteq> 0 then 1 else 0)
      else if offset = 0x034 then
        Inr (fold (\<lambda>i r. if state (chan S ! i) = pl330_chan_fault
                            \<or> state (chan S ! i) = pl330_chan_fault_completing
                         then r OR push_bit i 1 else r) [0..<length (chan S)] 0)
      else if offset = 0x038 then Inr (fault_type (manager S))
      else if offset = 0xD00 then Inr (ucast (debug_status S))
      else Inl (HwError ''pl330: bad read offset''))"

section \<open>Reset and initialisation\<close>

definition pl330_chan_reset :: "pl330_chan_state \<Rightarrow> pl330_chan_state" where
  "pl330_chan_reset ch =
     ch\<lparr>src := 0, dst := 0, pc := 0, state := pl330_chan_stopped, watchdog_timer := 0,
        stall := False, control := 0, status := 0, fault_type := 0\<rparr>"

definition pl330_reset :: "pl330_state \<Rightarrow> pl330_state" where
  "pl330_reset S =
     S\<lparr>inten := 0, int_status := 0, ev_status := 0, debug_status := 0, num_faulting := 0,
       fifo := pl330_fifo_reset (fifo S), read_queue := pl330_queue_reset (read_queue S),
       write_queue := pl330_queue_reset (write_queue S), chan := map pl330_chan_reset (chan S),
       periph_busy := map (\<lambda>i. if i < periph_num S then False else periph_busy S ! i)
         [0..<length (periph_busy S)]\<rparr>"

definition chan_zero :: pl330_chan_state where
  "chan_zero =
     \<lparr>src = 0, dst = 0, pc = 0, control = 0, status = 0, lc = [0, 0], fault_type = 0, ns = 0,
      is_manager = False, request_flag = 0, wakeup = 0, wfp_sbp = 0, state = pl330_chan_stopped,
      stall = False, ch_tag = 0, watchdog_timer = 0\<rparr>"

definition pl330_init1 :: "u32 list \<Rightarrow> (hwaddr \<Rightarrow> u8) \<Rightarrow> pl330_state" where
  "pl330_init1 c m =
     (let chan_num = unat (drop_bit 4 (c ! 0) AND 7) + 1 in
      pl330_reset
        \<lparr>manager = chan_zero\<lparr>ch_tag := of_nat chan_num, ns := if bit (c ! 0) 2 then 1 else 0,
                             is_manager := True\<rparr>,
         chan = map (\<lambda>i. chan_zero\<lparr>ch_tag := of_nat i\<rparr>) [0..<chan_num],
         fifo = pl330_fifo_init (unat (drop_bit 20 (c ! 5) AND 0x1ff) + 1),
         read_queue = pl330_queue_init (unat (drop_bit 16 (c ! 5) AND 0xf) + 1) chan_num,
         write_queue = pl330_queue_init (unat (drop_bit 8 (c ! 5) AND 0xf) + 1) chan_num,
         inten = 0, int_status = 0, ev_status = 0, cfg = c, dbg = [0, 0], debug_status = 0,
         dma_irq = [], num_faulting = 0,
         periph_num = if bit (c ! 0) 0 then unat (drop_bit 12 (c ! 0) AND 0x1f) + 1 else 0,
         event_num = unat (drop_bit 17 (c ! 0) AND 0x1f) + 1, dma_timer = None,
         periph_busy = replicate PL330_PERIPH_NUM False, mem = m\<rparr>)"

section \<open>Memory\<close>

text \<open>Memory in which the first \<open>L\<close> bytes at \<open>src\<close> have been copied to \<open>dst\<close>.\<close>

definition mem_copied :: "(hwaddr \<Rightarrow> u8) \<Rightarrow> hwaddr \<Rightarrow> hwaddr \<Rightarrow> nat \<Rightarrow> hwaddr \<Rightarrow> u8" where
  "mem_copied m s d L x = (if unat (x - d) < L then m (s + (x - d)) else m x)"

lemma mem_copied_step:
  assumes disj: "\<And>i j. i < L + k \<Longrightarrow> j < L + k \<Longrightarrow> s + of_nat i \<noteq> d + of_nat j" and small: "L + k < 2 ^ 64"
  shows "cpu_physical_memory_write (mem_copied m s d L) (d + of_nat L)
     (cpu_physical_memory_read (mem_copied m s d L) (s + of_nat L) k) = mem_copied m s d (L + k)"
proof
  fix x
  have L: "unat (of_nat L :: hwaddr) = L" using small by (simp add: unat_of_nat)
  have rd: "mem_copied m s d L (s + of_nat L + of_nat i) = m (s + of_nat L + of_nat i)" if "i < k" for i
  proof -
    have "\<not> unat (s + of_nat L + of_nat i - d) < L"
    proof
      assume j: "unat (s + of_nat L + of_nat i - d) < L"
      have "s + of_nat (L + i) = d + of_nat (unat (s + of_nat L + of_nat i - d))"
        by (simp add: add.assoc)
      with disj [of "L + i" "unat (s + of_nat L + of_nat i - d)"] j that show False by simp
    qed
    then show ?thesis by (simp add: mem_copied_def)
  qed
  have bytes: "cpu_physical_memory_read (mem_copied m s d L) (s + of_nat L) k
      = map (\<lambda>i. m (s + of_nat L + of_nat i)) [0..<k]"
    by (simp add: cpu_physical_memory_read_def rd)
  have eq: "x - (d + of_nat L) = x - d - of_nat L" by simp
  show "cpu_physical_memory_write (mem_copied m s d L) (d + of_nat L)
     (cpu_physical_memory_read (mem_copied m s d L) (s + of_nat L) k) x = mem_copied m s d (L + k) x"
  proof (cases "L \<le> unat (x - d)")
    case True
    then have sub: "unat (x - d - of_nat L) = unat (x - d) - L"
      by (subst unat_sub) (simp_all add: word_le_nat_alt L)
    have rest: "of_nat L + of_nat (unat (x - d) - L) = x - d"
      using True by (simp flip: of_nat_add)
    show ?thesis
      using True small
      by (simp add: cpu_physical_memory_write_eq bytes eq sub add.assoc rest)
         (auto simp: mem_copied_def)
  next
    case False
    then have "x - d < of_nat L" by (simp add: word_less_nat_alt L)
    then have "unat (x - d - of_nat L) = 2 ^ 64 + unat (x - d) - L"
      using False unat_sub_if_size [of "x - d" "of_nat L"] by (simp add: L word_size)
    with False small show ?thesis
      by (simp add: cpu_physical_memory_write_eq bytes eq)
         (auto simp: mem_copied_def)
  qed
qed

section \<open>Transfers between the queues\<close>

lemma queue_find_cong:
  assumes "length (queue q') = length (queue q)" "lo_seqn q' = lo_seqn q"
    and "\<And>x. x < length (queue q) \<Longrightarrow> e_tag (queue q' ! x) = e_tag (queue q ! x)
      \<and> e_seqn (queue q' ! x) = e_seqn (queue q ! x) \<and> e_z (queue q' ! x) = e_z (queue q ! x)"
  shows "pl330_queue_find_insn q' t = pl330_queue_find_insn q t"
proof -
  have "queue_find_loop is q' t = queue_find_loop is q t" if "set is \<subseteq> {..<length (queue q)}" for "is"
    using that by (induction "is") (use assms in \<open>auto simp: Let_def intro!: rbind_cong\<close>)
  then show ?thesis by (simp add: pl330_queue_find_insn_def assms(1) lessThan_atLeast0)
qed

lemma queue_beat_eq:
  assumes i: "i < length (queue q)" and n: "e_n (queue q ! i) = int (Suc k)"
    and tg: "unat (e_tag (queue q ! i)) < length (lo_seqn q)"
  shows "k \<noteq> 0 \<Longrightarrow> queue_beat q i = Inr (q\<lparr>queue := (queue q)[i := entry_beat (queue q ! i)]\<rparr>)"
    and "k = 0 \<Longrightarrow> \<exists>q'. queue_beat q i = Inr q' \<and> e_tag (queue q' ! i) = PL330_UNTAGGED"
  using assms by (auto simp: queue_beat_def Let_def entry_beat_def pl330_insn_from_queue_def)

lemma queue_beat_find:
  "pl330_queue_find_insn (q\<lparr>queue := (queue q)[i := entry_beat (queue q ! i)]\<rparr>) t
   = pl330_queue_find_insn q t"
proof (rule queue_find_cong, simp, simp)
  fix x assume "x < length (queue q)"
  then show "e_tag (queue (q\<lparr>queue := (queue q)[i := entry_beat (queue q ! i)]\<rparr>) ! x) = e_tag (queue q ! x)
    \<and> e_seqn (queue (q\<lparr>queue := (queue q)[i := entry_beat (queue q ! i)]\<rparr>) ! x) = e_seqn (queue q ! x)
    \<and> e_z (queue (q\<lparr>queue := (queue q)[i := entry_beat (queue q ! i)]\<rparr>) ! x) = e_z (queue q ! x)"
    by (cases "x = i") (simp_all add: entry_beat_def)
qed

text \<open>
  Queue \<open>q\<close> will next issue, when asked for tag \<open>t\<close>, its entry \<open>i\<close>: \<open>k\<close> beats of \<open>w\<close> bytes of
  channel \<open>tg\<close> at increasing addresses from \<open>a\<close>.
\<close>

definition queue_head :: "pl330_queue \<Rightarrow> u8 \<Rightarrow> nat \<Rightarrow> u8 \<Rightarrow> nat \<Rightarrow> nat \<Rightarrow> hwaddr \<Rightarrow> bool" where
  "queue_head q t i tg k w a \<longleftrightarrow>
     pl330_queue_find_insn q t = Inr (Some i) \<and> i < length (queue q)
     \<and> unat tg < length (lo_seqn q) \<and> e_tag (queue q ! i) = tg \<and> e_n (queue q ! i) = int k
     \<and> e_len (queue q ! i) = w \<and> e_inc (queue q ! i) \<and> \<not> e_z (queue q ! i) \<and> e_addr (queue q ! i) = a"

lemma queue_head_beat:
  assumes "queue_head q t i tg (Suc k) w a"
  shows "\<exists>q'. queue_beat q i = Inr q' \<and>
    (if k = 0 then e_tag (queue q' ! i) = PL330_UNTAGGED else queue_head q' t i tg k w (a + of_nat w))"
proof (cases "k = 0")
  case True
  then show ?thesis using queue_beat_eq(2) [of i q k] assms by (auto simp: queue_head_def)
next
  case False
  let ?q = "q\<lparr>queue := (queue q)[i := entry_beat (queue q ! i)]\<rparr>"
  have "queue_beat q i = Inr ?q"
    using queue_beat_eq(1) [of i q k] False assms by (simp add: queue_head_def)
  moreover have "queue_head ?q t i tg k w (a + of_nat w)"
    using assms queue_beat_find [of q i t] by (auto simp: queue_head_def entry_beat_def)
  ultimately show ?thesis using False by auto
qed

definition transfer_ready :: "pl330_state \<Rightarrow> nat \<Rightarrow> nat \<Rightarrow> u8 \<Rightarrow> nat \<Rightarrow> nat \<Rightarrow> hwaddr \<Rightarrow> hwaddr \<Rightarrow> bool" where
  "transfer_ready S i j tg k w s d \<longleftrightarrow>
     fifo_invar (fifo S) \<and> fifo_contents (fifo S) = [] \<and> 0 < w \<and> w \<le> fifo_capacity (fifo S)
     \<and> queue_head (read_queue S) PL330_UNTAGGED i tg k w s \<and> queue_head (write_queue S) tg j tg k w d"

definition transfer_done :: "pl330_state \<Rightarrow> nat \<Rightarrow> nat \<Rightarrow> bool" where
  "transfer_done S i j \<longleftrightarrow> fifo_invar (fifo S) \<and> fifo_contents (fifo S) = []
     \<and> e_tag (queue (read_queue S) ! i) = PL330_UNTAGGED \<and> e_tag (queue (write_queue S) ! j) = PL330_UNTAGGED"

lemma exec_read_ready:
  assumes "transfer_ready S i j tg (Suc k) w s d"
  shows "\<exists>f rq. exec_read S = Inr (1, S\<lparr>fifo := f, read_queue := rq\<rparr>) \<and> fifo_invar f
    \<and> buf_size f = buf_size (fifo S)
    \<and> fifo_contents f = map (\<lambda>b. (b, tg)) (cpu_physical_memory_read (mem S) s w)
    \<and> (if k = 0 then e_tag (queue rq ! i) = PL330_UNTAGGED
       else queue_head rq PL330_UNTAGGED i tg k w (s + of_nat w))"
proof -
  have r: "fifo_invar (fifo S)" "fifo_contents (fifo S) = []" "w \<le> fifo_capacity (fifo S)"
    "queue_head (read_queue S) PL330_UNTAGGED i tg (Suc k) w s"
    using assms by (auto simp: transfer_ready_def)
  let ?bs = "cpu_physical_memory_read (mem S) s w"
  have len: "length ?bs = w" by (simp add: cpu_physical_memory_read_def)
  obtain f where f: "pl330_fifo_push (fifo S) ?bs tg = Inr (PL330_FIFO_OK, f)" "fifo_invar f"
    "buf_size f = buf_size (fifo S)" "fifo_contents f = map (\<lambda>b. (b, tg)) ?bs"
    using pl330_fifo_push_ok [OF r(1), of ?bs tg] r(2,3) len by auto
  obtain rq where rq: "queue_beat (read_queue S) i = Inr rq" "if k = 0 then e_tag (queue rq ! i) = PL330_UNTAGGED
       else queue_head rq PL330_UNTAGGED i tg k w (s + of_nat w)"
    using queue_head_beat [OF r(4)] by blast
  have "w \<le> pl330_fifo_num_free (fifo S)"
    using r by (simp add: pl330_fifo_num_free_eq)
  then have "exec_read S = Inr (1, S\<lparr>fifo := f, read_queue := rq\<rparr>)"
    using f r(4) rq(1) by (simp add: exec_read_def queue_head_def)
  with f rq(2) show ?thesis by blast
qed

lemma exec_write_ready:
  assumes "fifo_invar (fifo S)" and "fifo_contents (fifo S) = map (\<lambda>b. (b, tg)) bs" and "bs \<noteq> []"
    and "queue_head (write_queue S) tg j tg (Suc k) (length bs) d"
  shows "\<exists>f wq. exec_write S = Inr (1, S\<lparr>fifo := f, write_queue := wq,
      mem := cpu_physical_memory_write (mem S) d bs\<rparr>) \<and> fifo_invar f
    \<and> buf_size f = buf_size (fifo S) \<and> fifo_contents f = []
    \<and> (if k = 0 then e_tag (queue wq ! j) = PL330_UNTAGGED
       else queue_head wq tg j tg k (length bs) (d + of_nat (length bs)))"
proof -
  have tw: "takeWhile (\<lambda>x. snd x = tg) (fifo_contents (fifo S)) = fifo_contents (fifo S)"
    using assms(2) by (simp add: takeWhile_eq_all_conv)
  have run: "fifo_run tg (fifo S) = bs"
    unfolding fifo_run_def tw by (simp add: assms(2) comp_def)
  have "fifo_get_result (length bs) tg (fifo S) = PL330_FIFO_OK" by (simp add: fifo_get_result_def run)
  then obtain f where f: "pl330_fifo_get (fifo S) (length bs) tg = Inr (PL330_FIFO_OK, bs, f)"
    "fifo_invar f" "buf_size f = buf_size (fifo S)" "fifo_contents f = []"
    using pl330_fifo_get_ok [OF assms(1), of "length bs" tg] run assms(2) by auto
  obtain wq where wq: "queue_beat (write_queue S) j = Inr wq" "if k = 0 then e_tag (queue wq ! j) = PL330_UNTAGGED
       else queue_head wq tg j tg k (length bs) (d + of_nat (length bs))"
    using queue_head_beat [OF assms(4)] by blast
  have "pl330_fifo_tag (fifo S) = Inr tg"
    using assms(3) by (cases bs) (auto simp: pl330_fifo_tag_eq [OF assms(1)] assms(2))
  moreover have "length bs \<le> pl330_fifo_num_used (fifo S)"
    by (simp add: pl330_fifo_num_used_eq [OF assms(1)] assms(2))
  ultimately have "exec_write S = Inr (1, S\<lparr>fifo := f, write_queue := wq,
      mem := cpu_physical_memory_write (mem S) d bs\<rparr>)"
    using f assms(4) wq(1) by (simp add: exec_write_def queue_head_def)
  with f wq(2) show ?thesis by blast
qed

definition chan_idle :: "pl330_state \<Rightarrow> chan_ref \<Rightarrow> bool" where
  "chan_idle S c \<longleftrightarrow> (case chan_get S c of Inl _ \<Rightarrow> False
     | Inr ch \<Rightarrow> state ch \<noteq> pl330_chan_executing \<and> state ch \<noteq> pl330_chan_waiting_periph)"

lemma chan_get_update [simp]:
  "chan_get (S\<lparr>fifo := f\<rparr>) c = chan_get S c" "chan_get (S\<lparr>read_queue := q\<rparr>) c = chan_get S c"
  "chan_get (S\<lparr>write_queue := q\<rparr>) c = chan_get S c" "chan_get (S\<lparr>mem := m\<rparr>) c = chan_get S c"
  "chan_get (S\<lparr>num_faulting := n\<rparr>) c = chan_get S c" "chan_get (S\<lparr>dma_irq := log\<rparr>) c = chan_get S c"
  "chan_get (S\<lparr>int_status := v\<rparr>) c = chan_get S c" "chan_get (S\<lparr>ev_status := v\<rparr>) c = chan_get S c"
  "chan_get (S\<lparr>debug_status := b\<rparr>) c = chan_get S c"
  by (simp_all add: chan_get_def split: chan_ref.splits)

lemma exec_cycle_transfer:
  assumes ready: "transfer_ready S i j tg (Suc k) w s d" and idle: "chan_idle S c"
  shows "\<exists>S'. pl330_exec_cycle S c = Inr (2, S') \<and> chan_idle S' c
    \<and> mem S' = cpu_physical_memory_write (mem S) d (cpu_physical_memory_read (mem S) s w)
    \<and> (if k = 0 then transfer_done S' i j else transfer_ready S' i j tg k w (s + of_nat w) (d + of_nat w))"
proof -
  let ?bs = "cpu_physical_memory_read (mem S) s w"
  have len: "length ?bs = w" by (simp add: cpu_physical_memory_read_def)
  obtain f rq where r: "exec_read S = Inr (1, S\<lparr>fifo := f, read_queue := rq\<rparr>)" "fifo_invar f"
    "buf_size f = buf_size (fifo S)" "fifo_contents f = map (\<lambda>b. (b, tg)) ?bs"
    "if k = 0 then e_tag (queue rq ! i) = PL330_UNTAGGED
       else queue_head rq PL330_UNTAGGED i tg k w (s + of_nat w)"
    using exec_read_ready [OF ready] by blast
  let ?S = "S\<lparr>fifo := f, read_queue := rq\<rparr>"
  have "?bs \<noteq> []" using ready len by (auto simp: transfer_ready_def)
  moreover have "queue_head (write_queue ?S) tg j tg (Suc k) (length ?bs) d"
    using ready len by (simp add: transfer_ready_def)
  ultimately obtain f' wq where w: "exec_write ?S = Inr (1, ?S\<lparr>fifo := f', write_queue := wq,
      mem := cpu_physical_memory_write (mem ?S) d ?bs\<rparr>)" "fifo_invar f'"
    "buf_size f' = buf_size f" "fifo_contents f' = []"
    "if k = 0 then e_tag (queue wq ! j) = PL330_UNTAGGED
       else queue_head wq tg j tg k w (d + of_nat w)"
  proof -
    assume "?bs \<noteq> []" "queue_head (write_queue ?S) tg j tg (Suc k) (length ?bs) d"
    with r have "fifo_invar (fifo ?S)" "fifo_contents (fifo ?S) = map (\<lambda>b. (b, tg)) ?bs" by simp_all
    from exec_write_ready [OF this \<open>?bs \<noteq> []\<close> \<open>queue_head (write_queue ?S) tg j tg (Suc k) (length ?bs) d\<close>]
    show ?thesis using that unfolding len by auto
  qed
  have "pl330_chan_exec S c = Inr (0, S)"
    using idle by (auto simp: chan_idle_def pl330_chan_exec_def rbind_def split: sum.splits)
  then have "pl330_exec_cycle S c = Inr (2, ?S\<lparr>fifo := f', write_queue := wq,
      mem := cpu_physical_memory_write (mem S) d ?bs\<rparr>)"
    using r(1) w(1) by (simp add: pl330_exec_cycle_def)
  then show ?thesis
    using r(3,5) w(2-5) ready idle
    by (simp add: transfer_ready_def transfer_done_def chan_idle_def fifo_capacity_def)
qed

lemma exec_loop_transfer:
  assumes "transfer_ready S i j tg (Suc k) w (s + of_nat L) (d + of_nat L)" and "chan_idle S c"
    and "mem S = mem_copied m s d L"
    and "\<And>x y. x < L + Suc k * w \<Longrightarrow> y < L + Suc k * w \<Longrightarrow> s + of_nat x \<noteq> d + of_nat y"
    and "L + Suc k * w < 2 ^ 64"
  shows "\<exists>S'. (\<forall>fuel. exec_channel_loop (Suc k + fuel) S c r = exec_channel_loop fuel S' c (r + Suc k))
    \<and> chan_idle S' c \<and> mem S' = mem_copied m s d (L + Suc k * w) \<and> transfer_done S' i j"
  using assms
proof (induction k arbitrary: S L r)
  case 0
  from exec_cycle_transfer [OF "0.prems"(1,2)] obtain S' where S': "pl330_exec_cycle S c = Inr (2, S')"
    "chan_idle S' c" "mem S' = mem_copied m s d (L + w)" "transfer_done S' i j"
    using mem_copied_step [of L w s d m] "0.prems"(3-5) by auto
  then show ?case by (intro exI [of _ S']) simp
next
  case (Suc k)
  let ?L = "L + w"
  obtain S1 where S1: "pl330_exec_cycle S c = Inr (2, S1)"
    "chan_idle S1 c" "mem S1 = mem_copied m s d ?L"
    "transfer_ready S1 i j tg (Suc k) w (s + of_nat L + of_nat w) (d + of_nat L + of_nat w)"
    using exec_cycle_transfer [OF Suc.prems(1,2)] mem_copied_step [of L w s d m] Suc.prems(3-5) by auto
  then have "transfer_ready S1 i j tg (Suc k) w (s + of_nat ?L) (d + of_nat ?L)" by (simp add: add.assoc)
  from Suc.IH [OF this S1(2,3), of "Suc r"] Suc.prems(4,5) S1(1) show ?case by (auto simp: add.assoc)
qed

section \<open>Faults and the abort interrupt\<close>

definition faulting :: "pl330_chan_state \<Rightarrow> bool" where
  "faulting ch \<longleftrightarrow> state ch = pl330_chan_fault \<or> state ch = pl330_chan_fault_completing"

definition fault_num :: "pl330_state \<Rightarrow> nat" where
  "fault_num S = length (filter faulting (manager S # chan S))"

definition abort_ok :: "pl330_state \<Rightarrow> bool" where
  "abort_ok S \<longleftrightarrow> unat (num_faulting S) = fault_num S \<and> length (chan S) \<le> 8
     \<and> (irq_level (dma_irq S) IrqAbort \<longleftrightarrow> num_faulting S \<noteq> 0)"

lemma length_filter_update:
  "i < length xs \<Longrightarrow> length (filter P (xs[i := x])) + (if P (xs ! i) then 1 else 0)
     = length (filter P xs) + (if P x then 1 else 0)"
proof -
  assume i: "i < length xs"
  have "length (filter P xs) = length (filter P (take i xs @ xs ! i # drop (Suc i) xs))"
    using id_take_nth_drop [OF i] by simp
  then show ?thesis using i by (simp add: upd_conv_take_nth_drop)
qed

lemma fault_num_put:
  assumes "chan_get S c = Inr ch"
  shows "fault_num (chan_put c ch' S) + (if faulting ch then 1 else 0)
     = fault_num S + (if faulting ch' then 1 else 0)"
  using assms length_filter_update [of _ "chan S" faulting ch']
  by (cases c) (auto simp: chan_get_def chan_put_def fault_num_def arr_get_eq_Inr)

lemma chan_put_simps [simp]:
  "num_faulting (chan_put c ch S) = num_faulting S" "dma_irq (chan_put c ch S) = dma_irq S"
  "length (chan (chan_put c ch S)) = length (chan S)" "fifo (chan_put c ch S) = fifo S"
  "read_queue (chan_put c ch S) = read_queue S" "write_queue (chan_put c ch S) = write_queue S"
  "mem (chan_put c ch S) = mem S" "periph_busy (chan_put c ch S) = periph_busy S"
  by (simp_all add: chan_put_def split: chan_ref.splits)

lemma chan_get_put [simp]:
  "chan_get S c = Inr ch \<Longrightarrow> chan_get (chan_put c ch' S) c = Inr ch'"
  by (cases c) (auto simp: chan_get_def chan_put_def arr_get_eq_Inr)

lemma abort_ok_put:
  assumes "chan_get S c = Inr ch" and "faulting ch' = faulting ch"
  shows "abort_ok (chan_put c ch' S) = abort_ok S"
  using fault_num_put [OF assms(1), of ch'] assms(2) by (auto simp: abort_ok_def)

lemma abort_ok_update [simp]:
  "abort_ok (S\<lparr>fifo := f\<rparr>) = abort_ok S" "abort_ok (S\<lparr>read_queue := q\<rparr>) = abort_ok S"
  "abort_ok (S\<lparr>write_queue := q\<rparr>) = abort_ok S" "abort_ok (S\<lparr>mem := m\<rparr>) = abort_ok S"
  "abort_ok (S\<lparr>int_status := v\<rparr>) = abort_ok S" "abort_ok (S\<lparr>ev_status := v\<rparr>) = abort_ok S"
  "abort_ok (S\<lparr>debug_status := b\<rparr>) = abort_ok S"
  "abort_ok (S\<lparr>int_status := v, dma_irq := qemu_irq_raise (IrqEvent e) (dma_irq S)\<rparr>) = abort_ok S"
  by (simp_all add: abort_ok_def fault_num_def)

lemma fault_num_le: "fault_num S \<le> Suc (length (chan S))"
  by (simp add: fault_num_def le_SucI)

lemma pl330_fault_ok:
  assumes ok: "abort_ok S" and ch: "chan_get S c = Inr ch" "\<not> faulting ch"
    and "pl330_fault S c f = Inr S'"
  shows "abort_ok S'"
proof -
  let ?ch = "ch\<lparr>fault_type := fault_type ch OR f, state := pl330_chan_fault\<rparr>"
  have n: "fault_num (chan_put c ?ch S) = Suc (fault_num S)"
    using fault_num_put [OF ch(1), of ?ch] ch(2) by (simp add: faulting_def)
  have "fault_num S \<le> 9" using fault_num_le [of S] ok by (auto simp: abort_ok_def)
  then have u: "unat (num_faulting S + 1) = Suc (unat (num_faulting S))"
    using ok by (simp add: abort_ok_def unat_word_ariths)
  then have "num_faulting S + 1 \<noteq> 0" by auto
  moreover have "num_faulting S + 1 = 1 \<longleftrightarrow> num_faulting S = 0" by simp
  ultimately show ?thesis
    using assms(4) ch(1) ok n u
    by (auto simp: pl330_fault_def Let_def abort_ok_def fault_num_def split: if_splits)
qed

lemma chan_flush_fields:
  assumes "chan_flush S tg = Inr S'"
  shows "chan_get S' c = chan_get S c" "abort_ok S' = abort_ok S" "num_faulting S' = num_faulting S"
    "dma_irq S' = dma_irq S" "fault_num S' = fault_num S" "length (chan S') = length (chan S)"
  using assms by (auto simp: chan_flush_def rbind_eq_Inr fault_num_def)

lemma pl330_dmakill_count:
  assumes ch: "chan_get S c = Inr ch" and kill: "pl330_dmakill S c opc args l = Inr S'"
    and num: "unat (num_faulting S) = fault_num S + k"
    and line: "irq_level (dma_irq S) IrqAbort \<longleftrightarrow> num_faulting S \<noteq> 0"
  shows "unat (num_faulting S') = fault_num S' + k \<and> length (chan S') = length (chan S)
    \<and> (irq_level (dma_irq S') IrqAbort \<longleftrightarrow> num_faulting S' \<noteq> 0)"
proof -
  define S1 where "S1 = (if faulting ch then S\<lparr>num_faulting := num_faulting S - 1\<rparr> else S)"
  define S2 where "S2 = (if faulting ch \<and> num_faulting S1 = 0
    then S1\<lparr>dma_irq := qemu_irq_lower IrqAbort (dma_irq S1)\<rparr> else S1)"
  let ?ch = "ch\<lparr>fault_type := if faulting ch then 0 else fault_type ch, state := pl330_chan_stopped\<rparr>"
  have "rbind (chan_flush S2 (ch_tag ch)) (\<lambda>S3. Inr (chan_put c ?ch S3)) = Inr S'"
    using kill by (simp only: pl330_dmakill_def ch rbind_Inr Let_def S2_def S1_def faulting_def)
  then obtain S3 where S3: "chan_flush S2 (ch_tag ch) = Inr S3" "S' = chan_put c ?ch S3"
    by (auto simp: rbind_eq_Inr)
  have same: "chan_get S3 c = Inr ch" "fault_num S3 = fault_num S" "length (chan S3) = length (chan S)"
    "num_faulting S3 = num_faulting S1" "dma_irq S3 = dma_irq S2"
    using chan_flush_fields [OF S3(1)] ch by (auto simp: S1_def S2_def fault_num_def)
  have n: "fault_num S' + (if faulting ch then 1 else 0) = fault_num S"
    using fault_num_put [OF same(1), of ?ch] S3(2) same(2) by (simp add: faulting_def)
  have "unat (num_faulting S - 1) = unat (num_faulting S) - 1 \<and> num_faulting S \<noteq> 0" if "faulting ch"
  proof -
    have "num_faulting S \<noteq> 0" using n that num by auto
    then show ?thesis by (simp add: unat_minus_one)
  qed
  then show ?thesis
    using n num line same S3(2) by (auto simp: S1_def S2_def)
qed

lemma pl330_dmakill_ok:
  assumes "abort_ok S" and "chan_get S c = Inr ch" and "pl330_dmakill S c opc args l = Inr S'"
  shows "abort_ok S'"
  using pl330_dmakill_count [OF assms(2,3), of 0] assms(1) by (auto simp: abort_ok_def)

lemma pl330_dmaend_ok:
  assumes "abort_ok S" and "chan_get S c = Inr ch" "\<not> faulting ch" and "pl330_dmaend S c opc args l = Inr S'"
  shows "abort_ok S'"
proof -
  have "S' = chan_put c (ch\<lparr>stall := True\<rparr>) S \<or>
    (\<exists>S1. chan_flush S (ch_tag ch) = Inr S1 \<and> S' = chan_put c (ch\<lparr>state := pl330_chan_stopped\<rparr>) S1)"
    using assms(2,4) unfolding pl330_dmaend_def by (auto simp: rbind_eq_Inr split: if_splits)
  then show ?thesis
    using assms(1-3) abort_ok_put [OF assms(2), of "ch\<lparr>stall := True\<rparr>"] chan_flush_fields [of S "ch_tag ch"]
      abort_ok_put [of _ c ch "ch\<lparr>state := pl330_chan_stopped\<rparr>"]
    by (auto simp: faulting_def)
qed

lemma pl330_dmago_ok:
  assumes "abort_ok S" and "chan_get S c = Inr ch" "\<not> faulting ch" and "pl330_dmago S c opc args l = Inr S'"
  shows "abort_ok S'"
proof -
  have "abort_ok (chan_put (Chan i) ch' S)"
    if "i < length (chan S)" "state (chan S ! i) = pl330_chan_stopped" "state ch' = pl330_chan_executing" for i ch'
    using abort_ok_put [of S "Chan i" "chan S ! i" ch'] assms(1) that by (simp add: chan_get_def faulting_def)
  then show ?thesis
    using assms(2,4) pl330_fault_ok [OF assms(1-3)] unfolding pl330_dmago_def
    by (auto simp: Let_def not_le elim!: rbind_InrE split: if_splits)
qed

text \<open>The other instructions fault, or change fields of the channel that do not matter here.\<close>

lemmas insn_defs = pl330_dmaaddh_def pl330_dmaflushp_def pl330_dmald_def pl330_dmaldp_def pl330_dmalp_def
  pl330_dmalpend_def pl330_dmamov_def pl330_dmanop_def pl330_dmarmb_def pl330_dmasev_def pl330_dmast_def
  pl330_dmastp_def pl330_dmastz_def pl330_dmawfe_def pl330_dmawfp_def pl330_dmawmb_def dma_store_def

lemma insn_fault_ok:
  assumes "abort_ok S" and "chan_get S c = Inr ch" "\<not> faulting ch"
    and "f \<in> {pl330_dmaaddh, pl330_dmaflushp, pl330_dmalp, pl330_dmalpend, pl330_dmamov, pl330_dmanop,
      pl330_dmarmb, pl330_dmasev, pl330_dmawfe, pl330_dmawmb}"
    and "f S c opc args l = Inr S'"
  shows "abort_ok S'"
  using assms(4,5,1-3) pl330_fault_ok [OF assms(1-3)] abort_ok_put [OF assms(2)]
  by (auto simp: insn_defs Let_def faulting_def elim!: rbind_InrE split: if_splits sum.splits)


lemma dma_store_ok:
  assumes "abort_ok S" and "chan_get S c = Inr ch" "\<not> faulting ch" and "dma_store b S c ch = Inr S'"
  shows "abort_ok S'"
  using assms abort_ok_put [of "S\<lparr>write_queue := _\<rparr>" c ch]
  by (auto simp: dma_store_def Let_def faulting_def elim!: rbind_InrE)

lemma pl330_dmald_ok:
  assumes "abort_ok S" and "chan_get S c = Inr ch" "\<not> faulting ch" and "pl330_dmald S c opc args l = Inr S'"
  shows "abort_ok S'"
  using assms pl330_fault_ok [OF assms(1-3)] abort_ok_put [of "S\<lparr>read_queue := _\<rparr>" c ch]
  by (auto simp: pl330_dmald_def Let_def faulting_def elim!: rbind_InrE split: if_splits)

lemma insn_queue_ok:
  assumes "abort_ok S" and "chan_get S c = Inr ch" "\<not> faulting ch"
    and "f \<in> {pl330_dmald, pl330_dmaldp, pl330_dmast, pl330_dmastp, pl330_dmastz}"
    and "f S c opc args l = Inr S'"
  shows "abort_ok S'"
  using assms(4,5,1-3) pl330_fault_ok [OF assms(1-3)] pl330_dmald_ok [OF assms(1-3)] dma_store_ok [OF assms(1-3)]
  by (auto simp: pl330_dmaldp_def pl330_dmast_def pl330_dmastp_def pl330_dmastz_def
      elim!: rbind_InrE split: if_splits sum.splits)

lemma pl330_dmawfp_ok:
  assumes "abort_ok S" and "chan_get S c = Inr ch" "\<not> faulting ch" and "pl330_dmawfp S c opc args l = Inr S'"
  shows "abort_ok S'"
  using assms pl330_fault_ok [OF assms(1-3)] abort_ok_put [OF assms(2)]
  by (auto simp: pl330_dmawfp_def Let_def faulting_def elim!: rbind_InrE split: if_splits sum.splits)

lemma insn_desc_ok:
  assumes "d \<in> set insn_desc" and "abort_ok S" "chan_get S c = Inr ch" "\<not> faulting ch"
    and "exec d S c opc args l = Inr S'"
  shows "abort_ok S'"
proof -
  have "exec d \<in> {pl330_dmaaddh, pl330_dmaflushp, pl330_dmalp, pl330_dmalpend, pl330_dmamov, pl330_dmanop,
      pl330_dmarmb, pl330_dmasev, pl330_dmawfe, pl330_dmawmb}
    \<union> {pl330_dmald, pl330_dmaldp, pl330_dmast, pl330_dmastp, pl330_dmastz}
    \<union> {pl330_dmaend, pl330_dmago, pl330_dmakill, pl330_dmawfp}"
    using assms(1) by (auto simp: insn_desc_def)
  then consider "exec d \<in> {pl330_dmaaddh, pl330_dmaflushp, pl330_dmalp, pl330_dmalpend, pl330_dmamov, pl330_dmanop,
      pl330_dmarmb, pl330_dmasev, pl330_dmawfe, pl330_dmawmb}"
    | "exec d \<in> {pl330_dmald, pl330_dmaldp, pl330_dmast, pl330_dmastp, pl330_dmastz}"
    | "exec d = pl330_dmaend" | "exec d = pl330_dmago" | "exec d = pl330_dmakill" | "exec d = pl330_dmawfp"
    by blast
  then show ?thesis
    using assms(2-5) insn_fault_ok insn_queue_ok pl330_dmaend_ok pl330_dmago_ok pl330_dmakill_ok pl330_dmawfp_ok
    by cases metis+
qed

text \<open>An instruction does not both stall and fault.\<close>

definition stall_ok :: "pl330_state \<Rightarrow> chan_ref \<Rightarrow> bool" where
  "stall_ok S c \<longleftrightarrow> (case chan_get S c of Inl _ \<Rightarrow> True | Inr ch \<Rightarrow> \<not> (stall ch \<and> faulting ch))"

lemma stall_okI: "chan_get S c = Inr ch \<Longrightarrow> \<not> stall ch' \<or> \<not> faulting ch' \<Longrightarrow> stall_ok (chan_put c ch' S) c"
  by (auto simp: stall_ok_def)

lemma stall_ok_same: "chan_get S c = Inr ch \<Longrightarrow> \<not> stall ch \<Longrightarrow> stall_ok S c"
  by (simp add: stall_ok_def)

lemma stall_ok_update [simp]:
  "stall_ok (S\<lparr>int_status := v\<rparr>) c = stall_ok S c" "stall_ok (S\<lparr>ev_status := v\<rparr>) c = stall_ok S c"
  "stall_ok (S\<lparr>dma_irq := log\<rparr>) c = stall_ok S c" "stall_ok (S\<lparr>num_faulting := n\<rparr>) c = stall_ok S c"
  by (simp_all add: stall_ok_def)

lemma pl330_fault_stall:
  "chan_get S c = Inr ch \<Longrightarrow> \<not> stall ch \<Longrightarrow> pl330_fault S c f = Inr S' \<Longrightarrow> stall_ok S' c"
  by (auto simp: pl330_fault_def Let_def stall_okI split: if_splits)

lemma pl330_dmakill_stall:
  assumes "chan_get S c = Inr ch" "\<not> faulting ch" "pl330_dmakill S c opc args l = Inr S'"
  shows "stall_ok S' c"
proof -
  obtain S1 where "chan_flush S (ch_tag ch) = Inr S1"
    "S' = chan_put c (ch\<lparr>fault_type := fault_type ch, state := pl330_chan_stopped\<rparr>) S1"
    using assms by (auto simp: pl330_dmakill_def faulting_def elim!: rbind_InrE)
  then show ?thesis
    using assms chan_flush_fields(1) [of S "ch_tag ch" S1 c] stall_okI [of S1 c ch] by (auto simp: faulting_def)
qed

lemma pl330_dmago_stall:
  assumes "chan_get S c = Inr ch" "\<not> stall ch" "pl330_dmago S c opc args l = Inr S'"
  shows "stall_ok S' c"
proof -
  have "stall_ok (chan_put (Chan i) ch' S) c" if "state ch' = pl330_chan_executing" for i ch'
    using assms(1,2) that by (cases c; cases "c = Chan i") (auto simp: stall_ok_def chan_get_def chan_put_def
        arr_get_eq_Inr faulting_def split: sum.splits)
  then show ?thesis
    using assms pl330_fault_stall [OF assms(1,2)] unfolding pl330_dmago_def
    by (auto simp: Let_def not_le elim!: rbind_InrE split: if_splits)
qed

lemma insn_stall:
  assumes d: "d \<in> set insn_desc" and ch: "chan_get S c = Inr ch" "\<not> stall ch" "\<not> faulting ch"
    and ex: "exec d S c opc args l = Inr S'"
  shows "stall_ok S' c"
proof -
  note facts = pl330_fault_stall [OF ch(1,2)] stall_okI [OF ch(1)] stall_ok_same [OF ch(1,2)]
    stall_okI [of "S\<lparr>read_queue := _\<rparr>" c ch] stall_okI [of "S\<lparr>write_queue := _\<rparr>" c ch]
  have "exec d S c opc args l = Inr S' \<Longrightarrow> ?thesis"
    if "exec d \<in> {pl330_dmaaddh, pl330_dmaflushp, pl330_dmalp, pl330_dmalpend, pl330_dmamov, pl330_dmanop,
      pl330_dmarmb, pl330_dmasev, pl330_dmawfe, pl330_dmawmb, pl330_dmawfp}"
    using that facts ch
    by (auto simp: insn_defs Let_def faulting_def elim!: rbind_InrE split: if_splits sum.splits)
  moreover have "exec d S c opc args l = Inr S' \<Longrightarrow> ?thesis"
    if "exec d \<in> {pl330_dmald, pl330_dmaldp, pl330_dmast, pl330_dmastp, pl330_dmastz}"
    using that facts ch
    by (auto simp: insn_defs Let_def faulting_def elim!: rbind_InrE split: if_splits sum.splits)
  moreover have "exec d S c opc args l = Inr S' \<Longrightarrow> ?thesis" if "exec d = pl330_dmaend"
    using that facts ch chan_flush_fields(1) [of S "ch_tag ch" _ c] stall_okI [of _ c ch]
    by (auto simp: pl330_dmaend_def faulting_def elim!: rbind_InrE split: if_splits)
  ultimately show ?thesis
    using d ex pl330_dmakill_stall [OF ch(1,3)] pl330_dmago_stall [OF ch(1,2)] by (auto simp: insn_desc_def)
qed

lemma pl330_chan_exec_ok:
  assumes ok: "abort_ok S" and ex: "pl330_chan_exec S c = Inr (k, S')"
  shows "abort_ok S'"
proof -
  obtain ch where ch: "chan_get S c = Inr ch"
    using ex unfolding pl330_chan_exec_def by (auto elim: rbind_InrE)
  let ?ch = "ch\<lparr>stall := False\<rparr>" and ?S = "chan_put c (ch\<lparr>stall := False\<rparr>) S"
  show ?thesis
  proof (cases "state ch = pl330_chan_executing \<or> state ch = pl330_chan_waiting_periph")
    case False
    then show ?thesis using ex ok ch by (simp add: pl330_chan_exec_def)
  next
    case True
    then have nf: "\<not> faulting ch" "\<not> faulting ?ch" by (auto simp: faulting_def)
    have ok1: "abort_ok ?S" using abort_ok_put [OF ch, of ?ch] ok by (simp add: faulting_def)
    have get: "chan_get ?S c = Inr ?ch" using ch by simp
    note ex' = ex [unfolded pl330_chan_exec_def ch rbind_Inr Let_def]
    show ?thesis
    proof (cases "pl330_fetch_insn ?S ch")
      case None
      then show ?thesis
        using ex' True pl330_fault_ok [OF ok1 get nf(2)] by (auto elim!: rbind_InrE)
    next
      case (Some insn)
      then have insn: "insn \<in> set insn_desc" by (auto simp: pl330_fetch_insn_def find_Some_iff)
      obtain T ch2 where T: "pl330_exec_insn ?S c insn = Inr T" "chan_get T c = Inr ch2"
        using ex' True Some by (auto elim!: rbind_InrE)
      then have "abort_ok T" "stall_ok T c"
        using insn_desc_ok [OF insn ok1 get nf(2)] insn_stall [OF insn get _ nf(2)] get
        by (auto simp: pl330_exec_insn_def Let_def)
      then have put: "abort_ok (chan_put c ch3 T)" if "state ch3 = state ch2" for ch3
        using abort_ok_put [OF T(2), of ch3] that by (simp add: faulting_def)
      have "abort_ok S'" if "stall ch2" "pl330_fault (chan_put c (ch2\<lparr>watchdog_timer := w\<rparr>) T) c f = Inr S'" for w f
        using pl330_fault_ok [OF put _ _ that(2)] that(1) T(2) \<open>stall_ok T c\<close>
        by (auto simp: stall_ok_def faulting_def)
      then show ?thesis
        using ex' True Some T put \<open>abort_ok T\<close>
        by (auto simp: pl330_update_pc_def elim!: rbind_InrE split: if_splits)
    qed
  qed
qed

lemma exec_queues_ok:
  "abort_ok S \<Longrightarrow> exec_read S = Inr (k, S') \<Longrightarrow> abort_ok S'"
  "abort_ok S \<Longrightarrow> exec_write S = Inr (k, S') \<Longrightarrow> abort_ok S'"
  by (auto simp: exec_read_def exec_write_def Let_def elim!: rbind_InrE split: option.splits if_splits)

lemma pl330_exec_cycle_ok: "abort_ok S \<Longrightarrow> pl330_exec_cycle S c = Inr (k, S') \<Longrightarrow> abort_ok S'"
  unfolding pl330_exec_cycle_def
  by (auto elim!: rbind_InrE) (blast intro: pl330_chan_exec_ok exec_queues_ok)

lemma exec_channel_loop_ok:
  "exec_channel_loop fuel S c r = Inr (k, S') \<Longrightarrow> abort_ok S \<Longrightarrow> abort_ok S'"
  by (induction fuel S c r rule: exec_channel_loop.induct)
     (auto elim!: rbind_InrE dest: pl330_exec_cycle_ok split: if_splits)

lemma executing_not_faulting: "state ch = pl330_chan_executing \<Longrightarrow> \<not> faulting ch"
  by (simp add: faulting_def)

lemma pl330_exec_channel_ok:
  "abort_ok S \<Longrightarrow> pl330_exec_channel fuel S c = Inr (k, S') \<Longrightarrow> abort_ok S'"
proof -
  assume "abort_ok S" and ex: "pl330_exec_channel fuel S c = Inr (k, S')"
  then obtain r S1 ch where S1: "exec_channel_loop fuel S c 0 = Inr (r, S1)" "chan_get S1 c = Inr ch"
    unfolding pl330_exec_channel_def by (auto elim!: rbind_InrE)
  then have "abort_ok S1" using exec_channel_loop_ok \<open>abort_ok S\<close> by blast
  with ex S1 show ?thesis
    using pl330_fault_ok [OF \<open>abort_ok S1\<close> S1(2) executing_not_faulting]
    by (auto simp: pl330_exec_channel_def elim!: rbind_InrE split: if_splits)
qed

lemma exec_round_ok: "abort_ok S \<Longrightarrow> exec_round fuel S = Inr (k, S') \<Longrightarrow> abort_ok S'"
  unfolding exec_round_def
  using rfold_invariant [where P = "\<lambda>(k, S). abort_ok S" and s = "(0, S)" and s' = "(k, S')"]
  by (fastforce elim!: rbind_InrE dest: pl330_exec_channel_ok)

lemma exec_rounds_ok: "exec_rounds fuel m S = Inr S' \<Longrightarrow> abort_ok S \<Longrightarrow> abort_ok S'"
  by (induction m arbitrary: S) (auto elim!: rbind_InrE dest: exec_round_ok split: if_splits)

section \<open>Properties of the engine\<close>

text \<open>
  Property C6.  A queued load and a queued store of one channel move the memory block: with the
  channel itself idle, the MFIFO empty and large enough for one beat, \<open>k\<close> iterations of the
  engine's loop are executed, whatever fuel is left after them; they copy \<open>k * w\<close> bytes from \<open>s\<close> to
  \<open>d\<close> when the two ranges do not overlap, change no other byte, and leave the MFIFO empty and the
  two queue slots free.
\<close>

theorem pl330_transfer_copies:
  assumes "transfer_ready S i j tg k w s d" and "0 < k" and "chan_idle S c" and "k * w < 2 ^ 64"
    and "\<And>x y. x < k * w \<Longrightarrow> y < k * w \<Longrightarrow> s + of_nat x \<noteq> d + of_nat y"
  shows "\<exists>S'. (\<forall>fuel. exec_channel_loop (k + fuel) S c r = exec_channel_loop fuel S' c (r + k))
    \<and> transfer_done S' i j
    \<and> (\<forall>x. mem S' x = (if unat (x - d) < k * w then mem S (s + (x - d)) else mem S x))"
proof -
  obtain k' where k: "k = Suc k'" using assms(2) by (cases k) auto
  have "mem S = mem_copied (mem S) s d 0" by (rule ext) (simp add: mem_copied_def)
  from exec_loop_transfer [of S i j tg k' w s 0 d c, OF _ assms(3) this, of r] assms(1,4,5)
  show ?thesis unfolding k by (auto simp: mem_copied_def)
qed

text \<open>A controller with eight channels, queues of sixteen entries and one transfer of two words.\<close>

definition dma_demo_queue :: "hwaddr \<Rightarrow> pl330_queue \<Rightarrow> pl330_queue" where
  "dma_demo_queue a q =
     (case pl330_insn_to_queue q a 4 2 True False 0 of Inl _ \<Rightarrow> q | Inr (_, q') \<Rightarrow> q')"

definition dma_demo :: "(hwaddr \<Rightarrow> u8) \<Rightarrow> pl330_state" where
  "dma_demo m = (let S = pl330_init1 [0x3E7075, 0, 0, 0, 0, 0x1F73FF6] m in
     S\<lparr>read_queue := dma_demo_queue 0x1000 (read_queue S),
       write_queue := dma_demo_queue 0x2000 (write_queue S)\<rparr>)"

lemma dma_demo_ready: "transfer_ready (dma_demo m) 0 0 0 2 4 0x1000 0x2000"
  unfolding transfer_ready_def by (intro conjI; code_simp)

lemma dma_demo_idle: "chan_idle (dma_demo m) (Chan 0)"
  by code_simp

theorem pl330_transfer_copies_witness:
  "\<exists>S'. exec_channel_loop 2 (dma_demo ucast) (Chan 0) 0 = exec_channel_loop 0 S' (Chan 0) 2
    \<and> mem S' 0x2007 = mem (dma_demo ucast) 0x1007"
proof -
  have "(0x1000 :: hwaddr) + of_nat x \<noteq> 0x2000 + of_nat y" if "x < 2 * 4" "y < 2 * 4" for x y :: nat
  proof
    assume "(0x1000 :: hwaddr) + of_nat x = 0x2000 + of_nat y"
    then have "(of_nat (0x1000 + x) :: hwaddr) = of_nat (0x2000 + y)" by simp
    then have "unat (of_nat (0x1000 + x) :: hwaddr) = unat (of_nat (0x2000 + y) :: hwaddr)" by (rule arg_cong)
    then show False using that by (simp only: unat_of_nat) simp
  qed
  from pl330_transfer_copies [OF dma_demo_ready _ dma_demo_idle _ this, of ucast 0]
  obtain S' where S': "\<forall>fuel. exec_channel_loop (2 + fuel) (dma_demo ucast) (Chan 0) 0
      = exec_channel_loop fuel S' (Chan 0) (0 + 2)"
    "\<forall>x. mem S' x = (if unat (x - 0x2000) < 2 * 4 then mem (dma_demo ucast) (0x1000 + (x - 0x2000))
      else mem (dma_demo ucast) x)"
    by auto
  from spec [OF S'(1), of 0] spec [OF S'(2), of "0x2007"] show ?thesis by (intro exI [of _ S']) simp
qed


text \<open>A channel whose program starts with an opcode that does not exist.\<close>

definition dma_undef_demo :: pl330_state where
  "dma_undef_demo = (let S = pl330_init1 [0x3E7075, 0, 0, 0, 0, 0x1F73FF6] (\<lambda>_. 0xFF) in
     S\<lparr>chan := (chan S)[0 := (chan S ! 0)\<lparr>state := pl330_chan_executing\<rparr>]\<rparr>)"


text \<open>
  The debug interface breaks that accounting: an instruction that is not one of
  the three debug instructions, issued on a channel that is already in the fault state, counts
  the channel a second time.  The following \<^verbatim>\<open>DMAKILL\<close> takes only one of the two away, so the
  abort interrupt stays high although no channel is faulting, and the busy flag in
  \<^verbatim>\<open>DBGSTATUS\<close> stays set.
\<close>

lemma pl330_debug_double_fault:
  assumes ok: "abort_ok S" and "bit (dbg S ! 0) 0"
    and op: "find (insn_matches (ucast (drop_bit 16 (dbg S ! 0) AND 0xff))) (rev debug_insn_desc) = None"
    and c: "c = Chan (unat (drop_bit 8 (dbg S ! 0) AND 7))" and ch: "chan_get S c = Inr ch" "faulting ch"
  shows "\<exists>S1. pl330_debug_exec S = Inr S1 \<and> debug_status S1 = 1
    \<and> unat (num_faulting S1) = fault_num S1 + 1
    \<and> (\<forall>args l S2. pl330_dmakill S1 c 0x01 args l = Inr S2 \<longrightarrow>
         unat (num_faulting S2) = fault_num S2 + 1 \<and> irq_level (dma_irq S2) IrqAbort)"
proof -
  let ?S = "S\<lparr>debug_status := 1\<rparr>"
  let ?ch = "ch\<lparr>fault_type := fault_type ch OR PL330_FAULT_UNDEF_INSTR, state := pl330_chan_fault\<rparr>"
  let ?S1 = "(chan_put c ?ch ?S)\<lparr>num_faulting := num_faulting S + 1\<rparr>"
  have get: "chan_get ?S c = Inr ch" using ch by simp
  have n: "fault_num ?S1 = fault_num S" "0 < fault_num S" "fault_num S \<le> 9"
    using fault_num_put [OF get, of ?ch] fault_num_put [OF ch(1), of "ch\<lparr>state := pl330_chan_stopped\<rparr>"]
      ch(2) fault_num_le [of S] ok by (auto simp: faulting_def fault_num_def abort_ok_def split: if_splits)
  then have u: "unat (num_faulting S + 1) = fault_num S + 1"
    using ok by (simp add: abort_ok_def unat_word_ariths)
  then have "num_faulting S + 1 \<noteq> 1" "num_faulting S + 1 \<noteq> 0" using n(2) by auto
  then have ex: "pl330_debug_exec S = Inr ?S1"
    using assms(2) op ch(1) unfolding pl330_debug_exec_def by (simp add: c Let_def pl330_fault_def)
  have "num_faulting S \<noteq> 0" using n(2) ok by (auto simp: abort_ok_def)
  then have line: "irq_level (dma_irq ?S1) IrqAbort \<longleftrightarrow> num_faulting ?S1 \<noteq> 0"
    using ok \<open>num_faulting S + 1 \<noteq> 0\<close> by (simp add: abort_ok_def)
  have num: "unat (num_faulting ?S1) = fault_num ?S1 + 1" using u n(1) by simp
  have get1: "chan_get ?S1 c = Inr ?ch" using get by simp
  have "unat (num_faulting S2) = fault_num S2 + 1 \<and> irq_level (dma_irq S2) IrqAbort"
    if "pl330_dmakill ?S1 c 0x01 args l = Inr S2" for args l S2
    using pl330_dmakill_count [OF get1 that num line] by auto
  with ex num show ?thesis by (intro exI [of _ ?S1]) (auto simp: chan_put_def split: chan_ref.splits)
qed

text \<open>The faulted channel of the previous state with opcode 0 (\<^verbatim>\<open>DMAEND\<close>) in the debug registers.\<close>

definition dma_debug_demo :: "pl330_state res" where
  "dma_debug_demo = rbind (pl330_exec 3 dma_undef_demo) (\<lambda>S. pl330_iomem_write 3 S 0xD08 1)"

lemma fold_irq_lower:
  "irq_level (fold (\<lambda>i log. if P i then qemu_irq_lower (IrqEvent i) log else log) is log0) (IrqEvent e)
   \<longleftrightarrow> irq_level log0 (IrqEvent e) \<and> \<not> (e \<in> set is \<and> P e)"
  by (induction "is" arbitrary: log0) auto

text \<open>
  Clearing events: a write to \<^verbatim>\<open>INTCLR\<close> clears the written bits of the interrupt
  status and lowers exactly the lines of the events that are pending, written and still enabled.
  An event whose bit in \<^verbatim>\<open>INTEN\<close> was cleared in between loses its status bit but its line
  stays high, and no later write to \<^verbatim>\<open>INTCLR\<close> lowers it.
\<close>

lemma pl330_intclr_lines:
  "\<exists>S'. pl330_iomem_write fuel S 0x02C val = Inr S' \<and> int_status S' = int_status S AND NOT val
    \<and> (\<forall>e. irq_level (dma_irq S') (IrqEvent e) \<longleftrightarrow> irq_level (dma_irq S) (IrqEvent e)
          \<and> \<not> (e < event_num S \<and> bit (int_status S) e \<and> bit (inten S) e \<and> bit val e))
    \<and> (\<forall>e. irq_level (dma_irq S) (IrqEvent e) \<and> \<not> bit (inten S) e \<and> bit val e \<longrightarrow>
         irq_level (dma_irq S') (IrqEvent e) \<and> \<not> bit (int_status S') e
         \<and> (\<exists>S''. pl330_iomem_write fuel S' 0x02C val = Inr S'' \<and> irq_level (dma_irq S'') (IrqEvent e)))"
proof -
  define clr :: "pl330_state \<Rightarrow> pl330_state" where "clr S = S\<lparr>dma_irq := fold (\<lambda>i log. if bit (int_status S AND inten S AND val) i
        then qemu_irq_lower (IrqEvent i) log else log) [0..<event_num S] (dma_irq S),
      int_status := int_status S AND NOT val\<rparr>" for S
  have w: "pl330_iomem_write fuel S 0x02C val = Inr (clr S)" for S
    by (simp add: pl330_iomem_write_def clr_def)
  have l: "irq_level (dma_irq (clr S)) (IrqEvent e) \<longleftrightarrow> irq_level (dma_irq S) (IrqEvent e)
      \<and> \<not> (e < event_num S \<and> bit (int_status S) e \<and> bit (inten S) e \<and> bit val e)" for S e
    by (auto simp: clr_def fold_irq_lower bit_simps)
  have "int_status (clr S) = int_status S AND NOT val" "inten (clr S) = inten S" by (simp_all add: clr_def)
  then show ?thesis
    by (intro exI [of _ "clr S"]) (auto simp: w l bit_simps)
qed

end
