(* ===== verification/S5pc1xx_Rtc.thy ===== *)
theory S5pc1xx_Rtc
  imports Qemu_Prelude "HOL-Library.Signed_Division"
begin

text \<open>
  The real time clock of the board, \<^verbatim>\<open>hw/s5pc1xx_rtc.c\<close>: a tick timer with a programmable
  frequency, a calendar that is advanced every second, and an alarm.  The clock
  (\<^verbatim>\<open>qemu_get_clock\<close>) and the host's date (\<^verbatim>\<open>qemu_get_timedate\<close>) are arguments of the
  operations that read them.  The date is kept in a \<^verbatim>\<open>struct tm\<close>, whose fields are C integers;
  they stay far from the bounds of the type and are integers here.
\<close>

section \<open>State\<close>

record tm =
  tm_sec :: int
  tm_min :: int
  tm_hour :: int
  tm_mday :: int
  tm_mon :: int
  tm_year :: int
  tm_wday :: int

datatype rtc_line = TickIrq | AlmIrq

text \<open>
  The registers are indexed by their byte offset, up to \<^verbatim>\<open>BCD_YEAR\<close>.  The list \<open>oob_writes\<close>
  records the writes the code makes past the end of that array; they hit a neighbouring field
  (\<^verbatim>\<open>freq_out\<close> or \<^verbatim>\<open>last_tick\<close>, depending on the size of a pointer) that the same function
  clears afterwards.
\<close>

record S5pc1xxRTCState =
  regs :: "u32 list"
  periodic_timer :: timer
  freq_out :: u32
  last_tick :: u64
  cur_tic_cnt :: u64
  second_timer :: timer
  current_tm :: tm
  rtc_irq :: "rtc_line irq_log"
  oob_writes :: "nat list"

abbreviation INT_PEND :: nat where "INT_PEND \<equiv> 0x30"
abbreviation RTC_CON :: nat where "RTC_CON \<equiv> 0x40"
abbreviation TIC_CNT :: nat where "TIC_CNT \<equiv> 0x44"
abbreviation RTC_ALM :: nat where "RTC_ALM \<equiv> 0x50"
abbreviation ALM_SEC :: nat where "ALM_SEC \<equiv> 0x54"
abbreviation ALM_MIN :: nat where "ALM_MIN \<equiv> 0x58"
abbreviation ALM_HOUR :: nat where "ALM_HOUR \<equiv> 0x5C"
abbreviation ALM_DAY :: nat where "ALM_DAY \<equiv> 0x60"
abbreviation ALM_MON :: nat where "ALM_MON \<equiv> 0x64"
abbreviation ALM_YEAR :: nat where "ALM_YEAR \<equiv> 0x68"
abbreviation BCD_SEC :: nat where "BCD_SEC \<equiv> 0x70"
abbreviation BCD_MIN :: nat where "BCD_MIN \<equiv> 0x74"
abbreviation BCD_HOUR :: nat where "BCD_HOUR \<equiv> 0x78"
abbreviation BCD_DAY :: nat where "BCD_DAY \<equiv> 0x7C"
abbreviation BCD_WEEKDAY :: nat where "BCD_WEEKDAY \<equiv> 0x80"
abbreviation BCD_MON :: nat where "BCD_MON \<equiv> 0x84"
abbreviation BCD_YEAR :: nat where "BCD_YEAR \<equiv> 0x88"

definition INT_TIC :: u32 where "INT_TIC = 0x01"
definition INT_ALM :: u32 where "INT_ALM = 0x02"
definition TIC_EN :: u32 where "TIC_EN = 0x100"
definition CLK_RST :: u32 where "CLK_RST = 0x08"
definition RTC_EN :: u32 where "RTC_EN = 0x01"
definition ALM_EN :: u32 where "ALM_EN = 0x40"
definition YEAR_EN :: u32 where "YEAR_EN = 0x20"
definition MON_EN :: u32 where "MON_EN = 0x10"
definition DAY_EN :: u32 where "DAY_EN = 0x08"
definition HOUR_EN :: u32 where "HOUR_EN = 0x04"
definition MIN_EN :: u32 where "MIN_EN = 0x02"
definition SEC_EN :: u32 where "SEC_EN = 0x01"

definition reg :: "S5pc1xxRTCState \<Rightarrow> nat \<Rightarrow> u32" where
  "reg s i = regs s ! i"

definition set_reg :: "nat \<Rightarrow> u32 \<Rightarrow> S5pc1xxRTCState \<Rightarrow> S5pc1xxRTCState" where
  "set_reg i v s =
     (if i < length (regs s) then s\<lparr>regs := (regs s)[i := v]\<rparr> else s\<lparr>oob_writes := i # oob_writes s\<rparr>)"

section \<open>The calendar\<close>

definition s5pc1xx_rtc_get_date :: "S5pc1xxRTCState \<Rightarrow> S5pc1xxRTCState" where
  "s5pc1xx_rtc_get_date s =
     s\<lparr>current_tm := (current_tm s)\<lparr>
       tm_sec := uint (from_bcd (ucast (reg s BCD_SEC AND 0x7F))),
       tm_min := uint (from_bcd (ucast (reg s BCD_MIN AND 0x7F))),
       tm_hour := uint (from_bcd (ucast (reg s BCD_HOUR AND 0x3F))),
       tm_wday := uint (from_bcd (ucast (reg s BCD_WEEKDAY AND 0x07))),
       tm_mday := uint (from_bcd (ucast (reg s BCD_DAY AND 0x3F))),
       tm_mon := uint (from_bcd (ucast (reg s BCD_MON AND 0x1F))) - 1,
       tm_year := 100 + uint (from_bcd (ucast (reg s BCD_YEAR AND 0xFF)))
         + uint (from_bcd (ucast (drop_bit 8 (reg s BCD_YEAR) AND 0xF))) * 100\<rparr>\<rparr>"

definition bcd_int :: "int \<Rightarrow> u32" where
  "bcd_int v = ucast (to_bcd (of_int v))"

definition s5pc1xx_rtc_set_date :: "tm \<Rightarrow> S5pc1xxRTCState \<Rightarrow> S5pc1xxRTCState" where
  "s5pc1xx_rtc_set_date t s =
     set_reg BCD_YEAR (bcd_int ((tm_year t - 100) smod 100)
                       OR push_bit 8 (bcd_int ((tm_year t - 100) smod 1000 sdiv 100)))
    (set_reg BCD_MON (bcd_int (tm_mon t + 1))
    (set_reg BCD_DAY (bcd_int (tm_mday t))
    (set_reg BCD_WEEKDAY (bcd_int (tm_wday t))
    (set_reg BCD_HOUR (bcd_int (tm_hour t))
    (set_reg BCD_MIN (bcd_int (tm_min t))
    (set_reg BCD_SEC (bcd_int (tm_sec t)) (s\<lparr>current_tm := t\<rparr>)))))))"

definition days_tab :: "int list" where
  "days_tab = [31, 28, 31, 30, 31, 30, 31, 31, 30, 31, 30, 31]"

definition get_days_in_month :: "int \<Rightarrow> int \<Rightarrow> int" where
  "get_days_in_month month year =
     (if month < 0 \<or> month \<ge> 12 then 31
      else
        let d = days_tab ! nat month in
        if month = 1 \<and> year smod 4 = 0 then d + 1 else d)"

definition s5pc1xx_rtc_next_second :: "tm \<Rightarrow> tm" where
  "s5pc1xx_rtc_next_second t =
     (let t = t\<lparr>tm_sec := tm_sec t + 1\<rparr> in
      if 0 \<le> tm_sec t \<and> tm_sec t < 60 then t
      else
        let t = t\<lparr>tm_sec := 0, tm_min := tm_min t + 1\<rparr> in
        if 0 \<le> tm_min t \<and> tm_min t < 60 then t
        else
          let t = t\<lparr>tm_min := 0, tm_hour := tm_hour t + 1\<rparr> in
          if 0 \<le> tm_hour t \<and> tm_hour t < 24 then t
          else
            let w = tm_wday t + 1;
                t = t\<lparr>tm_hour := 0, tm_wday := if 0 \<le> w \<and> w < 8 then w else 1\<rparr>;
                days_in_month = get_days_in_month (tm_mon t) (tm_year t);
                t = t\<lparr>tm_mday := tm_mday t + 1\<rparr> in
            if tm_mday t < 1 then t\<lparr>tm_mday := 1\<rparr>
            else if tm_mday t > days_in_month then
              let t = t\<lparr>tm_mday := 1, tm_mon := tm_mon t + 1\<rparr> in
              if tm_mon t \<ge> 12 then t\<lparr>tm_mon := 0, tm_year := tm_year t + 1\<rparr> else t
            else t)"

section \<open>Timers\<close>

definition s5pc1xx_rtc_set_timer :: "u64 \<Rightarrow> S5pc1xxRTCState \<Rightarrow> S5pc1xxRTCState res" where
  "s5pc1xx_rtc_set_timer now s =
     rbind (muldiv64 (ucast (reg s TIC_CNT)) get_ticks_per_sec (freq_out s)) (\<lambda>d.
       Inr (s\<lparr>last_tick := now, periodic_timer := Some (now + d)\<rparr>))"

definition s5pc1xx_rtc_periodic_tick :: "u64 \<Rightarrow> S5pc1xxRTCState \<Rightarrow> S5pc1xxRTCState res" where
  "s5pc1xx_rtc_periodic_tick now s =
     (if reg s RTC_CON AND TIC_EN \<noteq> 0 then
        s5pc1xx_rtc_set_timer now
          (set_reg INT_PEND (reg s INT_PEND OR INT_TIC) (s\<lparr>rtc_irq := qemu_irq_raise TickIrq (rtc_irq s)\<rparr>))
      else Inr (s\<lparr>last_tick := 0, periodic_timer := None\<rparr>))"

definition s5pc1xx_rtc_periodic_update :: "S5pc1xxRTCState \<Rightarrow> S5pc1xxRTCState" where
  "s5pc1xx_rtc_periodic_update s =
     (let freq_code = unat (drop_bit 4 (reg s RTC_CON) AND 0xF) in
      s\<lparr>freq_out := 32768 div push_bit freq_code 1\<rparr>)"

text \<open>The condition of the alarm: every field with its enable bit set agrees with the date.\<close>

definition alarm_enabled :: "S5pc1xxRTCState \<Rightarrow> bool" where
  "alarm_enabled s \<longleftrightarrow> reg s RTC_ALM AND ALM_EN \<noteq> 0 \<and>
     (reg s RTC_ALM AND SEC_EN \<noteq> 0 \<or> reg s RTC_ALM AND MIN_EN \<noteq> 0 \<or> reg s RTC_ALM AND HOUR_EN \<noteq> 0
      \<or> reg s RTC_ALM AND DAY_EN \<noteq> 0 \<or> reg s RTC_ALM AND MON_EN \<noteq> 0 \<or> reg s RTC_ALM AND YEAR_EN \<noteq> 0)"

definition alarm_matches :: "S5pc1xxRTCState \<Rightarrow> bool" where
  "alarm_matches s \<longleftrightarrow>
     (let t = current_tm s in
      (reg s ALM_SEC AND 0x7F = bcd_int (tm_sec t) \<or> reg s RTC_ALM AND SEC_EN = 0)
      \<and> (reg s ALM_MIN AND 0x7F = bcd_int (tm_min t) \<or> reg s RTC_ALM AND MIN_EN = 0)
      \<and> (reg s ALM_HOUR AND 0x3F = bcd_int (tm_hour t) \<or> reg s RTC_ALM AND HOUR_EN = 0)
      \<and> (reg s ALM_DAY AND 0x3F = bcd_int (tm_mday t) \<or> reg s RTC_ALM AND DAY_EN = 0)
      \<and> (reg s ALM_MON AND 0x1F = bcd_int (tm_mon t) \<or> reg s RTC_ALM AND MON_EN = 0)
      \<and> (reg s ALM_YEAR AND 0xFF = bcd_int ((tm_year t - 100) smod 100)
         \<and> drop_bit 8 (reg s ALM_YEAR) AND 0xF = bcd_int ((tm_year t - 100) smod 1000 sdiv 100)
         \<or> reg s RTC_ALM AND YEAR_EN = 0))"

definition s5pc1xx_rtc_second_update :: "u64 \<Rightarrow> S5pc1xxRTCState \<Rightarrow> S5pc1xxRTCState" where
  "s5pc1xx_rtc_second_update now s =
     (if reg s RTC_CON AND RTC_EN \<noteq> 0 then
        let s = (if alarm_enabled s \<and> alarm_matches s
                 then set_reg INT_PEND (reg s INT_PEND OR INT_ALM)
                        (s\<lparr>rtc_irq := qemu_irq_raise AlmIrq (rtc_irq s)\<rparr>)
                 else s);
            s = s5pc1xx_rtc_set_date (s5pc1xx_rtc_next_second (current_tm s)) s
        in s\<lparr>second_timer := Some (now + get_ticks_per_sec)\<rparr>
      else s\<lparr>second_timer := None\<rparr>)"

definition s5pc1xx_rtc_reset :: "u64 \<Rightarrow> S5pc1xxRTCState \<Rightarrow> S5pc1xxRTCState res" where
  "s5pc1xx_rtc_reset now s =
     rbind (s5pc1xx_rtc_periodic_tick now (set_reg RTC_CON (reg s RTC_CON AND NOT TIC_EN) s)) (\<lambda>s.
       let s = s5pc1xx_rtc_second_update now (set_reg RTC_CON (reg s RTC_CON AND NOT RTC_EN) s);
           s = fold (\<lambda>i. set_reg (0x30 + 4 * i) 0) [0..<24] s
       in Inr (s\<lparr>last_tick := 0, freq_out := 0\<rparr>))"

definition s5pc1xx_rtc_get_date_from_host :: "tm \<Rightarrow> S5pc1xxRTCState \<Rightarrow> S5pc1xxRTCState" where
  "s5pc1xx_rtc_get_date_from_host host s = s5pc1xx_rtc_set_date host s"

section \<open>Register access\<close>

definition rtc_plain_regs :: "nat list" where
  "rtc_plain_regs = [TIC_CNT, RTC_ALM, ALM_SEC, ALM_MIN, ALM_HOUR, ALM_DAY, ALM_MON, ALM_YEAR]"

definition rtc_bcd_regs :: "nat list" where
  "rtc_bcd_regs = [BCD_SEC, BCD_MIN, BCD_HOUR, BCD_WEEKDAY, BCD_DAY, BCD_MON, BCD_YEAR]"

definition s5pc1xx_rtc_read :: "u64 \<Rightarrow> S5pc1xxRTCState \<Rightarrow> hwaddr \<Rightarrow> (u32 \<times> S5pc1xxRTCState) res" where
  "s5pc1xx_rtc_read now s offset =
     (if unat offset \<in> set (INT_PEND # RTC_CON # rtc_plain_regs @ rtc_bcd_regs)
      then Inr (reg s (unat offset), s)
      else if offset = 0x90 then
        rbind (if freq_out s \<noteq> 0 \<and> last_tick s \<noteq> 0 \<and> reg s TIC_CNT \<noteq> 0
               then rbind (muldiv64 (now - last_tick s) (freq_out s) get_ticks_per_sec) (\<lambda>m.
                      Inr (ucast (reg s TIC_CNT) - m mod ucast (reg s TIC_CNT)))
               else Inr 0) (\<lambda>v. Inr (ucast v, s\<lparr>cur_tic_cnt := v\<rparr>))
      else Inl (HwError ''s5pc1xx_rtc: bad read offset''))"

definition rtc_write_con :: "u64 \<Rightarrow> tm \<Rightarrow> S5pc1xxRTCState \<Rightarrow> u32 \<Rightarrow> S5pc1xxRTCState res" where
  "rtc_write_con now host s val =
     rbind (if val AND CLK_RST \<noteq> 0 then s5pc1xx_rtc_reset now s else Inr s) (\<lambda>s.
       let val = val AND NOT CLK_RST;
           s = (if val AND RTC_EN > reg s RTC_CON AND RTC_EN
                then s5pc1xx_rtc_second_update now
                       (s5pc1xx_rtc_get_date_from_host host (set_reg RTC_CON (reg s RTC_CON OR RTC_EN) s))
                else s)
       in if val AND TIC_EN > reg s RTC_CON AND TIC_EN
          then s5pc1xx_rtc_set_timer now (s5pc1xx_rtc_periodic_update (set_reg RTC_CON val s))
          else
            let s = (if val AND TIC_EN < reg s RTC_CON AND TIC_EN then s\<lparr>periodic_timer := None\<rparr> else s)
            in Inr (s5pc1xx_rtc_periodic_update (set_reg RTC_CON val s)))"

definition s5pc1xx_rtc_write :: "u64 \<Rightarrow> tm \<Rightarrow> S5pc1xxRTCState \<Rightarrow> hwaddr \<Rightarrow> u32 \<Rightarrow> S5pc1xxRTCState res" where
  "s5pc1xx_rtc_write now host s offset val =
     (if unat offset = INT_PEND then
        let l = (if val AND INT_TIC \<noteq> 0 then qemu_irq_lower TickIrq (rtc_irq s) else rtc_irq s);
            l = (if val AND INT_ALM \<noteq> 0 then qemu_irq_lower AlmIrq l else l)
        in Inr (set_reg INT_PEND (reg s INT_PEND AND NOT (val AND (INT_TIC OR INT_ALM))) (s\<lparr>rtc_irq := l\<rparr>))
      else if unat offset = RTC_CON then rtc_write_con now host s val
      else if unat offset \<in> set rtc_plain_regs then Inr (set_reg (unat offset) val s)
      else if unat offset \<in> set rtc_bcd_regs then
        let s = set_reg (unat offset) val s in
        Inr (if reg s RTC_CON AND RTC_EN \<noteq> 0 then s5pc1xx_rtc_get_date s else s)
      else Inl (HwError ''s5pc1xx_rtc: bad write offset''))"

definition s5pc1xx_rtc_init :: "u64 \<Rightarrow> S5pc1xxRTCState res" where
  "s5pc1xx_rtc_init now =
     s5pc1xx_rtc_reset now
       \<lparr>regs = replicate (BCD_YEAR + 1) 0, periodic_timer = None, freq_out = 0, last_tick = 0,
        cur_tic_cnt = 0, second_timer = None,
        current_tm = \<lparr>tm_sec = 0, tm_min = 0, tm_hour = 0, tm_mday = 0, tm_mon = 0, tm_year = 0,
                      tm_wday = 0\<rparr>,
        rtc_irq = [], oob_writes = []\<rparr>"

section \<open>Dates and registers\<close>

definition tm_valid :: "tm \<Rightarrow> bool" where
  "tm_valid t \<longleftrightarrow> 0 \<le> tm_sec t \<and> tm_sec t < 60 \<and> 0 \<le> tm_min t \<and> tm_min t < 60
     \<and> 0 \<le> tm_hour t \<and> tm_hour t < 24 \<and> 1 \<le> tm_wday t \<and> tm_wday t \<le> 7
     \<and> 0 \<le> tm_mon t \<and> tm_mon t < 12 \<and> 1 \<le> tm_mday t \<and> tm_mday t \<le> get_days_in_month (tm_mon t) (tm_year t)
     \<and> 100 \<le> tm_year t"

lemma days_in_month_le: "28 \<le> get_days_in_month m y \<and> get_days_in_month m y \<le> 31"
proof -
  have "\<forall>d \<in> set days_tab. 28 \<le> d \<and> d \<le> 31" "days_tab ! 1 = 28" "length days_tab = 12"
    by (simp_all add: days_tab_def)
  moreover have "days_tab ! nat m \<in> set days_tab" if "0 \<le> m" "m < 12"
    using that by (intro nth_mem) (simp add: days_tab_def)
  ultimately show ?thesis by (auto simp: get_days_in_month_def Let_def)
qed

text \<open>Reading back what \<open>bcd_int\<close> stored, through the mask of the register.\<close>

definition bcd_field :: "u32 \<Rightarrow> u32 \<Rightarrow> int" where
  "bcd_field m w = uint (from_bcd (ucast (w AND m)))"

lemma bcd_field_table:
  "list_all (\<lambda>n. bcd_field 0x7F (bcd_int (int n)) = int n) [0..<80]"
  "list_all (\<lambda>n. bcd_field 0x3F (bcd_int (int n)) = int n) [0..<40]"
  "list_all (\<lambda>n. bcd_field 0x1F (bcd_int (int n)) = int n) [0..<20]"
  "list_all (\<lambda>n. bcd_field 0x07 (bcd_int (int n)) = int n) [0..<8]"
  by code_simp+

lemma bcd_year_table:
  "list_all (\<lambda>n. bcd_field 0xFF (bcd_int (int n)) = int n) [0..<100]"
  "list_all (\<lambda>n. bcd_field 0xF (bcd_int (int n)) = int n) [0..<10]"
  by code_simp+

lemma bcd_field_eq:
  "0 \<le> v \<Longrightarrow> v < 80 \<Longrightarrow> bcd_field 0x7F (bcd_int v) = v"
  "0 \<le> v \<Longrightarrow> v < 40 \<Longrightarrow> bcd_field 0x3F (bcd_int v) = v"
  "0 \<le> v \<Longrightarrow> v < 20 \<Longrightarrow> bcd_field 0x1F (bcd_int v) = v"
  "0 \<le> v \<Longrightarrow> v < 8 \<Longrightarrow> bcd_field 0x07 (bcd_int v) = v"
  "0 \<le> v \<Longrightarrow> v < 100 \<Longrightarrow> bcd_field 0xFF (bcd_int v) = v"
  "0 \<le> v \<Longrightarrow> v < 10 \<Longrightarrow> bcd_field 0xF (bcd_int v) = v"
proof -
  have *: "list_all (\<lambda>n. bcd_field m (bcd_int (int n)) = int n) [0..<k] \<Longrightarrow> 0 \<le> v \<Longrightarrow> v < int k \<Longrightarrow>
      bcd_field m (bcd_int v) = v" for m k
    by (force simp: list_all_iff dest: bspec [of _ _ "nat v"])
  show "0 \<le> v \<Longrightarrow> v < 80 \<Longrightarrow> bcd_field 0x7F (bcd_int v) = v" using * [OF bcd_field_table(1)] by simp
  show "0 \<le> v \<Longrightarrow> v < 40 \<Longrightarrow> bcd_field 0x3F (bcd_int v) = v" using * [OF bcd_field_table(2)] by simp
  show "0 \<le> v \<Longrightarrow> v < 20 \<Longrightarrow> bcd_field 0x1F (bcd_int v) = v" using * [OF bcd_field_table(3)] by simp
  show "0 \<le> v \<Longrightarrow> v < 8 \<Longrightarrow> bcd_field 0x07 (bcd_int v) = v" using * [OF bcd_field_table(4)] by simp
  show "0 \<le> v \<Longrightarrow> v < 100 \<Longrightarrow> bcd_field 0xFF (bcd_int v) = v" using * [OF bcd_year_table(1)] by simp
  show "0 \<le> v \<Longrightarrow> v < 10 \<Longrightarrow> bcd_field 0xF (bcd_int v) = v" using * [OF bcd_year_table(2)] by simp
qed

lemma bcd_month_table: "list_all (\<lambda>n. bcd_int (int n) AND 0x1F = bcd_int (int n)) [0..<20]"
  by code_simp

lemma bcd_month_mask: "0 \<le> v \<Longrightarrow> v < 20 \<Longrightarrow> bcd_int v AND 0x1F = bcd_int v"
  using bcd_month_table by (force simp: list_all_iff dest: bspec [of _ _ "nat v"])

lemma bcd_year_fields:
  "(bcd_int v OR push_bit 8 (bcd_int w)) AND 0xFF = bcd_int v AND 0xFF"
  "drop_bit 8 (bcd_int v) = 0" "drop_bit 8 (push_bit 8 (bcd_int w)) = bcd_int w"
proof -
  have m: "(0xFF :: u32) = mask 8" by (simp add: mask_eq_exp_minus_1)
  show "(bcd_int v OR push_bit 8 (bcd_int w)) AND 0xFF = bcd_int v AND 0xFF"
    unfolding m by (rule bit_word_eqI) (auto simp: bit_simps)
  show "drop_bit 8 (bcd_int v) = 0" "drop_bit 8 (push_bit 8 (bcd_int w)) = bcd_int w"
    by (rule bit_word_eqI, auto simp: bit_simps bcd_int_def dest: bit_imp_le_length)+
qed

lemma reg_set_reg [simp]:
  "i < length (regs s) \<Longrightarrow> reg (set_reg i v s) i = v" "i \<noteq> j \<Longrightarrow> reg (set_reg i v s) j = reg s j"
  "length (regs (set_reg i v s)) = length (regs s)" "current_tm (set_reg i v s) = current_tm s"
  "rtc_irq (set_reg i v s) = rtc_irq s" "freq_out (set_reg i v s) = freq_out s"
  "last_tick (set_reg i v s) = last_tick s" "periodic_timer (set_reg i v s) = periodic_timer s"
  by (simp_all add: reg_def set_reg_def)

lemma reg_update [simp]:
  "reg (s\<lparr>rtc_irq := l\<rparr>) i = reg s i" "reg (s\<lparr>current_tm := t\<rparr>) i = reg s i"
  "reg (s\<lparr>last_tick := u\<rparr>) i = reg s i" "reg (s\<lparr>periodic_timer := p\<rparr>) i = reg s i"
  "reg (s\<lparr>second_timer := p\<rparr>) i = reg s i" "reg (s\<lparr>freq_out := f\<rparr>) i = reg s i"
  "reg (s\<lparr>cur_tic_cnt := u\<rparr>) i = reg s i"
  by (simp_all add: reg_def)

lemma smod_nonneg: "0 \<le> a \<Longrightarrow> 0 < b \<Longrightarrow> a smod b = a mod (b :: int)"
  and sdiv_nonneg: "0 \<le> a \<Longrightarrow> 0 < b \<Longrightarrow> a sdiv b = a div (b :: int)"
  by (cases "a = 0"; simp add: signed_modulo_int_def signed_divide_int_def sgn_1_pos)+

lemma get_set_date:
  assumes "tm_valid t" and "tm_year t < 1100" and "length (regs s) = 0x89"
  shows "current_tm (s5pc1xx_rtc_get_date (s5pc1xx_rtc_set_date t s)) = t"
proof -
  have y: "(tm_year t - 100) smod 100 = (tm_year t - 100) mod 100"
    "(tm_year t - 100) smod 1000 sdiv 100 = (tm_year t - 100) div 100"
    using assms(1,2) by (auto simp: tm_valid_def smod_nonneg sdiv_nonneg)
  have d: "tm_mday t < 40" using days_in_month_le [of "tm_mon t" "tm_year t"] assms(1) by (auto simp: tm_valid_def)
  have "0 \<le> (tm_year t - 100) div 100" "(tm_year t - 100) div 100 < 10"
    using assms(1,2) by (auto simp: tm_valid_def)
  then have "bcd_field 0xFF (bcd_int ((tm_year t - 100) mod 100)) = (tm_year t - 100) mod 100"
    "bcd_field 0xF (bcd_int ((tm_year t - 100) div 100)) = (tm_year t - 100) div 100"
    by (simp_all only: bcd_field_eq pos_mod_sign pos_mod_bound zero_less_numeral)
  then have year: "100 + bcd_field 0xFF (bcd_int ((tm_year t - 100) mod 100))
      + bcd_field 0xF (bcd_int ((tm_year t - 100) div 100)) * 100 = tm_year t"
    using div_mult_mod_eq [of "tm_year t - 100" 100] by linarith
  show ?thesis
    using assms d year bcd_field_eq
    by (simp add: s5pc1xx_rtc_get_date_def s5pc1xx_rtc_set_date_def y tm_valid_def bcd_year_fields
        flip: bcd_field_def)
qed

section \<open>The calendar counts seconds\<close>

definition days_before_month :: "int \<Rightarrow> int \<Rightarrow> int" where
  "days_before_month m y = sum_list (map (\<lambda>i. get_days_in_month (int i) y) [0..<nat m])"

definition days_before_year :: "int \<Rightarrow> int" where
  "days_before_year y = sum_list (map (\<lambda>i. days_before_month 12 (int i)) [0..<nat y])"

definition tm_seconds :: "tm \<Rightarrow> int" where
  "tm_seconds t = (((days_before_year (tm_year t) + days_before_month (tm_mon t) (tm_year t) + tm_mday t - 1) * 24
     + tm_hour t) * 60 + tm_min t) * 60 + tm_sec t"

lemma days_before_month_Suc: "0 \<le> m \<Longrightarrow> days_before_month (m + 1) y = days_before_month m y + get_days_in_month m y"
  by (simp add: days_before_month_def nat_add_distrib)

lemma days_before_year_Suc: "0 \<le> y \<Longrightarrow> days_before_year (y + 1) = days_before_year y + days_before_month 12 y"
  by (simp add: days_before_year_def nat_add_distrib)

lemma days_before_month_0: "days_before_month 0 y = 0"
  by (simp add: days_before_month_def)

lemma next_second_ok:
  assumes "tm_valid t"
  shows "tm_valid (s5pc1xx_rtc_next_second t) \<and> tm_seconds (s5pc1xx_rtc_next_second t) = tm_seconds t + 1"
proof -
  have d: "28 \<le> get_days_in_month m y" for m y using days_in_month_le [of m y] by simp
  have year: "days_before_year (tm_year t + 1) = days_before_year (tm_year t) + days_before_month 12 (tm_year t)"
    using assms by (simp add: days_before_year_Suc tm_valid_def)
  have month: "days_before_month (tm_mon t + 1) (tm_year t)
      = days_before_month (tm_mon t) (tm_year t) + get_days_in_month (tm_mon t) (tm_year t)"
    using assms by (simp add: days_before_month_Suc tm_valid_def)
  show ?thesis
  proof (cases "tm_mon t = 11")
    case True
    then show ?thesis
      using assms year month d [of 0 "tm_year t + 1"]
      by (auto simp: s5pc1xx_rtc_next_second_def Let_def tm_valid_def tm_seconds_def days_before_month_0)
  next
    case False
    then show ?thesis
      using assms month d [of "tm_mon t + 1" "tm_year t"]
      by (auto simp: s5pc1xx_rtc_next_second_def Let_def tm_valid_def tm_seconds_def)
  qed
qed

section \<open>The invariant of the device\<close>

definition rtc_inv :: "S5pc1xxRTCState \<Rightarrow> bool" where
  "rtc_inv s \<longleftrightarrow> length (regs s) = 0x89 \<and> (reg s RTC_CON AND TIC_EN \<noteq> 0 \<longrightarrow> freq_out s \<noteq> 0)
     \<and> (reg s INT_PEND AND INT_TIC \<noteq> 0 \<longrightarrow> irq_level (rtc_irq s) TickIrq)
     \<and> (reg s INT_PEND AND INT_ALM \<noteq> 0 \<longrightarrow> irq_level (rtc_irq s) AlmIrq)"

lemma freq_table: "list_all (\<lambda>c. 32768 div push_bit c (1 :: u32) \<noteq> 0) [0..<16]"
  by code_simp

lemma periodic_update_simps [simp]:
  "freq_out (s5pc1xx_rtc_periodic_update s) \<noteq> 0" "reg (s5pc1xx_rtc_periodic_update s) i = reg s i"
  "length (regs (s5pc1xx_rtc_periodic_update s)) = length (regs s)"
  "rtc_irq (s5pc1xx_rtc_periodic_update s) = rtc_irq s"
proof -
  have "unat (drop_bit 4 (reg s RTC_CON) AND 0xF) \<in> set [0..<16]" using unat_and_0xf by simp
  then have "32768 div push_bit (unat (drop_bit 4 (reg s RTC_CON) AND 0xF)) (1 :: u32) \<noteq> 0"
    using freq_table unfolding list_all_iff by blast
  then show "freq_out (s5pc1xx_rtc_periodic_update s) \<noteq> 0"
    by (simp add: s5pc1xx_rtc_periodic_update_def Let_def)
qed (simp_all add: s5pc1xx_rtc_periodic_update_def Let_def)

lemma set_date_simps [simp]:
  "length (regs (s5pc1xx_rtc_set_date t s)) = length (regs s)" "rtc_irq (s5pc1xx_rtc_set_date t s) = rtc_irq s"
  "freq_out (s5pc1xx_rtc_set_date t s) = freq_out s" "current_tm (s5pc1xx_rtc_set_date t s) = t"
  "i \<le> 0x68 \<Longrightarrow> reg (s5pc1xx_rtc_set_date t s) i = reg s i"
  by (auto simp: s5pc1xx_rtc_set_date_def)

lemma set_timer_total:
  "freq_out s \<noteq> 0 \<Longrightarrow> s5pc1xx_rtc_set_timer now s =
     Inr (s\<lparr>last_tick := now, periodic_timer := Some (now +
        of_nat (unat (reg s TIC_CNT) * 1000000000 div unat (freq_out s)))\<rparr>)"
  by (simp add: s5pc1xx_rtc_set_timer_def muldiv64_eq get_ticks_per_sec_def unat_ucast_mod
      unat_u32_less [THEN order_less_trans])

lemma second_update_simps [simp]:
  "length (regs (s5pc1xx_rtc_second_update now s)) = length (regs s)"
  "freq_out (s5pc1xx_rtc_second_update now s) = freq_out s"
  "i \<le> 0x68 \<Longrightarrow> i \<noteq> INT_PEND \<Longrightarrow> reg (s5pc1xx_rtc_second_update now s) i = reg s i"
  by (simp_all add: s5pc1xx_rtc_second_update_def Let_def)

lemma second_update_inv: "rtc_inv s \<Longrightarrow> rtc_inv (s5pc1xx_rtc_second_update now s)"
  by (auto simp: rtc_inv_def s5pc1xx_rtc_second_update_def Let_def INT_TIC_def INT_ALM_def bit.conj_disj_distrib2)

lemma clear_regs:
  "reg (fold (\<lambda>i. set_reg (0x30 + 4 * i) 0) is s) j =
     (if j \<in> (\<lambda>i. 0x30 + 4 * i) ` set is \<and> j < length (regs s) then 0 else reg s j)"
  "length (regs (fold (\<lambda>i. set_reg (0x30 + 4 * i) 0) is s)) = length (regs s)"
  "rtc_irq (fold (\<lambda>i. set_reg (0x30 + 4 * i) 0) is s) = rtc_irq s"
  by (induction "is" arbitrary: s) (auto simp: reg_def set_reg_def nth_list_update)

lemma clear_oob:
  "oob_writes (fold (\<lambda>i. set_reg (0x30 + 4 * i) 0) is s) =
     rev (filter (\<lambda>j. length (regs s) \<le> j) (map (\<lambda>i. 0x30 + 4 * i) is)) @ oob_writes s"
  by (induction "is" arbitrary: s) (auto simp: set_reg_def)

lemma rtc_reset_ok:
  assumes "length (regs s) = 0x89"
  shows "\<exists>s'. s5pc1xx_rtc_reset now s = Inr s' \<and> rtc_inv s' \<and> (\<forall>i \<in> set [0..<22]. reg s' (0x30 + 4 * i) = 0)
    \<and> rtc_irq s' = rtc_irq s \<and> 0x8C \<in> set (oob_writes s')"
proof -
  have "(reg s RTC_CON AND NOT TIC_EN) AND TIC_EN = 0" "(w AND NOT RTC_EN) AND RTC_EN = 0" for w
    by simp_all
  then obtain s1 where s1: "s5pc1xx_rtc_periodic_tick now (set_reg RTC_CON (reg s RTC_CON AND NOT TIC_EN) s) = Inr s1"
    "length (regs s1) = 0x89" "rtc_irq s1 = rtc_irq s"
    using assms by (simp add: s5pc1xx_rtc_periodic_tick_def)
  define s2 where "s2 = s5pc1xx_rtc_second_update now (set_reg RTC_CON (reg s1 RTC_CON AND NOT RTC_EN) s1)"
  have s2: "length (regs s2) = 0x89" "rtc_irq s2 = rtc_irq s"
    using s1 by (simp_all add: s2_def s5pc1xx_rtc_second_update_def)
  define s3 where "s3 = fold (\<lambda>i. set_reg (0x30 + 4 * i) 0) [0..<24] s2"
  have s3: "reg s3 (0x30 + 4 * i) = 0" if "i \<in> set [0..<22]" for i
    using that s2 by (auto simp: s3_def clear_regs)
  have "reg s3 INT_PEND = 0" "reg s3 RTC_CON = 0" using s3 [of 0] s3 [of 4] by simp_all
  then have "rtc_inv (s3\<lparr>last_tick := 0, freq_out := 0\<rparr>)"
    using s2 by (simp add: rtc_inv_def s3_def clear_regs)
  moreover have "0x8C \<in> set (oob_writes s3)"
    using s2(1) by (auto simp: s3_def clear_oob image_iff simp del: upt.simps intro!: exI [of _ 23])
  ultimately show ?thesis
    using s1 s2 s3 by (auto simp: s5pc1xx_rtc_reset_def Let_def s3_def s2_def clear_regs)
qed

lemma rtc_tick_ok:
  assumes "rtc_inv s"
  shows "\<exists>s'. s5pc1xx_rtc_periodic_tick now s = Inr s' \<and> rtc_inv s'"
  using assms
  by (auto simp: s5pc1xx_rtc_periodic_tick_def set_timer_total rtc_inv_def INT_TIC_def INT_ALM_def
      bit.conj_disj_distrib2)

lemma rtc_inv_updates:
  "rtc_inv s \<Longrightarrow> rtc_inv (s5pc1xx_rtc_periodic_update (set_reg RTC_CON v s))"
  "rtc_inv s \<Longrightarrow> rtc_inv (s5pc1xx_rtc_set_date t s)"
  "rtc_inv s \<Longrightarrow> v AND TIC_EN = reg s RTC_CON AND TIC_EN \<Longrightarrow> rtc_inv (set_reg RTC_CON v s)"
  "rtc_inv s \<Longrightarrow> i \<noteq> RTC_CON \<Longrightarrow> i \<noteq> INT_PEND \<Longrightarrow> rtc_inv (set_reg i v s)"
  "rtc_inv s \<Longrightarrow> rtc_inv (s\<lparr>last_tick := l, periodic_timer := p\<rparr>)"
  "rtc_inv s \<Longrightarrow> rtc_inv (s\<lparr>periodic_timer := p\<rparr>)"
  "rtc_inv s \<Longrightarrow> rtc_inv (s\<lparr>cur_tic_cnt := c\<rparr>)" "rtc_inv s \<Longrightarrow> rtc_inv (s\<lparr>current_tm := t\<rparr>)"
  by (simp_all add: rtc_inv_def)

lemma rtc_write_con_ok:
  assumes "rtc_inv s"
  shows "\<exists>s'. rtc_write_con now host s val = Inr s' \<and> rtc_inv s'"
proof -
  obtain t where t: "(if val AND CLK_RST \<noteq> 0 then s5pc1xx_rtc_reset now s else Inr s) = Inr t" "rtc_inv t"
  proof (cases "val AND CLK_RST = 0")
    case False
    moreover have "length (regs s) = 0x89" using assms by (simp add: rtc_inv_def)
    ultimately show ?thesis using rtc_reset_ok [of s now] that by auto
  qed (use assms that in simp)
  have en: "(w OR RTC_EN) AND TIC_EN = w AND TIC_EN" for w
    by (simp add: RTC_EN_def TIC_EN_def bit.conj_disj_distrib2)
  have started: "rtc_inv (s5pc1xx_rtc_second_update now
       (s5pc1xx_rtc_get_date_from_host host (set_reg RTC_CON (reg t RTC_CON OR RTC_EN) t)))"
    unfolding s5pc1xx_rtc_get_date_from_host_def
    by (intro second_update_inv rtc_inv_updates t(2) en)
  have timer: "\<exists>s'. s5pc1xx_rtc_set_timer now (s5pc1xx_rtc_periodic_update (set_reg RTC_CON v u)) = Inr s' \<and> rtc_inv s'"
    if "rtc_inv u" for u v
    using rtc_inv_updates(5) [OF rtc_inv_updates(1) [OF that]] by (simp add: set_timer_total)
  show ?thesis
    using t started timer rtc_inv_updates(1,6)
    by (simp add: rtc_write_con_def Let_def)
qed

inductive rtc_reach :: "S5pc1xxRTCState \<Rightarrow> bool" where
  rtc_start: "s5pc1xx_rtc_init now = Inr s \<Longrightarrow> rtc_reach s"
| rtc_reads: "rtc_reach s \<Longrightarrow> s5pc1xx_rtc_read now s offset = Inr (v, s') \<Longrightarrow> rtc_reach s'"
| rtc_writes: "rtc_reach s \<Longrightarrow> s5pc1xx_rtc_write now host s offset val = Inr s' \<Longrightarrow> rtc_reach s'"
| rtc_ticks: "rtc_reach s \<Longrightarrow> s5pc1xx_rtc_periodic_tick now s = Inr s' \<Longrightarrow> rtc_reach s'"
| rtc_seconds: "rtc_reach s \<Longrightarrow> rtc_reach (s5pc1xx_rtc_second_update now s)"

lemma pend_bits: "w AND INT_TIC = 0 \<longleftrightarrow> \<not> bit w 0" "w AND INT_ALM = 0 \<longleftrightarrow> \<not> bit w 1"
  "bit INT_TIC 0" "bit INT_ALM (Suc 0)"
  using and_exp_eq_0_iff_not_bit [of w 0] and_exp_eq_0_iff_not_bit [of w 1]
  by (simp_all add: INT_TIC_def INT_ALM_def)

lemma rtc_write_ok:
  assumes "rtc_inv s"
  shows "(\<exists>s'. s5pc1xx_rtc_write now host s offset val = Inr s' \<and> rtc_inv s')
    \<or> s5pc1xx_rtc_write now host s offset val = Inl (HwError ''s5pc1xx_rtc: bad write offset'')"
proof -
  have pend: "rtc_inv (set_reg INT_PEND (reg s INT_PEND AND NOT (val AND (INT_TIC OR INT_ALM))) (s\<lparr>rtc_irq := l\<rparr>))"
    if "l = (let l = (if val AND INT_TIC \<noteq> 0 then qemu_irq_lower TickIrq (rtc_irq s) else rtc_irq s)
      in if val AND INT_ALM \<noteq> 0 then qemu_irq_lower AlmIrq l else l)" for l
    using assms that by (simp add: rtc_inv_def Let_def pend_bits bit_simps)
  have "i \<in> set rtc_plain_regs \<or> i \<in> set rtc_bcd_regs \<Longrightarrow> rtc_inv (set_reg i val s)" for i
    using rtc_inv_updates(4) [OF assms, of i val] by (auto simp: rtc_plain_regs_def rtc_bcd_regs_def)
  then show ?thesis
    using pend rtc_write_con_ok [OF assms, of now host val] rtc_inv_updates(8)
    by (auto simp: s5pc1xx_rtc_write_def s5pc1xx_rtc_get_date_def Let_def)
qed

lemma rtc_reach_inv: "rtc_reach s \<Longrightarrow> rtc_inv s"
proof (induction rule: rtc_reach.induct)
  case (rtc_start now s)
  then obtain s0 where "s5pc1xx_rtc_reset now s0 = Inr s" "length (regs s0) = 0x89"
    by (simp add: s5pc1xx_rtc_init_def)
  then show ?case using rtc_reset_ok [of s0 now] by auto
next
  case (rtc_reads s now offset v s')
  then show ?case using rtc_inv_updates(7)
    by (auto simp: s5pc1xx_rtc_read_def elim!: rbind_InrE split: if_splits)
next
  case (rtc_writes s now host offset val s')
  then show ?case using rtc_write_ok [of s now host offset val] by auto
next
  case (rtc_ticks s now s')
  then show ?case using rtc_tick_ok [of s now] by auto
next
  case (rtc_seconds s now)
  then show ?case using second_update_inv by blast
qed

section \<open>Properties\<close>


text \<open>The clock running at the last second of February of a leap year.\<close>

definition rtc_demo :: S5pc1xxRTCState where
  "rtc_demo = \<lparr>regs = (replicate 0x89 0)[RTC_CON := 1], periodic_timer = None, freq_out = 0, last_tick = 0,
     cur_tic_cnt = 0, second_timer = None,
     current_tm = \<lparr>tm_sec = 59, tm_min = 59, tm_hour = 23, tm_mday = 29, tm_mon = 1, tm_year = 112, tm_wday = 3\<rparr>,
     rtc_irq = [], oob_writes = []\<rparr>"




text \<open>
  The month of the alarm is compared in another encoding than the month of the date:
  \<^verbatim>\<open>BCD_MON\<close> counts from 1 but \<^verbatim>\<open>ALM_MON\<close> is compared with the month counted from 0.  An
  alarm on the month alone, programmed with the value \<^verbatim>\<open>BCD_MON\<close> has in month \<open>m\<close>, fires in the
  month after it.
\<close>

lemma rtc_alarm_month_late:
  assumes "reg s RTC_CON AND RTC_EN \<noteq> 0" and "length (regs s) = 0x89" and "tm_valid (current_tm s)"
    and "reg s RTC_ALM = ALM_EN OR MON_EN" and "0 \<le> m" "m < 12" and "reg s ALM_MON = bcd_int (m + 1)"
    and "\<not> irq_level (rtc_irq s) AlmIrq"
  shows "irq_level (rtc_irq (s5pc1xx_rtc_second_update now s)) AlmIrq \<longleftrightarrow> tm_mon (current_tm s) = m + 1"
proof -
  let ?k = "tm_mon (current_tm s)"
  have en: "alarm_enabled s"
    using assms(4) by (simp add: alarm_enabled_def ALM_EN_def MON_EN_def)
  have k: "0 \<le> ?k" "?k < 12" using assms(3) by (simp_all add: tm_valid_def)
  have "bcd_int (m + 1) AND 0x1F = bcd_int (m + 1)" using bcd_month_mask [of "m + 1"] assms(5,6) by linarith
  moreover have "?k = m + 1" if "bcd_int (m + 1) = bcd_int ?k"
    using arg_cong [OF that, of "bcd_field 0x1F"] bcd_field_eq(3) [of ?k] bcd_field_eq(3) [of "m + 1"] k assms(5,6)
    by linarith
  ultimately have "bcd_int (m + 1) AND 0x1F = bcd_int ?k \<longleftrightarrow> ?k = m + 1" by metis
  then have "alarm_matches s \<longleftrightarrow> ?k = m + 1"
    using assms(4,7) by (simp add: alarm_matches_def Let_def ALM_EN_def MON_EN_def SEC_EN_def MIN_EN_def
        HOUR_EN_def DAY_EN_def YEAR_EN_def)
  then show ?thesis
    using assms(1,8) en by (simp add: s5pc1xx_rtc_second_update_def Let_def)
qed

text \<open>
  The reset request in \<^verbatim>\<open>RTCCON\<close> clears every register, the pending bits included,
  but lowers no interrupt line, so a line raised before stays high with nothing pending; and it
  writes one word past the end of the register array.
\<close>

lemma rtc_reset_effects:
  assumes "rtc_inv s"
  shows "\<exists>s'. s5pc1xx_rtc_write now host s 0x40 CLK_RST = Inr s' \<and> reg s' INT_PEND = 0 \<and> reg s' RTC_CON = 0
    \<and> rtc_irq s' = rtc_irq s \<and> 0x8C \<in> set (oob_writes s') \<and> length (regs s') \<le> 0x8C"
proof -
  have len: "length (regs s) = 0x89" using assms by (simp add: rtc_inv_def)
  obtain s1 where s1: "s5pc1xx_rtc_reset now s = Inr s1" "rtc_inv s1"
    "\<forall>i \<in> set [0..<22]. reg s1 (0x30 + 4 * i) = 0" "rtc_irq s1 = rtc_irq s" "0x8C \<in> set (oob_writes s1)"
    using rtc_reset_ok [OF len] by blast
  have zero: "reg s1 INT_PEND = 0" "reg s1 RTC_CON = 0"
    using s1(3) [rule_format, of 0] s1(3) [rule_format, of 4] by simp_all
  have "length (regs s1) = 0x89" using s1(2) by (simp add: rtc_inv_def)
  moreover have "CLK_RST AND NOT CLK_RST = 0" "CLK_RST AND CLK_RST \<noteq> 0" by (simp_all add: CLK_RST_def)
  ultimately show ?thesis
    using s1 zero by (simp add: s5pc1xx_rtc_write_def rtc_write_con_def s5pc1xx_rtc_periodic_update_def
        rtc_plain_regs_def Let_def set_reg_def reg_def)
qed

end
