(* ===== verification/S5pc1xx_Clk.thy ===== *)
theory S5pc1xx_Clk
  imports Qemu_Prelude
begin

text \<open>
  The clock controller of the board, \<^verbatim>\<open>hw/s5pc1xx_clk.c\<close>: the tree of on-chip clocks, the
  registers that select the parent of a clock and its divisor, and the four PLLs.  The static
  \<^verbatim>\<open>Clk\<close> objects of the file are named by \<open>clk_id\<close>, which stands for their addresses; the mutable
  table of their contents is a function from addresses.  The rate has the width of
  \<^verbatim>\<open>unsigned long\<close> on a 64-bit host.  The shift count of the APLL divisor can be -1; that is the
  fault \<open>ShiftRange\<close>.
\<close>

section \<open>Registers\<close>

abbreviation ONENAND_SHIFT :: int where "ONENAND_SHIFT \<equiv> 28"
abbreviation MUX133_SHIFT :: int where "MUX133_SHIFT \<equiv> 24"
abbreviation MUX166_SHIFT :: int where "MUX166_SHIFT \<equiv> 20"
abbreviation MUX200_SHIFT :: int where "MUX200_SHIFT \<equiv> 16"
abbreviation VPLL_SHIFT :: int where "VPLL_SHIFT \<equiv> 12"
abbreviation EPLL_SHIFT :: int where "EPLL_SHIFT \<equiv> 8"
abbreviation MPLL_SHIFT :: int where "MPLL_SHIFT \<equiv> 4"
abbreviation APLL_SHIFT :: int where "APLL_SHIFT \<equiv> 0"
abbreviation MFC_SHIFT :: int where "MFC_SHIFT \<equiv> 4"
abbreviation G3D_SHIFT :: int where "G3D_SHIFT \<equiv> 0"
abbreviation MUX_PWM_SHIFT :: int where "MUX_PWM_SHIFT \<equiv> 12"
abbreviation MUX_ONEDRAM_SHIFT :: int where "MUX_ONEDRAM_SHIFT \<equiv> 24"
abbreviation MUX_HPM_SHIFT :: int where "MUX_HPM_SHIFT \<equiv> 16"
abbreviation MUX_SPDIF_SHIFT :: int where "MUX_SPDIF_SHIFT \<equiv> 12"
abbreviation MUX_AUDIO_2_SHIFT :: int where "MUX_AUDIO_2_SHIFT \<equiv> 8"
abbreviation MUX_AUDIO_1_SHIFT :: int where "MUX_AUDIO_1_SHIFT \<equiv> 4"
abbreviation MUX_AUDIO_0_SHIFT :: int where "MUX_AUDIO_0_SHIFT \<equiv> 0"
abbreviation PCLK66_SHIFT :: int where "PCLK66_SHIFT \<equiv> 28"
abbreviation HCLK133_SHIFT :: int where "HCLK133_SHIFT \<equiv> 24"
abbreviation PCLK83_SHIFT :: int where "PCLK83_SHIFT \<equiv> 20"
abbreviation HCLK166_SHIFT :: int where "HCLK166_SHIFT \<equiv> 16"
abbreviation PCLK100_SHIFT :: int where "PCLK100_SHIFT \<equiv> 12"
abbreviation HCLK200_SHIFT :: int where "HCLK200_SHIFT \<equiv> 8"
abbreviation A2M_SHIFT :: int where "A2M_SHIFT \<equiv> 4"
abbreviation DIV_PWM_SHIFT :: int where "DIV_PWM_SHIFT \<equiv> 12"
abbreviation DIV_AUDIO_2_SHIFT :: int where "DIV_AUDIO_2_SHIFT \<equiv> 8"
abbreviation DIV_AUDIO_1_SHIFT :: int where "DIV_AUDIO_1_SHIFT \<equiv> 4"
abbreviation DIV_AUDIO_0_SHIFT :: int where "DIV_AUDIO_0_SHIFT \<equiv> 0"
abbreviation NONE :: int where "NONE \<equiv> -1"
abbreviation XOM_0 :: int where "XOM_0 \<equiv> 0"
abbreviation VPLLSRC_SEL :: int where "VPLLSRC_SEL \<equiv> 1"

definition ALL_MUX_BITS_0 :: u32 where "ALL_MUX_BITS_0 = 0x11111111"
definition ALL_DIV_BITS_0 :: u32 where "ALL_DIV_BITS_0 = 0x7F7F7777"
definition ALL_MUX_BITS_5 :: u32 where "ALL_MUX_BITS_5 = 0xFFFF"
definition ALL_DIV_BITS_5 :: u32 where "ALL_DIV_BITS_5 = 0xFFFF"

record CmuStat =
  lock_data :: "u32 list"
  conf_data :: "u32 list"
  clk_src :: "u32 list"
  src_mask :: "u32 list"
  clk_div :: "u32 list"
  clk_gate :: "u32 list"
  clk_out :: u32
  div_stat :: "u32 list"
  mux_stat :: "u32 list"

section \<open>The clock tree\<close>

text \<open>The addresses of the static clocks.\<close>

datatype clk_id =
  Xtal_osc12m | Xtal_osc27m | Xtal_usb_osc48m | Xtal_rtc_osc32k |
  Sclk_hdmi27m | Fin_pll | Apll | Mpll | Epll | Vpll | Sclk_apll | Sclk_mpll | Sclk_epll |
  Sclk_vpll | Sclk_a2m | Hclk133 | Pclk66 | Hclk166 | Pclk83 | Armclk | Hclk200 | Pclk100 |
  Hclk100 | Sclk_pwm | Sclk_audio_0 | Sclk_audio_1 | Sclk_audio_2 | Sclk_spdif

record Clk =
  name :: string
  clk_alias :: "string option"
  parent :: "clk_id option"
  parents :: "clk_id option list"
  enabled :: u16
  rate :: u64
  div_val :: u32
  mult_val :: u32
  mux_shift :: int
  div_shift :: int
  src_reg_num :: nat
  div_reg_num :: nat

type_synonym clk_tab = "clk_id \<Rightarrow> Clk"

text \<open>A static initialiser sets the fields it does not name to zero; a list of parents is padded
  with null pointers.\<close>

definition null_clk :: Clk where
  "null_clk = \<lparr>name = [], clk_alias = None, parent = None, parents = replicate 9 None, enabled = 0, rate = 0,
     div_val = 0, mult_val = 0, mux_shift = 0, div_shift = 0, src_reg_num = 0, div_reg_num = 0\<rparr>"

definition ptrs :: "clk_id list \<Rightarrow> clk_id option list" where
  "ptrs cs = map Some cs @ replicate (9 - length cs) None"

definition xtal_osc12m :: Clk where
  "xtal_osc12m = null_clk\<lparr>name := ''XXTI'', rate := 24000000, mux_shift := NONE, div_shift :=
     NONE\<rparr>"

definition xtal_osc27m :: Clk where
  "xtal_osc27m = null_clk\<lparr>name := ''XXTI27'', rate := 27000000, mux_shift := NONE, div_shift
     := NONE\<rparr>"

definition xtal_usb_osc48m :: Clk where
  "xtal_usb_osc48m = null_clk\<lparr>name := ''XusbXTI'', rate := 24000000, mux_shift := NONE,
     div_shift := NONE\<rparr>"

definition xtal_rtc_osc32k :: Clk where
  "xtal_rtc_osc32k = null_clk\<lparr>name := ''XrtcXTI'', rate := 32768, mux_shift := NONE,
     div_shift := NONE\<rparr>"

definition sclk_hdmi27m :: Clk where
  "sclk_hdmi27m = null_clk\<lparr>name := ''SCLK_HDMI27M'', clk_alias := Some ''clkin'', parents := ptrs
     [Xtal_osc27m], mux_shift := NONE, div_shift := NONE\<rparr>"

definition fin_pll :: Clk where
  "fin_pll = null_clk\<lparr>name := ''fin_pll'', clk_alias := Some ''clkin'', parents := ptrs [if XOM_0
     \<noteq> 0 then Xtal_usb_osc48m else Xtal_osc12m], mux_shift := NONE, div_shift :=
     NONE\<rparr>"

definition apll :: Clk where
  "apll = null_clk\<lparr>name := ''apll'', parents := ptrs [Fin_pll], mux_shift := NONE, div_shift
     := NONE\<rparr>"

definition mpll :: Clk where
  "mpll = null_clk\<lparr>name := ''mpll'', parents := ptrs [Fin_pll], mux_shift := NONE, div_shift
     := NONE\<rparr>"

definition epll :: Clk where
  "epll = null_clk\<lparr>name := ''epll'', parents := ptrs [Fin_pll], mux_shift := NONE, div_shift
     := NONE\<rparr>"

definition vpll :: Clk where
  "vpll = null_clk\<lparr>name := ''vpll'', parents := ptrs [if VPLLSRC_SEL \<noteq> 0 then
     Sclk_hdmi27m else Fin_pll], mux_shift := NONE, div_shift := NONE\<rparr>"

definition sclk_apll :: Clk where
  "sclk_apll = null_clk\<lparr>name := ''sclk_apll'', parents := ptrs [Fin_pll, Apll], mux_shift :=
     APLL_SHIFT, div_shift := NONE\<rparr>"

definition sclk_mpll :: Clk where
  "sclk_mpll = null_clk\<lparr>name := ''sclk_mpll'', parents := ptrs [Fin_pll, Mpll], mux_shift :=
     MPLL_SHIFT, div_shift := NONE\<rparr>"

definition sclk_epll :: Clk where
  "sclk_epll = null_clk\<lparr>name := ''sclk_epll'', parents := ptrs [Fin_pll, Epll], mux_shift :=
     EPLL_SHIFT, div_shift := NONE\<rparr>"

definition sclk_vpll :: Clk where
  "sclk_vpll = null_clk\<lparr>name := ''sclk_vpll'', parents := ptrs [Fin_pll, Vpll], mux_shift :=
     VPLL_SHIFT, div_shift := NONE\<rparr>"

definition sclk_a2m :: Clk where
  "sclk_a2m = null_clk\<lparr>name := ''sclk_a2m'', parents := ptrs [Sclk_apll], mux_shift := NONE,
     div_shift := A2M_SHIFT\<rparr>"

definition hclk133 :: Clk where
  "hclk133 = null_clk\<lparr>name := ''hclk_133'', parents := ptrs [Sclk_mpll, Sclk_a2m], mux_shift
     := MUX133_SHIFT, div_shift := HCLK133_SHIFT\<rparr>"

definition pclk66 :: Clk where
  "pclk66 = null_clk\<lparr>name := ''pclk_66'', parents := ptrs [Hclk133], mux_shift := NONE,
     div_shift := PCLK66_SHIFT\<rparr>"

definition hclk166 :: Clk where
  "hclk166 = null_clk\<lparr>name := ''hclk_166'', parents := ptrs [Sclk_mpll, Sclk_a2m], mux_shift
     := MUX166_SHIFT, div_shift := HCLK166_SHIFT\<rparr>"

definition pclk83 :: Clk where
  "pclk83 = null_clk\<lparr>name := ''pclk_83'', parents := ptrs [Hclk166], mux_shift := NONE,
     div_shift := PCLK83_SHIFT\<rparr>"

definition armclk :: Clk where
  "armclk = null_clk\<lparr>name := ''armclk'', parents := ptrs [Sclk_apll, Sclk_mpll], mux_shift :=
     MUX200_SHIFT, div_shift := APLL_SHIFT\<rparr>"

definition hclk200 :: Clk where
  "hclk200 = null_clk\<lparr>name := ''hclk_200'', parents := ptrs [Armclk], mux_shift := NONE,
     div_shift := HCLK200_SHIFT\<rparr>"

definition pclk100 :: Clk where
  "pclk100 = null_clk\<lparr>name := ''pclk_100'', parents := ptrs [Hclk200], mux_shift := NONE,
     div_shift := PCLK100_SHIFT\<rparr>"

definition hclk100 :: Clk where
  "hclk100 = null_clk\<lparr>name := ''hclk_100'', parents := ptrs [Hclk200], div_val := 2,
     mux_shift := NONE, div_shift := NONE\<rparr>"

definition sclk_pwm :: Clk where
  "sclk_pwm = null_clk\<lparr>name := ''sclk_pwm'', parents := ptrs [Xtal_osc12m, Xtal_usb_osc48m,
     Sclk_hdmi27m, Sclk_hdmi27m, Sclk_hdmi27m, Sclk_hdmi27m, Sclk_mpll, Sclk_epll, Sclk_vpll],
     src_reg_num := 5, mux_shift := MUX_PWM_SHIFT, div_reg_num := 5, div_shift :=
     DIV_PWM_SHIFT\<rparr>"

definition sclk_audio_0 :: Clk where
  "sclk_audio_0 = null_clk\<lparr>name := ''sclk_audio_0'', parents := ptrs [Xtal_osc12m,
     Xtal_usb_osc48m, Sclk_hdmi27m, Sclk_hdmi27m, Sclk_hdmi27m, Sclk_hdmi27m, Sclk_mpll, Sclk_epll,
     Sclk_vpll], src_reg_num := 6, mux_shift := MUX_AUDIO_0_SHIFT, div_reg_num := 6, div_shift :=
     DIV_AUDIO_0_SHIFT\<rparr>"

definition sclk_audio_1 :: Clk where
  "sclk_audio_1 = null_clk\<lparr>name := ''sclk_audio_1'', parents := ptrs [Xtal_osc12m,
     Xtal_usb_osc48m, Sclk_hdmi27m, Sclk_hdmi27m, Sclk_hdmi27m, Sclk_hdmi27m, Sclk_mpll, Sclk_epll,
     Sclk_vpll], src_reg_num := 6, mux_shift := MUX_AUDIO_1_SHIFT, div_reg_num := 6, div_shift :=
     DIV_AUDIO_1_SHIFT\<rparr>"

definition sclk_audio_2 :: Clk where
  "sclk_audio_2 = null_clk\<lparr>name := ''sclk_audio_2'', parents := ptrs [Xtal_osc12m,
     Xtal_usb_osc48m, Sclk_hdmi27m, Sclk_hdmi27m, Sclk_hdmi27m, Sclk_hdmi27m, Sclk_mpll, Sclk_epll,
     Sclk_vpll], src_reg_num := 6, mux_shift := MUX_AUDIO_2_SHIFT, div_reg_num := 6, div_shift :=
     DIV_AUDIO_2_SHIFT\<rparr>"

definition sclk_spdif :: Clk where
  "sclk_spdif = null_clk\<lparr>name := ''sclk_spdif'', parents := ptrs [Sclk_audio_0, Sclk_audio_1,
     Sclk_audio_2], src_reg_num := 6, mux_shift := MUX_SPDIF_SHIFT, div_shift := NONE\<rparr>"

fun static_clks :: "clk_id \<Rightarrow> Clk" where
    "static_clks Xtal_osc12m = xtal_osc12m"
  | "static_clks Xtal_osc27m = xtal_osc27m"
  | "static_clks Xtal_usb_osc48m = xtal_usb_osc48m"
  | "static_clks Xtal_rtc_osc32k = xtal_rtc_osc32k"
  | "static_clks Sclk_hdmi27m = sclk_hdmi27m"
  | "static_clks Fin_pll = fin_pll"
  | "static_clks Apll = apll"
  | "static_clks Mpll = mpll"
  | "static_clks Epll = epll"
  | "static_clks Vpll = vpll"
  | "static_clks Sclk_apll = sclk_apll"
  | "static_clks Sclk_mpll = sclk_mpll"
  | "static_clks Sclk_epll = sclk_epll"
  | "static_clks Sclk_vpll = sclk_vpll"
  | "static_clks Sclk_a2m = sclk_a2m"
  | "static_clks Hclk133 = hclk133"
  | "static_clks Pclk66 = pclk66"
  | "static_clks Hclk166 = hclk166"
  | "static_clks Pclk83 = pclk83"
  | "static_clks Armclk = armclk"
  | "static_clks Hclk200 = hclk200"
  | "static_clks Pclk100 = pclk100"
  | "static_clks Hclk100 = hclk100"
  | "static_clks Sclk_pwm = sclk_pwm"
  | "static_clks Sclk_audio_0 = sclk_audio_0"
  | "static_clks Sclk_audio_1 = sclk_audio_1"
  | "static_clks Sclk_audio_2 = sclk_audio_2"
  | "static_clks Sclk_spdif = sclk_spdif"

definition onchip_clks :: "clk_id list" where
  "onchip_clks = [Xtal_osc12m, Xtal_osc27m, Xtal_usb_osc48m, Xtal_rtc_osc32k, Sclk_hdmi27m, Fin_pll,
     Apll, Mpll, Epll, Vpll, Sclk_apll, Sclk_mpll,
     Sclk_epll, Sclk_vpll, Sclk_a2m, Hclk133, Pclk66, Hclk166,
     Pclk83, Armclk, Hclk200, Pclk100, Hclk100, Sclk_pwm,
     Sclk_audio_0, Sclk_audio_1, Sclk_audio_2, Sclk_spdif]"

definition s5pc1xx_findclk :: "clk_tab \<Rightarrow> string \<Rightarrow> clk_id res" where
  "s5pc1xx_findclk clks nm =
     (case find (\<lambda>c. name (clks c) = nm \<or> clk_alias (clks c) = Some nm) onchip_clks of
        Some c \<Rightarrow> Inr c
      | None \<Rightarrow> Inl (HwError ''clock not found''))"

definition s5pc1xx_clk_getrate :: "clk_tab \<Rightarrow> clk_id \<Rightarrow> u64" where
  "s5pc1xx_clk_getrate clks clk = rate (clks clk)"

section \<open>Parents and rates\<close>

definition clk_mux :: "CmuStat \<Rightarrow> Clk \<Rightarrow> nat res" where
  "clk_mux s cur =
     (if mux_shift cur > NONE
      then rbind (arr_get (clk_src s) (src_reg_num cur)) (\<lambda>r.
             Inr (unat (drop_bit (nat (mux_shift cur)) r AND 0xf)))
      else Inr 0)"

definition s5pc1xx_clk_reparent :: "CmuStat \<Rightarrow> clk_tab \<Rightarrow> clk_tab res" where
  "s5pc1xx_clk_reparent s clks =
     rfold (\<lambda>c clks.
       rbind (clk_mux s (clks c)) (\<lambda>parent_num.
       rbind (arr_get (parents (clks c)) parent_num) (\<lambda>p.
       Inr (clks(c := (clks c)\<lparr>parent := p\<rparr>))))) onchip_clks clks"

definition clk_set_div :: "CmuStat \<Rightarrow> Clk \<Rightarrow> Clk res" where
  "clk_set_div s cur =
     (let cur = cur\<lparr>div_val := if div_val cur \<noteq> 0 then div_val cur else 1,
                    mult_val := if mult_val cur \<noteq> 0 then mult_val cur else 1\<rparr>
      in if div_shift cur > NONE
         then rbind (arr_get (clk_div s) (div_reg_num cur)) (\<lambda>r.
                Inr (cur\<lparr>div_val := (drop_bit (nat (div_shift cur)) r AND 0xf) + 1\<rparr>))
         else Inr cur)"

definition clk_rate_step :: "CmuStat \<Rightarrow> clk_id \<Rightarrow> clk_tab \<Rightarrow> clk_tab res" where
  "clk_rate_step s c clks =
     rbind (clk_set_div s (clks c)) (\<lambda>cur.
       let clks = clks(c := cur) in
       case parent cur of
         None \<Rightarrow> Inr clks
       | Some p \<Rightarrow> rbind (muldiv64 (rate (clks p)) (mult_val cur) (div_val cur)) (\<lambda>r.
                    Inr (clks(c := cur\<lparr>rate := r\<rparr>))))"

definition s5pc1xx_clk_rate_update :: "CmuStat \<Rightarrow> clk_tab \<Rightarrow> clk_tab res" where
  "s5pc1xx_clk_rate_update s clks = rfold (clk_rate_step s) onchip_clks clks"

definition s5pc1xx_clk_setrate :: "clk_id \<Rightarrow> u32 \<Rightarrow> u32 \<Rightarrow> clk_tab \<Rightarrow> clk_tab" where
  "s5pc1xx_clk_setrate clk divisor multiply clks =
     clks(clk := (clks clk)\<lparr>div_val := divisor, mult_val := multiply\<rparr>)"

section \<open>Register access\<close>

text \<open>The body the four cases of \<^verbatim>\<open>set_pll_conf\<close> share: the PLL, the clock that multiplexes it and
  the divisor.\<close>

definition set_pll :: "clk_id \<Rightarrow> clk_id \<Rightarrow> u32 \<Rightarrow> u32 \<Rightarrow> CmuStat \<times> clk_tab \<Rightarrow> (CmuStat \<times> clk_tab) res" where
  "set_pll pll mux val divisor sc =
     (case sc of (s, clks) \<Rightarrow>
       let clks = clks(pll := (clks pll)\<lparr>enabled := ucast (drop_bit 31 val AND 0x1)\<rparr>);
           m = push_bit (nat (mux_shift (clks mux))) 1
       in rbind (arr_get (clk_src s) 0) (\<lambda>r.
          rbind (arr_set (clk_src s) 0 (if enabled (clks pll) \<noteq> 0 then r OR m else r AND NOT m)) (\<lambda>src.
          Inr (s\<lparr>clk_src := src\<rparr>, s5pc1xx_clk_setrate pll divisor (drop_bit 16 val AND 0x3FF) clks))))"

definition set_pll_conf :: "CmuStat \<times> clk_tab \<Rightarrow> hwaddr \<Rightarrow> u32 \<Rightarrow> (CmuStat \<times> clk_tab) res" where
  "set_pll_conf sc offset val =
     (let p_div = drop_bit 8 val AND 0x3F; s_div = unat (val AND 0x7); n = drop_bit 3 (offset - 0x100) in
      if n = 0 then
        if s_div = 0 then Inl ShiftRange
        else set_pll Apll Sclk_apll val (push_bit (s_div - 1) p_div) sc
      else if n = 1 then set_pll Mpll Sclk_mpll val (push_bit s_div p_div) sc
      else if n = 2 then set_pll Epll Sclk_epll val (push_bit s_div p_div) sc
      else if n = 4 then set_pll Vpll Sclk_vpll val (push_bit s_div p_div) sc
      else Inl (HwError ''s5pc1xx_clk: bad pll offset''))"

text \<open>The position of an offset in a group of registers of \<open>2 ^ k\<close> bytes each.\<close>

definition reg_index :: "nat \<Rightarrow> hwaddr \<Rightarrow> hwaddr \<Rightarrow> nat" where
  "reg_index k base offset = unat (drop_bit k (offset - base))"

definition mux_stat_bit :: "u32 \<Rightarrow> int \<Rightarrow> u32" where
  "mux_stat_bit src shift = push_bit (nat shift) (push_bit (unat (drop_bit (nat shift) src AND 0x1)) 1)"

definition mux_stat_field :: "u32 \<Rightarrow> int \<Rightarrow> nat \<Rightarrow> u32" where
  "mux_stat_field src shift pos =
     push_bit pos ((push_bit 1 (drop_bit (nat shift) src) AND 0x6) OR (drop_bit (nat shift) src AND 0x1))"

definition register_read :: "CmuStat \<Rightarrow> hwaddr \<Rightarrow> u32 res" where
  "register_read s offset =
     (if offset \<le> 0x020 then arr_get (lock_data s) (reg_index 3 0 offset)
      else if 0x100 \<le> offset \<and> offset \<le> 0x120 then arr_get (conf_data s) (reg_index 3 0x100 offset)
      else if 0x200 \<le> offset \<and> offset \<le> 0x218 then arr_get (clk_src s) (reg_index 2 0x200 offset)
      else if 0x280 \<le> offset \<and> offset \<le> 0x284 then arr_get (src_mask s) (reg_index 2 0x280 offset)
      else if 0x300 \<le> offset \<and> offset \<le> 0x31C then arr_get (clk_div s) (reg_index 2 0x300 offset)
      else if 0x400 \<le> offset \<and> offset \<le> 0x488 then arr_get (clk_gate s) (reg_index 2 0x400 offset)
      else if offset = 0x500 then Inr (clk_out s)
      else if offset = 0x1000 \<or> offset = 0x1004 then Inr 0
      else if offset = 0x1100 then
        rbind (arr_get (clk_src s) 0) (\<lambda>r.
          Inr (mux_stat_bit r ONENAND_SHIFT OR mux_stat_bit r MUX133_SHIFT OR mux_stat_bit r MUX166_SHIFT
            OR mux_stat_bit r MUX200_SHIFT OR mux_stat_bit r VPLL_SHIFT OR mux_stat_bit r EPLL_SHIFT
            OR mux_stat_bit r MPLL_SHIFT OR mux_stat_bit r APLL_SHIFT))
      else if offset = 0x1104 then
        rbind (arr_get (clk_src s) 6) (\<lambda>r6.
        rbind (arr_get (clk_src s) 2) (\<lambda>r2.
          Inr (mux_stat_bit r6 MUX_HPM_SHIFT OR mux_stat_field r6 MUX_ONEDRAM_SHIFT 8
            OR mux_stat_field r2 MFC_SHIFT (nat MFC_SHIFT) OR mux_stat_field r2 G3D_SHIFT (nat G3D_SHIFT))))
      else Inl (HwError ''s5pc1xx_clk: bad read offset''))"

definition register_write :: "CmuStat \<times> clk_tab \<Rightarrow> hwaddr \<Rightarrow> u32 \<Rightarrow> (CmuStat \<times> clk_tab) res" where
  "register_write sc offset val =
     (case sc of (s, clks) \<Rightarrow>
       if offset \<le> 0x020 then
         rbind (arr_set (lock_data s) (reg_index 3 0 offset) val) (\<lambda>d. Inr (s\<lparr>lock_data := d\<rparr>, clks))
       else if 0x100 \<le> offset \<and> offset \<le> 0x120 then
         rbind (arr_set (conf_data s) (reg_index 3 0x100 offset) (val OR push_bit 29 1)) (\<lambda>d.
         rbind (set_pll_conf (s\<lparr>conf_data := d\<rparr>, clks) offset val) (\<lambda>(s, clks).
         rbind (s5pc1xx_clk_reparent s clks) (\<lambda>clks.
         rbind (s5pc1xx_clk_rate_update s clks) (\<lambda>clks. Inr (s, clks)))))
       else if 0x200 \<le> offset \<and> offset \<le> 0x218 then
         rbind (arr_set (clk_src s) (reg_index 2 0x200 offset) val) (\<lambda>d.
         rbind (rbind (arr_get d 0) (\<lambda>r. arr_set d 0 (r AND ALL_MUX_BITS_0))) (\<lambda>d.
         rbind (rbind (arr_get d 5) (\<lambda>r. arr_set d 5 (r AND ALL_MUX_BITS_5))) (\<lambda>d.
         let s = s\<lparr>clk_src := d\<rparr> in
         rbind (s5pc1xx_clk_reparent s clks) (\<lambda>clks. Inr (s, clks)))))
       else if 0x280 \<le> offset \<and> offset \<le> 0x284 then
         rbind (arr_set (src_mask s) (reg_index 2 0x280 offset) val) (\<lambda>d. Inr (s\<lparr>src_mask := d\<rparr>, clks))
       else if 0x300 \<le> offset \<and> offset \<le> 0x31C then
         rbind (arr_set (clk_div s) (reg_index 2 0x300 offset) val) (\<lambda>d.
         rbind (rbind (arr_get d 0) (\<lambda>r. arr_set d 0 (r AND ALL_DIV_BITS_0))) (\<lambda>d.
         rbind (rbind (arr_get d 5) (\<lambda>r. arr_set d 5 (r AND ALL_DIV_BITS_5))) (\<lambda>d.
         let s = s\<lparr>clk_div := d\<rparr> in
         rbind (s5pc1xx_clk_rate_update s clks) (\<lambda>clks. Inr (s, clks)))))
       else if 0x400 \<le> offset \<and> offset \<le> 0x488 then
         rbind (arr_set (clk_gate s) (reg_index 2 0x400 offset) val) (\<lambda>d. Inr (s\<lparr>clk_gate := d\<rparr>, clks))
       else if offset = 0x500 then Inr (s\<lparr>clk_out := val\<rparr>, clks)
       else Inl (HwError ''s5pc1xx_clk: bad write offset''))"

definition s5pc1xx_clk_init :: "(CmuStat \<times> clk_tab) res" where
  "s5pc1xx_clk_init =
     (let s = \<lparr>lock_data = replicate 5 0, conf_data = replicate 5 0,
               clk_src = [0x10001111, 0, 0, 0, 0x66666666, 0x777, 0x1000000],
               src_mask = replicate 2 0, clk_div = [0x14131330, 0, 0, 0, 0, 0, 0, 0],
               clk_gate = replicate 23 0, clk_out = 0, div_stat = replicate 2 0, mux_stat = replicate 2 0\<rparr>
      in rbind (s5pc1xx_clk_reparent s static_clks) (\<lambda>clks.
         rbind (s5pc1xx_clk_rate_update s clks) (\<lambda>clks.
         rbind (register_write (s, clks) 0x100 0xA0C80601) (\<lambda>sc.
         rbind (register_write sc 0x108 0xA29B0C01) (\<lambda>sc.
         rbind (register_write sc 0x110 0xA0600602) (\<lambda>sc.
         register_write sc 0x120 0xA06C0603))))))"

section \<open>The static table\<close>

lemmas clk_static_defs =
  null_clk_def ptrs_def xtal_osc12m_def xtal_osc27m_def xtal_usb_osc48m_def xtal_rtc_osc32k_def sclk_hdmi27m_def
  fin_pll_def apll_def mpll_def epll_def vpll_def sclk_apll_def sclk_mpll_def sclk_epll_def sclk_vpll_def
  sclk_a2m_def hclk133_def pclk66_def hclk166_def pclk83_def armclk_def hclk200_def pclk100_def hclk100_def
  sclk_pwm_def sclk_audio_0_def sclk_audio_1_def sclk_audio_2_def sclk_spdif_def

lemma onchip_clks_UNIV [simp]: "set onchip_clks = UNIV"
proof -
  have "c \<in> set onchip_clks" for c by (cases c) (simp_all add: onchip_clks_def)
  then show ?thesis by auto
qed

lemma onchip_clks_distinct: "distinct onchip_clks"
  by code_simp

text \<open>A clock comes after each of its possible parents in the order of the updates.\<close>

definition clk_ordered :: "clk_id list \<Rightarrow> bool" where
  "clk_ordered cs = list_all (\<lambda>i. list_all (\<lambda>p. p = None \<or> the p \<in> set (take i cs)) (parents (static_clks (cs ! i))))
     [0..<length cs]"

lemma onchip_clks_ordered: "clk_ordered onchip_clks"
  by code_simp

lemma clk_ordered_parent:
  assumes "clk_ordered (xs @ c # ys)" and "Some p \<in> set (parents (static_clks c))"
  shows "p \<in> set xs"
  using assms unfolding clk_ordered_def list_all_iff
  by (force dest: bspec [of _ _ "length xs"] bspec [of _ _ "Some p"])

lemma length_static_parents [simp]: "length (parents (static_clks c)) = 9"
  by (cases c) (simp_all add: clk_static_defs)

lemma static_regs [simp]:
  "src_reg_num (static_clks c) < 7" "div_reg_num (static_clks c) < 8"
  by (cases c; simp add: clk_static_defs)+

text \<open>The fields of a clock that no operation changes.\<close>

definition clk_fixed :: "Clk \<Rightarrow> Clk \<Rightarrow> bool" where
  "clk_fixed a b \<longleftrightarrow> name a = name b \<and> clk_alias a = clk_alias b \<and> parents a = parents b \<and> mux_shift a = mux_shift b
     \<and> div_shift a = div_shift b \<and> src_reg_num a = src_reg_num b \<and> div_reg_num a = div_reg_num b"

definition clk_wf :: "clk_tab \<Rightarrow> bool" where
  "clk_wf clks \<longleftrightarrow> (\<forall>c. clk_fixed (clks c) (static_clks c))
     \<and> (\<forall>c p. parent (clks c) = Some p \<longrightarrow> Some p \<in> set (parents (static_clks c)))"

lemma clk_wfD:
  assumes "clk_wf clks"
  shows "name (clks c) = name (static_clks c)" "clk_alias (clks c) = clk_alias (static_clks c)"
    "parents (clks c) = parents (static_clks c)" "mux_shift (clks c) = mux_shift (static_clks c)"
    "div_shift (clks c) = div_shift (static_clks c)" "src_reg_num (clks c) = src_reg_num (static_clks c)"
    "div_reg_num (clks c) = div_reg_num (static_clks c)"
  using assms unfolding clk_wf_def clk_fixed_def by blast+

lemma static_clks_wf: "clk_wf static_clks"
proof -
  have "parent (static_clks c) = None" for c by (cases c) (simp_all add: clk_static_defs)
  then show ?thesis by (simp add: clk_wf_def clk_fixed_def)
qed

lemma findclk_static:
  assumes "clk_wf clks"
  shows "s5pc1xx_findclk clks nm = s5pc1xx_findclk static_clks nm"
  using clk_wfD [OF assms] by (simp add: s5pc1xx_findclk_def)

lemma findclk_names:
  "s5pc1xx_findclk static_clks ''pclk_66'' = Inr Pclk66" "s5pc1xx_findclk static_clks ''sclk_pwm'' = Inr Sclk_pwm"
  "s5pc1xx_findclk static_clks ''XXTI'' = Inr Xtal_osc12m" "s5pc1xx_findclk static_clks ''XrtcXTI'' = Inr Xtal_rtc_osc32k"
  "s5pc1xx_findclk static_clks ''XusbXTI'' = Inr Xtal_usb_osc48m"
  by code_simp+

section \<open>Selecting the parents\<close>

text \<open>The parent number a multiplexer register selects.\<close>

definition clk_sel :: "CmuStat \<Rightarrow> clk_id \<Rightarrow> nat" where
  "clk_sel s c = (if mux_shift (static_clks c) > NONE
     then unat (drop_bit (nat (mux_shift (static_clks c))) (clk_src s ! src_reg_num (static_clks c)) AND 0xf) else 0)"

lemma clk_mux_eq:
  "clk_fixed cur (static_clks c) \<Longrightarrow> length (clk_src s) = 7 \<Longrightarrow> clk_mux s cur = Inr (clk_sel s c)"
  by (simp add: clk_mux_def clk_sel_def clk_fixed_def)

definition clk_parented :: "CmuStat \<Rightarrow> clk_tab \<Rightarrow> clk_id set \<Rightarrow> clk_tab" where
  "clk_parented s clks A = (\<lambda>c. if c \<in> A then (clks c)\<lparr>parent := parents (static_clks c) ! clk_sel s c\<rparr> else clks c)"

lemma reparent_eq:
  assumes "clk_wf clks" and "length (clk_src s) = 7"
  shows "s5pc1xx_clk_reparent s clks =
    (if \<forall>c. clk_sel s c < 9 then Inr (clk_parented s clks UNIV) else Inl ArrayBounds)"
proof -
  let ?f = "\<lambda>c clks. rbind (clk_mux s (clks c)) (\<lambda>parent_num. rbind (arr_get (parents (clks c)) parent_num) (\<lambda>p.
       Inr (clks(c := (clks c)\<lparr>parent := p\<rparr>))))"
  have "rfold ?f xs clks = (if \<forall>c \<in> set xs. clk_sel s c < 9 then Inr (clk_parented s clks (set xs)) else Inl ArrayBounds)" for xs
  proof (induction xs rule: rev_induct)
    case (snoc c xs)
    have fixed: "clk_fixed (clk_parented s clks (set xs) c) (static_clks c)"
      using assms(1) by (simp add: clk_wf_def clk_parented_def clk_fixed_def)
    then have "parents (clk_parented s clks (set xs) c) = parents (static_clks c)" by (simp add: clk_fixed_def)
    with snoc clk_mux_eq [OF fixed assms(2)] show ?case
      by (auto simp: rfold_append clk_parented_def fun_eq_iff)
  qed (simp add: clk_parented_def)
  from this [of onchip_clks] show ?thesis by (simp add: s5pc1xx_clk_reparent_def)
qed

lemma clk_parented_wf:
  assumes "clk_wf clks" and "\<forall>c. clk_sel s c < 9"
  shows "clk_wf (clk_parented s clks UNIV)"
proof -
  have "Some p \<in> set (parents (static_clks c))" if "parents (static_clks c) ! clk_sel s c = Some p" for c p
    using that assms(2) by (metis length_static_parents nth_mem)
  then show ?thesis using assms(1) by (auto simp: clk_wf_def clk_fixed_def clk_parented_def)
qed

section \<open>Propagating the rates\<close>

definition clk_div_field :: "CmuStat \<Rightarrow> clk_id \<Rightarrow> u32" where
  "clk_div_field s c =
     (drop_bit (nat (div_shift (static_clks c))) (clk_div s ! div_reg_num (static_clks c)) AND 0xf) + 1"

text \<open>A clock has the rate its parent, multiplier and divisor give it.\<close>

definition clk_rate_ok :: "CmuStat \<Rightarrow> clk_tab \<Rightarrow> clk_id \<Rightarrow> bool" where
  "clk_rate_ok s clks c \<longleftrightarrow>
     div_val (clks c) \<noteq> 0 \<and> mult_val (clks c) \<noteq> 0
     \<and> (div_shift (static_clks c) > NONE \<longrightarrow> div_val (clks c) = clk_div_field s c)
     \<and> (case parent (clks c) of None \<Rightarrow> True
        | Some p \<Rightarrow> rate (clks c) =
            of_nat (unat (rate (clks p)) * unat (mult_val (clks c)) div unat (div_val (clks c))))"

lemma clk_div_field_nonzero: "clk_div_field s c \<noteq> 0"
proof
  let ?x = "drop_bit (nat (div_shift (static_clks c))) (clk_div s ! div_reg_num (static_clks c)) AND 0xf :: u32"
  assume "clk_div_field s c = 0"
  then have "?x = - 1" by (simp add: clk_div_field_def eq_neg_iff_add_eq_0)
  then show False using unat_and_0xf [of "drop_bit (nat (div_shift (static_clks c))) (clk_div s ! div_reg_num (static_clks c))"]
    by (simp add: unsigned_minus_1_eq_mask mask_numeral)
qed

text \<open>The divisor and the multiplier an update gives a clock.\<close>

definition clk_new_div :: "CmuStat \<Rightarrow> clk_id \<Rightarrow> Clk \<Rightarrow> u32" where
  "clk_new_div s c cur = (if div_shift (static_clks c) > NONE then clk_div_field s c
     else if div_val cur = 0 then 1 else div_val cur)"

definition clk_new_mult :: "Clk \<Rightarrow> u32" where
  "clk_new_mult cur = (if mult_val cur = 0 then 1 else mult_val cur)"

lemma clk_set_div_eq:
  assumes "clk_fixed cur (static_clks c)" and "length (clk_div s) = 8"
  shows "\<exists>cur'. clk_set_div s cur = Inr cur' \<and> clk_fixed cur' (static_clks c) \<and> parent cur' = parent cur
    \<and> rate cur' = rate cur \<and> div_val cur' \<noteq> 0 \<and> mult_val cur' \<noteq> 0
    \<and> div_val cur' = clk_new_div s c cur \<and> mult_val cur' = clk_new_mult cur"
  using assms clk_div_field_nonzero [of s c]
  by (cases "div_shift (static_clks c) > NONE")
     (simp_all add: clk_set_div_def Let_def clk_fixed_def clk_div_field_def clk_new_div_def clk_new_mult_def)

lemma clk_rate_step_ok:
  assumes "clk_wf clks" and "length (clk_div s) = 8"
  shows "\<exists>clks'. clk_rate_step s c clks = Inr clks' \<and> clk_wf clks' \<and> (\<forall>d. d \<noteq> c \<longrightarrow> clks' d = clks d)
    \<and> parent (clks' c) = parent (clks c) \<and> (parent (clks c) \<noteq> Some c \<longrightarrow> clk_rate_ok s clks' c)
    \<and> (parent (clks c) = None \<longrightarrow> rate (clks' c) = rate (clks c))
    \<and> div_val (clks' c) = clk_new_div s c (clks c) \<and> mult_val (clks' c) = clk_new_mult (clks c)"
proof -
  have fixed: "clk_fixed (clks c) (static_clks c)" using assms(1) by (simp add: clk_wf_def)
  obtain cur where cur: "clk_set_div s (clks c) = Inr cur" "clk_fixed cur (static_clks c)"
    "parent cur = parent (clks c)" "rate cur = rate (clks c)" "div_val cur \<noteq> 0" "mult_val cur \<noteq> 0"
    "div_val cur = clk_new_div s c (clks c)" "mult_val cur = clk_new_mult (clks c)"
    using clk_set_div_eq [OF fixed assms(2)] by blast
  then have "div_shift (static_clks c) > NONE \<Longrightarrow> div_val cur = clk_div_field s c" by (simp add: clk_new_div_def)
  note cur = cur this
  show ?thesis
  proof (cases "parent (clks c)")
    case None
    then show ?thesis
      using cur assms(1) by (auto simp: clk_rate_step_def clk_wf_def clk_rate_ok_def)
  next
    case (Some p)
    then show ?thesis
      using cur assms(1) by (auto simp: clk_rate_step_def muldiv64_eq clk_wf_def clk_rate_ok_def clk_fixed_def)
  qed
qed

lemma rate_fold:
  assumes "clk_wf clks" and "length (clk_div s) = 8"
  shows "clk_ordered xs \<Longrightarrow> distinct xs \<Longrightarrow>
    \<exists>clks'. rfold (clk_rate_step s) xs clks = Inr clks' \<and> clk_wf clks' \<and> (\<forall>c \<in> set xs. clk_rate_ok s clks' c)
      \<and> (\<forall>c. parent (clks' c) = parent (clks c) \<and> (parent (clks c) = None \<longrightarrow> rate (clks' c) = rate (clks c)))
      \<and> (\<forall>c. div_val (clks' c) = (if c \<in> set xs then clk_new_div s c (clks c) else div_val (clks c))
         \<and> mult_val (clks' c) = (if c \<in> set xs then clk_new_mult (clks c) else mult_val (clks c)))"
proof (induction xs rule: rev_induct)
  case (snoc c xs)
  have "clk_ordered xs"
    using snoc.prems(1) unfolding clk_ordered_def list_all_iff
    by (auto simp: nth_append)
  then obtain clks1 where 1: "rfold (clk_rate_step s) xs clks = Inr clks1" "clk_wf clks1"
    "\<forall>d \<in> set xs. clk_rate_ok s clks1 d"
    "\<forall>d. parent (clks1 d) = parent (clks d) \<and> (parent (clks d) = None \<longrightarrow> rate (clks1 d) = rate (clks d))"
    "\<forall>d. div_val (clks1 d) = (if d \<in> set xs then clk_new_div s d (clks d) else div_val (clks d))
       \<and> mult_val (clks1 d) = (if d \<in> set xs then clk_new_mult (clks d) else mult_val (clks d))"
    using snoc by auto
  obtain clks2 where 2: "clk_rate_step s c clks1 = Inr clks2" "clk_wf clks2" "\<forall>d. d \<noteq> c \<longrightarrow> clks2 d = clks1 d"
    "parent (clks2 c) = parent (clks1 c)" "parent (clks1 c) \<noteq> Some c \<longrightarrow> clk_rate_ok s clks2 c"
    "parent (clks1 c) = None \<longrightarrow> rate (clks2 c) = rate (clks1 c)"
    "div_val (clks2 c) = clk_new_div s c (clks1 c)" "mult_val (clks2 c) = clk_new_mult (clks1 c)"
    using clk_rate_step_ok [OF 1(2) assms(2), of c] by (elim exE conjE) (rule that)
  have notin: "c \<notin> set xs" using snoc.prems(2) by simp
  have before: "p \<in> set xs" if "parent (clks1 c) = Some p" for p
    using clk_ordered_parent [OF snoc.prems(1)] that 1(2) by (auto simp: clk_wf_def)
  have "clk_rate_ok s clks2 d" if d: "d \<in> set xs" for d
  proof -
    have "p \<noteq> c" if "parent (clks1 d) = Some p" for p
    proof -
      obtain ys zs where "xs = ys @ d # zs" using split_list [OF d] by blast
      then have "p \<in> set xs"
        using clk_ordered_parent [of ys d "zs"] \<open>clk_ordered xs\<close> that 1(2) by (auto simp: clk_wf_def)
      then show ?thesis using notin by auto
    qed
    moreover have "clks2 d = clks1 d" using 2(3) d notin by auto
    ultimately show ?thesis
      using 1(3) d 2(3) by (auto simp: clk_rate_ok_def split: option.splits)
  qed
  moreover have "clk_rate_ok s clks2 c" using 2(5) before notin by auto
  moreover have "parent (clks2 d) = parent (clks d) \<and> (parent (clks d) = None \<longrightarrow> rate (clks2 d) = rate (clks d))" for d
    using 1(4) 2(3,4,6) by (cases "d = c") auto
  moreover have "div_val (clks2 d) = (if d \<in> set (xs @ [c]) then clk_new_div s d (clks d) else div_val (clks d))
      \<and> mult_val (clks2 d) = (if d \<in> set (xs @ [c]) then clk_new_mult (clks d) else mult_val (clks d))" for d
    using 1(5) 2(3,7,8) notin by (cases "d = c") (auto simp: clk_new_div_def clk_new_mult_def)
  ultimately show ?case
    using 1(1) 2(1,2) by (auto simp: rfold_append)
qed (use assms in simp)

definition rates_updated :: "CmuStat \<Rightarrow> clk_tab \<Rightarrow> clk_tab \<Rightarrow> bool" where
  "rates_updated s clks clks' \<longleftrightarrow> (\<forall>c. clk_rate_ok s clks' c)
     \<and> (\<forall>c. parent (clks' c) = parent (clks c) \<and> (parent (clks c) = None \<longrightarrow> rate (clks' c) = rate (clks c))
        \<and> div_val (clks' c) = clk_new_div s c (clks c) \<and> mult_val (clks' c) = clk_new_mult (clks c))"

lemma rate_update_ok:
  assumes "clk_wf clks" and "length (clk_div s) = 8"
  shows "\<exists>clks'. s5pc1xx_clk_rate_update s clks = Inr clks' \<and> clk_wf clks' \<and> rates_updated s clks clks'"
  using rate_fold [OF assms onchip_clks_ordered onchip_clks_distinct]
  by (auto simp: s5pc1xx_clk_rate_update_def rates_updated_def)

section \<open>Invariant\<close>

text \<open>What every reachable state of the controller has: whole register arrays, selectors that name an
  entry of the parents, and a table that differs from the static one only in what the operations set.\<close>

definition clk_inv :: "CmuStat \<times> clk_tab \<Rightarrow> bool" where
  "clk_inv sc = (case sc of (s, clks) \<Rightarrow>
     length (lock_data s) = 5 \<and> length (conf_data s) = 5 \<and> length (clk_src s) = 7 \<and> length (src_mask s) = 2
     \<and> length (clk_div s) = 8 \<and> length (clk_gate s) = 23
     \<and> clk_src s ! 0 AND NOT ALL_MUX_BITS_0 = 0 \<and> (\<forall>c. clk_sel s c < 9) \<and> clk_wf clks)"

lemma masked_field:
  assumes "(w :: u32) AND NOT ALL_MUX_BITS_0 = 0" and "k \<in> {0, 4, 8, 12, 16, 20, 24, 28}"
  shows "unat (drop_bit k w AND 0xf) < 9"
proof -
  have w: "w = w AND ALL_MUX_BITS_0"
    using assms(1) bit.conj_disj_distrib [of w ALL_MUX_BITS_0 "NOT ALL_MUX_BITS_0"] by simp
  have "drop_bit k ALL_MUX_BITS_0 AND 0xf = 1"
    using assms(2) unfolding ALL_MUX_BITS_0_def by (elim insertE) simp_all
  then have "drop_bit k (w AND ALL_MUX_BITS_0) AND 0xf = drop_bit k w AND 1"
    by (simp add: drop_bit_and and.assoc)
  with w have "drop_bit k w AND 0xf = drop_bit k w AND 1" by simp
  moreover have "unat (v AND 1 :: u32) \<le> 1" for v
    using word_and_le1 [of v 1] by (simp add: word_le_nat_alt and.commute)
  ultimately show ?thesis by (metis le_less_trans one_less_numeral_iff semiring_norm(77) num.distinct(1))
qed

lemma static_mux0:
  "src_reg_num (static_clks c) = 0 \<Longrightarrow> mux_shift (static_clks c) > NONE \<Longrightarrow>
     nat (mux_shift (static_clks c)) \<in> {0, 4, 8, 12, 16, 20, 24, 28}"
  by (cases c) (simp_all add: clk_static_defs)

lemma clk_sel_src0:
  assumes "\<forall>c. clk_sel s c < 9" and "length (clk_src s) = 7" and "w AND NOT ALL_MUX_BITS_0 = 0"
  shows "clk_sel (s\<lparr>clk_src := (clk_src s)[0 := w]\<rparr>) c < 9"
  using assms(2,3) masked_field [OF assms(3) static_mux0, of c] spec [OF assms(1), of c]
  by (auto simp: clk_sel_def nth_list_update)

lemma clk_sel_updates [simp]:
  "clk_sel (s\<lparr>lock_data := a\<rparr>) c = clk_sel s c" "clk_sel (s\<lparr>conf_data := a\<rparr>) c = clk_sel s c"
  "clk_sel (s\<lparr>src_mask := a\<rparr>) c = clk_sel s c" "clk_sel (s\<lparr>clk_div := a\<rparr>) c = clk_sel s c"
  "clk_sel (s\<lparr>clk_gate := a\<rparr>) c = clk_sel s c" "clk_sel (s\<lparr>clk_out := w\<rparr>) c = clk_sel s c"
  by (simp_all add: clk_sel_def)

text \<open>A divisor or PLL write ends by recomputing the rates, in a table that keeps its form.\<close>

lemma rates_recomputed:
  assumes "clk_inv (s, clks)"
  shows "\<exists>clks'. s5pc1xx_clk_rate_update s clks = Inr clks' \<and> clk_inv (s, clks') \<and> rates_updated s clks clks'"
  using assms rate_update_ok [of clks s] by (auto simp: clk_inv_def)

lemma reparented:
  assumes "clk_inv (s, clks)"
  shows "s5pc1xx_clk_reparent s clks = Inr (clk_parented s clks UNIV) \<and> clk_inv (s, clk_parented s clks UNIV)"
  using assms reparent_eq [of clks s] clk_parented_wf [of clks s] by (simp add: clk_inv_def)

lemma masked_ops:
  fixes w m n :: u32
  assumes "w AND n = 0"
  shows "m AND n = 0 \<Longrightarrow> (w OR m) AND n = 0" "(w AND k) AND n = 0"
proof -
  have "(w AND k) AND n = (w AND n) AND k" by (simp only: and.assoc and.commute [of k])
  then show "(w AND k) AND n = 0" using assms by simp
qed (use assms in \<open>simp add: bit.conj_disj_distrib2\<close>)

lemma set_pll_ok:
  assumes "clk_inv (s, clks)" and "(pll, mux) \<in> {(Apll, Sclk_apll), (Mpll, Sclk_mpll), (Epll, Sclk_epll), (Vpll, Sclk_vpll)}"
  shows "\<exists>s' clks'. set_pll pll mux val d (s, clks) = Inr (s', clks') \<and> clk_inv (s', clks')
    \<and> div_val (clks' pll) = d \<and> mult_val (clks' pll) = drop_bit 16 val AND 0x3FF"
proof -
  define m :: u32 where "m = 2 ^ nat (mux_shift (static_clks mux))"
  have shift: "mux_shift (clks mux) = mux_shift (static_clks mux)"
    using assms(1) clk_wfD by (auto simp: clk_inv_def)
  have "mux \<noteq> pll" using assms(2) by auto
  have m: "m AND NOT ALL_MUX_BITS_0 = 0"
    using assms(2) by (auto simp: m_def clk_static_defs ALL_MUX_BITS_0_def)
  let ?w = "\<lambda>v. if v then clk_src s ! 0 OR m else clk_src s ! 0 AND NOT m"
  have w: "?w v AND NOT ALL_MUX_BITS_0 = 0" for v
    using assms(1) m masked_ops by (simp add: clk_inv_def)
  have sel: "clk_sel (s\<lparr>clk_src := (clk_src s)[0 := ?w v]\<rparr>) c < 9" for v c
    using clk_sel_src0 [OF _ _ w] assms(1) by (simp add: clk_inv_def)
  have len: "length (clk_src s) = 7" using assms(1) by (simp add: clk_inv_def)
  have wf: "clk_wf (clks(pll := (clks pll)\<lparr>enabled := e, div_val := d, mult_val := k\<rparr>))" for e k
    using assms(1) by (auto simp: clk_inv_def clk_wf_def clk_fixed_def)
  show ?thesis
    using len sel [of True] sel [of False] w [of True] w [of False] wf assms(1) shift \<open>mux \<noteq> pll\<close>
    by (simp add: set_pll_def Let_def s5pc1xx_clk_setrate_def clk_inv_def flip: m_def)
qed

inductive clk_reach :: "CmuStat \<times> clk_tab \<Rightarrow> bool" where
  clk_started: "s5pc1xx_clk_init = Inr sc \<Longrightarrow> clk_reach sc"
| clk_written: "clk_reach sc \<Longrightarrow> register_write sc offset val = Inr sc' \<Longrightarrow> clk_reach sc'"

lemma set_pll_conf_inv:
  assumes "clk_inv (s, clks)" and "set_pll_conf (s, clks) offset val = Inr (s', clks')"
  shows "clk_inv (s', clks')"
  using assms(2) set_pll_ok [OF assms(1)]
  by (auto simp: set_pll_conf_def Let_def split: if_splits) (metis Pair_inject sum.inject(2))+

lemma pll_write:
  assumes "clk_inv (s, clks)"
  shows "\<exists>clks'. rbind (s5pc1xx_clk_reparent s clks) (s5pc1xx_clk_rate_update s) = Inr clks'
    \<and> clk_inv (s, clks') \<and> rates_updated s (clk_parented s clks UNIV) clks'"
  using reparented [OF assms] rates_recomputed [of s "clk_parented s clks UNIV"] by auto

lemma reg_index_less:
  assumes "b \<le> offset" and "offset \<le> l" and "unat (l - b) div 2 ^ k < n"
  shows "reg_index k b offset < n"
proof -
  have "unat (offset - b) \<le> unat (l - b)" using assms(1,2) by unat_arith
  then show ?thesis
    using assms(3) div_le_mono [of "unat (offset - b)" "unat (l - b)" "2 ^ k"]
    by (simp add: reg_index_def unat_drop_bit_div)
qed

text \<open>The three groups of registers whose writes change the tree.\<close>

lemma register_write_pll:
  assumes "0x100 \<le> offset" "offset \<le> 0x120" "length (conf_data s) = 5"
  shows "register_write (s, clks) offset val =
    rbind (set_pll_conf (s\<lparr>conf_data := (conf_data s)[reg_index 3 0x100 offset := val OR 0x20000000]\<rparr>, clks) offset val)
      (\<lambda>(s, clks). rbind (rbind (s5pc1xx_clk_reparent s clks) (s5pc1xx_clk_rate_update s)) (\<lambda>clks. Inr (s, clks)))"
proof -
  have "\<not> offset \<le> 0x020" using assms(1) by unat_arith
  moreover have "reg_index 3 0x100 offset < 5" using reg_index_less [OF assms(1,2)] by simp
  ultimately show ?thesis using assms by (simp add: register_write_def rbind_assoc)
qed

lemma register_write_src:
  assumes "0x200 \<le> offset" "offset \<le> 0x218" "length (clk_src s) = 7"
  shows "\<exists>d. length d = 7 \<and> d ! 0 AND NOT ALL_MUX_BITS_0 = 0
    \<and> (\<forall>i < 7. d ! i = (if i = reg_index 2 0x200 offset then val else clk_src s ! i)
         AND (if i = 0 then ALL_MUX_BITS_0 else if i = 5 then ALL_MUX_BITS_5 else - 1))
    \<and> register_write (s, clks) offset val =
        rbind (s5pc1xx_clk_reparent (s\<lparr>clk_src := d\<rparr>) clks) (\<lambda>clks. Inr (s\<lparr>clk_src := d\<rparr>, clks))"
proof -
  have o: "\<not> offset \<le> 0x020" "\<not> offset \<le> 0x120" using assms(1) by unat_arith+
  have i: "reg_index 2 0x200 offset < 7" using reg_index_less [OF assms(1,2)] by simp
  let ?d = "(clk_src s)[reg_index 2 0x200 offset := val]"
  let ?e = "?d[0 := ?d ! 0 AND ALL_MUX_BITS_0]"
  let ?f = "?e[5 := ?e ! 5 AND ALL_MUX_BITS_5]"
  have "register_write (s, clks) offset val =
      rbind (s5pc1xx_clk_reparent (s\<lparr>clk_src := ?f\<rparr>) clks) (\<lambda>clks. Inr (s\<lparr>clk_src := ?f\<rparr>, clks))"
    using o i assms by (simp add: register_write_def Let_def)
  moreover have "length ?f = 7" "?f ! 0 AND NOT ALL_MUX_BITS_0 = 0"
    using assms(3) by (simp_all add: and.assoc)
  moreover have "\<forall>i < 7. ?f ! i = (if i = reg_index 2 0x200 offset then val else clk_src s ! i)
         AND (if i = 0 then ALL_MUX_BITS_0 else if i = 5 then ALL_MUX_BITS_5 else - 1)"
    using assms(3) by (simp add: nth_list_update)
  ultimately show ?thesis by blast
qed

lemma register_write_div:
  assumes "0x300 \<le> offset" "offset \<le> 0x31C" "length (clk_div s) = 8"
  shows "\<exists>d. length d = 8 \<and> register_write (s, clks) offset val =
        rbind (s5pc1xx_clk_rate_update (s\<lparr>clk_div := d\<rparr>) clks) (\<lambda>clks. Inr (s\<lparr>clk_div := d\<rparr>, clks))"
proof -
  have o: "\<not> offset \<le> 0x020" "\<not> offset \<le> 0x120" "\<not> offset \<le> 0x218" "\<not> offset \<le> 0x284" using assms(1) by unat_arith+
  have i: "reg_index 2 0x300 offset < 8" using reg_index_less [OF assms(1,2)] by simp
  let ?d = "(clk_div s)[reg_index 2 0x300 offset := val]"
  let ?e = "?d[0 := ?d ! 0 AND ALL_DIV_BITS_0]"
  let ?f = "?e[5 := ?e ! 5 AND ALL_DIV_BITS_5]"
  have "register_write (s, clks) offset val =
      rbind (s5pc1xx_clk_rate_update (s\<lparr>clk_div := ?f\<rparr>) clks) (\<lambda>clks. Inr (s\<lparr>clk_div := ?f\<rparr>, clks))"
    using o i assms by (simp add: register_write_def Let_def)
  moreover have "length ?f = 8" using assms(3) by simp
  ultimately show ?thesis by blast
qed

lemma clk_write_inv:
  assumes "clk_inv (s, clks)" and "register_write (s, clks) offset val = Inr (s', clks')"
  shows "clk_inv (s', clks')"
proof -
  have len: "length (conf_data s) = 5" "length (clk_src s) = 7" "length (clk_div s) = 8"
    using assms(1) by (simp_all add: clk_inv_def)
  consider (pll) "0x100 \<le> offset" "offset \<le> 0x120" | (src) "0x200 \<le> offset" "offset \<le> 0x218"
    | (dv) "0x300 \<le> offset" "offset \<le> 0x31C"
    | (plain) "\<not> (0x100 \<le> offset \<and> offset \<le> 0x120)" "\<not> (0x200 \<le> offset \<and> offset \<le> 0x218)"
      "\<not> (0x300 \<le> offset \<and> offset \<le> 0x31C)" by blast
  then show ?thesis
  proof cases
    case pll
    let ?s = "s\<lparr>conf_data := (conf_data s)[reg_index 3 0x100 offset := val OR 0x20000000]\<rparr>"
    obtain s1 clks1 where 1: "set_pll_conf (?s, clks) offset val = Inr (s1, clks1)"
      using assms(2) register_write_pll [OF pll len(1)] by (auto elim: rbind_InrE)
    have "clk_inv (?s, clks)" using assms(1) by (simp add: clk_inv_def)
    from pll_write [OF set_pll_conf_inv [OF this 1]] 1 assms(2) show ?thesis
      by (auto simp: register_write_pll [OF pll len(1)])
  next
    case src
    obtain d where d: "length d = 7" "d ! 0 AND NOT ALL_MUX_BITS_0 = 0" "register_write (s, clks) offset val =
        rbind (s5pc1xx_clk_reparent (s\<lparr>clk_src := d\<rparr>) clks) (\<lambda>clks. Inr (s\<lparr>clk_src := d\<rparr>, clks))"
      using register_write_src [OF src len(2), of val clks] by blast
    moreover from this(3) assms(2) have "rbind (s5pc1xx_clk_reparent (s\<lparr>clk_src := d\<rparr>) clks)
        (\<lambda>clks. Inr (s\<lparr>clk_src := d\<rparr>, clks)) = Inr (s', clks')" by simp
    then have "s5pc1xx_clk_reparent (s\<lparr>clk_src := d\<rparr>) clks = Inr clks'" "s' = s\<lparr>clk_src := d\<rparr>"
      by (auto elim!: rbind_InrE)
    ultimately have d: "length d = 7" "d ! 0 AND NOT ALL_MUX_BITS_0 = 0" "s5pc1xx_clk_reparent s' clks = Inr clks'"
      "s' = s\<lparr>clk_src := d\<rparr>" by simp_all
    then have sel: "\<forall>c. clk_sel s' c < 9" "clks' = clk_parented s' clks UNIV"
      using reparent_eq [of clks s'] assms(1) by (auto simp: clk_inv_def split: if_splits)
    then show ?thesis using clk_parented_wf [of clks s'] d assms(1) by (simp add: clk_inv_def)
  next
    case dv
    obtain d where d: "length d = 8" "register_write (s, clks) offset val =
        rbind (s5pc1xx_clk_rate_update (s\<lparr>clk_div := d\<rparr>) clks) (\<lambda>clks. Inr (s\<lparr>clk_div := d\<rparr>, clks))"
      using register_write_div [OF dv len(3), of clks val] by blast
    with assms(2) have "rbind (s5pc1xx_clk_rate_update (s\<lparr>clk_div := d\<rparr>) clks)
        (\<lambda>clks. Inr (s\<lparr>clk_div := d\<rparr>, clks)) = Inr (s', clks')" by simp
    then have "s5pc1xx_clk_rate_update s' clks = Inr clks'" "s' = s\<lparr>clk_div := d\<rparr>"
      by (auto elim!: rbind_InrE)
    with d(1) show ?thesis using rates_recomputed [of s' clks] assms(1) by (auto simp: clk_inv_def)
  next
    case plain
    with assms show ?thesis
      by (auto simp: register_write_def clk_inv_def arr_set_eq_Inr elim!: rbind_InrE split: if_splits)
  qed
qed

section \<open>Initial state\<close>

definition cmu0 :: CmuStat where
  "cmu0 = \<lparr>lock_data = replicate 5 0, conf_data = replicate 5 0,
     clk_src = [0x10001111, 0, 0, 0, 0x66666666, 0x777, 0x1000000],
     src_mask = replicate 2 0, clk_div = [0x14131330, 0, 0, 0, 0, 0, 0, 0],
     clk_gate = replicate 23 0, clk_out = 0, div_stat = replicate 2 0, mux_stat = replicate 2 0\<rparr>"

lemma cmu0_inv: "clk_inv (cmu0, static_clks)"
proof -
  have "clk_sel cmu0 c < 9" for c
    by (cases c) (simp_all add: clk_sel_def clk_static_defs cmu0_def)
  then show ?thesis using static_clks_wf by (simp add: clk_inv_def cmu0_def ALL_MUX_BITS_0_def)
qed

text \<open>A write of a PLL control register with the enable bit set.\<close>

lemma pll_step:
  assumes "clk_inv (s, clks)" and "0x100 \<le> offset" "offset \<le> 0x120"
    and "\<And>sc. set_pll_conf sc offset val = set_pll pll mux val d sc"
    and "(pll, mux) \<in> {(Apll, Sclk_apll), (Mpll, Sclk_mpll), (Epll, Sclk_epll), (Vpll, Sclk_vpll)}"
    and "drop_bit 31 val AND 1 = 1" and "clk_src s ! 0 OR 2 ^ nat (mux_shift (static_clks mux)) = clk_src s ! 0"
  shows "\<exists>s' clks'. register_write (s, clks) offset val = Inr (s', clks') \<and> clk_inv (s', clks')
    \<and> clk_div s' = clk_div s \<and> clk_src s' = clk_src s
    \<and> (\<forall>c. clk_rate_ok s' clks' c \<and> parent (clks' c) = parents (static_clks c) ! clk_sel s' c
       \<and> (parent (clks' c) = None \<longrightarrow> rate (clks' c) = rate (clks c))
       \<and> div_val (clks' c) = clk_new_div s' c (if c = pll then (clks c)\<lparr>div_val := d\<rparr> else clks c)
       \<and> mult_val (clks' c) = clk_new_mult (if c = pll then (clks c)\<lparr>mult_val := drop_bit 16 val AND 0x3FF\<rparr> else clks c))"
proof -
  let ?s = "s\<lparr>conf_data := (conf_data s)[reg_index 3 0x100 offset := val OR 0x20000000]\<rparr>"
  let ?c = "clks(pll := (clks pll)\<lparr>enabled := 1, div_val := d, mult_val := drop_bit 16 val AND 0x3FF\<rparr>)"
  have len: "length (conf_data s) = 5" "length (clk_src s) = 7" using assms(1) by (simp_all add: clk_inv_def)
  have inv: "clk_inv (?s, clks)" using assms(1) by (simp add: clk_inv_def)
  have "mux \<noteq> pll" using assms(5) by auto
  moreover have "mux_shift (clks mux) = mux_shift (static_clks mux)"
    using assms(1) clk_wfD by (auto simp: clk_inv_def)
  ultimately have pll: "set_pll pll mux val d (?s, clks) = Inr (?s, ?c)"
    using assms(6,7) len by (simp add: set_pll_def Let_def s5pc1xx_clk_setrate_def)
  then have "clk_inv (?s, ?c)" using set_pll_ok [OF inv assms(5), of val d] by auto
  from pll_write [OF this] pll assms(4) show ?thesis
    by (auto simp: register_write_pll [OF assms(2,3) len(1)] rates_updated_def clk_parented_def clk_new_div_def
        clk_new_mult_def)
qed

lemma pll_confs:
  "set_pll_conf sc 0x100 0xA0C80601 = set_pll Apll Sclk_apll 0xA0C80601 6 sc"
  "set_pll_conf sc 0x108 0xA29B0C01 = set_pll Mpll Sclk_mpll 0xA29B0C01 24 sc"
  "set_pll_conf sc 0x110 0xA0600602 = set_pll Epll Sclk_epll 0xA0600602 24 sc"
  "set_pll_conf sc 0x120 0xA06C0603 = set_pll Vpll Sclk_vpll 0xA06C0603 48 sc"
  by (simp_all add: set_pll_conf_def Let_def)

text \<open>A stage of the initialisation: the registers of the initial state, with the divisors \<open>dv\<close> of the
  clocks that have no divisor register and the multipliers \<open>mv\<close>.\<close>

definition clk_stage :: "(clk_id \<Rightarrow> u32) \<Rightarrow> (clk_id \<Rightarrow> u32) \<Rightarrow> CmuStat \<Rightarrow> clk_tab \<Rightarrow> bool" where
  "clk_stage dv mv s clks \<longleftrightarrow> clk_inv (s, clks) \<and> clk_div s = clk_div cmu0 \<and> clk_src s = clk_src cmu0
    \<and> (\<forall>c. clk_rate_ok s clks c \<and> parent (clks c) = parents (static_clks c) ! clk_sel cmu0 c
       \<and> (parent (clks c) = None \<longrightarrow> rate (clks c) = rate (static_clks c))
       \<and> (\<not> div_shift (static_clks c) > NONE \<longrightarrow> div_val (clks c) = dv c \<and> dv c \<noteq> 0) \<and> mult_val (clks c) = mv c \<and> mv c \<noteq> 0)"

lemma clk_stage_pll:
  assumes "clk_stage dv mv s clks" and "0x100 \<le> offset" "offset \<le> 0x120"
    and "\<And>sc. set_pll_conf sc offset val = set_pll pll mux val d sc"
    and "(pll, mux) \<in> {(Apll, Sclk_apll), (Mpll, Sclk_mpll), (Epll, Sclk_epll), (Vpll, Sclk_vpll)}"
    and "drop_bit 31 val AND 1 = 1" and "drop_bit 16 val AND 0x3FF = k" and "d \<noteq> 0" "k \<noteq> 0"
  shows "\<exists>s' clks'. register_write (s, clks) offset val = Inr (s', clks') \<and> clk_stage (dv(pll := d)) (mv(pll := k)) s' clks'"
proof -
  have "clk_src cmu0 ! 0 OR 2 ^ nat (mux_shift (static_clks mux)) = clk_src cmu0 ! 0"
    using assms(5) by (auto simp: cmu0_def clk_static_defs)
  then obtain s' clks' where 1: "register_write (s, clks) offset val = Inr (s', clks')" "clk_inv (s', clks')"
    "clk_div s' = clk_div s" "clk_src s' = clk_src s"
    "\<forall>c. clk_rate_ok s' clks' c \<and> parent (clks' c) = parents (static_clks c) ! clk_sel s' c
       \<and> (parent (clks' c) = None \<longrightarrow> rate (clks' c) = rate (clks c))
       \<and> div_val (clks' c) = clk_new_div s' c (if c = pll then (clks c)\<lparr>div_val := d\<rparr> else clks c)
       \<and> mult_val (clks' c) = clk_new_mult (if c = pll then (clks c)\<lparr>mult_val := k\<rparr> else clks c)"
    using pll_step [OF _ assms(2-6)] assms(1,7) unfolding clk_stage_def by metis
  moreover have "clk_sel s' c = clk_sel cmu0 c" for c using 1(4) assms(1) by (simp add: clk_stage_def clk_sel_def)
  ultimately have "clk_stage (dv(pll := d)) (mv(pll := k)) s' clks'"
    using assms(1,8,9) by (auto simp: clk_stage_def clk_new_div_def clk_new_mult_def)
  with 1(1) show ?thesis by blast
qed

lemma clk_init_stage:
  "\<exists>s clks. s5pc1xx_clk_init = Inr (s, clks)
    \<and> clk_stage ((\<lambda>_. 1)(Hclk100 := 2, Apll := 6, Mpll := 24, Epll := 24, Vpll := 48))
        ((\<lambda>_. 1)(Apll := 200, Mpll := 667, Epll := 96, Vpll := 108)) s clks"
proof -
  obtain clks0 where 0: "rbind (s5pc1xx_clk_reparent cmu0 static_clks) (s5pc1xx_clk_rate_update cmu0) = Inr clks0"
    "clk_inv (cmu0, clks0)" "rates_updated cmu0 (clk_parented cmu0 static_clks UNIV) clks0"
    using pll_write [OF cmu0_inv] by blast
  have "div_val (static_clks c) = (if c = Hclk100 then 2 else 0)" "mult_val (static_clks c) = 0" for c
    by (cases c; simp add: clk_static_defs)+
  then have "clk_stage ((\<lambda>_. 1)(Hclk100 := 2)) (\<lambda>_. 1) cmu0 clks0"
    using 0(2,3) by (auto simp: clk_stage_def rates_updated_def clk_parented_def clk_new_div_def clk_new_mult_def
        hclk100_def null_clk_def)
  from clk_stage_pll [OF this _ _ pll_confs(1)] obtain s1 clks1 where
    1: "register_write (cmu0, clks0) 0x100 0xA0C80601 = Inr (s1, clks1)"
    "clk_stage ((\<lambda>_. 1)(Hclk100 := 2, Apll := 6)) ((\<lambda>_. 1)(Apll := 200)) s1 clks1" by auto
  from clk_stage_pll [OF 1(2) _ _ pll_confs(2)] obtain s2 clks2 where
    2: "register_write (s1, clks1) 0x108 0xA29B0C01 = Inr (s2, clks2)"
    "clk_stage ((\<lambda>_. 1)(Hclk100 := 2, Apll := 6, Mpll := 24)) ((\<lambda>_. 1)(Apll := 200, Mpll := 667)) s2 clks2" by auto
  from clk_stage_pll [OF 2(2) _ _ pll_confs(3)] obtain s3 clks3 where
    3: "register_write (s2, clks2) 0x110 0xA0600602 = Inr (s3, clks3)"
    "clk_stage ((\<lambda>_. 1)(Hclk100 := 2, Apll := 6, Mpll := 24, Epll := 24))
       ((\<lambda>_. 1)(Apll := 200, Mpll := 667, Epll := 96)) s3 clks3" by auto
  from clk_stage_pll [OF 3(2) _ _ pll_confs(4)] obtain s4 clks4 where
    4: "register_write (s3, clks3) 0x120 0xA06C0603 = Inr (s4, clks4)"
    "clk_stage ((\<lambda>_. 1)(Hclk100 := 2, Apll := 6, Mpll := 24, Epll := 24, Vpll := 48))
       ((\<lambda>_. 1)(Apll := 200, Mpll := 667, Epll := 96, Vpll := 108)) s4 clks4" by auto
  have "s5pc1xx_clk_init = Inr (s4, clks4)"
    using 0(1) 1(1) 2(1) 3(1) 4(1) by (simp add: s5pc1xx_clk_init_def flip: cmu0_def rbind_assoc)
  with 4(2) show ?thesis by blast
qed

lemma clk_stage_rate:
  assumes "clk_stage dv mv s clks"
  shows "rate (clks c) = (case parents (static_clks c) ! clk_sel cmu0 c of None \<Rightarrow> rate (static_clks c)
    | Some p \<Rightarrow> of_nat (unat (rate (clks p)) * unat (mv c)
        div unat (if div_shift (static_clks c) > NONE then clk_div_field cmu0 c else dv c)))"
proof -
  have "clk_div_field s c = clk_div_field cmu0 c" using assms by (simp add: clk_stage_def clk_div_field_def)
  moreover have "clk_rate_ok s clks c" "parent (clks c) = parents (static_clks c) ! clk_sel cmu0 c"
    "parent (clks c) = None \<longrightarrow> rate (clks c) = rate (static_clks c)" "mult_val (clks c) = mv c"
    "\<not> div_shift (static_clks c) > NONE \<longrightarrow> div_val (clks c) = dv c"
    using assms by (simp_all add: clk_stage_def)
  ultimately show ?thesis unfolding clk_rate_ok_def by (auto split: option.splits)
qed

lemma clk_reach_inv: "clk_reach sc \<Longrightarrow> clk_inv sc"
proof (induction rule: clk_reach.induct)
  case (clk_started sc)
  moreover obtain s clks where "s5pc1xx_clk_init = Inr (s, clks)" "clk_inv (s, clks)"
    using clk_init_stage unfolding clk_stage_def by blast
  ultimately show ?case by (metis sum.inject(2))
next
  case (clk_written sc offset val sc')
  then show ?case using clk_write_inv [of "fst sc" "snd sc" _ _ "fst sc'" "snd sc'"] by simp
qed

text \<open>The rates of all clocks, in the order of the table.\<close>

definition board_rates :: "u64 list" where
  "board_rates =
     [24000000, 27000000, 24000000, 32768, 27000000, 24000000,
      800000000, 667000000, 96000000, 60750000, 800000000, 667000000, 96000000, 60750000,
      200000000, 133400000, 66700000, 166750000, 83375000, 800000000, 200000000, 100000000, 100000000,
      24000000, 24000000, 24000000, 24000000, 24000000]"

lemma clk_init_table:
  "\<exists>s clks. s5pc1xx_clk_init = Inr (s, clks) \<and> clk_inv (s, clks) \<and> clk_src s = clk_src cmu0
     \<and> map (\<lambda>c. rate (clks c)) onchip_clks = board_rates"
proof -
  obtain s clks where init: "s5pc1xx_clk_init = Inr (s, clks)"
    "clk_stage ((\<lambda>_. 1)(Hclk100 := 2, Apll := 6, Mpll := 24, Epll := 24, Vpll := 48))
        ((\<lambda>_. 1)(Apll := 200, Mpll := 667, Epll := 96, Vpll := 108)) s clks"
    using clk_init_stage by blast
  note rate = clk_stage_rate [OF init(2)]
  note defs = clk_sel_def clk_static_defs cmu0_def clk_div_field_def
  have osc: "rate (clks Xtal_osc12m) = 24000000" "rate (clks Xtal_osc27m) = 27000000"
    "rate (clks Xtal_usb_osc48m) = 24000000" "rate (clks Xtal_rtc_osc32k) = 32768"
    by (subst rate, simp add: defs)+
  have in27: "rate (clks Sclk_hdmi27m) = 27000000" "rate (clks Fin_pll) = 24000000"
    by (subst rate, simp add: defs osc)+
  have pll: "rate (clks Apll) = 800000000" "rate (clks Mpll) = 667000000" "rate (clks Epll) = 96000000"
    "rate (clks Vpll) = 60750000"
    by (subst rate, simp add: defs in27)+
  have sclk: "rate (clks Sclk_apll) = 800000000" "rate (clks Sclk_mpll) = 667000000" "rate (clks Sclk_epll) = 96000000"
    "rate (clks Sclk_vpll) = 60750000"
    by (subst rate, simp add: defs pll)+
  have a2m: "rate (clks Sclk_a2m) = 200000000" "rate (clks Hclk133) = 133400000" "rate (clks Hclk166) = 166750000"
    "rate (clks Armclk) = 800000000"
    by (subst rate, simp add: defs sclk)+
  have bus: "rate (clks Pclk66) = 66700000" "rate (clks Pclk83) = 83375000" "rate (clks Hclk200) = 200000000"
    by (subst rate, simp add: defs a2m)+
  have low: "rate (clks Pclk100) = 100000000" "rate (clks Hclk100) = 100000000"
    by (subst rate, simp add: defs bus)+
  have dev: "rate (clks Sclk_pwm) = 24000000" "rate (clks Sclk_audio_0) = 24000000" "rate (clks Sclk_audio_1) = 24000000"
    "rate (clks Sclk_audio_2) = 24000000"
    by (subst rate, simp add: defs osc)+
  have "rate (clks Sclk_spdif) = 24000000"
    by (subst rate, simp add: defs dev)
  then show ?thesis using init(1) osc in27 pll sclk a2m bus low dev 
    by (intro exI [of _ s] exI [of _ clks]) (use init(2) in \<open>simp add: onchip_clks_def board_rates_def clk_stage_def\<close>)
qed

section \<open>Properties\<close>


text \<open>
  Property C19.  Divisors and PLLs keep the tree consistent.  In every reachable state a write of a
  divisor register, and a write of the control register of a PLL (with a shift of at least one for
  the APLL), succeeds without a division by zero, and afterwards every clock has the rate that its
  parent, its multiplier and its divisor give: the single pass over the table in its fixed order
  reaches the fixed point of the tree.
\<close>

theorem clk_rates_consistent:
  assumes "clk_reach (s, clks)"
    and "0x300 \<le> offset \<and> offset \<le> 0x31C
      \<or> (offset \<in> {0x100, 0x108, 0x110, 0x120} \<and> (offset = 0x100 \<longrightarrow> val AND 0x7 \<noteq> 0))"
  shows "\<exists>s' clks'. register_write (s, clks) offset val = Inr (s', clks') \<and> (\<forall>c. clk_rate_ok s' clks' c)"
proof -
  have inv: "clk_inv (s, clks)" using clk_reach_inv [OF assms(1)] .
  then have len: "length (conf_data s) = 5" "length (clk_div s) = 8" by (simp_all add: clk_inv_def)
  from assms(2) show ?thesis
  proof
    assume o: "0x300 \<le> offset \<and> offset \<le> 0x31C"
    then obtain d where d: "length d = 8" "register_write (s, clks) offset val =
        rbind (s5pc1xx_clk_rate_update (s\<lparr>clk_div := d\<rparr>) clks) (\<lambda>clks. Inr (s\<lparr>clk_div := d\<rparr>, clks))"
      using register_write_div [OF _ _ len(2)] by blast
    moreover have "clk_inv (s\<lparr>clk_div := d\<rparr>, clks)" using inv d(1) by (simp add: clk_inv_def)
    ultimately show ?thesis using rates_recomputed by (fastforce simp: rates_updated_def)
  next
    assume o: "offset \<in> {0x100, 0x108, 0x110, 0x120} \<and> (offset = 0x100 \<longrightarrow> val AND 0x7 \<noteq> 0)"
    let ?s = "s\<lparr>conf_data := (conf_data s)[reg_index 3 0x100 offset := val OR 0x20000000]\<rparr>"
    have "0x100 \<le> offset" "offset \<le> 0x120" using o by auto
    note wr = register_write_pll [OF this len(1)]
    have "unat (val AND 0x7) \<noteq> 0" if "val AND 0x7 \<noteq> 0" using that by (simp add: unat_eq_0)
    with o obtain pll mux d where "set_pll_conf (?s, clks) offset val = set_pll pll mux val d (?s, clks)"
      "(pll, mux) \<in> {(Apll, Sclk_apll), (Mpll, Sclk_mpll), (Epll, Sclk_epll), (Vpll, Sclk_vpll)}"
      by (auto simp: set_pll_conf_def Let_def)
    moreover have "clk_inv (?s, clks)" using inv by (simp add: clk_inv_def)
    ultimately obtain s1 clks1 where 1: "set_pll_conf (?s, clks) offset val = Inr (s1, clks1)" "clk_inv (s1, clks1)"
      using set_pll_ok by metis
    from pll_write [OF 1(2)] 1(1) show ?thesis by (auto simp: wr rates_updated_def)
  qed
qed

theorem clk_rates_consistent_witness:
  "\<exists>s clks s' clks'. s5pc1xx_clk_init = Inr (s, clks) \<and> register_write (s, clks) 0x304 0x1234 = Inr (s', clks')
     \<and> (\<forall>c. clk_rate_ok s' clks' c)"
proof -
  obtain s clks where init: "s5pc1xx_clk_init = Inr (s, clks)" using clk_init_stage by blast
  from clk_rates_consistent [OF clk_started [OF this], of "0x304" "0x1234"] init show ?thesis by auto
qed

text \<open>
  A write of a clock source register masks the reserved bits of the registers 0 and 5,
  selects the parents anew and changes no rate, although the selected parents may run at other rates;
  a selector above 8 reads past the table of parents.
\<close>

lemma clk_src_write_stale:
  assumes "clk_reach (s, clks)" and "0x200 \<le> offset" "offset \<le> 0x218"
  shows "\<exists>d. (\<forall>i < 7. d ! i = (if i = reg_index 2 0x200 offset then val else clk_src s ! i)
         AND (if i = 0 then ALL_MUX_BITS_0 else if i = 5 then ALL_MUX_BITS_5 else - 1))
    \<and> (if \<forall>c. clk_sel (s\<lparr>clk_src := d\<rparr>) c < 9
       then \<exists>clks'. register_write (s, clks) offset val = Inr (s\<lparr>clk_src := d\<rparr>, clks')
         \<and> (\<forall>c. parent (clks' c) = parents (static_clks c) ! clk_sel (s\<lparr>clk_src := d\<rparr>) c \<and> rate (clks' c) = rate (clks c))
       else register_write (s, clks) offset val = Inl ArrayBounds)"
proof -
  have inv: "clk_inv (s, clks)" using clk_reach_inv [OF assms(1)] .
  then have "length (clk_src s) = 7" by (simp add: clk_inv_def)
  from register_write_src [OF assms(2,3) this, of val clks] obtain d where
    d: "length d = 7" "\<forall>i < 7. d ! i = (if i = reg_index 2 0x200 offset then val else clk_src s ! i)
         AND (if i = 0 then ALL_MUX_BITS_0 else if i = 5 then ALL_MUX_BITS_5 else - 1)"
      "register_write (s, clks) offset val =
        rbind (s5pc1xx_clk_reparent (s\<lparr>clk_src := d\<rparr>) clks) (\<lambda>clks. Inr (s\<lparr>clk_src := d\<rparr>, clks))" by blast
  moreover have "clk_wf clks" using inv by (simp add: clk_inv_def)
  ultimately show ?thesis
    by (intro exI [of _ d]) (simp add: reparent_eq clk_parented_def)
qed

text \<open>
  The gating registers from \<^verbatim>\<open>0x45C\<close> on, among them all of \<^verbatim>\<open>CLK_GATE_IP\<close>,
  \<^verbatim>\<open>CLK_GATE_BLOCK\<close> and \<^verbatim>\<open>CLK_GATE_BUS\<close>, lie beyond the array that holds the
  gating state: their reads and writes leave its bounds, while the registers before them hold what
  was written.
\<close>

lemma clk_gate_bounds:
  assumes "clk_reach (s, clks)" and "0x400 \<le> offset" "offset \<le> 0x488"
  shows "if offset < 0x45C
    then \<exists>s'. register_write (s, clks) offset val = Inr (s', clks) \<and> register_read s' offset = Inr val
    else register_write (s, clks) offset val = Inl ArrayBounds \<and> register_read s offset = Inl ArrayBounds"
proof -
  have len: "length (clk_gate s) = 23" using clk_reach_inv [OF assms(1)] by (simp add: clk_inv_def)
  have o: "\<not> offset \<le> 0x020" "\<not> offset \<le> 0x120" "\<not> offset \<le> 0x218" "\<not> offset \<le> 0x284" "\<not> offset \<le> 0x31C"
    using assms(2) by unat_arith+
  have "reg_index 2 0x400 offset < 23 \<longleftrightarrow> offset < 0x45C"
  proof -
    have "unat (offset - 0x400) = unat offset - 0x400" using assms(2) by unat_arith
    moreover have "offset < 0x45C \<longleftrightarrow> unat offset < 0x45C" "0x400 \<le> unat offset" using assms(2) by unat_arith+
    ultimately show ?thesis by (simp add: reg_index_def unat_drop_bit_div) linarith
  qed
  with len o assms(2,3) show ?thesis
    by (auto simp: register_write_def register_read_def not_less arr_set_out arr_get_out)
qed

end
