(* ===== verification/Qemu_Timer.thy ===== *)
theory Qemu_Timer
  imports Qemu_Prelude
begin

text \<open>
  The list of active timers of \<^verbatim>\<open>vl.c\<close>.  A \<^verbatim>\<open>QEMUTimer\<close> is named by its address;
  the linked list that starts at \<^verbatim>\<open>active_timers[type]\<close> is the list of the addresses with
  their expiry times, which are signed 64-bit integers.  The callbacks of
  \<^verbatim>\<open>qemu_run_timers\<close> are an argument: they act on the state of the devices and on the list.
  The loop has no bound of its own, so the model gives it fuel; the theorems say how much is enough.
  Re-arming the host's alarm is only the condition under which the code does it.
\<close>

section \<open>Operations\<close>

type_synonym 't timer_list = "('t \<times> u64) list"

fun qemu_del_timer :: "'t \<Rightarrow> 't timer_list \<Rightarrow> 't timer_list" where
  "qemu_del_timer ts [] = []"
| "qemu_del_timer ts ((t, e) # l) = (if t = ts then l else (t, e) # qemu_del_timer ts l)"

text \<open>The loop of \<^verbatim>\<open>qemu_mod_timer\<close> that finds the place of the timer.\<close>

fun insert_timer :: "'t \<Rightarrow> u64 \<Rightarrow> 't timer_list \<Rightarrow> 't timer_list" where
  "insert_timer ts expire_time [] = [(ts, expire_time)]"
| "insert_timer ts expire_time ((t, e) # l) =
     (if sint e > sint expire_time then (ts, expire_time) # (t, e) # l
      else (t, e) # insert_timer ts expire_time l)"

definition qemu_mod_timer :: "'t \<Rightarrow> u64 \<Rightarrow> 't timer_list \<Rightarrow> 't timer_list" where
  "qemu_mod_timer ts expire_time l = insert_timer ts expire_time (qemu_del_timer ts l)"

text \<open>The alarm of the host is armed again when the timer became the head of the list.\<close>

definition qemu_mod_timer_rearms :: "'t \<Rightarrow> u64 \<Rightarrow> 't timer_list \<Rightarrow> bool" where
  "qemu_mod_timer_rearms ts expire_time l \<longleftrightarrow>
     (case qemu_del_timer ts l of [] \<Rightarrow> True | (t, e) # _ \<Rightarrow> sint e > sint expire_time)"

fun qemu_timer_pending :: "'t \<Rightarrow> 't timer_list \<Rightarrow> bool" where
  "qemu_timer_pending ts [] = False"
| "qemu_timer_pending ts ((t, e) # l) = (t = ts \<or> qemu_timer_pending ts l)"

definition qemu_timer_expired :: "'t timer_list \<Rightarrow> u64 \<Rightarrow> bool" where
  "qemu_timer_expired timer_head current_time =
     (case timer_head of [] \<Rightarrow> False | (t, e) # _ \<Rightarrow> sint e \<le> sint current_time)"

fun qemu_run_timers ::
  "nat \<Rightarrow> ('t \<Rightarrow> 'd \<times> 't timer_list \<Rightarrow> ('d \<times> 't timer_list) res) \<Rightarrow> u64
     \<Rightarrow> 'd \<times> 't timer_list \<Rightarrow> ('d \<times> 't timer_list) res" where
  "qemu_run_timers 0 cb current_time dl = Inl OutOfFuel"
| "qemu_run_timers (Suc fuel) cb current_time (d, l) =
     (case l of
        [] \<Rightarrow> Inr (d, l)
      | (ts, e) # r \<Rightarrow>
          if sint e > sint current_time then Inr (d, l)
          else rbind (cb ts (d, r)) (qemu_run_timers fuel cb current_time))"

text \<open>A timer saved by \<^verbatim>\<open>qemu_put_timer\<close> and restored by \<^verbatim>\<open>qemu_get_timer\<close>.\<close>

definition qemu_put_timer :: "'t \<Rightarrow> 't timer_list \<Rightarrow> u64" where
  "qemu_put_timer ts l = (if qemu_timer_pending ts l then the (map_of l ts) else - 1)"

definition qemu_get_timer :: "u64 \<Rightarrow> 't \<Rightarrow> 't timer_list \<Rightarrow> 't timer_list" where
  "qemu_get_timer expire_time ts l =
     (if expire_time \<noteq> - 1 then qemu_mod_timer ts expire_time l else qemu_del_timer ts l)"

section \<open>The contract of the list\<close>

text \<open>
  What the devices and the main loop rely on: the queue is a finite map from timers to expiry times,
  the first timer is one of the earliest, and taking it away is deleting it.
\<close>

locale timer_queue =
  fixes del :: "'t \<Rightarrow> 'q \<Rightarrow> 'q"
    and modify :: "'t \<Rightarrow> u64 \<Rightarrow> 'q \<Rightarrow> 'q"
    and first :: "'q \<Rightarrow> ('t \<times> u64) option"
    and expiry :: "'q \<Rightarrow> 't \<Rightarrow> u64 option"
    and invar :: "'q \<Rightarrow> bool"
  assumes finite_expiry: "finite (dom (expiry q))"
    and invar_del: "invar q \<Longrightarrow> invar (del t q)"
    and invar_modify: "invar q \<Longrightarrow> invar (modify t e q)"
    and expiry_del: "invar q \<Longrightarrow> expiry (del t q) = (expiry q)(t := None)"
    and expiry_modify: "invar q \<Longrightarrow> expiry (modify t e q) = (expiry q)(t \<mapsto> e)"
    and first_None: "first q = None \<Longrightarrow> expiry q = Map.empty"
    and first_Some: "invar q \<Longrightarrow> first q = Some (t, e) \<Longrightarrow>
      expiry q t = Some e \<and> (\<forall>t' e'. expiry q t' = Some e' \<longrightarrow> sint e \<le> sint e')"
begin

definition due :: "u64 \<Rightarrow> 'q \<Rightarrow> 't set" where
  "due now q = {t. \<exists>e. expiry q t = Some e \<and> sint e \<le> sint now}"

lemma finite_due: "finite (due now q)"
  using finite_expiry [of q] by (rule finite_subset [rotated]) (auto simp: due_def)

lemma due_single:
  "expiry q t = Some e \<Longrightarrow> sint e \<le> sint now \<Longrightarrow> \<forall>t' e'. t' \<noteq> t \<longrightarrow> expiry q t' = Some e' \<longrightarrow> sint now < sint e'
    \<Longrightarrow> due now q = {t}"
  by (force simp: due_def)

lemma due_del: "invar q \<Longrightarrow> due now (del t q) = due now q - {t}"
  by (auto simp: due_def expiry_del)

lemma due_modify_later: "invar q \<Longrightarrow> sint e > sint now \<Longrightarrow> due now (modify t e q) = due now q - {t}"
  by (auto simp: due_def expiry_modify)

lemma first_due_iff:
  assumes "invar q"
  shows "(\<exists>t e. first q = Some (t, e) \<and> sint e \<le> sint now) \<longleftrightarrow> due now q \<noteq> {}"
proof
  assume "due now q \<noteq> {}"
  then obtain t' e' where d: "expiry q t' = Some e'" "sint e' \<le> sint now" by (auto simp: due_def)
  then obtain t e where "first q = Some (t, e)" using first_None by (cases "first q") auto
  with first_Some [OF assms this] d show "\<exists>t e. first q = Some (t, e) \<and> sint e \<le> sint now" by force
qed (use first_Some [OF assms] in \<open>force simp: due_def\<close>)

end

text \<open>The main loop over such a queue.\<close>

fun queue_run ::
  "('t \<Rightarrow> 'q \<Rightarrow> 'q) \<Rightarrow> ('q \<Rightarrow> ('t \<times> u64) option) \<Rightarrow> nat \<Rightarrow> ('t \<Rightarrow> 'd \<times> 'q \<Rightarrow> ('d \<times> 'q) res) \<Rightarrow> u64
     \<Rightarrow> 'd \<times> 'q \<Rightarrow> ('d \<times> 'q) res" where
  "queue_run del first 0 cb now dq = Inl OutOfFuel"
| "queue_run del first (Suc n) cb now (d, q) =
     (case first q of
        None \<Rightarrow> Inr (d, q)
      | Some (t, e) \<Rightarrow>
          if sint e > sint now then Inr (d, q)
          else rbind (cb t (d, del t q)) (queue_run del first n cb now))"

context timer_queue
begin

lemma queue_run_idle:
  "invar q \<Longrightarrow> due now q = {} \<Longrightarrow> queue_run del first (Suc n) cb now (d, q) = Inr (d, q)"
  using first_due_iff [of q now] by (auto split: option.splits)

text \<open>
  If no callback makes another timer due, the loop needs one turn per due timer and one to see that
  none is left.
\<close>

lemma queue_run_total:
  assumes cb: "\<And>t d q. P d \<Longrightarrow> invar q \<Longrightarrow> t \<notin> due now q \<Longrightarrow>
      \<exists>d' q'. cb t (d, q) = Inr (d', q') \<and> P d' \<and> invar q' \<and> due now q' \<subseteq> due now q"
  shows "P d \<Longrightarrow> invar q \<Longrightarrow> card (due now q) < n \<Longrightarrow>
    \<exists>d' q'. queue_run del first n cb now (d, q) = Inr (d', q') \<and> P d' \<and> invar q' \<and> due now q' = {}"
proof (induction n arbitrary: d q)
  case (Suc n)
  show ?case
  proof (cases "due now q = {}")
    case True
    then show ?thesis using queue_run_idle [OF Suc.prems(2) True] Suc.prems(1,2) by (intro exI [of _ d] exI [of _ q]) simp
  next
    case False
    then obtain t e where f: "first q = Some (t, e)" "sint e \<le> sint now"
      using first_due_iff [OF Suc.prems(2)] by blast
    then have t: "t \<in> due now q" using first_Some [OF Suc.prems(2)] by (auto simp: due_def)
    have q': "invar (del t q)" "due now (del t q) = due now q - {t}"
      using Suc.prems(2) by (simp_all add: invar_del due_del)
    then obtain d1 q1 where 1: "cb t (d, del t q) = Inr (d1, q1)" "P d1" "invar q1" "due now q1 \<subseteq> due now q - {t}"
      using cb [of d "del t q" t] Suc.prems(1) by auto
    have "card (due now q1) \<le> card (due now q - {t})" using 1(4) by (simp add: card_mono finite_due)
    also have "\<dots> < n" using Suc.prems(3) card_Diff1_less [OF finite_due t] by linarith
    finally show ?thesis using Suc.IH [OF 1(2,3)] 1(1) f by auto
  qed
qed simp

end

section \<open>The list meets the contract\<close>

definition timers_ok :: "'t timer_list \<Rightarrow> bool" where
  "timers_ok l \<longleftrightarrow> distinct (map fst l) \<and> sorted (map (\<lambda>te. sint (snd te)) l)"

definition first_timer :: "'t timer_list \<Rightarrow> ('t \<times> u64) option" where
  "first_timer l = (case l of [] \<Rightarrow> None | te # _ \<Rightarrow> Some te)"

lemma first_timer_simps [simp]: "first_timer [] = None" "first_timer (te # l) = Some te"
  by (simp_all add: first_timer_def)

lemma set_del_timer: "distinct (map fst l) \<Longrightarrow> set (qemu_del_timer ts l) = {te \<in> set l. fst te \<noteq> ts}"
  by (induction ts l rule: qemu_del_timer.induct) (auto simp: image_iff)

lemma set_insert_timer: "set (insert_timer ts e l) = insert (ts, e) (set l)"
  by (induction ts e l rule: insert_timer.induct) auto

lemma distinct_del_timer: "distinct (map fst l) \<Longrightarrow> distinct (map fst (qemu_del_timer ts l))"
  by (induction ts l rule: qemu_del_timer.induct) (auto simp: set_del_timer)

lemma distinct_insert_timer:
  "distinct (map fst l) \<Longrightarrow> ts \<notin> fst ` set l \<Longrightarrow> distinct (map fst (insert_timer ts e l))"
  by (induction ts e l rule: insert_timer.induct) (auto simp: set_insert_timer)

lemma sorted_del_timer:
  "timers_ok l \<Longrightarrow> sorted (map (\<lambda>te. sint (snd te)) (qemu_del_timer ts l))"
  by (induction ts l rule: qemu_del_timer.induct) (auto simp: timers_ok_def set_del_timer)

lemma sorted_insert_timer:
  "sorted (map (\<lambda>te. sint (snd te)) l) \<Longrightarrow> sorted (map (\<lambda>te. sint (snd te)) (insert_timer ts e l))"
  by (induction ts e l rule: insert_timer.induct) (auto simp: set_insert_timer)

lemma timers_ok_del: "timers_ok l \<Longrightarrow> timers_ok (qemu_del_timer ts l)"
  using sorted_del_timer [of l ts] by (simp add: timers_ok_def distinct_del_timer)

lemma timers_ok_mod: "timers_ok l \<Longrightarrow> timers_ok (qemu_mod_timer ts e l)"
  using timers_ok_del [of l ts]
  by (auto simp: qemu_mod_timer_def timers_ok_def sorted_insert_timer set_del_timer intro!: distinct_insert_timer)

lemma map_of_del_timer: "distinct (map fst l) \<Longrightarrow> map_of (qemu_del_timer ts l) = (map_of l)(ts := None)"
  by (induction ts l rule: qemu_del_timer.induct)
     (auto simp: fun_eq_iff map_of_eq_None_iff)

lemma map_of_del: "timers_ok l \<Longrightarrow> map_of (qemu_del_timer ts l) = (map_of l)(ts := None)"
  by (simp add: timers_ok_def map_of_del_timer)

lemma map_of_insert_timer: "ts \<notin> fst ` set l \<Longrightarrow> map_of (insert_timer ts e l) = (map_of l)(ts \<mapsto> e)"
  by (induction ts e l rule: insert_timer.induct) (auto simp: fun_eq_iff)

lemma del_timer_notin: "distinct (map fst l) \<Longrightarrow> ts \<notin> fst ` set (qemu_del_timer ts l)"
  by (auto simp: set_del_timer)

lemma map_of_mod_timer: "timers_ok l \<Longrightarrow> map_of (qemu_mod_timer ts e l) = (map_of l)(ts \<mapsto> e)"
  by (simp add: qemu_mod_timer_def timers_ok_def map_of_insert_timer del_timer_notin map_of_del_timer)

interpretation vm: timer_queue qemu_del_timer qemu_mod_timer first_timer map_of timers_ok
proof (unfold_locales, goal_cases)
  case (1 q) show ?case by (rule finite_dom_map_of)
next
  case (2 q t) then show ?case by (rule timers_ok_del)
next
  case (3 q t e) then show ?case by (rule timers_ok_mod)
next
  case (4 q t) then show ?case by (simp add: timers_ok_def map_of_del_timer)
next
  case (5 q t e) then show ?case by (rule map_of_mod_timer)
next
  case (6 q) then show ?case by (simp add: first_timer_def split: list.splits)
next
  case (7 q t e) then show ?case
    by (auto simp: first_timer_def timers_ok_def split: list.splits dest!: map_of_SomeD)
qed

lemma qemu_run_timers_eq: "qemu_run_timers n cb now dl = queue_run qemu_del_timer first_timer n cb now dl"
proof (induction n arbitrary: dl)
  case (Suc n)
  have "qemu_run_timers n cb now = queue_run qemu_del_timer first_timer n cb now" using Suc by (simp add: fun_eq_iff)
  then show ?case by (cases dl) (auto split: list.splits)
qed simp

section \<open>Properties\<close>

text \<open>Calls of the devices on the list, and what they mean for the map of expiry times.\<close>

datatype 't timer_call = ModTimer 't u64 | DelTimer 't

fun do_timer_call :: "'t timer_call \<Rightarrow> 't timer_list \<Rightarrow> 't timer_list" where
  "do_timer_call (ModTimer t e) l = qemu_mod_timer t e l"
| "do_timer_call (DelTimer t) l = qemu_del_timer t l"

fun timer_call_map :: "'t timer_call \<Rightarrow> ('t \<rightharpoonup> u64) \<Rightarrow> 't \<rightharpoonup> u64" where
  "timer_call_map (ModTimer t e) m = m(t \<mapsto> e)"
| "timer_call_map (DelTimer t) m = m(t := None)"

lemma timer_calls_ok:
  "timers_ok l \<Longrightarrow> timers_ok (fold do_timer_call cs l) \<and> map_of (fold do_timer_call cs l) = fold timer_call_map cs (map_of l)"
proof (induction cs arbitrary: l)
  case (Cons c cs)
  then show ?case
    by (cases c) (simp_all add: timers_ok_mod timers_ok_del map_of_mod_timer map_of_del fun_upd_def)
qed simp

lemma pending_iff: "qemu_timer_pending ts l \<longleftrightarrow> map_of l ts \<noteq> None"
  by (induction ts l rule: qemu_timer_pending.induct) auto

lemma rearms_iff: "timers_ok l \<Longrightarrow>
  qemu_mod_timer_rearms ts e l \<longleftrightarrow> (\<forall>t e'. t \<noteq> ts \<longrightarrow> map_of l t = Some e' \<longrightarrow> sint e < sint e')"
  (is "_ \<Longrightarrow> _ \<longleftrightarrow> ?R")
proof -
  assume ok: "timers_ok l"
  define r where "r = qemu_del_timer ts l"
  have r: "timers_ok r" "map_of r = (map_of l)(ts := None)"
    using ok by (simp_all add: r_def timers_ok_del map_of_del)
  have "?R \<longleftrightarrow> (\<forall>t e'. map_of r t = Some e' \<longrightarrow> sint e < sint e')" by (simp add: r(2))
  also have "\<dots> \<longleftrightarrow> (\<forall>te \<in> set r. sint e < sint (snd te))"
    using r(1) by (force simp: timers_ok_def map_of_eq_Some_iff)
  also have "\<dots> \<longleftrightarrow> qemu_mod_timer_rearms ts e l"
    using r(1) by (force simp: qemu_mod_timer_rearms_def timers_ok_def simp flip: r_def split: list.splits)
  finally show ?thesis by simp
qed


lemma sorted_filter_due:
  assumes "timers_ok ((t, e) # l)" and "sint now < sint e"
  shows "filter (\<lambda>te. sint (snd te) \<le> sint now) ((t, e) # l) = []"
  using assms by (force simp: timers_ok_def filter_empty_conv)

text \<open>
  Property C26.  \<^verbatim>\<open>qemu_run_timers\<close> calls each due timer exactly once, in the order of the expiry
  times and each with its timer taken off the list first, and then ends: provided that the callbacks
  neither add nor remove a due timer, one turn per due timer and one to find the end are enough.
\<close>

theorem run_timers_in_order:
  assumes "timers_ok l"
    and "\<And>t d l. timers_ok l \<Longrightarrow> \<exists>d' l'. cb t (d, l) = Inr (d', l') \<and> timers_ok l'
      \<and> filter (\<lambda>te. sint (snd te) \<le> sint now) l' = filter (\<lambda>te. sint (snd te) \<le> sint now) l"
    and "length (filter (\<lambda>te. sint (snd te) \<le> sint now) l) < n"
  shows "qemu_run_timers n cb now (d, l) =
      rfold (\<lambda>t (d, l). cb t (d, qemu_del_timer t l)) (map fst (filter (\<lambda>te. sint (snd te) \<le> sint now) l)) (d, l)
    \<and> (\<exists>d' l'. qemu_run_timers n cb now (d, l) = Inr (d', l') \<and> \<not> qemu_timer_expired l' now)"
  using assms(1,3)
proof (induction n arbitrary: d l)
  case (Suc n)
  let ?due = "filter (\<lambda>te. sint (snd te) \<le> sint now)"
  show ?case
  proof (cases l)
    case Nil
    then show ?thesis by (simp add: qemu_timer_expired_def)
  next
    case (Cons te r)
    obtain t e where te: "te = (t, e)" by (cases te)
    have ok: "timers_ok r" using Suc.prems(1) Cons by (simp add: timers_ok_def)
    show ?thesis
    proof (cases "sint now < sint e")
      case True
      then show ?thesis
        using sorted_filter_due [of t e r now] Suc.prems(1) Cons te by (simp add: qemu_timer_expired_def)
    next
      case False
      then have due: "?due l = (t, e) # ?due r" using Cons te by simp
      obtain d1 l1 where 1: "cb t (d, r) = Inr (d1, l1)" "timers_ok l1" "?due l1 = ?due r"
        using assms(2) [OF ok] by blast
      have "length (?due l1) < n" using Suc.prems(2) due 1(3) by simp
      note IH = Suc.IH [OF 1(2) this, of d1]
      have "qemu_run_timers (Suc n) cb now (d, l) = qemu_run_timers n cb now (d1, l1)"
        using False Cons te 1(1) by simp
      moreover have "rfold (\<lambda>t (d, l). cb t (d, qemu_del_timer t l)) (map fst (?due l)) (d, l) =
          rfold (\<lambda>t (d, l). cb t (d, qemu_del_timer t l)) (map fst (?due l1)) (d1, l1)"
        using False 1(1,3) Cons te by simp
      ultimately show ?thesis using IH by metis
    qed
  qed
qed simp

text \<open>Three timers set in another order than they expire, with a callback that notes its call.\<close>

theorem run_timers_in_order_witness:
  "qemu_run_timers 3 (\<lambda>t (d, l). Inr (t # d, l)) 20
     ([], fold do_timer_call [ModTimer 1 30, ModTimer 2 20, ModTimer 3 10] []) = Inr ([2, 3 :: nat], [(1, 30)])"
proof -
  let ?l = "fold do_timer_call [ModTimer 1 30, ModTimer 2 20, ModTimer 3 10] [] :: nat timer_list"
  have l: "?l = [(3, 10), (2, 20), (1, 30)]" by (simp add: qemu_mod_timer_def)
  have "timers_ok ?l" unfolding l by (simp add: timers_ok_def)
  from run_timers_in_order [OF this, of "\<lambda>t (d, l). Inr (t # d, l)" 20 3 "[]"] show ?thesis
    unfolding l by simp
qed

text \<open>
  Saving and restoring a timer keeps its expiry time, whatever the state of the timer in
  the restored list; only a timer that expires at time -1 comes back stopped.
\<close>

lemma timer_save_restore:
  assumes "timers_ok l" and "timers_ok l'" and "map_of l ts \<noteq> Some (- 1)"
  shows "map_of (qemu_get_timer (qemu_put_timer ts l) ts l') = (map_of l')(ts := map_of l ts)"
proof (cases "map_of l ts")
  case None
  then show ?thesis
    using assms(2) by (simp add: qemu_put_timer_def pending_iff qemu_get_timer_def map_of_del)
next
  case (Some e)
  then show ?thesis
    using assms(2,3) by (simp add: qemu_put_timer_def pending_iff qemu_get_timer_def map_of_mod_timer)
qed

section \<open>Devices on the list\<close>

text \<open>
  The contract of a device that owns a timer: in a state that is ready for it, the callback ends
  normally and leaves the timer stopped or armed for a later time.
\<close>

text \<open>The callback of the device as the main loop runs it: the state the device ends in decides about
  its entry in the list.\<close>

definition device_callback ::
  "'t \<Rightarrow> (u64 \<Rightarrow> 's \<Rightarrow> 's res) \<Rightarrow> ('s \<Rightarrow> timer) \<Rightarrow> u64 \<Rightarrow> 't \<Rightarrow> 's \<times> 't timer_list \<Rightarrow> ('s \<times> 't timer_list) res" where
  "device_callback ts tick armed now t sl =
     (case sl of (s, l) \<Rightarrow>
       if t = ts then rbind (tick now s) (\<lambda>s.
         Inr (s, case armed s of None \<Rightarrow> qemu_del_timer ts l | Some e \<Rightarrow> qemu_mod_timer ts e l))
       else Inr (s, l))"

lemma del_timer_idem: "timers_ok l \<Longrightarrow> qemu_del_timer ts (qemu_del_timer ts l) = qemu_del_timer ts l"
proof -
  have "ts \<notin> fst ` set r \<Longrightarrow> qemu_del_timer ts r = r" for r :: "'a timer_list"
    by (induction ts r rule: qemu_del_timer.induct) auto
  then show "timers_ok l \<Longrightarrow> qemu_del_timer ts (qemu_del_timer ts l) = qemu_del_timer ts l"
    by (simp add: timers_ok_def del_timer_notin)
qed

locale timer_device =
  fixes tick :: "u64 \<Rightarrow> 's \<Rightarrow> 's res"
    and armed :: "'s \<Rightarrow> timer"
    and ready :: "u64 \<Rightarrow> 's \<Rightarrow> bool"
  assumes tick_later: "ready now s \<Longrightarrow> \<exists>s'. tick now s = Inr s' \<and> (\<forall>e. armed s' = Some e \<longrightarrow> sint now < sint e)"
begin

text \<open>A due timer is served once by a pass of the main loop, however late the pass is.\<close>

lemma served_once:
  assumes "ready now s" and "timers_ok l" and "vm.due now l = {ts}"
  shows "\<exists>s'. tick now s = Inr s'
    \<and> qemu_run_timers 2 (device_callback ts tick armed now) now (s, l) =
        Inr (s', case armed s' of None \<Rightarrow> qemu_del_timer ts l | Some e \<Rightarrow> qemu_mod_timer ts e l)"
proof -
  obtain s' where s': "tick now s = Inr s'" "\<forall>e. armed s' = Some e \<longrightarrow> sint now < sint e"
    using tick_later [OF assms(1)] by blast
  define l' where "l' = (case armed s' of None \<Rightarrow> qemu_del_timer ts l | Some e \<Rightarrow> qemu_mod_timer ts e l)"
  have del: "qemu_del_timer ts (qemu_del_timer ts l) = qemu_del_timer ts l"
    by (rule del_timer_idem [OF assms(2)])
  obtain e where f: "first_timer l = Some (ts, e)" "sint e \<le> sint now"
    using vm.first_due_iff [OF assms(2), of now] vm.first_Some [OF assms(2)] assms(3)
    by (force simp: vm.due_def)
  have ok: "timers_ok l'"
    using assms(2) by (simp add: l'_def timers_ok_del timers_ok_mod split: option.splits)
  have "vm.due now l' = {}"
    using s'(2) assms(2,3) by (simp add: l'_def vm.due_del vm.due_modify_later split: option.splits)
  then have "queue_run qemu_del_timer first_timer (Suc 0) (device_callback ts tick armed now) now (s', l') = Inr (s', l')"
    by (rule vm.queue_run_idle [OF ok])
  moreover have "device_callback ts tick armed now ts (s, qemu_del_timer ts l) = Inr (s', l')"
    using s'(1) del by (simp add: device_callback_def l'_def qemu_mod_timer_def split: option.splits)
  ultimately show ?thesis
    using f s'(1) by (simp add: qemu_run_timers_eq numeral_2_eq_2 l'_def)
qed

end

lemma sint_u64_small:
  assumes "unat (x :: u64) < 2 ^ 63"
  shows "sint x = int (unat x)"
proof -
  have "int (unat x) < int (2 ^ 63)" using assms by (simp only: of_nat_less_iff)
  then have u: "uint x < 2 ^ 63" by simp
  have "sint x = signed_take_bit 63 (uint x)" unfolding sint_uint by simp
  also have "... = uint x"
    using u by (intro signed_take_bit_int_eq_self) (auto intro: order_trans [of _ 0])
  finally show ?thesis by simp
qed

lemma sint_add_later:
  fixes now d :: u64
  assumes "unat now < 2 ^ 62" and "unat d < 2 ^ 62" and "d \<noteq> 0"
  shows "sint now < sint (now + d)"
proof -
  have s: "unat now + unat d < 2 ^ 63" using assms(1,2) by simp
  then have a: "unat (now + d) = unat now + unat d" by (simp add: unat_word_ariths)
  have "unat d \<noteq> 0" using assms(3) by (simp add: unat_eq_0)
  then have "int (unat now) < int (unat (now + d))" by (simp only: a of_nat_less_iff)
  then show ?thesis using s a by (simp only: sint_u64_small)
qed

text \<open>A count of at least one at a frequency of at most one per tick is a positive time far from the
  width of the clock.\<close>

lemma period_bounds:
  fixes c f :: u32
  assumes "0 < unat c" and "0 < unat f" and "unat f \<le> 1000000000"
  shows "unat (of_nat (unat c * 1000000000 div unat f) :: u64) = unat c * 1000000000 div unat f"
    and "0 < unat c * 1000000000 div unat f" and "unat c * 1000000000 div unat f < 2 ^ 62"
proof -
  have c: "unat c < 4294967296" using unat_u32_less [of c] by simp
  have "unat c * 1000000000 div unat f \<le> unat c * 1000000000" by (rule div_le_dividend)
  also have "\<dots> < 2 ^ 62" using c by simp
  finally show b: "unat c * 1000000000 div unat f < 2 ^ 62" .
  then show "unat (of_nat (unat c * 1000000000 div unat f) :: u64) = unat c * 1000000000 div unat f"
    by (simp add: unat_of_nat)
  have "unat f \<le> unat c * 1000000000" using assms by (simp add: order_trans [OF assms(3)])
  then show "0 < unat c * 1000000000 div unat f" using assms(2) by (simp add: div_greater_zero_iff)
qed

end
