(* ===== verification/S5pc1xx_Wdt.thy ===== *)
theory S5pc1xx_Wdt
  imports Qemu_Timer S5pc1xx_Clk "HOL-Library.Signed_Division"
begin

text \<open>
  The watchdog timer of the board, \<^verbatim>\<open>hw/s5pc1xx_wdt.c\<close>.  The virtual clock and the table of
  clocks (\<^verbatim>\<open>hw/s5pc1xx_clk.c\<close>) are arguments of the operations that read them.
  \<^verbatim>\<open>qemu_system_reset\<close> runs the reset handlers of the machine, none of which belongs to this
  device; its calls are counted.
\<close>

section \<open>State\<close>

record S5pc1xxWDTState =
  wdt_irq :: "unit irq_log"
  regs :: "u32 list"
  wdt_timer :: timer
  freq_out :: u32
  ticnto_last_tick :: u64
  system_resets :: nat

abbreviation WTCON :: nat where "WTCON \<equiv> 0x00"
abbreviation WTDAT :: nat where "WTDAT \<equiv> 0x04"
abbreviation WTCNT :: nat where "WTCNT \<equiv> 0x08"
abbreviation WTCLRINT :: nat where "WTCLRINT \<equiv> 0x0C"

definition WDT_EN :: u32 where "WDT_EN = 0x20"
definition INT_EN :: u32 where "INT_EN = 0x04"
definition RESET_EN :: u32 where "RESET_EN = 0x01"

abbreviation wtcon :: "S5pc1xxWDTState \<Rightarrow> u32" where "wtcon s \<equiv> regs s ! WTCON"
abbreviation wtdat :: "S5pc1xxWDTState \<Rightarrow> u32" where "wtdat s \<equiv> regs s ! WTDAT"

section \<open>Operations\<close>

definition s5pc1xx_wdt_tick :: "u64 \<Rightarrow> S5pc1xxWDTState \<Rightarrow> S5pc1xxWDTState res" where
  "s5pc1xx_wdt_tick now s =
     (if wtcon s AND WDT_EN \<noteq> 0 then
        let s = (if wtcon s AND INT_EN \<noteq> 0 then s\<lparr>wdt_irq := qemu_irq_raise () (wdt_irq s)\<rparr> else s);
            s = (if wtcon s AND RESET_EN \<noteq> 0 then s\<lparr>system_resets := system_resets s + 1\<rparr> else s);
            s = s\<lparr>ticnto_last_tick := now\<rparr>
        in rbind (muldiv64 (ucast (wtdat s)) get_ticks_per_sec (freq_out s)) (\<lambda>d.
             Inr (s\<lparr>wdt_timer := Some (ticnto_last_tick s + d)\<rparr>))
      else Inr (s\<lparr>ticnto_last_tick := 0, wdt_timer := None\<rparr>))"

definition s5pc1xx_wdt_update :: "clk_tab \<Rightarrow> S5pc1xxWDTState \<Rightarrow> S5pc1xxWDTState res" where
  "s5pc1xx_wdt_update clks s =
     rbind (s5pc1xx_findclk clks ''pclk_66'') (\<lambda>clk.
       let div_fac = 16 * 2 ^ unat (drop_bit 3 (wtcon s) AND 0x3);
           prescaler = uint (drop_bit 8 (wtcon s) AND 0xff);
           f = (of_int (sint (s5pc1xx_clk_getrate clks clk) sdiv (prescaler + 1) sdiv div_fac) :: u32)
       in if f = 0 then Inl (HwError ''s5pc1xx_wdt: timer update input frequency is zero'')
          else Inr (s\<lparr>freq_out := f\<rparr>))"

definition s5pc1xx_wdt_read :: "u64 \<Rightarrow> S5pc1xxWDTState \<Rightarrow> hwaddr \<Rightarrow> (u32 \<times> S5pc1xxWDTState) res" where
  "s5pc1xx_wdt_read now s offset =
     (if offset \<le> 0x08 then
        rbind (if offset = 0x08 then
                 if freq_out s \<noteq> 0 \<and> ticnto_last_tick s \<noteq> 0 \<and> wtdat s \<noteq> 0 then
                   rbind (muldiv64 (now - ticnto_last_tick s) (freq_out s) get_ticks_per_sec) (\<lambda>m.
                     Inr (s\<lparr>regs := (regs s)[WTCNT := ucast (ucast (wtdat s) - m mod ucast (wtdat s) :: u64)]\<rparr>))
                 else Inr (s\<lparr>regs := (regs s)[WTCNT := 0]\<rparr>)
               else Inr s) (\<lambda>s.
        Inr (regs s ! unat offset, s))
      else Inl (HwError ''s5pc1xx_wdt: bad read offset''))"

definition s5pc1xx_wdt_write :: "u64 \<Rightarrow> clk_tab \<Rightarrow> S5pc1xxWDTState \<Rightarrow> hwaddr \<Rightarrow> u32 \<Rightarrow> S5pc1xxWDTState res" where
  "s5pc1xx_wdt_write now clks s offset val =
     (if unat offset = WTCON then
        rbind (if val AND WDT_EN > wtcon s AND WDT_EN then
                 rbind (s5pc1xx_wdt_update clks (s\<lparr>regs := (regs s)[WTCON := val]\<rparr>)) (s5pc1xx_wdt_tick now)
               else Inr s) (\<lambda>s.
        s5pc1xx_wdt_update clks (s\<lparr>regs := (regs s)[WTCON := val]\<rparr>))
      else if unat offset = WTDAT \<or> unat offset = WTCNT then Inr (s\<lparr>regs := (regs s)[unat offset := val]\<rparr>)
      else if unat offset = WTCLRINT then Inr (s\<lparr>wdt_irq := qemu_irq_lower () (wdt_irq s)\<rparr>)
      else Inl (HwError ''s5pc1xx_wdt: bad write offset''))"

definition s5pc1xx_wdt_init :: "u64 \<Rightarrow> clk_tab \<Rightarrow> S5pc1xxWDTState res" where
  "s5pc1xx_wdt_init now clks =
     s5pc1xx_wdt_write now clks
       \<lparr>wdt_irq = [], regs = (replicate (WTCNT + 1) 0)[WTDAT := 0x8000, WTCNT := 0x8000], wdt_timer = None,
        freq_out = 0, ticnto_last_tick = 0, system_resets = 0\<rparr> 0x00 0x8001"

section \<open>The timer\<close>

text \<open>The counter frequency a control word selects from the rate of the bus clock.\<close>

definition wdt_freq :: "u64 \<Rightarrow> u32 \<Rightarrow> nat" where
  "wdt_freq r con = unat r div (unat (drop_bit 8 con AND 0xff) + 1) div (16 * 2 ^ unat (drop_bit 3 con AND 0x3))"

lemma wdt_update_eq:
  assumes "clk_wf clks" and "unat (rate (clks Pclk66)) < 2 ^ 32"
  shows "s5pc1xx_wdt_update clks s =
    (if wdt_freq (rate (clks Pclk66)) (wtcon s) = 0
     then Inl (HwError ''s5pc1xx_wdt: timer update input frequency is zero'')
     else Inr (s\<lparr>freq_out := of_nat (wdt_freq (rate (clks Pclk66)) (wtcon s))\<rparr>))"
proof -
  let ?r = "rate (clks Pclk66)" and ?p = "drop_bit 8 (wtcon s) AND 0xff" and ?k = "drop_bit 3 (wtcon s) AND 0x3"
  have "sint ?r = int (unat ?r)" using assms(2) by (intro sint_u64_small) simp
  moreover have "uint ?p + 1 = int (unat ?p + 1)" "(16 :: int) * 2 ^ unat ?k = int (16 * 2 ^ unat ?k)"
    by simp_all
  ultimately have "sint ?r sdiv (uint ?p + 1) sdiv (16 * 2 ^ unat ?k) = int (wdt_freq ?r (wtcon s))"
    by (simp only: sdiv_of_nat wdt_freq_def)
  moreover have "wdt_freq ?r (wtcon s) < 2 ^ 32"
    using assms(2) le_less_trans [OF div_le_dividend] unfolding wdt_freq_def by blast
  then have "(of_nat (wdt_freq ?r (wtcon s)) :: u32) = 0 \<longleftrightarrow> wdt_freq ?r (wtcon s) = 0"
    by (simp add: word_of_nat_eq_0_iff dvd_eq_mod_eq_0)
  ultimately show ?thesis
    using findclk_static [OF assms(1)] by (simp add: s5pc1xx_wdt_update_def findclk_names s5pc1xx_clk_getrate_def Let_def)
qed

text \<open>Ticks of the timer between two expiries.\<close>

definition wdt_period :: "S5pc1xxWDTState \<Rightarrow> u64" where
  "wdt_period s = of_nat (unat (wtdat s) * 1000000000 div unat (freq_out s))"

lemma wdt_tick_eq:
  assumes "freq_out s \<noteq> 0" and "wtcon s AND WDT_EN \<noteq> 0"
  shows "s5pc1xx_wdt_tick now s = Inr (s\<lparr>
     wdt_irq := if wtcon s AND INT_EN \<noteq> 0 then qemu_irq_raise () (wdt_irq s) else wdt_irq s,
     system_resets := if wtcon s AND RESET_EN \<noteq> 0 then system_resets s + 1 else system_resets s,
     ticnto_last_tick := now, wdt_timer := Some (now + wdt_period s)\<rparr>)"
  using assms by (simp add: s5pc1xx_wdt_tick_def Let_def muldiv64_eq get_ticks_per_sec_def wdt_period_def unat_ucast_mod
      unat_u32_less [THEN order_less_trans])

text \<open>The watchdog is ready for its callback when it counts at less than one period per tick.\<close>

definition wdt_ready :: "u64 \<Rightarrow> S5pc1xxWDTState \<Rightarrow> bool" where
  "wdt_ready now s \<longleftrightarrow> unat now < 2 ^ 62 \<and> 0 < unat (freq_out s) \<and> unat (freq_out s) \<le> 1000000000 \<and> 0 < unat (wtdat s)"

interpretation wdt_dev: timer_device s5pc1xx_wdt_tick wdt_timer wdt_ready
proof (unfold_locales, goal_cases)
  case (1 now s)
  show ?case
  proof (cases "wtcon s AND WDT_EN = 0")
    case True
    then show ?thesis by (simp add: s5pc1xx_wdt_tick_def)
  next
    case False
    note b = period_bounds [of "wtdat s" "freq_out s"]
    have "unat (wdt_period s) < 2 ^ 62" "wdt_period s \<noteq> 0" 
      using 1 b unfolding wdt_ready_def wdt_period_def by (simp_all flip: unat_eq_0)
    then have "sint now < sint (now + wdt_period s)"
      using 1 by (intro sint_add_later) (simp_all add: wdt_ready_def)
    moreover have "freq_out s \<noteq> 0" using 1 by (auto simp: wdt_ready_def)
    ultimately show ?thesis using False by (simp add: wdt_tick_eq)
  qed
qed

section \<open>Properties\<close>

text \<open>
  Starting the watchdog fires it: the write that sets the enable bit runs the callback at
  once, so that the interrupt is raised or the machine is reset immediately, a whole period before the
  time that the write also programs.
\<close>

lemma wdt_start_fires:
  assumes "clk_reach (c, clks)" and "unat (rate (clks Pclk66)) < 2 ^ 32" and "length (regs s) = 9"
    and "wtcon s AND WDT_EN = 0" and "val AND WDT_EN \<noteq> 0" and "wdt_freq (rate (clks Pclk66)) val \<noteq> 0"
  shows "\<exists>s'. s5pc1xx_wdt_write now clks s 0x00 val = Inr s' \<and> wtcon s' = val
    \<and> freq_out s' = of_nat (wdt_freq (rate (clks Pclk66)) val)
    \<and> wdt_timer s' = Some (now + of_nat (unat (wtdat s) * 1000000000 div unat (freq_out s')))
    \<and> irq_level (wdt_irq s') () = (val AND INT_EN \<noteq> 0 \<or> irq_level (wdt_irq s) ())
    \<and> system_resets s' = system_resets s + (if val AND RESET_EN \<noteq> 0 then 1 else 0)"
proof -
  have wf: "clk_wf clks" using clk_reach_inv [OF assms(1)] by (simp add: clk_inv_def)
  have "val AND WDT_EN > 0" using assms(5) by (simp add: word_neq_0_conv)
  moreover have "wdt_freq (rate (clks Pclk66)) val < 2 ^ 32"
    using assms(2) le_less_trans [OF div_le_dividend] unfolding wdt_freq_def by blast
  then have "(of_nat (wdt_freq (rate (clks Pclk66)) val) :: u32) \<noteq> 0"
    using assms(6) by (simp add: word_of_nat_eq_0_iff dvd_eq_mod_eq_0)
  ultimately show ?thesis
    using assms(3-6) by (simp add: s5pc1xx_wdt_write_def wdt_update_eq [OF wf assms(2)] wdt_tick_eq wdt_period_def)
qed

text \<open>On the board as it starts: the watchdog enabled with the reset and the interrupt.\<close>

text \<open>
  A running watchdog whose timer is due is served exactly once by a pass of the main loop
  over the active timers, however late the pass is: the machine is reset and the interrupt raised as the
  control register asks, and the timer is back in the list for the count of \<^verbatim>\<open>WTDAT\<close> at the
  selected frequency from now.
\<close>

lemma wdt_served:
  assumes "timers_ok l" and "map_of l ts = Some e" "sint e \<le> sint now"
    and "\<forall>t' e'. t' \<noteq> ts \<longrightarrow> map_of l t' = Some e' \<longrightarrow> sint now < sint e'"
    and "wtcon s AND WDT_EN \<noteq> 0" and "0 < unat (freq_out s)" "unat (freq_out s) \<le> 1000000000"
    and "0 < unat (wtdat s)" and "unat now < 2 ^ 62"
  shows "\<exists>s'. qemu_run_timers 2 (device_callback ts s5pc1xx_wdt_tick wdt_timer now) now (s, l) =
      Inr (s', qemu_mod_timer ts (now + of_nat (unat (wtdat s) * 1000000000 div unat (freq_out s))) l)
    \<and> irq_level (wdt_irq s') () = (wtcon s AND INT_EN \<noteq> 0 \<or> irq_level (wdt_irq s) ())
    \<and> system_resets s' = system_resets s + (if wtcon s AND RESET_EN \<noteq> 0 then 1 else 0)"
proof -
  have "wdt_ready now s" using assms(6-9) by (simp add: wdt_ready_def)
  moreover have "freq_out s \<noteq> 0" using assms(6) by auto
  ultimately show ?thesis
    using wdt_dev.served_once [OF _ assms(1) vm.due_single [OF assms(2-4)], of s] assms(5)
    by (simp add: wdt_tick_eq wdt_period_def)
qed

text \<open>A watchdog with the interrupt enabled, due at time 40.\<close>

definition wdt_demo :: S5pc1xxWDTState where
  "wdt_demo = \<lparr>wdt_irq = [], regs = [0x24, 0, 0, 0, 3, 0, 0, 0, 0], wdt_timer = Some 40, freq_out = 1000,
     ticnto_last_tick = 0, system_resets = 0\<rparr>"

end
