(* ===== verification/S5pc1xx_St.thy ===== *)
theory S5pc1xx_St
  imports Qemu_Timer S5pc1xx_Clk
begin

text \<open>
  The system timer of the board, \<^verbatim>\<open>hw/s5pc1xx_st.c\<close>: a tick generator that keeps its ticks on
  a fixed grid of the virtual clock, and an interrupt counter that counts the ticks.  The virtual
  clock and the table of clocks are arguments of the operations that read them.  The field
  \<^verbatim>\<open>icnto\<close> is a signed integer and is compared through \<open>sint\<close>.
\<close>

section \<open>State\<close>

record S5pc1xxSTState =
  tcfg :: u32
  tcon :: u32
  ticntb :: u32
  ticnto :: u32
  tfcntb :: u32
  icntb :: u32
  icnto :: u32
  int_cstat :: u32
  st_irq :: "unit irq_log"
  divider :: u8
  prescaler :: u8
  st_timer :: timer
  freq_out :: u32
  tick_interval :: u64
  last_tick :: u64
  next_planned_tick :: u64
  base_time :: u64

definition TICK_SWRST :: u32 where "TICK_SWRST = 0x10000"
definition TCLKB_MUX :: u32 where "TCLKB_MUX = 0x3000"
definition DIV_MUX :: u32 where "DIV_MUX = 0x700"
definition PRESCALER :: u32 where "PRESCALER = 0xFF"
definition INT_AUTO_RELOAD :: u32 where "INT_AUTO_RELOAD = 0x20"
definition INT_MAN_UPD :: u32 where "INT_MAN_UPD = 0x10"
definition INT_RUN :: u32 where "INT_RUN = 0x08"
definition TIMER_RUN :: u32 where "TIMER_RUN = 0x01"
definition TWIE :: u32 where "TWIE = 0x400"
definition IWIE :: u32 where "IWIE = 0x200"
definition TFWIE :: u32 where "TFWIE = 0x100"
definition TIWIE :: u32 where "TIWIE = 0x80"
definition ICNTEIE :: u32 where "ICNTEIE = 0x40"
definition TCON_W_STAT :: u32 where "TCON_W_STAT = 0x20"
definition ICNTB_W_STAT :: u32 where "ICNTB_W_STAT = 0x10"
definition TFCNTB_W_STAT :: u32 where "TFCNTB_W_STAT = 0x08"
definition TICNTB_W_STAT :: u32 where "TICNTB_W_STAT = 0x04"
definition INTCNT_EXP_STAT :: u32 where "INTCNT_EXP_STAT = 0x02"
definition INT_ENABLE :: u32 where "INT_ENABLE = 0x01"
definition ALL_STAT :: u32 where "ALL_STAT = 0x3E"

definition st_clks :: "string list" where
  "st_clks = [''XXTI'', ''XrtcXTI'', ''XusbXTI'', ''pclk_66'']"

section \<open>The tick\<close>

text \<open>
  \<^verbatim>\<open>s5pc1xx_st_irq\<close> and \<^verbatim>\<open>s5pc1xx_st_tick\<close> call each other.  The tick passes
  \<^verbatim>\<open>INTCNT_EXP_STAT\<close>, for which the first branch of \<^verbatim>\<open>s5pc1xx_st_irq\<close> is not taken;
  the rest of that function is \<open>st_irq_rest\<close>, so the recursion unfolds to the definitions below.
\<close>

definition st_irq_rest :: "u32 \<Rightarrow> u32 \<Rightarrow> S5pc1xxSTState \<Rightarrow> S5pc1xxSTState" where
  "st_irq_rest enab_mask stat_mask s =
     (let s = (if stat_mask = ICNTB_W_STAT \<and> tcon s AND INT_MAN_UPD \<noteq> 0 then s\<lparr>icnto := icntb s\<rparr> else s);
          s = (if int_cstat s AND INT_ENABLE \<noteq> 0 \<and> int_cstat s AND enab_mask \<noteq> 0
               then s\<lparr>st_irq := qemu_irq_raise () (st_irq s)\<rparr> else s)
      in s\<lparr>int_cstat := int_cstat s OR stat_mask\<rparr>)"

definition s5pc1xx_st_set_timer :: "u64 \<Rightarrow> S5pc1xxSTState \<Rightarrow> S5pc1xxSTState res" where
  "s5pc1xx_st_set_timer now s =
     (let last = now - base_time s in
      if tick_interval s = 0 then Inl DivZero
      else
        let s = s\<lparr>next_planned_tick := last + (tick_interval s - last mod tick_interval s)\<rparr>
        in Inr (s\<lparr>st_timer := Some (next_planned_tick s + base_time s), last_tick := last\<rparr>))"

definition s5pc1xx_st_tick :: "u64 \<Rightarrow> S5pc1xxSTState \<Rightarrow> S5pc1xxSTState res" where
  "s5pc1xx_st_tick now s =
     (if tcon s AND TIMER_RUN \<noteq> 0 then
        let s = (if tcon s AND INT_RUN \<noteq> 0 then
                   let s = (if icnto s = 0 \<and> tcon s AND INT_AUTO_RELOAD \<noteq> 0 then s\<lparr>icnto := icntb s\<rparr> else s);
                       s = s\<lparr>icnto := icnto s - 1\<rparr>
                   in if sint (icnto s) \<le> 0 then st_irq_rest ICNTEIE INTCNT_EXP_STAT (s\<lparr>icnto := 0\<rparr>) else s
                 else s)
        in s5pc1xx_st_set_timer now s
      else Inr (s\<lparr>next_planned_tick := 0, last_tick := 0, st_timer := None\<rparr>))"

definition s5pc1xx_st_irq :: "u64 \<Rightarrow> u32 \<Rightarrow> u32 \<Rightarrow> S5pc1xxSTState \<Rightarrow> S5pc1xxSTState res" where
  "s5pc1xx_st_irq now enab_mask stat_mask s =
     rbind (if stat_mask = TICNTB_W_STAT \<or> stat_mask = TFCNTB_W_STAT
            then s5pc1xx_st_tick now (s\<lparr>tcon := tcon s AND NOT TIMER_RUN\<rparr>)
            else Inr s) (\<lambda>s.
     Inr (st_irq_rest enab_mask stat_mask s))"

definition s5pc1xx_st_reset :: "u64 \<Rightarrow> S5pc1xxSTState \<Rightarrow> S5pc1xxSTState" where
  "s5pc1xx_st_reset now s =
     s\<lparr>tcfg := 0, tcon := 0, ticntb := 0, ticnto := 0, tfcntb := 0, icntb := 1, icnto := 0, int_cstat := 0,
       last_tick := 0, next_planned_tick := 0, freq_out := 0, tick_interval := 0, divider := 1, prescaler := 0,
       base_time := now, st_timer := None\<rparr>"

definition s5pc1xx_st_update :: "clk_tab \<Rightarrow> S5pc1xxSTState \<Rightarrow> S5pc1xxSTState res" where
  "s5pc1xx_st_update clks s =
     (let s = s\<lparr>divider := push_bit (unat (drop_bit 8 (tcfg s AND DIV_MUX))) 1,
                prescaler := ucast (tcfg s AND PRESCALER)\<rparr>
      in rbind (arr_get st_clks (unat (drop_bit 12 (tcfg s AND TCLKB_MUX)))) (\<lambda>nm.
         rbind (s5pc1xx_findclk clks nm) (\<lambda>clk.
           let s = s\<lparr>freq_out := of_int (sint (s5pc1xx_clk_getrate clks clk) sdiv (uint (prescaler s) + 1)
                                     sdiv uint (divider s))\<rparr>
           in rbind (muldiv64 (ucast (ticntb s)) get_ticks_per_sec (freq_out s)) (\<lambda>a.
              rbind (muldiv64 (ucast (tfcntb s)) get_ticks_per_sec (freq_out s)) (\<lambda>b.
                let s = s\<lparr>tick_interval := a + drop_bit 16 b, next_planned_tick := 0\<rparr>
                in if freq_out s = 0 then Inl (HwError ''s5pc1xx_st: timer update input frequency is zero'')
                   else Inr s)))))"

section \<open>Register access\<close>

definition st_read_ticnto :: "u64 \<Rightarrow> S5pc1xxSTState \<Rightarrow> u32 res" where
  "st_read_ticnto now s =
     (if freq_out s \<noteq> 0 \<and> last_tick s \<noteq> 0 \<and> ticntb s \<noteq> 0 \<and> next_planned_tick s \<noteq> 0 then
        let cur_clock = now - base_time s in
        if cur_clock < next_planned_tick s then
          if tick_interval s > 0xFFFFFFFF then
            let tps = get_ticks_per_sec in
            rbind (muldiv64 (next_planned_tick s - cur_clock) (ticntb s)
                     (ucast ((next_planned_tick s - last_tick s + tps div 2) div tps))) (\<lambda>m.
              Inr (ucast (m div tps)))
          else
            rbind (muldiv64 (next_planned_tick s - cur_clock) (ticntb s)
                     (ucast (next_planned_tick s - last_tick s))) (\<lambda>m. Inr (ucast m))
        else Inr 0
      else Inr 0)"

definition s5pc1xx_st_read :: "u64 \<Rightarrow> S5pc1xxSTState \<Rightarrow> hwaddr \<Rightarrow> (u32 \<times> S5pc1xxSTState) res" where
  "s5pc1xx_st_read now s offset =
     (if offset = 0x00 then Inr (tcfg s, s)
      else if offset = 0x04 then Inr (tcon s, s)
      else if offset = 0x08 then Inr (ticntb s, s)
      else if offset = 0x0C then
        rbind (st_read_ticnto now s) (\<lambda>v. Inr (v, s\<lparr>ticnto := v\<rparr>))
      else if offset = 0x10 then Inr (tfcntb s, s)
      else if offset = 0x18 then Inr (icntb s - 1, s)
      else if offset = 0x1C then Inr (icnto s, s)
      else if offset = 0x20 then Inr (int_cstat s, s)
      else Inl (HwError ''s5pc1xx_st: bad read offset''))"

definition s5pc1xx_st_write :: "u64 \<Rightarrow> clk_tab \<Rightarrow> S5pc1xxSTState \<Rightarrow> hwaddr \<Rightarrow> u32 \<Rightarrow> S5pc1xxSTState res" where
  "s5pc1xx_st_write now clks s offset val =
     (if offset = 0x00 then
        if val AND TICK_SWRST \<noteq> 0 then Inr (s5pc1xx_st_reset now s)
        else s5pc1xx_st_update clks (s\<lparr>tcfg := val\<rparr>)
      else if offset = 0x04 then
        rbind (s5pc1xx_st_irq now TWIE TCON_W_STAT s) (\<lambda>s.
        rbind (if val AND TIMER_RUN > tcon s AND TIMER_RUN
               then s5pc1xx_st_set_timer now (s\<lparr>base_time := now\<rparr>)
               else if val AND TIMER_RUN < tcon s AND TIMER_RUN then Inr (s\<lparr>st_timer := None\<rparr>)
               else Inr s) (\<lambda>s.
        Inr (s\<lparr>tcon := val\<rparr>)))
      else if offset = 0x08 then
        rbind (s5pc1xx_st_irq now TIWIE TICNTB_W_STAT s) (\<lambda>s. s5pc1xx_st_update clks (s\<lparr>ticntb := val\<rparr>))
      else if offset = 0x10 then
        rbind (s5pc1xx_st_irq now TFWIE TFCNTB_W_STAT s) (\<lambda>s. s5pc1xx_st_update clks (s\<lparr>tfcntb := val\<rparr>))
      else if offset = 0x18 then s5pc1xx_st_irq now IWIE ICNTB_W_STAT (s\<lparr>icntb := val + 1\<rparr>)
      else if offset = 0x20 then
        let s = s\<lparr>int_cstat := (int_cstat s AND ALL_STAT) OR (val AND NOT ALL_STAT)\<rparr>;
            s = s\<lparr>int_cstat := int_cstat s AND NOT (val AND ALL_STAT)\<rparr>
        in Inr (if int_cstat s AND ALL_STAT = 0 then s\<lparr>st_irq := qemu_irq_lower () (st_irq s)\<rparr> else s)
      else Inl (HwError ''s5pc1xx_st: bad write offset''))"

definition s5pc1xx_st_init :: "u64 \<Rightarrow> S5pc1xxSTState" where
  "s5pc1xx_st_init now =
     s5pc1xx_st_reset now
       \<lparr>tcfg = 0, tcon = 0, ticntb = 0, ticnto = 0, tfcntb = 0, icntb = 0, icnto = 0, int_cstat = 0, st_irq = [],
        divider = 0, prescaler = 0, st_timer = None, freq_out = 0, tick_interval = 0, last_tick = 0,
        next_planned_tick = 0, base_time = 0\<rparr>"

section \<open>The grid of ticks\<close>

text \<open>The next tick after the time \<open>x\<close> since the start.\<close>

definition next_on_grid :: "nat \<Rightarrow> nat \<Rightarrow> nat" where
  "next_on_grid x ti = (x div ti + 1) * ti"

lemma next_on_grid:
  assumes "0 < ti"
  shows "next_on_grid x ti = x + (ti - x mod ti)" "x < next_on_grid x ti" "next_on_grid x ti \<le> x + ti"
proof -
  have m: "x mod ti < ti" using assms by simp
  have "(x div ti + 1) * ti = x div ti * ti + ti" by (simp add: add_mult_distrib)
  then show eq: "next_on_grid x ti = x + (ti - x mod ti)"
    unfolding next_on_grid_def using m div_mult_mod_eq [of x ti] by linarith
  show "x < next_on_grid x ti" "next_on_grid x ti \<le> x + ti" using m by (simp_all add: eq)
qed

lemma st_set_timer_eq:
  assumes "tick_interval s \<noteq> 0" and "base_time s \<le> now" and "unat now + unat (tick_interval s) < 2 ^ 63"
  shows "s5pc1xx_st_set_timer now s = Inr (s\<lparr>
      next_planned_tick := of_nat (next_on_grid (unat (now - base_time s)) (unat (tick_interval s))),
      st_timer := Some (base_time s + of_nat (next_on_grid (unat (now - base_time s)) (unat (tick_interval s)))),
      last_tick := now - base_time s\<rparr>)"
proof -
  let ?l = "now - base_time s" and ?t = "tick_interval s"
  have t: "0 < unat ?t" using assms(1) by (simp add: unat_gt_0)
  have "unat ?l mod unat ?t \<le> unat ?t" using t by (simp add: less_imp_le)
  then have "unat (?t - ?l mod ?t) = unat ?t - unat ?l mod unat ?t"
    by (simp add: unat_sub word_le_nat_alt unat_mod)
  then have "?l + (?t - ?l mod ?t) = of_nat (next_on_grid (unat ?l) (unat ?t))"
    by (metis next_on_grid(1) [OF t] of_nat_add of_nat_unat ucast_id)
  then show ?thesis using assms(1) by (simp add: s5pc1xx_st_set_timer_def Let_def add.commute)
qed

text \<open>What a tick does to the interrupt counter.\<close>

definition st_count :: "S5pc1xxSTState \<Rightarrow> S5pc1xxSTState" where
  "st_count s = (if tcon s AND INT_RUN \<noteq> 0 then
     let c = (if icnto s = 0 \<and> tcon s AND INT_AUTO_RELOAD \<noteq> 0 then icntb s else icnto s) - 1
     in if sint c \<le> 0 then st_irq_rest ICNTEIE INTCNT_EXP_STAT (s\<lparr>icnto := 0\<rparr>) else s\<lparr>icnto := c\<rparr>
   else s)"

lemma st_irq_rest_fields [simp]:
  "tcfg (st_irq_rest e m s) = tcfg s" "tcon (st_irq_rest e m s) = tcon s" "icntb (st_irq_rest e m s) = icntb s"
  "tick_interval (st_irq_rest e m s) = tick_interval s" "base_time (st_irq_rest e m s) = base_time s"
  "st_timer (st_irq_rest e m s) = st_timer s"
  by (simp_all add: st_irq_rest_def Let_def)

lemma st_count_fields [simp]:
  "tcon (st_count s) = tcon s" "icntb (st_count s) = icntb s"
  "tick_interval (st_count s) = tick_interval s" "base_time (st_count s) = base_time s"
  by (simp_all add: st_count_def Let_def)

lemma st_tick_eq:
  "tcon s AND TIMER_RUN \<noteq> 0 \<Longrightarrow> s5pc1xx_st_tick now s = s5pc1xx_st_set_timer now (st_count s)"
  by (simp add: s5pc1xx_st_tick_def st_count_def Let_def)

definition st_ready :: "u64 \<Rightarrow> S5pc1xxSTState \<Rightarrow> bool" where
  "st_ready now s \<longleftrightarrow> tick_interval s \<noteq> 0 \<and> base_time s \<le> now \<and> unat now + unat (tick_interval s) < 2 ^ 63"

lemma st_grid_later:
  assumes "st_ready now s"
  shows "sint now < sint (base_time s + of_nat (next_on_grid (unat (now - base_time s)) (unat (tick_interval s))))"
proof -
  let ?n = "next_on_grid (unat (now - base_time s)) (unat (tick_interval s))"
  have t: "0 < unat (tick_interval s)" and bt: "unat (base_time s) \<le> unat now"
    using assms by (simp_all add: st_ready_def unat_gt_0 word_le_nat_alt)
  have l: "unat (now - base_time s) = unat now - unat (base_time s)"
    using assms by (simp add: st_ready_def unat_sub)
  have n: "unat now < unat (base_time s) + ?n" "unat (base_time s) + ?n < 2 ^ 63"
    using next_on_grid(2,3) [OF t, of "unat (now - base_time s)"] l bt assms by (auto simp: st_ready_def)
  then have "unat (base_time s + of_nat ?n) = unat (base_time s) + ?n"
    by (simp add: unat_word_ariths unat_of_nat)
  moreover have "unat now < 2 ^ 63" using assms by (simp add: st_ready_def)
  moreover have "int (unat now) < int (unat (base_time s) + ?n)" using n(1) by (simp only: of_nat_less_iff)
  ultimately show ?thesis using n(2) by (simp only: sint_u64_small)
qed

interpretation st_dev: timer_device s5pc1xx_st_tick st_timer st_ready
proof (unfold_locales, goal_cases)
  case (1 now s)
  show ?case
  proof (cases "tcon s AND TIMER_RUN = 0")
    case True
    then show ?thesis by (simp add: s5pc1xx_st_tick_def)
  next
    case False
    with 1 st_grid_later [OF 1] show ?thesis
      by (simp add: st_tick_eq st_set_timer_eq st_ready_def)
  qed
qed


section \<open>Properties\<close>

text \<open>
  Property C22.  The ticks do not drift: when the main loop serves the due timer of a running system
  timer, however late, it does so once, and the timer is back in the list for the next multiple of the
  tick interval after the present, counted from the start of the timer.
\<close>

theorem st_tick_on_grid:
  assumes "timers_ok l" and "map_of l ts = Some e" "sint e \<le> sint now"
    and "\<forall>t' e'. t' \<noteq> ts \<longrightarrow> map_of l t' = Some e' \<longrightarrow> sint now < sint e'"
    and "tcon s AND TIMER_RUN \<noteq> 0" and "tick_interval s \<noteq> 0" and "base_time s \<le> now"
    and "unat now + unat (tick_interval s) < 2 ^ 63"
  defines "n \<equiv> (unat (now - base_time s) div unat (tick_interval s) + 1) * unat (tick_interval s)"
  shows "\<exists>s'. qemu_run_timers 2 (device_callback ts s5pc1xx_st_tick st_timer now) now (s, l) =
      Inr (s', qemu_mod_timer ts (base_time s + of_nat n) l)
    \<and> next_planned_tick s' = of_nat n \<and> base_time s' = base_time s \<and> tick_interval s' = tick_interval s
    \<and> unat (now - base_time s) < n \<and> n \<le> unat (now - base_time s) + unat (tick_interval s)"
proof -
  have ready: "st_ready now s" using assms(6-8) by (simp add: st_ready_def)
  have "0 < unat (tick_interval s)" using assms(6) by (simp add: unat_gt_0)
  from next_on_grid(2,3) [OF this, of "unat (now - base_time s)"]
    st_dev.served_once [OF ready assms(1) vm.due_single [OF assms(2-4)]] assms(5-8) show ?thesis
    by (simp add: st_tick_eq st_set_timer_eq n_def next_on_grid_def)
qed

definition st_demo :: S5pc1xxSTState where
  "st_demo = (s5pc1xx_st_init 0)\<lparr>tcon := 0x29, tick_interval := 100, base_time := 10, icntb := 3, int_cstat := 0x41\<rparr>"

theorem st_tick_on_grid_witness:
  "\<exists>s'. qemu_run_timers 2 (device_callback (1 :: nat) s5pc1xx_st_tick st_timer 375) 375 (st_demo, [(1, 210)]) =
     Inr (s', [(1, 410)])"
proof -
  have "\<forall>t' e'. t' \<noteq> 1 \<longrightarrow> map_of [(1 :: nat, 210 :: u64)] t' = Some e' \<longrightarrow> sint (375 :: u64) < sint e'" by simp
  from st_tick_on_grid [OF _ _ _ this, of 210 st_demo] show ?thesis
    by (auto simp: st_demo_def timers_ok_def TIMER_RUN_def qemu_mod_timer_def)
qed

lemma st_write_tcon:
  "s5pc1xx_st_write now clks s 0x04 val =
     rbind (s5pc1xx_st_irq now TWIE TCON_W_STAT s) (\<lambda>s.
     rbind (if val AND TIMER_RUN > tcon s AND TIMER_RUN
            then s5pc1xx_st_set_timer now (s\<lparr>base_time := now\<rparr>)
            else if val AND TIMER_RUN < tcon s AND TIMER_RUN then Inr (s\<lparr>st_timer := None\<rparr>)
            else Inr s) (\<lambda>s. Inr (s\<lparr>tcon := val\<rparr>)))"
  by (simp add: s5pc1xx_st_write_def)

text \<open>
  Starting the timer in \<^verbatim>\<open>TCON\<close> takes the present as the origin of the grid and arms
  the timer one interval later; with an interval of zero, which is what a reset leaves, the
  start divides by zero.
\<close>

lemma st_start:
  assumes "tcon s AND TIMER_RUN = 0" and "val AND TIMER_RUN \<noteq> 0"
  shows "if tick_interval s = 0 then s5pc1xx_st_write now clks s 0x04 val = Inl DivZero
    else \<exists>s'. s5pc1xx_st_write now clks s 0x04 val = Inr s' \<and> tcon s' = val \<and> base_time s' = now
      \<and> st_timer s' = Some (now + tick_interval s) \<and> int_cstat s' = int_cstat s OR TCON_W_STAT"
proof -
  have "val AND TIMER_RUN > 0" using assms(2) by (simp add: word_neq_0_conv)
  moreover have "int_cstat (st_irq_rest e TCON_W_STAT s) = int_cstat s OR TCON_W_STAT" for e
    by (simp add: st_irq_rest_def Let_def)
  moreover have "TCON_W_STAT \<noteq> TICNTB_W_STAT" "TCON_W_STAT \<noteq> TFCNTB_W_STAT"
    by (simp_all add: TCON_W_STAT_def TICNTB_W_STAT_def TFCNTB_W_STAT_def)
  ultimately show ?thesis
    using assms(1) by (simp add: st_write_tcon s5pc1xx_st_irq_def s5pc1xx_st_set_timer_def add.commute)
qed

lemma sint_pred:
  fixes c :: u32
  assumes "0 < unat c" and "unat c < 2 ^ 31"
  shows "sint (c - 1) \<le> 0 \<longleftrightarrow> unat c = 1" "unat (c - 1) = unat c - 1"
proof -
  show u: "unat (c - 1) = unat c - 1" using assms(1) by (simp add: unat_minus_one unat_gt_0)
  have "unat (c - 1) < 2 ^ 31" using u assms(2) by linarith
  then have "sint (c - 1) = int (unat c - 1)" using sint_u32_small [of "c - 1"] u by metis
  then have "sint (c - 1) \<le> 0 \<longleftrightarrow> unat c - 1 = 0" by (simp only: of_nat_le_0_iff)
  then show "sint (c - 1) \<le> 0 \<longleftrightarrow> unat c = 1" using assms(1) by linarith
qed

text \<open>The calls that raise the line.\<close>

definition st_raises :: "S5pc1xxSTState \<Rightarrow> nat" where
  "st_raises s = length (filter snd (st_irq s))"

text \<open>The mode in which the counter reloads itself and its interrupt is enabled.\<close>

definition st_interval_mode :: "S5pc1xxSTState \<Rightarrow> bool" where
  "st_interval_mode s \<longleftrightarrow> tcon s AND TIMER_RUN \<noteq> 0 \<and> tcon s AND INT_RUN \<noteq> 0 \<and> tcon s AND INT_AUTO_RELOAD \<noteq> 0
     \<and> int_cstat s AND INT_ENABLE \<noteq> 0 \<and> int_cstat s AND ICNTEIE \<noteq> 0
     \<and> 0 < unat (icntb s) \<and> unat (icntb s) < 2 ^ 31 \<and> tick_interval s \<noteq> 0"

lemma st_tick_count:
  assumes "st_interval_mode s" and "unat (icnto s) < unat (icntb s)"
  obtains s' where "s5pc1xx_st_tick now s = Inr s'" "st_interval_mode s'" "icntb s' = icntb s"
    "unat (icnto s') = (if icnto s = 0 then unat (icntb s) - 1 else unat (icnto s) - 1)"
    "st_raises s' = st_raises s + (if icnto s' = 0 then 1 else 0)"
proof -
  define c where "c = (if icnto s = 0 then icntb s else icnto s)"
  have c: "0 < unat c" "unat c < 2 ^ 31"
    using assms unfolding c_def st_interval_mode_def by (auto simp: unat_gt_0 split: if_splits)
  note p = sint_pred [OF c]
  have "c - 1 = 0 \<longleftrightarrow> unat c = 1" using p(2) c(1) by (metis One_nat_def Suc_pred unat_eq_0 diff_Suc_1)
  then have count: "icnto (st_count s) = c - 1" "st_raises (st_count s) = st_raises s + (if c - 1 = 0 then 1 else 0)"
    using assms(1) p(1) by (auto simp: st_count_def st_interval_mode_def Let_def st_irq_rest_def st_raises_def c_def
      qemu_irq_raise_def qemu_set_irq_def INTCNT_EXP_STAT_def ICNTB_W_STAT_def)
  have mode: "st_interval_mode (st_count s)"
    using assms(1) unfolding st_interval_mode_def
    by (simp add: or_and_nonzero st_count_def Let_def st_irq_rest_def INTCNT_EXP_STAT_def ICNTB_W_STAT_def)
  show ?thesis
  proof (rule that)
    show "s5pc1xx_st_tick now s = Inr ((st_count s)\<lparr>
        next_planned_tick := now - base_time s + (tick_interval s - (now - base_time s) mod tick_interval s),
        st_timer := Some (now - base_time s + (tick_interval s - (now - base_time s) mod tick_interval s) + base_time s),
        last_tick := now - base_time s\<rparr>)"
      using assms(1) by (simp add: st_interval_mode_def st_tick_eq s5pc1xx_st_set_timer_def Let_def)
  qed (use mode count p(2) in \<open>auto simp: st_interval_mode_def st_raises_def c_def\<close>)
qed

text \<open>
  In interval mode the interrupt comes at every \<^verbatim>\<open>ICNTB\<close>-th tick exactly, at whatever
  times the ticks are served (the register holds the count less one).
\<close>

lemma st_interrupt_rate:
  assumes "st_interval_mode s" and "icnto s = 0"
  shows "\<exists>s'. rfold s5pc1xx_st_tick tms s = Inr s' \<and> st_raises s' = st_raises s + length tms div unat (icntb s)"
proof -
  let ?N = "unat (icntb s)"
  have N: "0 < ?N" using assms(1) by (simp add: st_interval_mode_def)
  have "\<exists>s'. rfold s5pc1xx_st_tick tms s = Inr s' \<and> st_interval_mode s' \<and> icntb s' = icntb s
    \<and> unat (icnto s') = (?N - length tms mod ?N) mod ?N \<and> st_raises s' = st_raises s + length tms div ?N"
  proof (induction tms rule: rev_induct)
    case Nil
    then show ?case using assms by simp
  next
    case (snoc now tms)
    let ?n = "length tms"
    obtain s1 where 1: "rfold s5pc1xx_st_tick tms s = Inr s1" "st_interval_mode s1" "icntb s1 = icntb s"
      "unat (icnto s1) = (?N - ?n mod ?N) mod ?N" "st_raises s1 = st_raises s + ?n div ?N"
      using snoc by blast
    have "unat (icnto s1) < unat (icntb s1)" using N 1(3,4) by simp
    then obtain s2 where 2: "s5pc1xx_st_tick now s1 = Inr s2" "st_interval_mode s2" "icntb s2 = icntb s1"
      "unat (icnto s2) = (if icnto s1 = 0 then unat (icntb s1) - 1 else unat (icnto s1) - 1)"
      "st_raises s2 = st_raises s1 + (if icnto s2 = 0 then 1 else 0)"
      using st_tick_count [OF 1(2)] by metis
    have r: "?n mod ?N < ?N" using N by simp
    have z: "icnto s1 = 0 \<longleftrightarrow> ?n mod ?N = 0"
      using 1(4) r by (cases "?n mod ?N = 0") (auto simp: unat_eq_0 [symmetric])
    have c: "unat (icnto s2) = (?N - Suc ?n mod ?N) mod ?N"
    proof (cases "?n mod ?N = 0")
      case True
      then show ?thesis using 2(4) z 1(3) N by (cases "?N = 1") (auto simp: mod_Suc)
    next
      case False
      then have "unat (icnto s2) = ?N - ?n mod ?N - 1" using 2(4) z 1(4) r by simp
      then show ?thesis using False r by (auto simp: mod_Suc)
    qed
    moreover have "icnto s2 = 0 \<longleftrightarrow> Suc ?n mod ?N = 0"
      using c N mod_less_divisor [OF N, of "Suc ?n"] by (cases "Suc ?n mod ?N = 0") (auto simp: unat_eq_0 [symmetric])
    then have "st_raises s2 = st_raises s + Suc ?n div ?N" using 2(5) 1(5) by (simp add: div_Suc)
    ultimately show ?case using 1 2 by (simp add: rfold_append)
  qed
  then show ?thesis by blast
qed

end
