(* ===== verification/S5pc1xx_Pwm.thy ===== *)
theory S5pc1xx_Pwm
  imports Qemu_Timer S5pc1xx_Clk
begin

text \<open>
  The five PWM timers of the board, \<^verbatim>\<open>hw/s5pc1xx_pwm.c\<close>.  A timer object refers back to the
  device through its field \<^verbatim>\<open>regs\<close>; the operations on one timer that use it take the device
  and the position of the timer.  The interrupt lines are numbered by the timers.  The virtual clock
  and the table of clocks are arguments of the operations that read them.
\<close>

section \<open>State\<close>

record S5pc1xxPWMTimerState =
  tag :: u8
  pwm_timer :: timer
  freq_out :: u32
  last_pwm_time :: u64
  tcntb :: u32
  tcntb_in_qemu :: u64
  tcnt :: u32
  tcnt_in_qemu :: u64
  tcmpb :: u32
  tcmp :: u32

record S5pc1xxPWMState =
  dev_tag :: u8
  tcfg0 :: u32
  tcfg1 :: u32
  tcon :: u32
  tint_cstat :: u32
  tmr :: "S5pc1xxPWMTimerState list"
  pwm_irq :: "nat irq_log"

definition S5C_TCON_RELOAD :: "u32 list" where
  "S5C_TCON_RELOAD = [0x8, 0x800, 0x8000, 0x80000, 0x400000]"

definition S5C_TCON_INVERT :: "u32 list" where
  "S5C_TCON_INVERT = [0x4, 0x400, 0x4000, 0x40000, 0]"

definition S5C_TCON_MANUALUPD :: "u32 list" where
  "S5C_TCON_MANUALUPD = [0x2, 0x200, 0x2000, 0x20000, 0x200000]"

definition S5C_TCON_START :: "u32 list" where
  "S5C_TCON_START = [0x1, 0x100, 0x1000, 0x10000, 0x100000]"

definition INT_EN :: "nat \<Rightarrow> u32" where "INT_EN t = push_bit t 1"
definition INT_STAT :: "nat \<Rightarrow> u32" where "INT_STAT t = push_bit (t + 5) 1"
definition ALL_STAT :: u32 where
  "ALL_STAT = INT_STAT 0 OR INT_STAT 1 OR INT_STAT 2 OR INT_STAT 3 OR INT_STAT 4"

definition S5C_TCNTB :: "nat list" where "S5C_TCNTB = [0x0C, 0x18, 0x24, 0x30, 0x3C]"
definition S5C_TCMPB :: "nat list" where "S5C_TCMPB = [0x10, 0x1C, 0x28, 0x34]"
definition S5C_TCNTO :: "nat list" where "S5C_TCNTO = [0x14, 0x20, 0x2C, 0x38, 0x40]"

definition GPIO_PWM_TOUT :: "nat \<Rightarrow> u32" where
  "GPIO_PWM_TOUT n = CASE_ID 1 0 (of_nat n)"

section \<open>One timer\<close>

definition s5pc1xx_pwm_convert_term :: "u64 \<Rightarrow> u32 \<Rightarrow> u32 res" where
  "s5pc1xx_pwm_convert_term term timer_freq =
     rbind (muldiv64 term timer_freq get_ticks_per_sec) (\<lambda>m. Inr (ucast m))"

definition s5pc1xx_pwm_timer_renew :: "S5pc1xxPWMTimerState \<Rightarrow> S5pc1xxPWMTimerState" where
  "s5pc1xx_pwm_timer_renew t = t\<lparr>tcmp := tcmpb t, tcnt := tcntb t, tcnt_in_qemu := tcntb_in_qemu t\<rparr>"

definition s5pc1xx_pwm_timer_start :: "u64 \<Rightarrow> S5pc1xxPWMTimerState \<Rightarrow> S5pc1xxPWMTimerState" where
  "s5pc1xx_pwm_timer_start now t = t\<lparr>last_pwm_time := now, pwm_timer := Some (now + tcnt_in_qemu t)\<rparr>"

definition s5pc1xx_pwm_timer_stop :: "S5pc1xxPWMTimerState \<Rightarrow> S5pc1xxPWMTimerState" where
  "s5pc1xx_pwm_timer_stop t = t\<lparr>pwm_timer := None\<rparr>"

definition s5pc1xx_pwm_timer_expiry :: "u64 \<Rightarrow> nat \<Rightarrow> S5pc1xxPWMState \<Rightarrow> S5pc1xxPWMState res" where
  "s5pc1xx_pwm_timer_expiry now i s =
     (let t = tmr s ! i; num = unat (tag t) in
      if tag t > 4 then Inl (HwError ''s5pc1xx_pwm_timer_expiry: wrong param'')
      else
        let s = s\<lparr>tint_cstat := tint_cstat s OR INT_STAT num\<rparr>;
            s = (if tint_cstat s AND INT_EN num \<noteq> 0 then s\<lparr>pwm_irq := qemu_irq_raise i (pwm_irq s)\<rparr> else s)
        in Inr (if tcon s AND S5C_TCON_RELOAD ! num \<noteq> 0
                then s\<lparr>tmr := (tmr s)[i := s5pc1xx_pwm_timer_start now (s5pc1xx_pwm_timer_renew t)]\<rparr>
                else s))"

definition s5pc1xx_pwm_timer_freq :: "clk_tab \<Rightarrow> S5pc1xxPWMState \<Rightarrow> nat \<Rightarrow> S5pc1xxPWMState res" where
  "s5pc1xx_pwm_timer_freq clks s i =
     (let t = tmr s ! i; mux = unat (drop_bit (unat (tag t) * 4) (tcfg1 s) AND 0xf) in
      if tag t > 4 then Inl (HwError ''s5pc1xx_pwm_timer_freq: wrong param'')
      else
        rbind (if mux = 5 then rbind (s5pc1xx_findclk clks ''sclk_pwm'') (\<lambda>clk. Inr (clk, 0, 1))
               else rbind (s5pc1xx_findclk clks ''pclk_66'') (\<lambda>clk.
                      Inr (clk,
                           if tag t \<le> 1 then ucast (tcfg0 s AND 0xFF) else ucast (drop_bit 8 (tcfg0 s) AND 0xFF),
                           push_bit mux 1))) (\<lambda>(clk, prescaler :: u8, divisor :: u8).
        if divisor = 0 then Inl DivZero
        else Inr (s\<lparr>tmr := (tmr s)[i := t\<lparr>freq_out :=
               of_int (sint (s5pc1xx_clk_getrate clks clk) sdiv (uint prescaler + 1) sdiv uint divisor)\<rparr>]\<rparr>)))"

section \<open>Register access\<close>

definition s5pc1xx_pwm_gpio_read :: "u64 \<Rightarrow> S5pc1xxPWMState \<Rightarrow> u32 \<Rightarrow> u32 res" where
  "s5pc1xx_pwm_gpio_read now s io_index =
     (if dev_tag s < 255 then Inl (HwError ''s5pc1xx_pwm_gpio_read: wrong param'')
      else
        rfold (\<lambda>i tout.
          if io_index = GPIO_PWM_TOUT i then
            rbind (s5pc1xx_pwm_convert_term (now - last_pwm_time (tmr s ! i)) (freq_out (tmr s ! i))) (\<lambda>c.
              Inr (if c < tcmp (tmr s ! i)
                   then if tcon s AND S5C_TCON_INVERT ! i \<noteq> 0 then 1 else 0
                   else if tcon s AND S5C_TCON_INVERT ! i \<noteq> 0 then 0 else 1))
          else Inr tout) [0..<4] 0)"

definition pwm_read_tcnto :: "u64 \<Rightarrow> S5pc1xxPWMState \<Rightarrow> nat \<Rightarrow> u32 res" where
  "pwm_read_tcnto now s num =
     (let t = tmr s ! num in
      if tcon s AND S5C_TCON_START ! num = 0 then Inr (tcnt t)
      else if now - last_pwm_time t > tcnt_in_qemu t then Inr 0
      else rbind (s5pc1xx_pwm_convert_term (now - last_pwm_time t) (freq_out t)) (\<lambda>c. Inr (tcnt t - c)))"

definition s5pc1xx_pwm_read :: "u64 \<Rightarrow> S5pc1xxPWMState \<Rightarrow> hwaddr \<Rightarrow> u32 res" where
  "s5pc1xx_pwm_read now s offset =
     (let off = unat offset in
      if dev_tag s < 255 then Inl (HwError ''s5pc1xx_pwm_read: wrong param'')
      else if off = 0x00 then Inr (tcfg0 s)
      else if off = 0x04 then Inr (tcfg1 s)
      else if off = 0x08 then Inr (tcon s)
      else if off = 0x44 then Inr (tint_cstat s)
      else if off \<in> set S5C_TCNTB then Inr (tcntb (tmr s ! ((off - 0x0C) div 0x0C)))
      else if off \<in> set S5C_TCMPB then Inr (tcmpb (tmr s ! ((off - 0x10) div 0x0C)))
      else if off \<in> set S5C_TCNTO then
        pwm_read_tcnto now s (if off = 0x40 then 4 else (off - 0x14) div 0x0C)
      else Inl (HwError ''s5pc1xx_pwm: bad read offset''))"

text \<open>The body of the loop over the timers that a write of \<^verbatim>\<open>TCON\<close> runs.\<close>

definition pwm_tcon_step :: "u64 \<Rightarrow> u32 \<Rightarrow> u32 \<Rightarrow> nat \<Rightarrow> S5pc1xxPWMTimerState \<Rightarrow> S5pc1xxPWMTimerState" where
  "pwm_tcon_step now old val num t =
     (let st = S5C_TCON_START ! num;
          t = (if val AND st > old AND st then s5pc1xx_pwm_timer_start now t else t);
          t = (if val AND st < old AND st then s5pc1xx_pwm_timer_stop t else t)
      in if val AND S5C_TCON_MANUALUPD ! num \<noteq> 0
         then s5pc1xx_pwm_timer_renew (s5pc1xx_pwm_timer_stop t) else t)"

definition s5pc1xx_pwm_write :: "u64 \<Rightarrow> clk_tab \<Rightarrow> S5pc1xxPWMState \<Rightarrow> hwaddr \<Rightarrow> u32 \<Rightarrow> S5pc1xxPWMState res" where
  "s5pc1xx_pwm_write now clks s offset val =
     (let off = unat offset in
      if dev_tag s < 255 then Inl (HwError ''s5pc1xx_pwm_write: wrong param'')
      else if off = 0x00 then rfold (\<lambda>num s. s5pc1xx_pwm_timer_freq clks s num) [0..<5] (s\<lparr>tcfg0 := val\<rparr>)
      else if off = 0x04 then rfold (\<lambda>num s. s5pc1xx_pwm_timer_freq clks s num) [0..<5] (s\<lparr>tcfg1 := val\<rparr>)
      else if off = 0x08 then
        let s = fold (\<lambda>num s. s\<lparr>tmr := (tmr s)[num := pwm_tcon_step now (tcon s) val num (tmr s ! num)]\<rparr>) [0..<5] s
        in Inr (s\<lparr>tcon := val\<rparr>)
      else if off = 0x44 then
        let s = fold (\<lambda>num s. if val AND INT_STAT num \<noteq> 0 then s\<lparr>pwm_irq := qemu_irq_lower num (pwm_irq s)\<rparr> else s)
                  [0..<5] s;
            s = s\<lparr>tint_cstat := (tint_cstat s AND ALL_STAT) OR (val AND NOT ALL_STAT)\<rparr>
        in Inr (s\<lparr>tint_cstat := tint_cstat s AND NOT (val AND ALL_STAT)\<rparr>)
      else if off \<in> set S5C_TCNTB then
        let num = (off - 0x0C) div 0x0C; t = (tmr s ! num)\<lparr>tcntb := val\<rparr>
        in rbind (muldiv64 (ucast val) get_ticks_per_sec (freq_out t)) (\<lambda>q.
             Inr (s\<lparr>tmr := (tmr s)[num := t\<lparr>tcntb_in_qemu := q\<rparr>]\<rparr>))
      else if off \<in> set S5C_TCMPB then
        let num = (off - 0x10) div 0x0C
        in Inr (s\<lparr>tmr := (tmr s)[num := (tmr s ! num)\<lparr>tcmpb := val\<rparr>]\<rparr>)
      else Inl (HwError ''s5pc1xx_pwm: bad write offset''))"

definition s5pc1xx_pwm_init :: "clk_tab \<Rightarrow> S5pc1xxPWMState res" where
  "s5pc1xx_pwm_init clks =
     s5pc1xx_pwm_write 0 clks
       \<lparr>dev_tag = 255, tcfg0 = 0, tcfg1 = 0, tcon = 0, tint_cstat = 0,
        tmr = map (\<lambda>i. \<lparr>tag = of_nat i, pwm_timer = None, freq_out = 0, last_pwm_time = 0, tcntb = 0,
                     tcntb_in_qemu = 0, tcnt = 0, tcnt_in_qemu = 0, tcmpb = 0, tcmp = 0\<rparr>) [0..<5],
        pwm_irq = []\<rparr> 0x00 0x101"

section \<open>The frequencies\<close>

text \<open>The form of the device: five timers that carry their number, and the tag of the device.\<close>

definition pwm_ok :: "S5pc1xxPWMState \<Rightarrow> bool" where
  "pwm_ok s \<longleftrightarrow> dev_tag s = 255 \<and> map tag (tmr s) = [0, 1, 2, 3, 4]"

lemma pwm_okD:
  assumes "pwm_ok s"
  shows "dev_tag s = 255" "length (tmr s) = 5" "i < 5 \<Longrightarrow> unat (tag (tmr s ! i)) = i"
    "i < 5 \<Longrightarrow> \<not> tag (tmr s ! i) > 4" "i < 5 \<Longrightarrow> tag (tmr s ! i) \<le> 1 \<longleftrightarrow> i \<le> 1"
proof -
  have m: "map tag (tmr s) = [0, 1, 2, 3, 4]" using assms by (simp add: pwm_ok_def)
  show len: "length (tmr s) = 5" using arg_cong [OF m, of length] by simp
  have t: "tag (tmr s ! i) = [0, 1, 2, 3, 4] ! i" if "i < 5" for i using m len that by (metis nth_map)
  show "dev_tag s = 255" using assms by (simp add: pwm_ok_def)
  assume "i < 5"
  then have "i \<in> {0, 1, 2, 3, 4}" by auto
  then show "unat (tag (tmr s ! i)) = i" "\<not> tag (tmr s ! i) > 4" "tag (tmr s ! i) \<le> 1 \<longleftrightarrow> i \<le> 1"
    by (auto simp: t word_le_nat_alt)
qed

definition pwm_mux :: "u32 \<Rightarrow> nat \<Rightarrow> nat" where
  "pwm_mux cfg i = unat (drop_bit (i * 4) cfg AND 0xf)"

definition pwm_prescaler :: "u32 \<Rightarrow> nat \<Rightarrow> nat" where
  "pwm_prescaler cfg i = unat ((if i \<le> 1 then cfg else drop_bit 8 cfg) AND 0xFF)"

definition pwm_freq :: "clk_tab \<Rightarrow> S5pc1xxPWMState \<Rightarrow> nat \<Rightarrow> nat" where
  "pwm_freq clks s i = (if pwm_mux (tcfg1 s) i = 5 then unat (rate (clks Sclk_pwm))
     else unat (rate (clks Pclk66)) div (pwm_prescaler (tcfg0 s) i + 1) div 2 ^ pwm_mux (tcfg1 s) i)"

lemma divisor_table:
  "list_all (\<lambda>n. (push_bit n (1 :: u8) = 0) = (8 \<le> n) \<and> (n < 8 \<longrightarrow> uint (push_bit n (1 :: u8)) = 2 ^ n)) [0..<16]"
  by code_simp

lemma divisor_eq:
  assumes "n < 16"
  shows "push_bit n (1 :: u8) = 0 \<longleftrightarrow> 8 \<le> n" "n < 8 \<Longrightarrow> uint (push_bit n (1 :: u8)) = 2 ^ n"
  using divisor_table assms unfolding list_all_iff by auto

lemma pwm_mux_less: "pwm_mux cfg i < 16"
  unfolding pwm_mux_def by (rule unat_and_0xf)

lemma uint_prescaler: "uint (ucast (w AND 0xFF) :: u8) = int (unat (w AND 0xFF :: u32))"
proof -
  have "w AND 0xFF = take_bit 8 w" by (simp add: take_bit_eq_mask mask_numeral)
  then have "unat (w AND 0xFF) < 256" using take_bit_nat_less_exp [of 8 "unat w"] by (simp add: unsigned_take_bit_eq)
  then have "unat (ucast (w AND 0xFF) :: u8) = unat (w AND 0xFF)" by (simp add: unat_ucast_mod)
  then show ?thesis by (metis uint_nat)
qed

lemma timer_freq_eq:
  assumes "clk_wf clks" and "unat (rate (clks Pclk66)) < 2 ^ 32" "unat (rate (clks Sclk_pwm)) < 2 ^ 32"
    and "pwm_ok s" and "i < 5"
  shows "s5pc1xx_pwm_timer_freq clks s i = (if 8 \<le> pwm_mux (tcfg1 s) i then Inl DivZero
     else Inr (s\<lparr>tmr := (tmr s)[i := (tmr s ! i)\<lparr>freq_out := of_nat (pwm_freq clks s i)\<rparr>]\<rparr>))"
proof -
  note ok = pwm_okD [OF assms(4)]
  let ?m = "pwm_mux (tcfg1 s) i" and ?p = "pwm_prescaler (tcfg0 s) i"
  have find: "s5pc1xx_findclk clks ''pclk_66'' = Inr Pclk66" "s5pc1xx_findclk clks ''sclk_pwm'' = Inr Sclk_pwm"
    using findclk_static [OF assms(1)] findclk_names by simp_all
  have sr: "sint (rate (clks Pclk66)) = int (unat (rate (clks Pclk66)))"
    "sint (rate (clks Sclk_pwm)) = int (unat (rate (clks Sclk_pwm)))"
    using assms(2,3) by (intro sint_u64_small; simp)+
  have d: "push_bit ?m (1 :: u8) = 0 \<longleftrightarrow> 8 \<le> ?m" "?m < 8 \<Longrightarrow> uint (push_bit ?m (1 :: u8)) = 2 ^ ?m"
    using divisor_eq [OF pwm_mux_less] by blast+
  have mux: "unat (drop_bit (unat (tag (tmr s ! i)) * 4) (tcfg1 s) AND 0xf) = ?m"
    by (simp add: pwm_mux_def ok(3) [OF assms(5)])
  have pre: "uint (if tag (tmr s ! i) \<le> 1 then ucast (tcfg0 s AND 0xFF) else ucast (drop_bit 8 (tcfg0 s) AND 0xFF) :: u8) + 1
      = int (?p + 1)"
    unfolding ok(5) [OF assms(5)] pwm_prescaler_def by (simp add: uint_prescaler)
  have q: "int (unat (rate (clks Pclk66))) sdiv int (?p + 1) sdiv 2 ^ ?m =
      int (unat (rate (clks Pclk66)) div (?p + 1) div 2 ^ ?m)"
    using sdiv_of_nat [of _ "2 ^ ?m"] by (simp only: sdiv_of_nat of_nat_power of_nat_numeral)
  show ?thesis
  proof (cases "?m = 5")
    case True
    then show ?thesis
      using sdiv_of_nat [of _ 1] ok(4) [OF assms(5)]
      by (simp add: s5pc1xx_pwm_timer_freq_def Let_def mux find s5pc1xx_clk_getrate_def sr pwm_freq_def)
  next
    case False
    have step: "s5pc1xx_pwm_timer_freq clks s i = (if push_bit ?m (1 :: u8) = 0 then Inl DivZero
        else Inr (s\<lparr>tmr := (tmr s)[i := (tmr s ! i)\<lparr>freq_out :=
          of_int (int (unat (rate (clks Pclk66))) sdiv int (?p + 1) sdiv uint (push_bit ?m (1 :: u8)))\<rparr>]\<rparr>))"
      unfolding s5pc1xx_pwm_timer_freq_def Let_def mux using False ok(4) [OF assms(5)]
      by (simp only: find s5pc1xx_clk_getrate_def sr if_False if_True rbind_Inr split_conv pre)
    show ?thesis
    proof (cases "?m < 8")
      case True
      then show ?thesis using False d(1)
        by (simp only: step d(2) q of_int_of_nat_eq pwm_freq_def if_False not_le refl)
    qed (simp add: step d(1))
  qed
qed

lemma timer_freq_loop:
  assumes "clk_wf clks" and "unat (rate (clks Pclk66)) < 2 ^ 32" "unat (rate (clks Sclk_pwm)) < 2 ^ 32"
    and "pwm_ok s" and "n \<le> 5"
  shows "rfold (\<lambda>num s. s5pc1xx_pwm_timer_freq clks s num) [0..<n] s =
    (if \<exists>i < n. 8 \<le> pwm_mux (tcfg1 s) i then Inl DivZero
     else Inr (s\<lparr>tmr := map (\<lambda>i. if i < n then (tmr s ! i)\<lparr>freq_out := of_nat (pwm_freq clks s i)\<rparr> else tmr s ! i) [0..<5]\<rparr>))"
  using assms(5)
proof (induction n)
  case 0
  have "map ((!) (tmr s)) [0..<5] = tmr s" using pwm_okD(2) [OF assms(4)] map_nth [of "tmr s"] by simp
  then show ?case by simp
next
  case (Suc n)
  let ?t = "map (\<lambda>i. if i < n then (tmr s ! i)\<lparr>freq_out := of_nat (pwm_freq clks s i)\<rparr> else tmr s ! i) [0..<5]"
  show ?case
  proof (cases "\<exists>i < n. 8 \<le> pwm_mux (tcfg1 s) i")
    case True
    then show ?thesis using Suc by (auto simp: rfold_append less_Suc_eq)
  next
    case False
    have "tag (?t ! i) = tag (tmr s ! i)" if "i < 5" for i using that by simp
    then have "map tag ?t = map tag (tmr s)" using pwm_okD(2) [OF assms(4)] by (intro nth_equalityI) auto
    then have "pwm_ok (s\<lparr>tmr := ?t\<rparr>)" using assms(4) by (simp add: pwm_ok_def)
    from timer_freq_eq [OF assms(1-3) this, of n] Suc.prems
    have "s5pc1xx_pwm_timer_freq clks (s\<lparr>tmr := ?t\<rparr>) n = (if 8 \<le> pwm_mux (tcfg1 s) n then Inl DivZero
        else Inr (s\<lparr>tmr := ?t[n := (?t ! n)\<lparr>freq_out := of_nat (pwm_freq clks s n)\<rparr>]\<rparr>))"
      by (simp add: pwm_freq_def)
    moreover have "?t[n := (?t ! n)\<lparr>freq_out := of_nat (pwm_freq clks s n)\<rparr>] =
        map (\<lambda>i. if i < Suc n then (tmr s ! i)\<lparr>freq_out := of_nat (pwm_freq clks s i)\<rparr> else tmr s ! i) [0..<5]"
      using Suc.prems by (intro nth_equalityI) (auto simp: nth_list_update less_Suc_eq)
    ultimately show ?thesis using Suc False by (auto simp: rfold_append less_Suc_eq)
  qed
qed

section \<open>The callback\<close>

text \<open>The main loop takes the timer off its list before it calls the device.\<close>

definition pwm_disarm :: "nat \<Rightarrow> S5pc1xxPWMState \<Rightarrow> S5pc1xxPWMState" where
  "pwm_disarm i s = s\<lparr>tmr := (tmr s)[i := s5pc1xx_pwm_timer_stop (tmr s ! i)]\<rparr>"

lemma pwm_disarm_ok: "pwm_ok s \<Longrightarrow> i < 5 \<Longrightarrow> pwm_ok (pwm_disarm i s)"
proof -
  assume "pwm_ok s" "i < 5"
  moreover from this have "map tag ((tmr s)[i := s5pc1xx_pwm_timer_stop (tmr s ! i)]) = map tag (tmr s)"
    using pwm_okD(2) by (intro nth_equalityI) (auto simp: nth_list_update s5pc1xx_pwm_timer_stop_def)
  ultimately show ?thesis by (simp add: pwm_ok_def pwm_disarm_def)
qed

lemma pwm_expiry_eq:
  assumes "pwm_ok s" and "i < 5"
  shows "\<exists>s'. s5pc1xx_pwm_timer_expiry now i (pwm_disarm i s) = Inr s'
    \<and> tint_cstat s' = tint_cstat s OR INT_STAT i
    \<and> pwm_irq s' = (if (tint_cstat s OR INT_STAT i) AND INT_EN i \<noteq> 0 then qemu_irq_raise i (pwm_irq s) else pwm_irq s)
    \<and> pwm_timer (tmr s' ! i) = (if tcon s AND S5C_TCON_RELOAD ! i \<noteq> 0 then Some (now + tcntb_in_qemu (tmr s ! i)) else None)
    \<and> tcnt (tmr s' ! i) = (if tcon s AND S5C_TCON_RELOAD ! i \<noteq> 0 then tcntb (tmr s ! i) else tcnt (tmr s ! i))"
proof -
  let ?t = "s5pc1xx_pwm_timer_stop (tmr s ! i)"
  have len: "length (tmr s) = 5" using pwm_okD(2) [OF assms(1)] .
  then have t: "tmr (pwm_disarm i s) ! i = ?t" using assms(2) by (simp add: pwm_disarm_def)
  note tg = pwm_okD(3,4) [OF pwm_disarm_ok [OF assms] assms(2), unfolded t]
  show ?thesis
    unfolding s5pc1xx_pwm_timer_expiry_def Let_def t tg(1) using tg(2) len assms(2)
    by (simp add: pwm_disarm_def s5pc1xx_pwm_timer_start_def s5pc1xx_pwm_timer_renew_def s5pc1xx_pwm_timer_stop_def)
qed

definition pwm_ready :: "nat \<Rightarrow> u64 \<Rightarrow> S5pc1xxPWMState \<Rightarrow> bool" where
  "pwm_ready i now s \<longleftrightarrow> i < 5 \<and> pwm_ok s \<and> unat now < 2 ^ 62 \<and> 0 < unat (tcntb_in_qemu (tmr s ! i))
     \<and> unat (tcntb_in_qemu (tmr s ! i)) < 2 ^ 62"

interpretation pwm_dev: timer_device "\<lambda>now s. s5pc1xx_pwm_timer_expiry now i (pwm_disarm i s)"
  "\<lambda>s. pwm_timer (tmr s ! i)" "pwm_ready i" for i
proof (unfold_locales, goal_cases)
  case (1 now s)
  then have "sint now < sint (now + tcntb_in_qemu (tmr s ! i))"
    by (intro sint_add_later) (auto simp: pwm_ready_def)
  moreover obtain s' where "s5pc1xx_pwm_timer_expiry now i (pwm_disarm i s) = Inr s'"
    "pwm_timer (tmr s' ! i) = (if tcon s AND S5C_TCON_RELOAD ! i \<noteq> 0 then Some (now + tcntb_in_qemu (tmr s ! i)) else None)"
    using pwm_expiry_eq [of s i now] 1 unfolding pwm_ready_def by blast
  ultimately show ?case by (auto split: if_splits)
qed

section \<open>Properties\<close>

text \<open>
  A write of \<^verbatim>\<open>TCFG1\<close> sets the exact frequency of all five timers, from the
  special clock for the selection 5 and from the bus clock divided by the prescaler and the power of two
  otherwise; but a selection of 8 or more in any of the five fields divides by zero, because the
  divisor is kept in eight bits.
\<close>

lemma pwm_divider_write:
  assumes "clk_reach (c, clks)" and "unat (rate (clks Pclk66)) < 2 ^ 32" "unat (rate (clks Sclk_pwm)) < 2 ^ 32"
    and "pwm_ok s"
  shows "if \<exists>i < 5. 8 \<le> pwm_mux val i then s5pc1xx_pwm_write now clks s 0x04 val = Inl DivZero
    else \<exists>s'. s5pc1xx_pwm_write now clks s 0x04 val = Inr s' \<and> tcfg1 s' = val \<and>
      (\<forall>i < 5. unat (freq_out (tmr s' ! i)) =
        (if pwm_mux val i = 5 then unat (rate (clks Sclk_pwm))
         else unat (rate (clks Pclk66)) div (pwm_prescaler (tcfg0 s) i + 1) div 2 ^ pwm_mux val i))"
proof -
  have wf: "clk_wf clks" using clk_reach_inv [OF assms(1)] by (simp add: clk_inv_def)
  have ok: "pwm_ok (s\<lparr>tcfg1 := val\<rparr>)" using assms(4) by (simp add: pwm_ok_def)
  have "unat (of_nat (pwm_freq clks (s\<lparr>tcfg1 := val\<rparr>) i) :: u32) = pwm_freq clks (s\<lparr>tcfg1 := val\<rparr>) i" for i
  proof -
    have "unat (rate (clks Pclk66)) div a div b < 2 ^ 32" for a b
      using assms(2) by (intro le_less_trans [OF div_le_dividend] le_less_trans [OF div_le_dividend [of "unat (rate (clks Pclk66))"]])
    then have "pwm_freq clks (s\<lparr>tcfg1 := val\<rparr>) i < 2 ^ 32" using assms(3) by (simp add: pwm_freq_def)
    then show ?thesis by (simp add: unat_of_nat)
  qed
  moreover define ts where "ts = map (\<lambda>i. if i < 5 then (tmr s ! i)\<lparr>freq_out := of_nat (pwm_freq clks (s\<lparr>tcfg1 := val\<rparr>) i)\<rparr>
      else tmr s ! i) [0..<5]"
  ultimately have freq: "unat (freq_out (ts ! i)) = pwm_freq clks (s\<lparr>tcfg1 := val\<rparr>) i" if "i < 5" for i
    using that by simp
  have "s5pc1xx_pwm_write now clks s 0x04 val =
      rfold (\<lambda>num s. s5pc1xx_pwm_timer_freq clks s num) [0..<5] (s\<lparr>tcfg1 := val\<rparr>)"
    using pwm_okD(1) [OF assms(4)] by (simp add: s5pc1xx_pwm_write_def)
  also have "\<dots> = (if \<exists>i < 5. 8 \<le> pwm_mux val i then Inl DivZero else Inr (s\<lparr>tcfg1 := val, tmr := ts\<rparr>))"
    unfolding timer_freq_loop [OF wf assms(2,3) ok order_refl] ts_def by simp
  finally show ?thesis using freq by (simp add: pwm_freq_def)
qed

definition pwm_demo :: S5pc1xxPWMState where
  "pwm_demo = \<lparr>dev_tag = 255, tcfg0 = 0, tcfg1 = 0, tcon = 0x09, tint_cstat = 0x01,
     tmr = map (\<lambda>i. \<lparr>tag = i, pwm_timer = None, freq_out = 1000, last_pwm_time = 100, tcntb = 5,
                  tcntb_in_qemu = 5000000, tcnt = 5, tcnt_in_qemu = 5000000, tcmpb = 0, tcmp = 0\<rparr>) [0, 1, 2, 3, 4],
     pwm_irq = []\<rparr>"

lemma pwm_demo_ok: "pwm_ok pwm_demo"
  by (simp add: pwm_ok_def pwm_demo_def)



text \<open>
  A due PWM timer is served once by a pass of the main loop: its status bit is set, its
  line raised when its interrupt is enabled, and with auto reload it is back in the list for the period
  of its count buffer from now and counts from the buffer; without auto reload it leaves the list.
\<close>

lemma pwm_served:
  assumes "timers_ok l" and "map_of l ts = Some e" "sint e \<le> sint now"
    and "\<forall>t' e'. t' \<noteq> ts \<longrightarrow> map_of l t' = Some e' \<longrightarrow> sint now < sint e'"
    and "pwm_ok s" and "i < 5" and "unat now < 2 ^ 62"
    and "0 < unat (tcntb_in_qemu (tmr s ! i))" "unat (tcntb_in_qemu (tmr s ! i)) < 2 ^ 62"
  shows "\<exists>s'. qemu_run_timers 2 (device_callback ts (\<lambda>now s. s5pc1xx_pwm_timer_expiry now i (pwm_disarm i s))
        (\<lambda>s. pwm_timer (tmr s ! i)) now) now (s, l) =
      Inr (s', if tcon s AND S5C_TCON_RELOAD ! i \<noteq> 0 then qemu_mod_timer ts (now + tcntb_in_qemu (tmr s ! i)) l
               else qemu_del_timer ts l)
    \<and> tint_cstat s' = tint_cstat s OR INT_STAT i
    \<and> (tint_cstat s AND INT_EN i \<noteq> 0 \<longrightarrow> irq_level (pwm_irq s') i)
    \<and> (tcon s AND S5C_TCON_RELOAD ! i \<noteq> 0 \<longrightarrow> tcnt (tmr s' ! i) = tcntb (tmr s ! i))"
proof -
  have "pwm_ready i now s" using assms(5-9) by (simp add: pwm_ready_def)
  from pwm_dev.served_once [OF this assms(1) vm.due_single [OF assms(2-4)]]
  obtain s' where s': "s5pc1xx_pwm_timer_expiry now i (pwm_disarm i s) = Inr s'"
    "qemu_run_timers 2 (device_callback ts (\<lambda>now s. s5pc1xx_pwm_timer_expiry now i (pwm_disarm i s))
        (\<lambda>s. pwm_timer (tmr s ! i)) now) now (s, l) =
      Inr (s', case pwm_timer (tmr s' ! i) of None \<Rightarrow> qemu_del_timer ts l | Some e \<Rightarrow> qemu_mod_timer ts e l)" by blast
  with or_and_nonzero [of "tint_cstat s" "INT_EN i"] pwm_expiry_eq [OF assms(5,6), of now] show ?thesis by (auto split: if_splits)
qed

end
