(* ===== verification/S5pc1xx_Board.thy ===== *)
theory S5pc1xx_Board
  imports Pl192
begin

text \<open>
  The interrupt wiring of the board (\<^verbatim>\<open>hw/s5pc1xx.c\<close>): the numbering of the inputs of the
  four interrupt controllers, the multiplexers that join the lines of each DMA controller to one
  input, and the composition of both.  A device is seen as the sequence of calls it makes on its
  lines; the locale \<open>irq_sink\<close> is what every receiver of such calls promises.
\<close>

section \<open>Receivers of interrupt lines\<close>

text \<open>
  A receiver accepts a call on any of its lines in every good state and then remembers the level
  of that line and of no other.
\<close>

locale irq_sink =
  fixes set_line :: "'l \<Rightarrow> bool \<Rightarrow> 's \<Rightarrow> 's res"
    and good :: "'s \<Rightarrow> bool" and valid :: "'l \<Rightarrow> bool" and input :: "'s \<Rightarrow> 'l \<Rightarrow> bool"
  assumes set_line_ok: "good s \<Longrightarrow> valid l \<Longrightarrow>
    \<exists>s'. set_line l b s = Inr s' \<and> good s' \<and> (\<forall>m. valid m \<longrightarrow> input s' m = (if m = l then b else input s m))"
begin

definition follows :: "'l irq_log \<Rightarrow> 's \<Rightarrow> bool" where
  "follows log s \<longleftrightarrow> good s \<and> (\<forall>l. valid l \<longrightarrow> input s l = irq_level log l)"

lemma follows_good: "follows log s \<Longrightarrow> good s"
  by (simp add: follows_def)

lemma follows_input: "follows log s \<Longrightarrow> valid l \<Longrightarrow> input s l = irq_level log l"
  by (simp add: follows_def)

lemma follows_set:
  assumes "follows log s" and "valid l"
  shows "\<exists>s'. set_line l b s = Inr s' \<and> follows ((l, b) # log) s'"
  using assms set_line_ok [of s l b] by (fastforce simp: follows_def)

lemma follows_calls:
  assumes "follows log s" and "list_all (\<lambda>(l, b). valid l) cs"
  shows "\<exists>s'. rfold (\<lambda>(l, b). set_line l b) cs s = Inr s' \<and> follows (rev cs @ log) s'"
  using assms
proof (induction cs arbitrary: log s)
  case Nil
  then show ?case by simp
next
  case (Cons c cs)
  obtain l b where c: "c = (l, b)" by (cases c)
  with Cons.prems obtain s1 where s1: "set_line l b s = Inr s1" "follows ((l, b) # log) s1"
    using follows_set [of log s l b] by auto
  with Cons.IH [OF s1(2)] Cons.prems(2) c show ?case by auto
qed

end

text \<open>A receiver that drives an output with the logical OR of its lines.\<close>

locale irq_or = irq_sink set_line good valid input
  for set_line :: "'l \<Rightarrow> bool \<Rightarrow> 's \<Rightarrow> 's res" and good and valid and input +
  fixes out :: "'s \<Rightarrow> bool"
  assumes out_or: "good s \<Longrightarrow> out s \<longleftrightarrow> (\<exists>l. valid l \<and> input s l)"
begin

lemma or_calls:
  assumes "follows log s" and "list_all (\<lambda>(l, b). valid l) cs"
  shows "\<exists>s'. rfold (\<lambda>(l, b). set_line l b) cs s = Inr s'
    \<and> (out s' \<longleftrightarrow> (\<exists>l. valid l \<and> irq_level (rev cs @ log) l))"
  using follows_calls [OF assms] out_or follows_good follows_input by metis

end

section \<open>The multiplexer\<close>

text \<open>The calls made on \<^verbatim>\<open>parent\<close> are kept as its log.\<close>

record irq_multiplexer_s =
  parent :: "unit irq_log"
  count :: int
  mask :: "u8 list"

definition irq_mult_handler :: "nat \<Rightarrow> bool \<Rightarrow> irq_multiplexer_s \<Rightarrow> irq_multiplexer_s res" where
  "irq_mult_handler irq level s =
     rbind (arr_get (mask s) (irq div 8)) (\<lambda>byte.
       let old_level = drop_bit (irq mod 8) byte AND 1 \<noteq> 0 in
       rbind (if \<not> old_level \<and> level then
                rbind (arr_set (mask s) (irq div 8) (byte OR push_bit (irq mod 8) 1)) (\<lambda>m.
                let s = s\<lparr>count := count s + 1, mask := m\<rparr> in
                Inr (if count s = 1 then s\<lparr>parent := qemu_irq_raise () (parent s)\<rparr> else s))
              else Inr s) (\<lambda>s.
       if old_level \<and> \<not> level then
         rbind (arr_get (mask s) (irq div 8)) (\<lambda>byte.
         rbind (arr_set (mask s) (irq div 8) (byte AND NOT (push_bit (irq mod 8) 1))) (\<lambda>m.
         let s = s\<lparr>count := count s - 1, mask := m\<rparr> in
         Inr (if count s = 0 then s\<lparr>parent := qemu_irq_lower () (parent s)\<rparr> else s)))
       else Inr s))"

text \<open>\<^verbatim>\<open>(n + 7) << 3\<close> bytes of mask are allocated, 64 times as many as \<open>n\<close> inputs need.\<close>

definition irq_multiplexer :: "nat \<Rightarrow> irq_multiplexer_s" where
  "irq_multiplexer n = \<lparr>parent = [], count = 0, mask = replicate ((n + 7) * 8) 0\<rparr>"

definition mask_bit :: "u8 list \<Rightarrow> nat \<Rightarrow> bool" where
  "mask_bit m i \<longleftrightarrow> bit (m ! (i div 8)) (i mod 8)"

abbreviation mux_input :: "irq_multiplexer_s \<Rightarrow> nat \<Rightarrow> bool" where
  "mux_input s \<equiv> mask_bit (mask s)"

definition mux_good :: "nat \<Rightarrow> irq_multiplexer_s \<Rightarrow> bool" where
  "mux_good n s \<longleftrightarrow> length (mask s) = (n + 7) * 8 \<and> count s = int (card {i. i < n \<and> mux_input s i})
     \<and> (irq_level (parent s) () \<longleftrightarrow> count s \<noteq> 0)"

lemma drop_bit_and_1: "drop_bit k (w :: 'a::len word) AND 1 \<noteq> 0 \<longleftrightarrow> bit w k"
  by (simp add: bit_iff_odd_drop_bit and_one_eq odd_iff_mod_2_eq_one)

lemma mask_bit_update:
  assumes "i div 8 < length m"
  shows "mask_bit (m[i div 8 := m ! (i div 8) OR push_bit (i mod 8) 1]) j \<longleftrightarrow> j = i \<or> mask_bit m j"
    and "mask_bit (m[i div 8 := m ! (i div 8) AND NOT (push_bit (i mod 8) 1)]) j \<longleftrightarrow> j \<noteq> i \<and> mask_bit m j"
proof -
  have ix: "j mod 8 = i mod 8 \<longleftrightarrow> j = i" if "j div 8 = i div 8" using that by (metis div_mod_decomp)
  have lt: "j mod 8 < 8" by simp
  show "mask_bit (m[i div 8 := m ! (i div 8) OR push_bit (i mod 8) 1]) j \<longleftrightarrow> j = i \<or> mask_bit m j"
    using assms ix lt by (cases "j div 8 = i div 8") (auto simp: mask_bit_def bit_simps simp del: mod_less_divisor)
  show "mask_bit (m[i div 8 := m ! (i div 8) AND NOT (push_bit (i mod 8) 1)]) j \<longleftrightarrow> j \<noteq> i \<and> mask_bit m j"
    using assms ix lt by (cases "j div 8 = i div 8") (auto simp: mask_bit_def bit_simps simp del: mod_less_divisor)
qed

lemma mux_card:
  fixes i n :: nat
  assumes "i < n"
  shows "card {j. j < n \<and> (j = i \<or> P j)} = (if P i then 0 else 1) + card {j. j < n \<and> P j}"
    and "card {j. j < n \<and> P j} = (if P i then 1 else 0) + card {j. j < n \<and> j \<noteq> i \<and> P j}"
proof -
  have fin: "finite {j. j < n \<and> Q j}" for Q by (rule finite_subset [of _ "{..<n}"]) auto
  have "{j. j < n \<and> (j = i \<or> P j)} = insert i {j. j < n \<and> P j}" using assms by auto
  then show "card {j. j < n \<and> (j = i \<or> P j)} = (if P i then 0 else 1) + card {j. j < n \<and> P j}"
    using assms by (simp add: card_insert_if fin)
  have "{j. j < n \<and> P j} = (if P i then insert i {j. j < n \<and> j \<noteq> i \<and> P j} else {j. j < n \<and> j \<noteq> i \<and> P j})"
    using assms by auto
  then show "card {j. j < n \<and> P j} = (if P i then 1 else 0) + card {j. j < n \<and> j \<noteq> i \<and> P j}"
    by (simp add: card_insert_if fin)
qed

text \<open>What a call does: nothing, unless it changes the level of the input.\<close>

lemma mux_handler_eq:
  assumes "i div 8 < length (mask s)"
  defines "on \<equiv> s\<lparr>count := count s + 1, mask := (mask s)[i div 8 := mask s ! (i div 8) OR push_bit (i mod 8) 1]\<rparr>"
    and "off \<equiv> s\<lparr>count := count s - 1, mask := (mask s)[i div 8 := mask s ! (i div 8) AND NOT (push_bit (i mod 8) 1)]\<rparr>"
  shows "irq_mult_handler i b s = Inr (if mux_input s i = b then s
    else if b then (if count s = 0 then on\<lparr>parent := qemu_irq_raise () (parent s)\<rparr> else on)
    else (if count s = 1 then off\<lparr>parent := qemu_irq_lower () (parent s)\<rparr> else off))"
proof -
  have old: "(drop_bit (i mod 8) (mask s ! (i div 8)) AND 1 = 0) = (\<not> mux_input s i)"
    using drop_bit_and_1 [of "i mod 8" "mask s ! (i div 8)"] by (auto simp: mask_bit_def)
  show ?thesis
    using assms(1) unfolding irq_mult_handler_def
    by (cases b; cases "mux_input s i") (simp_all add: old Let_def on_def off_def del: push_bit_of_1)
qed

lemma mux_handler_ok:
  assumes "mux_good n s" and "i < n"
  shows "\<exists>s'. irq_mult_handler i b s = Inr s' \<and> mux_good n s'
    \<and> (\<forall>j. j < n \<longrightarrow> mux_input s' j = (if j = i then b else mux_input s j))"
proof -
  have len: "i div 8 < length (mask s)" using assms by (simp add: mux_good_def)
  note card = mux_card [OF assms(2), of "mux_input s"]
  show ?thesis
  proof (cases "mux_input s i = b")
    case True
    then show ?thesis using assms by (auto simp: mux_handler_eq [OF len])
  next
    case False
    then show ?thesis
      using assms(1) card by (cases b) (simp_all add: mux_handler_eq [OF len] mux_good_def mask_bit_update [OF len] del: push_bit_of_1)
  qed
qed

interpretation mx: irq_or irq_mult_handler "mux_good n" "\<lambda>i. i < n" mux_input "\<lambda>s. irq_level (parent s) ()" for n
proof unfold_locales
  show "\<exists>s'. irq_mult_handler l b s = Inr s' \<and> mux_good n s'
      \<and> (\<forall>m. m < n \<longrightarrow> mux_input s' m = (if m = l then b else mux_input s m))"
    if "mux_good n s" "l < n" for s l b
    using mux_handler_ok [OF that] by simp
  show "irq_level (parent s) () = (\<exists>l<n. mux_input s l)" if "mux_good n s" for s
    using that by (auto simp: mux_good_def card_eq_0_iff)
qed

lemma mux_start: "mx.follows n [] (irq_multiplexer n)"
  by (simp add: mx.follows_def mux_good_def irq_multiplexer_def mask_bit_def)

section \<open>The inputs of the interrupt controllers\<close>

text \<open>\<^verbatim>\<open>s->irq[n / 32][n % 32]\<close> is input \<open>n mod 32\<close> of controller \<open>n div 32\<close>.\<close>

definition S5PC1XX_VIC_N :: nat where "S5PC1XX_VIC_N = 4"
definition S5PC1XX_VIC_SIZE :: nat where "S5PC1XX_VIC_SIZE = 32"

definition s5pc1xx_get_irq :: "nat \<Rightarrow> bool \<Rightarrow> vic_sys \<Rightarrow> vic_sys res" where
  "s5pc1xx_get_irq n = pl192_irq_handler (n div S5PC1XX_VIC_SIZE) (n mod S5PC1XX_VIC_SIZE)"

definition vic_raw :: "vic_sys \<Rightarrow> nat \<Rightarrow> bool" where
  "vic_raw S n \<longleftrightarrow> bit (rawintr (vics S ! (n div 32))) (n mod 32)"

lemma vic_raw_cong: "raw_inputs S' = raw_inputs S \<Longrightarrow> n < 32 * length (vics S) \<Longrightarrow> vic_raw S' n = vic_raw S n"
  unfolding raw_inputs_def vic_raw_def by (metis less_mult_imp_div_less mult.commute nth_map map_eq_imp_length_eq)

lemma get_irq_ok:
  assumes "vic_reach 3 S" and "n < 128"
  shows "\<exists>S'. s5pc1xx_get_irq n b S = Inr S' \<and> vic_reach 3 S'
    \<and> (\<forall>m. m < 128 \<longrightarrow> vic_raw S' m = (if m = n then b else vic_raw S m))"
proof -
  let ?i = "n div 32" and ?k = "n mod 32"
  have ok: "vics_ok S" "length (vics S) = 4" "?i < length (vics S)" 
    using vic_reach_ok [OF assms(1)] assms(2) by auto
  define s where "s = (vics S ! ?i)\<lparr>rawintr := if b then rawintr (vics S ! ?i) OR push_bit ?k 1
    else rawintr (vics S ! ?i) AND NOT (push_bit ?k 1)\<rparr>"
  have "vic_ok ?i s"
    using vics_okD [OF ok(1,3)] by (simp add: s_def vic_ok_def vic_wf_def vic_stack_ok_def)
  then have put: "vics_ok (vic_put ?i s S)" using ok by (simp add: vics_ok_put_ok)
  then obtain S' where S': "vic_update ?i (vic_put ?i s S) = Inr S'"
    using ok vic_update_settle by auto
  then have handler: "s5pc1xx_get_irq n b S = Inr S'"
    using ok by (cases b) (simp_all add: s5pc1xx_get_irq_def S5PC1XX_VIC_SIZE_def pl192_irq_handler_def s_def del: push_bit_of_1)
  have raw: "map rawintr (vics S') = map rawintr ((vics S)[?i := s])"
    using vic_update_raw [OF S'] by (simp add: raw_inputs_def vic_put_def)
  have "vic_raw S' m = (if m = n then b else vic_raw S m)" if "m < 128" for m
  proof -
    have m: "m div 32 < 4" "m mod 32 < 32" using that by auto
    have "rawintr (vics S' ! (m div 32)) = rawintr ((vics S)[?i := s] ! (m div 32))"
      using arg_cong [OF raw, of "\<lambda>xs. xs ! (m div 32)"] map_eq_imp_length_eq [OF raw] m ok by simp
    moreover have "m div 32 = ?i \<Longrightarrow> m mod 32 = ?k \<longleftrightarrow> m = n" by (metis div_mod_decomp)
    ultimately show ?thesis
      using m ok by (auto simp: vic_raw_def nth_list_update s_def bit_simps simp del: push_bit_of_1)
  qed
  with handler show ?thesis
    using vic_input [OF assms(1)] by (auto simp: s5pc1xx_get_irq_def)
qed

interpretation vc: irq_sink s5pc1xx_get_irq "vic_reach 3" "\<lambda>n. n < 128" vic_raw
  by unfold_locales (rule get_irq_ok)

section \<open>The interrupt wiring of the board\<close>

definition S5PC1XX_IRQ_DMAMEM :: nat where "S5PC1XX_IRQ_DMAMEM = 18"

text \<open>\<^verbatim>\<open>cfg[0]\<close> of the three DMA controllers, on the inputs 18, 19 and 20.\<close>

definition dma_cfg0 :: "u32 list" where
  "dma_cfg0 = [0x003E1071, 0x003FF075, 0x003FF075]"

definition dma_lines :: "u32 \<Rightarrow> nat" where
  "dma_lines cfg0 = unat (drop_bit 17 cfg0 AND 0x1f) + 2"

record board_irqs =
  dma_mux :: "irq_multiplexer_s list"
  vic_chain :: vic_sys

definition s5pc110_irqs :: "board_irqs res" where
  "s5pc110_irqs = rbind (pl192_board (S5PC1XX_VIC_N - 1)) (\<lambda>S.
     Inr \<lparr>dma_mux = map (\<lambda>cfg0. irq_multiplexer (dma_lines cfg0)) dma_cfg0, vic_chain = S\<rparr>)"

text \<open>
  A line of the board is an input of the interrupt controllers that a device is connected to
  directly, or line \<open>k\<close> of DMA controller \<open>d\<close>, 0 for the abort interrupt and \<open>e + 1\<close> for event
  \<open>e\<close>.  The calls the multiplexer makes on its parent reach the interrupt controllers at once.
\<close>

datatype board_line = VicLine nat | DmaLine nat nat

fun board_set_irq :: "board_line \<Rightarrow> bool \<Rightarrow> board_irqs \<Rightarrow> board_irqs res" where
  "board_set_irq (VicLine n) level B =
     rbind (s5pc1xx_get_irq n level (vic_chain B)) (\<lambda>S. Inr (B\<lparr>vic_chain := S\<rparr>))"
| "board_set_irq (DmaLine d k) level B =
     rbind (arr_get (dma_mux B) d) (\<lambda>m.
     rbind (irq_mult_handler k level m) (\<lambda>m'.
     rbind (rfold (\<lambda>(_, b). s5pc1xx_get_irq (S5PC1XX_IRQ_DMAMEM + d) b)
              (new_calls (parent m) (parent m')) (vic_chain B)) (\<lambda>S.
       Inr (B\<lparr>dma_mux := (dma_mux B)[d := m'], vic_chain := S\<rparr>))))"

fun board_line_ok :: "board_line \<Rightarrow> bool" where
  "board_line_ok (VicLine n) \<longleftrightarrow> n < 128 \<and> n \<notin> {18, 19, 20}"
| "board_line_ok (DmaLine d k) \<longleftrightarrow> d < 3 \<and> k < 33"

fun board_input :: "board_irqs \<Rightarrow> board_line \<Rightarrow> bool" where
  "board_input B (VicLine n) = vic_raw (vic_chain B) n"
| "board_input B (DmaLine d k) = mux_input (dma_mux B ! d) k"

text \<open>The input of a multiplexer's parent has the level the multiplexer drives it to.\<close>

definition board_good :: "board_irqs \<Rightarrow> bool" where
  "board_good B \<longleftrightarrow> vic_reach 3 (vic_chain B) \<and> length (dma_mux B) = 3
     \<and> (\<forall>d<3. mux_good 33 (dma_mux B ! d)
          \<and> vic_raw (vic_chain B) (18 + d) = irq_level (parent (dma_mux B ! d)) ())"

lemma mux_new_calls:
  assumes "irq_mult_handler k b m = Inr m'"
  shows "new_calls (parent m) (parent m') = [] \<and> parent m' = parent m
    \<or> (\<exists>c. new_calls (parent m) (parent m') = [((), c)] \<and> irq_level (parent m') () = c)"
proof -
  have "k div 8 < length (mask m)"
    using assms by (auto simp: irq_mult_handler_def rbind_eq_Inr arr_get_eq_Inr)
  from mux_handler_eq [OF this, of b] assms show ?thesis
    by (auto simp: new_calls_def qemu_irq_raise_def qemu_irq_lower_def qemu_set_irq_def split: if_splits)
qed

lemma board_set_direct:
  assumes B: "board_good B" and n: "n < 128" "n \<notin> {18, 19, 20}"
  shows "\<exists>B'. board_set_irq (VicLine n) b B = Inr B' \<and> board_good B'
    \<and> (\<forall>l. board_line_ok l \<longrightarrow> board_input B' l = (if l = VicLine n then b else board_input B l))"
proof -
  have "vic_reach 3 (vic_chain B)" using B by (simp add: board_good_def)
  from get_irq_ok [OF this n(1), of b] obtain S where S: "s5pc1xx_get_irq n b (vic_chain B) = Inr S"
    "vic_reach 3 S" "\<And>m. m < 128 \<Longrightarrow> vic_raw S m = (if m = n then b else vic_raw (vic_chain B) m)"
    by blast
  have "vic_raw S (18 + d) = vic_raw (vic_chain B) (18 + d)" if "d < 3" for d
    using S(3) [of "18 + d"] n(2) that by (auto simp: less_Suc_eq numeral_3_eq_3)
  then have "board_good (B\<lparr>vic_chain := S\<rparr>)" using B S(2) by (simp add: board_good_def)
  moreover have "board_input (B\<lparr>vic_chain := S\<rparr>) l = (if l = VicLine n then b else board_input B l)"
    if "board_line_ok l" for l
    using that S(3) by (cases l) auto
  ultimately show ?thesis using S(1) by auto
qed

lemma board_set_dma:
  assumes B: "board_good B" and d: "d < 3" and k: "k < 33"
  shows "\<exists>B'. board_set_irq (DmaLine d k) b B = Inr B' \<and> board_good B'
    \<and> (\<forall>l. board_line_ok l \<longrightarrow> board_input B' l = (if l = DmaLine d k then b else board_input B l))"
proof -
  let ?m = "dma_mux B ! d" and ?S = "vic_chain B"
  have good: "vic_reach 3 ?S" "length (dma_mux B) = 3" "mux_good 33 ?m"
    "vic_raw ?S (18 + d) = irq_level (parent ?m) ()"
    using B d by (simp_all add: board_good_def)
  obtain m' where m': "irq_mult_handler k b ?m = Inr m'" "mux_good 33 m'"
    "\<And>j. j < 33 \<Longrightarrow> mux_input m' j = (if j = k then b else mux_input ?m j)"
    using mux_handler_ok [OF good(3) k, of b] by blast
  obtain S where S: "rfold (\<lambda>(_, b). s5pc1xx_get_irq (18 + d) b) (new_calls (parent ?m) (parent m')) ?S = Inr S"
    "vic_reach 3 S"
    "\<And>n. n < 128 \<Longrightarrow> vic_raw S n = (if n = 18 + d then irq_level (parent m') () else vic_raw ?S n)"
    using mux_new_calls [OF m'(1)]
  proof (elim disjE exE conjE, goal_cases)
    case 1
    then show ?case using good(1,4) by simp
  next
    case (2 c)
    then show ?case using get_irq_ok [OF good(1), of "18 + d" c] d by auto
  qed
  let ?B = "B\<lparr>dma_mux := (dma_mux B)[d := m'], vic_chain := S\<rparr>"
  have "board_set_irq (DmaLine d k) b B = Inr ?B"
    using m'(1) S(1) good(2) d by (simp add: S5PC1XX_IRQ_DMAMEM_def)
  moreover have "board_good ?B"
    using B m'(2) S(2,3) d by (auto simp: board_good_def nth_list_update)
  moreover have "board_input ?B l = (if l = DmaLine d k then b else board_input B l)" if "board_line_ok l" for l
    using that S(3) m'(3) d good(2) by (cases l) (auto simp: nth_list_update numeral_3_eq_3 less_Suc_eq)
  ultimately show ?thesis by blast
qed

interpretation bd: irq_sink board_set_irq board_good board_line_ok board_input
proof unfold_locales
  show "\<exists>B'. board_set_irq l b B = Inr B' \<and> board_good B'
      \<and> (\<forall>m. board_line_ok m \<longrightarrow> board_input B' m = (if m = l then b else board_input B m))"
    if "board_good B" "board_line_ok l" for B l b
    using that board_set_direct [of B] board_set_dma [of B] by (cases l) auto
qed

section \<open>Running the board\<close>

text \<open>
  The interrupt system under calls of the devices and accesses of the guest to the registers of
  the interrupt controllers, with the log of all calls on the lines.
\<close>

inductive board_reach :: "board_line irq_log \<Rightarrow> board_irqs \<Rightarrow> bool" where
  board_start: "s5pc110_irqs = Inr B \<Longrightarrow> board_reach [] B"
| board_call: "board_reach log B \<Longrightarrow> board_line_ok l \<Longrightarrow> board_set_irq l b B = Inr B' \<Longrightarrow>
    board_reach ((l, b) # log) B'"
| board_read: "board_reach log B \<Longrightarrow> pl192_read i offset (vic_chain B) = Inr (v, S) \<Longrightarrow>
    board_reach log (B\<lparr>vic_chain := S\<rparr>)"
| board_write: "board_reach log B \<Longrightarrow> pl192_write i offset val (vic_chain B) = Inr S \<Longrightarrow>
    board_reach log (B\<lparr>vic_chain := S\<rparr>)"

lemma dma_lines_33: "map dma_lines dma_cfg0 = [33, 33, 33]"
  by code_simp

lemma board_start_ok:
  assumes "pl192_board 3 = Inr S" and "n < 128"
  shows "\<not> vic_raw S n"
proof -
  have "n div 32 < 4" using assms(2) by simp
  moreover have "vics S = pl192_init1 True True # map (\<lambda>d. (pl192_init1 False False)\<lparr>daisy := Some d\<rparr>) [0..<3]"
    using assms(1) pl192_chain_loop [of 3 3] by (auto simp: pl192_board_def)
  ultimately have "rawintr (vics S ! (n div 32)) = 0"
    by (auto simp: nth_Cons pl192_init1_def pl192_reset_def split: nat.split)
  then show ?thesis by (simp add: vic_raw_def)
qed

lemma board_start_follows:
  assumes "s5pc110_irqs = Inr B"
  shows "bd.follows [] B"
proof -
  obtain S where S: "pl192_board 3 = Inr S" and B: "B = \<lparr>dma_mux = replicate 3 (irq_multiplexer 33), vic_chain = S\<rparr>"
    using assms dma_lines_33
    by (auto simp: s5pc110_irqs_def S5PC1XX_VIC_N_def dma_cfg0_def numeral_3_eq_3 elim!: rbind_InrE)
  have mux: "mux_good 33 (irq_multiplexer 33)" "k < 33 \<Longrightarrow> \<not> mux_input (irq_multiplexer 33) k"
    "\<not> irq_level (parent (irq_multiplexer 33)) ()" for k
    using mux_start [of 33] by (auto simp: mx.follows_def irq_multiplexer_def)
  have "board_good B"
    using vic_start [OF S] mux board_start_ok [OF S] by (simp add: board_good_def B)
  moreover have "\<not> board_input B l" if "board_line_ok l" for l
    using that mux board_start_ok [OF S] by (cases l) (simp_all add: B)
  ultimately show ?thesis by (simp add: bd.follows_def)
qed

lemma follows_chain: "bd.follows log B \<Longrightarrow> vic_reach 3 (vic_chain B)"
  using bd.follows_good by (simp add: board_good_def)

lemma board_access_follows:
  assumes "bd.follows log B" and "vic_reach 3 S" and "raw_inputs S = raw_inputs (vic_chain B)"
  shows "bd.follows log (B\<lparr>vic_chain := S\<rparr>)"
proof -
  have "length (vics (vic_chain B)) = 4"
    using vic_reach_ok [OF follows_chain [OF assms(1)]] by simp
  then have raw: "n < 128 \<Longrightarrow> vic_raw S n = vic_raw (vic_chain B) n" for n
    using vic_raw_cong [OF assms(3)] by simp
  then have "board_line_ok l \<Longrightarrow> board_input (B\<lparr>vic_chain := S\<rparr>) l = board_input B l" for l
    by (cases l) auto
  with assms(1,2) raw show ?thesis by (simp add: bd.follows_def board_good_def)
qed

lemma board_reach_follows: "board_reach log B \<Longrightarrow> bd.follows log B"
proof (induction rule: board_reach.induct)
  case (board_start B)
  then show ?case by (rule board_start_follows)
next
  case (board_call log B l b B')
  then show ?case using bd.follows_set [of log B l b] by auto
next
  case (board_read log B i offset v S)
  show ?case
    using board_access_follows [OF board_read.IH vic_read [OF follows_chain [OF board_read.IH]]]
      pl192_read_raw board_read.hyps(2) by blast
next
  case (board_write log B i offset val S)
  show ?case
    using board_access_follows [OF board_write.IH vic_write [OF follows_chain [OF board_write.IH]]]
      pl192_write_raw board_write.hyps(2) by blast
qed

lemma board_interrupts:
  assumes "board_reach log B" and "n < 128" and "n \<notin> {18, 19, 20}"
    and "\<And>j. j \<le> n div 32 \<Longrightarrow> vic_idle (vics (vic_chain B) ! j)"
    and "bit (intenable (vics (vic_chain B) ! (n div 32))) (n mod 32)"
    and "\<not> bit (intselect (vics (vic_chain B) ! (n div 32))) (n mod 32)"
  shows "\<exists>B'. board_set_irq (VicLine n) True B = Inr B' \<and> irq_level (cpu (vic_chain B')) (CpuIrq 0)
    \<and> address (vics (vic_chain B') ! 0) = vect_addr (vics (vic_chain B) ! (n div 32)) ! (n mod 32)"
proof -
  have "vic_reach 3 (vic_chain B)" using assms(1) by (intro follows_chain board_reach_follows)
  moreover have "n div 32 \<le> 3" "n mod 32 < 32" using assms(2) by auto
  ultimately show ?thesis
    using vic_delivered [of 3 "vic_chain B" "n div 32" "n mod 32"] assms(4-6)
    by (auto simp: s5pc1xx_get_irq_def S5PC1XX_VIC_SIZE_def)
qed

text \<open>
  Property C9.  The raw status of the interrupt controllers is the state of the device lines:
  however the devices raise and lower their lines and the guest accesses the controllers in
  between, the raw bit of a directly connected input has the level last set on it, the raw bit of
  a DMA controller's input is the logical OR of the levels last set on its abort and event lines,
  and no call ends in a fault.
\<close>

theorem board_irq_wiring:
  assumes "board_reach log B"
  shows "(\<forall>n. n < 128 \<and> n \<notin> {18, 19, 20} \<longrightarrow> vic_raw (vic_chain B) n = irq_level log (VicLine n))
    \<and> (\<forall>d < 3. vic_raw (vic_chain B) (18 + d) \<longleftrightarrow> (\<exists>k < 33. irq_level log (DmaLine d k)))
    \<and> (board_line_ok l \<longrightarrow> (\<exists>B'. board_set_irq l b B = Inr B' \<and> board_reach ((l, b) # log) B'))"
proof -
  have follows: "bd.follows log B" using board_reach_follows [OF assms] .
  then have good: "board_good B" by (rule bd.follows_good)
  have "vic_raw (vic_chain B) n = irq_level log (VicLine n)" if "n < 128" "n \<notin> {18, 19, 20}" for n
    using bd.follows_input [OF follows, of "VicLine n"] that by simp
  moreover have "vic_raw (vic_chain B) (18 + d) \<longleftrightarrow> (\<exists>k < 33. irq_level log (DmaLine d k))" if "d < 3" for d
    using good that mx.out_or [of 33 "dma_mux B ! d"] bd.follows_input [OF follows, of "DmaLine d _"]
    by (auto simp: board_good_def)
  moreover have "\<exists>B'. board_set_irq l b B = Inr B' \<and> board_reach ((l, b) # log) B'" if "board_line_ok l"
    using bd.follows_set [OF follows that, of b] board_call [OF assms that] by blast
  ultimately show ?thesis by blast
qed

definition board_demo :: "board_irqs res" where
  "board_demo = rbind s5pc110_irqs (rfold (\<lambda>(l, b). board_set_irq l b)
     [(DmaLine 1 0, True), (DmaLine 1 5, True), (VicLine 42, True), (DmaLine 1 0, False)])"

lemma board_reach_calls:
  assumes "rfold (\<lambda>(l, b). board_set_irq l b) cs B = Inr B'" and "board_reach log B"
    and "list_all (\<lambda>(l, b). board_line_ok l) cs"
  shows "board_reach (rev cs @ log) B'"
  using assms by (induction cs arbitrary: B log) (auto elim!: rbind_InrE intro: board_call)

theorem board_irq_wiring_witness:
  "\<exists>B. board_demo = Inr B \<and> vic_raw (vic_chain B) 42 \<and> vic_raw (vic_chain B) 19 \<and> \<not> vic_raw (vic_chain B) 18"
proof -
  let ?cs = "[(DmaLine 1 0, True), (DmaLine 1 5, True), (VicLine 42, True), (DmaLine 1 0, False)]"
  obtain S where "pl192_board 3 = Inr S" using pl192_board_ok by blast
  then obtain B0 where B0: "s5pc110_irqs = Inr B0" by (simp add: s5pc110_irqs_def S5PC1XX_VIC_N_def)
  obtain B where B: "rfold (\<lambda>(l, b). board_set_irq l b) ?cs B0 = Inr B"
    using bd.follows_calls [OF board_start_follows [OF B0], of ?cs] by auto
  then have reach: "board_reach (rev ?cs @ []) B"
    using board_reach_calls [OF B board_start [OF B0]] by simp
  have wired: "vic_raw (vic_chain B) n = irq_level (rev ?cs @ []) (VicLine n)" if "n < 128" "n \<notin> {18, 19, 20}" for n
    using board_irq_wiring [OF reach] that by blast
  have dma: "vic_raw (vic_chain B) (18 + d) \<longleftrightarrow> (\<exists>k < 33. irq_level (rev ?cs @ []) (DmaLine d k))" if "d < 3" for d
    using board_irq_wiring [OF reach] that by blast
  have "\<exists>k<33. irq_level (rev ?cs @ []) (DmaLine 1 k)" by (intro exI [of _ 5]) simp
  then have "vic_raw (vic_chain B) 42 \<and> vic_raw (vic_chain B) 19 \<and> \<not> vic_raw (vic_chain B) 18"
    using wired [of 42] dma [of 0] dma [of 1] by simp
  moreover have "board_demo = Inr B" by (simp only: board_demo_def B0 B rbind_Inr)
  ultimately show ?thesis by blast
qed

end
