(* ===== verification/I2c_Bus.thy ===== *)
theory I2c_Bus
  imports Qemu_Prelude
begin

text \<open>
  The I2C bus (\<^verbatim>\<open>hw/i2c.c\<close>), the common part of the slaves that hold addressable registers
  (\<^verbatim>\<open>hw/i2c-addressable.c\<close>), and the interface \<open>i2c_master\<close> of the two bus masters of the
  board, with what every master gives to the register slaves.
\<close>

section \<open>Bytes on the bus\<close>

text \<open>Shifting a bit into a byte; the first byte of a message is the address with the direction shifted in.\<close>

definition shift_in :: "u8 \<Rightarrow> bool \<Rightarrow> u8" where
  "shift_in w v = push_bit 1 w OR of_bool v"

lemma u8_bit_cases:
  assumes "n < 8" and "P 0" "P 1" "P 2" "P 3" "P 4" "P 5" "P 6" "P (7 :: nat)"
  shows "P n"
proof -
  have "n = 0 \<or> n = 1 \<or> n = 2 \<or> n = 3 \<or> n = 4 \<or> n = 5 \<or> n = 6 \<or> n = 7" using assms(1) by linarith
  then show ?thesis using assms(2-) by blast
qed

lemma u8_eqI: "(\<And>n. n < 8 \<Longrightarrow> bit (x :: u8) n = bit y n) \<Longrightarrow> x = y"
  by (rule bit_word_eqI) simp

lemma bit_shift_in: "bit (shift_in w x) n \<longleftrightarrow> n < 8 \<and> (if n = 0 then x else bit w (n - 1))"
  unfolding shift_in_def
  by (auto simp: bit_or_iff bit_push_bit_iff bit_of_bool_iff simp del: push_bit_Suc One_nat_def)

lemma shift_addr:
  assumes "a < 128"
  shows "drop_bit 1 (shift_in a v) = a" "bit (shift_in a v) 0 = v" "even (uint (shift_in a v)) = (\<not> v)"
proof -
  have "\<not> bit a 7"
  proof
    assume "bit a 7"
    then have "128 AND a = 128" by (intro u8_eqI, elim u8_bit_cases) (auto simp: bit_simps)
    then have "128 \<le> a" by (metis and.commute word_and_le1)
    with assms show False by simp
  qed
  then have top: "bit a (Suc n) \<Longrightarrow> Suc n < 7" for n using bit_imp_le_length [of a "Suc n"] by (cases "Suc n = 7") auto
  have low: "bit a n \<Longrightarrow> n < 7" for n using top [of "n - 1"] by (cases n) auto
  show "drop_bit 1 (shift_in a v) = a"
    by (rule bit_word_eqI) (auto simp: bit_drop_bit_eq bit_shift_in dest: low)
  show *: "bit (shift_in a v) 0 = v" by (simp add: bit_shift_in)
  show "even (uint (shift_in a v)) = (\<not> v)"
    using * bit_uint_iff [of "shift_in a v" 0] by (auto simp: bit_0)
qed

section \<open>The bus\<close>

datatype i2c_event = I2C_START_RECV | I2C_START_SEND | I2C_FINISH | I2C_NACK

text \<open>
  The callbacks of a slave, and a slave on the bus.  The slaves of one bus share the type \<open>'d\<close> of
  device states (a sum type, where they are of different kinds), each with its own callbacks.
\<close>

record 'd I2CSlaveInfo =
  event_cb :: "i2c_event \<Rightarrow> 'd \<Rightarrow> 'd res"
  recv_cb :: "'d \<Rightarrow> (int \<times> 'd) res"
  send_cb :: "u8 \<Rightarrow> 'd \<Rightarrow> (int \<times> 'd) res"

record 'd i2c_slave =
  info :: "'d I2CSlaveInfo"
  address :: u8
  dev :: 'd

text \<open>\<^verbatim>\<open>current_dev\<close> points to a child of the bus: it is the position of that child.\<close>

record 'd i2c_bus =
  children :: "'d i2c_slave list"
  current_dev :: "nat option"
  saved_address :: u8

definition i2c_init_bus :: "'d i2c_slave list \<Rightarrow> 'd i2c_bus" where
  "i2c_init_bus slaves = \<lparr>children = slaves, current_dev = None, saved_address = 0\<rparr>"

definition i2c_bus_busy :: "'d i2c_bus \<Rightarrow> bool" where
  "i2c_bus_busy bus \<longleftrightarrow> current_dev bus \<noteq> None"

text \<open>The callbacks run on the device of a child.\<close>

definition slave_put :: "nat \<Rightarrow> 'd \<Rightarrow> 'd i2c_bus \<Rightarrow> 'd i2c_bus" where
  "slave_put i d bus = bus\<lparr>children := (children bus)[i := (children bus ! i)\<lparr>dev := d\<rparr>]\<rparr>"

definition slave_event :: "i2c_event \<Rightarrow> nat \<Rightarrow> 'd i2c_bus \<Rightarrow> 'd i2c_bus res" where
  "slave_event e i bus = rbind (arr_get (children bus) i) (\<lambda>s.
     rbind (event_cb (info s) e (dev s)) (\<lambda>d. Inr (slave_put i d bus)))"

definition i2c_start_transfer :: "'d i2c_bus \<Rightarrow> u8 \<Rightarrow> bool \<Rightarrow> (int \<times> 'd i2c_bus) res" where
  "i2c_start_transfer bus addr recv =
     (case find (\<lambda>i. address (children bus ! i) = addr) [0..<length (children bus)] of
        None \<Rightarrow> Inr (1, bus)
      | Some i \<Rightarrow>
          rbind (slave_event (if recv then I2C_START_RECV else I2C_START_SEND) i (bus\<lparr>current_dev := Some i\<rparr>)) (\<lambda>bus.
            Inr (0, bus)))"

definition i2c_end_transfer :: "'d i2c_bus \<Rightarrow> 'd i2c_bus res" where
  "i2c_end_transfer bus = (case current_dev bus of
     None \<Rightarrow> Inr bus
   | Some i \<Rightarrow> rbind (slave_event I2C_FINISH i bus) (\<lambda>bus. Inr (bus\<lparr>current_dev := None\<rparr>)))"

definition i2c_send :: "'d i2c_bus \<Rightarrow> u8 \<Rightarrow> (int \<times> 'd i2c_bus) res" where
  "i2c_send bus data = (case current_dev bus of
     None \<Rightarrow> Inr (- 1, bus)
   | Some i \<Rightarrow> rbind (arr_get (children bus) i) (\<lambda>s.
       rbind (send_cb (info s) data (dev s)) (\<lambda>(r, d). Inr (r, slave_put i d bus))))"

definition i2c_recv :: "'d i2c_bus \<Rightarrow> (int \<times> 'd i2c_bus) res" where
  "i2c_recv bus = (case current_dev bus of
     None \<Rightarrow> Inr (- 1, bus)
   | Some i \<Rightarrow> rbind (arr_get (children bus) i) (\<lambda>s.
       rbind (recv_cb (info s) (dev s)) (\<lambda>(r, d). Inr (r, slave_put i d bus))))"

definition i2c_nack :: "'d i2c_bus \<Rightarrow> 'd i2c_bus res" where
  "i2c_nack bus = (case current_dev bus of
     None \<Rightarrow> Inr bus
   | Some i \<Rightarrow> slave_event I2C_NACK i bus)"

section \<open>Saving and restoring\<close>

text \<open>The current slave is saved by its address; -1 is 0xFF in the 8-bit field.\<close>

definition i2c_bus_pre_save :: "'d i2c_bus \<Rightarrow> 'd i2c_bus" where
  "i2c_bus_pre_save bus = bus\<lparr>saved_address := (case current_dev bus of Some i \<Rightarrow> address (children bus ! i) | None \<Rightarrow> - 1)\<rparr>"

definition i2c_bus_post_load :: "'d i2c_bus \<Rightarrow> 'd i2c_bus" where
  "i2c_bus_post_load bus = bus\<lparr>current_dev := None\<rparr>"

definition i2c_slave_post_load :: "nat \<Rightarrow> 'd i2c_bus \<Rightarrow> 'd i2c_bus" where
  "i2c_slave_post_load i bus =
     (if saved_address bus = address (children bus ! i) then bus\<lparr>current_dev := Some i\<rparr> else bus)"

lemma slaves_post_load:
  "fold i2c_slave_post_load is bus =
     bus\<lparr>current_dev := fold (\<lambda>i c. if saved_address bus = address (children bus ! i) then Some i else c) is (current_dev bus)\<rparr>"
  by (induction "is" arbitrary: bus) (auto simp: i2c_slave_post_load_def)

text \<open>
  Restoring finds the slave again, provided that the slaves have different addresses and none has
  the address 0xFF that stands for no slave.
\<close>

lemma i2c_save_restore:
  assumes "distinct (map address (children bus))" and "- 1 \<notin> address ` set (children bus)"
    and "\<And>i. current_dev bus = Some i \<Longrightarrow> i < length (children bus)"
  shows "current_dev (fold i2c_slave_post_load [0..<length (children bus)] (i2c_bus_post_load (i2c_bus_pre_save bus)))
    = current_dev bus"
proof -
  let ?a = "\<lambda>i. address (children bus ! i)" and ?n = "length (children bus)"
  let ?s = "case current_dev bus of Some i \<Rightarrow> ?a i | None \<Rightarrow> - 1"
  have "fold (\<lambda>i c. if ?s = ?a i then Some i else c) [0..<m] None
      = (case current_dev bus of Some i \<Rightarrow> if i < m then Some i else None | None \<Rightarrow> None)" if "m \<le> ?n" for m
    using that
  proof (induction m)
    case (Suc m)
    have "?s = ?a m \<longleftrightarrow> current_dev bus = Some m"
    proof (cases "current_dev bus")
      case None
      then show ?thesis using assms(2) Suc.prems nth_mem [of m "children bus"] by fastforce
    next
      case (Some i)
      then show ?thesis
        using assms(1,3) Suc.prems nth_eq_iff_index_eq [OF assms(1), of i m] by auto
    qed
    then show ?case using Suc by (auto split: option.splits)
  qed (simp split: option.split)
  then show ?thesis
    using assms(3) by (simp add: slaves_post_load i2c_bus_post_load_def i2c_bus_pre_save_def split: option.splits)
qed

section \<open>Messages\<close>

text \<open>
  A message of a master on the bus: the calls for a write of the bytes \<open>ds\<close> to, and for a read of
  \<open>n\<close> bytes from the slave at \<open>a\<close>.  A master may answer the last byte it reads with a NACK.
\<close>

primrec bus_send_all :: "u8 list \<Rightarrow> 'd i2c_bus \<Rightarrow> 'd i2c_bus res" where
  "bus_send_all [] bus = Inr bus"
| "bus_send_all (d # ds) bus = rbind (i2c_send bus d) (\<lambda>(r, bus). bus_send_all ds bus)"

primrec bus_recv_all :: "nat \<Rightarrow> 'd i2c_bus \<Rightarrow> (u8 list \<times> 'd i2c_bus) res" where
  "bus_recv_all 0 bus = Inr ([], bus)"
| "bus_recv_all (Suc n) bus = rbind (i2c_recv bus) (\<lambda>(r, bus).
     rbind (bus_recv_all n bus) (\<lambda>(vs, bus). Inr (of_int r # vs, bus)))"

definition bus_write :: "u8 \<Rightarrow> u8 list \<Rightarrow> 'd i2c_bus \<Rightarrow> 'd i2c_bus res" where
  "bus_write a ds bus = rbind (i2c_start_transfer bus a False) (\<lambda>(r, bus).
     rbind (bus_send_all ds bus) i2c_end_transfer)"

definition bus_read :: "bool \<Rightarrow> u8 \<Rightarrow> nat \<Rightarrow> 'd i2c_bus \<Rightarrow> (u8 list \<times> 'd i2c_bus) res" where
  "bus_read nacks a n bus = rbind (i2c_start_transfer bus a True) (\<lambda>(r, bus).
     rbind (bus_recv_all n bus) (\<lambda>(vs, bus).
     rbind (if nacks then i2c_nack bus else Inr bus) (\<lambda>bus.
     rbind (i2c_end_transfer bus) (\<lambda>bus. Inr (vs, bus)))))"

section \<open>Slaves with addressable registers\<close>

record 'r I2CAddressableState =
  addr :: u32
  num :: u8
  device :: 'r

text \<open>
  The handlers of a device; \<open>None\<close> is a null pointer.  The code keeps the size of an address as an
  \<^verbatim>\<open>int\<close> and the byte order as a flag.
\<close>

record 'r I2CAddressableDeviceInfo =
  read_cb :: "('r \<Rightarrow> u32 \<Rightarrow> u8 \<Rightarrow> (u8 \<times> 'r) res) option"
  write_cb :: "('r \<Rightarrow> u32 \<Rightarrow> u8 \<Rightarrow> u8 \<Rightarrow> 'r res) option"
  addr_size :: nat
  rev_order :: bool

definition i2c_addressable_rx ::
    "'r I2CAddressableDeviceInfo \<Rightarrow> 'r I2CAddressableState \<Rightarrow> (int \<times> 'r I2CAddressableState) res" where
  "i2c_addressable_rx t s = (case read_cb t of
     Some rd \<Rightarrow> rbind (rd (device s) (addr s) (num s)) (\<lambda>(v, d). Inr (uint v, s\<lparr>num := num s + 1, device := d\<rparr>))
   | None \<Rightarrow> Inr (0, s))"

definition i2c_addressable_tx ::
    "'r I2CAddressableDeviceInfo \<Rightarrow> u8 \<Rightarrow> 'r I2CAddressableState \<Rightarrow> (int \<times> 'r I2CAddressableState) res" where
  "i2c_addressable_tx t data s =
     rbind (if unat (num s) < addr_size t then
              if \<not> rev_order t
              then Inr (s\<lparr>addr := addr s OR push_bit (unat (num s) * 8) (ucast data)\<rparr>)
              else Inr (s\<lparr>addr := addr s OR push_bit ((addr_size t - unat (num s) - 1) * 8) (ucast data)\<rparr>)
            else (case write_cb t of
                    Some wr \<Rightarrow> rbind (wr (device s) (addr s) (of_nat (unat (num s) - addr_size t)) data) (\<lambda>d.
                      Inr (s\<lparr>device := d\<rparr>))
                  | None \<Rightarrow> Inr s)) (\<lambda>s.
     Inr (1, s\<lparr>num := num s + 1\<rparr>))"

definition i2c_addressable_event :: "i2c_event \<Rightarrow> 'r I2CAddressableState \<Rightarrow> 'r I2CAddressableState res" where
  "i2c_addressable_event event s = (case event of
     I2C_START_SEND \<Rightarrow> Inr (s\<lparr>addr := 0, num := 0\<rparr>)
   | I2C_START_RECV \<Rightarrow> Inr (s\<lparr>num := 0\<rparr>)
   | _ \<Rightarrow> Inr s)"

definition i2c_addressable_register_device ::
    "'r I2CAddressableDeviceInfo \<Rightarrow> 'r I2CAddressableState I2CSlaveInfo" where
  "i2c_addressable_register_device t = \<lparr>event_cb = i2c_addressable_event, recv_cb = i2c_addressable_rx t,
     send_cb = i2c_addressable_tx t\<rparr>"

section \<open>Register accesses\<close>

text \<open>The bus with an addressable slave as its child \<open>i\<close>, the first one with the address \<open>a\<close>.\<close>

definition slave_at :: "u8 \<Rightarrow> nat \<Rightarrow> 'r I2CAddressableDeviceInfo \<Rightarrow> 'r I2CAddressableState i2c_bus \<Rightarrow> bool" where
  "slave_at a i t bus \<longleftrightarrow> find (\<lambda>i. address (children bus ! i) = a) [0..<length (children bus)] = Some i
     \<and> info (children bus ! i) = i2c_addressable_register_device t \<and> current_dev bus = None"

abbreviation slave :: "nat \<Rightarrow> 'd i2c_bus \<Rightarrow> 'd" where
  "slave i bus \<equiv> dev (children bus ! i)"

lemma slave_put_simps [simp]:
  "length (children (slave_put i d bus)) = length (children bus)" "current_dev (slave_put i d bus) = current_dev bus"
  "address (children (slave_put i d bus) ! j) = address (children bus ! j)"
  "info (children (slave_put i d bus) ! j) = info (children bus ! j)"
  "i < length (children bus) \<Longrightarrow> slave i (slave_put i d bus) = d"
  "slave_put i d (slave_put i e bus) = slave_put i d bus"
  "(slave_put i d bus)\<lparr>current_dev := c\<rparr> = slave_put i d (bus\<lparr>current_dev := c\<rparr>)"
  "slave_put i (slave i bus) bus = bus"
proof -
  show "length (children (slave_put i d bus)) = length (children bus)" "current_dev (slave_put i d bus) = current_dev bus"
    "i < length (children bus) \<Longrightarrow> slave i (slave_put i d bus) = d"
    "(slave_put i d bus)\<lparr>current_dev := c\<rparr> = slave_put i d (bus\<lparr>current_dev := c\<rparr>)"
    "slave_put i (slave i bus) bus = bus"
    by (simp_all add: slave_put_def)
  have upd: "children (slave_put i d bus) ! j = (if i = j \<and> j < length (children bus) then (children bus ! j)\<lparr>dev := d\<rparr> else children bus ! j)" for j
    by (cases "i < length (children bus)") (auto simp: slave_put_def nth_list_update list_update_beyond not_less)
  show "address (children (slave_put i d bus) ! j) = address (children bus ! j)"
    "info (children (slave_put i d bus) ! j) = info (children bus ! j)"
    by (simp_all add: upd)
  show "slave_put i d (slave_put i e bus) = slave_put i d bus"
    by (cases "i < length (children bus)") (simp_all add: slave_put_def list_update_beyond not_less)
qed

lemma slave_at_put [simp]: "slave_at a i t (slave_put j d bus) = slave_at a i t bus"
  by (simp add: slave_at_def)

lemma slave_at_less: "slave_at a i t bus \<Longrightarrow> i < length (children bus)"
  by (auto simp: slave_at_def find_Some_iff)

lemmas bus_defs = bus_write_def bus_read_def i2c_start_transfer_def i2c_end_transfer_def i2c_send_def i2c_recv_def
  i2c_nack_def slave_event_def i2c_addressable_register_device_def i2c_addressable_event_def

lemma addressable_updates [simp]:
  "s\<lparr>device := x, addr := a\<rparr> = (s :: 'r I2CAddressableState)\<lparr>addr := a, device := x\<rparr>"
  "s\<lparr>num := n, device := x\<rparr> = (s :: 'r I2CAddressableState)\<lparr>device := x, num := n\<rparr>"
  by (cases s, simp)+

lemma current_none: "current_dev bus = None \<Longrightarrow> bus\<lparr>current_dev := None\<rparr> = bus"
  by (cases bus) simp

lemma bus_select_register:
  assumes "slave_at a i t bus" and "addr_size t = 1"
  shows "bus_write a [r] bus = Inr (slave_put i ((slave i bus)\<lparr>addr := ucast r, num := 1\<rparr>) bus)"
  using assms slave_at_less [OF assms(1)]
  by (simp add: bus_defs slave_at_def i2c_addressable_tx_def current_none)

lemma bus_write_register:
  assumes "slave_at a i t bus" and "addr_size t = 1" and "write_cb t = Some wr"
    and "wr (device (slave i bus)) (ucast r) 0 v = Inr x"
  shows "bus_write a [r, v] bus = Inr (slave_put i ((slave i bus)\<lparr>addr := ucast r, num := 2, device := x\<rparr>) bus)"
  using assms slave_at_less [OF assms(1)]
  by (simp add: bus_defs slave_at_def i2c_addressable_tx_def current_none)

lemma bus_read_register:
  assumes "slave_at a i t bus" and "read_cb t = Some rd"
    and "rd (device (slave i bus)) (addr (slave i bus)) 0 = Inr (v, x)"
  shows "bus_read nacks a 1 bus = Inr ([v], slave_put i ((slave i bus)\<lparr>num := 1, device := x\<rparr>) bus)"
  using assms slave_at_less [OF assms(1)]
  by (cases nacks) (simp_all add: bus_defs slave_at_def i2c_addressable_rx_def current_none)

section \<open>Masters\<close>

text \<open>
  What a bus master promises: from an idle state a message to a 7-bit address has the effect of the
  calls on the bus, and ends in an idle state.
\<close>

locale i2c_master =
  fixes write_msg :: "u8 \<Rightarrow> u8 list \<Rightarrow> 'm \<Rightarrow> 'm res"
    and read_msg :: "u8 \<Rightarrow> nat \<Rightarrow> 'm \<Rightarrow> (u8 list \<times> 'm) res"
    and idle :: "'m \<Rightarrow> bool" and bus_of :: "'m \<Rightarrow> 'd i2c_bus" and nacks :: bool
  assumes write_msg_ok: "idle m \<Longrightarrow> a < 128 \<Longrightarrow> bus_write a ds (bus_of m) = Inr b \<Longrightarrow>
      \<exists>m'. write_msg a ds m = Inr m' \<and> idle m' \<and> bus_of m' = b"
    and read_msg_ok: "idle m \<Longrightarrow> a < 128 \<Longrightarrow> bus_read nacks a (Suc n) (bus_of m) = Inr (vs, b) \<Longrightarrow>
      \<exists>m'. read_msg a (Suc n) m = Inr (vs, m') \<and> idle m' \<and> bus_of m' = b"

locale register_master = i2c_master write_msg read_msg idle bus_of nacks
  for write_msg :: "u8 \<Rightarrow> u8 list \<Rightarrow> 'm \<Rightarrow> 'm res" and read_msg and idle
    and bus_of :: "'m \<Rightarrow> 'r I2CAddressableState i2c_bus" and nacks
begin

text \<open>A register written in one message is read back by the next two, as the handlers of the slave have it.\<close>

lemma register_access:
  assumes "idle m" and "a < 128" and s: "slave_at a i t (bus_of m)" and t: "addr_size t = 1" "write_cb t = Some wr" "read_cb t = Some rd"
    and wr: "wr (device (slave i (bus_of m))) (ucast r) 0 v = Inr x" and rd: "rd x (ucast r) 0 = Inr (w, y)"
  shows "\<exists>m1 m2 m3. write_msg a [r, v] m = Inr m1 \<and> write_msg a [r] m1 = Inr m2 \<and> read_msg a 1 m2 = Inr ([w], m3)
    \<and> device (slave i (bus_of m3)) = y \<and> slave_at a i t (bus_of m3) \<and> idle m3"
proof -
  let ?d = "slave i (bus_of m)"
  note less = slave_at_less [OF s]
  obtain m1 where m1: "write_msg a [r, v] m = Inr m1" "idle m1"
    "bus_of m1 = slave_put i (?d\<lparr>addr := ucast r, num := 2, device := x\<rparr>) (bus_of m)"
    using write_msg_ok [OF assms(1,2) bus_write_register [OF s t(1,2) wr]] by auto
  then have s1: "slave_at a i t (bus_of m1)" using s by simp
  obtain m2 where m2: "write_msg a [r] m1 = Inr m2" "idle m2"
    "bus_of m2 = slave_put i (?d\<lparr>addr := ucast r, num := 1, device := x\<rparr>) (bus_of m)"
    using write_msg_ok [OF m1(2) assms(2) bus_select_register [OF s1 t(1)]] less by (auto simp: m1(3))
  then have s2: "slave_at a i t (bus_of m2)" using s by simp
  have "rd (device (slave i (bus_of m2))) (addr (slave i (bus_of m2))) 0 = Inr (w, y)"
    using rd less by (simp add: m2(3))
  from read_msg_ok [OF m2(2) assms(2), of 0] bus_read_register [OF s2 t(3) this, of nacks]
  obtain m3 where m3: "read_msg a 1 m2 = Inr ([w], m3)" "idle m3"
    "bus_of m3 = slave_put i ((slave i (bus_of m2))\<lparr>num := 1, device := y\<rparr>) (bus_of m2)"
    by auto
  have "device (slave i (bus_of m3)) = y" "slave_at a i t (bus_of m3)" using m3(3) s2 slave_at_less [OF s2] by simp_all
  with m1(1) m2(1) m3(1,2) show ?thesis by blast
qed

end

end
