(* ===== verification/Bitbang_I2c.thy ===== *)
theory Bitbang_I2c
  imports I2c_Bus
begin

text \<open>
  The I2C master behind two GPIO pins: the state machine of \<^verbatim>\<open>hw/bitbang_i2c.c\<close>, which decodes the
  levels of the clock and data line into calls on the bus, and the pins of
  \<^verbatim>\<open>hw/s5pc1xx_i2c_gpio.c\<close> in front of it.
\<close>

section \<open>The state machine\<close>

text \<open>The states are the numbers of the C enumeration, which the code also counts up.\<close>

abbreviation (input) STOPPED :: nat where "STOPPED \<equiv> 0"
abbreviation (input) SENDING_BIT7 :: nat where "SENDING_BIT7 \<equiv> 1"
abbreviation (input) SENDING_BIT0 :: nat where "SENDING_BIT0 \<equiv> 8"
abbreviation (input) WAITING_FOR_ACK :: nat where "WAITING_FOR_ACK \<equiv> 9"
abbreviation (input) RECEIVING_BIT7 :: nat where "RECEIVING_BIT7 \<equiv> 10"
abbreviation (input) RECEIVING_BIT0 :: nat where "RECEIVING_BIT0 \<equiv> 17"
abbreviation (input) SENDING_ACK :: nat where "SENDING_ACK \<equiv> 18"

record 'd bitbang_i2c_interface =
  bus :: "'d i2c_bus"
  state :: nat
  last_data :: int
  last_clock :: int
  device_out :: int
  buffer :: u8
  current_addr :: int

abbreviation (input) BITBANG_I2C_SDA :: nat where "BITBANG_I2C_SDA \<equiv> 0"
abbreviation (input) BITBANG_I2C_SCL :: nat where "BITBANG_I2C_SCL \<equiv> 1"

definition bitbang_i2c_enter_stop :: "'d bitbang_i2c_interface \<Rightarrow> 'd bitbang_i2c_interface res" where
  "bitbang_i2c_enter_stop i2c =
     rbind (if current_addr i2c \<ge> 0 then i2c_end_transfer (bus i2c) else Inr (bus i2c)) (\<lambda>b.
       Inr (i2c\<lparr>bus := b, current_addr := - 1, state := STOPPED\<rparr>))"

definition bitbang_i2c_ret :: "'d bitbang_i2c_interface \<Rightarrow> int \<Rightarrow> int \<times> 'd bitbang_i2c_interface" where
  "bitbang_i2c_ret i2c level = (level AND last_data i2c, i2c\<lparr>device_out := level\<rparr>)"

definition bitbang_i2c_nop :: "'d bitbang_i2c_interface \<Rightarrow> int \<times> 'd bitbang_i2c_interface" where
  "bitbang_i2c_nop i2c = bitbang_i2c_ret i2c (device_out i2c)"

text \<open>The action at a rising clock edge, by the state.\<close>

definition bitbang_clock :: "'d bitbang_i2c_interface \<Rightarrow> (int \<times> 'd bitbang_i2c_interface) res" where
  "bitbang_clock i2c =
     (let data = last_data i2c in
      if state i2c = STOPPED then Inr (bitbang_i2c_ret i2c 1)
      else if SENDING_BIT7 \<le> state i2c \<and> state i2c \<le> SENDING_BIT0 then
        Inr (bitbang_i2c_ret (i2c\<lparr>buffer := push_bit 1 (buffer i2c) OR of_int data, state := state i2c + 1\<rparr>) 1)
      else if state i2c = WAITING_FOR_ACK then
        rbind (if current_addr i2c < 0 then
                 let i2c = i2c\<lparr>current_addr := uint (buffer i2c)\<rparr> in
                 rbind (i2c_start_transfer (bus i2c) (of_int (drop_bit 1 (current_addr i2c)))
                          (current_addr i2c AND 1 \<noteq> 0)) (\<lambda>(r, b).
                   Inr (i2c\<lparr>bus := b\<rparr>))
               else rbind (i2c_send (bus i2c) (buffer i2c)) (\<lambda>(r, b). Inr (i2c\<lparr>bus := b\<rparr>))) (\<lambda>i2c.
        let i2c = (if current_addr i2c AND 1 \<noteq> 0 then i2c\<lparr>state := RECEIVING_BIT7\<rparr>
                   else i2c\<lparr>state := SENDING_BIT7\<rparr>)
        in Inr (bitbang_i2c_ret i2c 0))
      else if RECEIVING_BIT7 \<le> state i2c \<and> state i2c \<le> RECEIVING_BIT0 then
        rbind (if state i2c = RECEIVING_BIT7 then
                 rbind (i2c_recv (bus i2c)) (\<lambda>(r, b). Inr (i2c\<lparr>bus := b, buffer := of_int r\<rparr>))
               else Inr i2c) (\<lambda>i2c.
        let data = uint (drop_bit 7 (buffer i2c)) in
        Inr (bitbang_i2c_ret (i2c\<lparr>state := state i2c + 1, buffer := push_bit 1 (buffer i2c)\<rparr>) data))
      else if state i2c = SENDING_ACK then
        rbind (if data \<noteq> 0 then
                 rbind (i2c_nack (bus i2c)) (\<lambda>b. Inr (i2c\<lparr>state := STOPPED, bus := b\<rparr>))
               else Inr (i2c\<lparr>state := RECEIVING_BIT7\<rparr>)) (\<lambda>i2c.
        Inr (bitbang_i2c_ret i2c 1))
      else Inl (HwError ''abort''))"

definition bitbang_i2c_set ::
    "'d bitbang_i2c_interface \<Rightarrow> nat \<Rightarrow> int \<Rightarrow> (int \<times> 'd bitbang_i2c_interface) res" where
  "bitbang_i2c_set i2c line level =
     (if level \<noteq> 0 \<and> level \<noteq> 1 then Inl (HwError ''abort'')
      else if line = BITBANG_I2C_SDA then
        if level = last_data i2c then Inr (bitbang_i2c_nop i2c)
        else
          let i2c = i2c\<lparr>last_data := level\<rparr> in
          if last_clock i2c = 0 then Inr (bitbang_i2c_nop i2c)
          else
            rbind (if level = 0 then Inr (i2c\<lparr>state := SENDING_BIT7, current_addr := - 1\<rparr>)
                   else bitbang_i2c_enter_stop i2c) (\<lambda>i2c.
            Inr (bitbang_i2c_ret i2c 1))
      else if last_clock i2c = level then Inr (bitbang_i2c_nop i2c)
      else
        let i2c = i2c\<lparr>last_clock := level\<rparr> in
        if level = 0 then Inr (bitbang_i2c_ret i2c 1) else bitbang_clock i2c)"

text \<open>The structure is zeroed when it is allocated, so \<^verbatim>\<open>current_addr\<close> starts as 0.\<close>

definition bitbang_i2c_init :: "'d i2c_bus \<Rightarrow> 'd bitbang_i2c_interface" where
  "bitbang_i2c_init b = \<lparr>bus = b, state = STOPPED, last_data = 1, last_clock = 1, device_out = 1,
     buffer = 0, current_addr = 0\<rparr>"

text \<open>The same state machine behind interrupt lines instead of pins, as other boards use it.\<close>

record 'd GPIOI2CState =
  gpio_bitbang :: "'d bitbang_i2c_interface"
  last_level :: int
  gpio_out :: "unit irq_log"

definition bitbang_i2c_gpio_set :: "'d GPIOI2CState \<Rightarrow> nat \<Rightarrow> int \<Rightarrow> 'd GPIOI2CState res" where
  "bitbang_i2c_gpio_set s irq level =
     rbind (bitbang_i2c_set (gpio_bitbang s) irq level) (\<lambda>(level, b).
       let s = s\<lparr>gpio_bitbang := b\<rparr> in
       Inr (if level \<noteq> last_level s
            then s\<lparr>last_level := level, gpio_out := qemu_set_irq () (level \<noteq> 0) (gpio_out s)\<rparr> else s))"

section \<open>The pins\<close>

record 'd S5pc1xxI2CGPIOState =
  bitbang :: "'d bitbang_i2c_interface"
  sda :: int
  scl :: int

abbreviation (input) GPIO_IDX_I2C_SCL :: nat where "GPIO_IDX_I2C_SCL \<equiv> 1"
abbreviation (input) SDA_PIN_NUM :: nat where "SDA_PIN_NUM \<equiv> 2"
abbreviation (input) GIPIO_CONF_INPUT :: u32 where "GIPIO_CONF_INPUT \<equiv> 0"

definition s5pc1xx_i2c_gpio_reset :: "'d S5pc1xxI2CGPIOState \<Rightarrow> 'd S5pc1xxI2CGPIOState" where
  "s5pc1xx_i2c_gpio_reset s = s\<lparr>sda := 1, scl := 1\<rparr>"

definition s5pc1xx_i2c_bitbang_set_conf ::
    "'d S5pc1xxI2CGPIOState \<Rightarrow> nat \<Rightarrow> u32 \<Rightarrow> 'd S5pc1xxI2CGPIOState res" where
  "s5pc1xx_i2c_bitbang_set_conf s io_index conf =
     (let level = (if conf = GIPIO_CONF_INPUT then 1 else 0) in
      if io_index = SDA_PIN_NUM then
        rbind (bitbang_i2c_set (bitbang s) BITBANG_I2C_SDA level) (\<lambda>(v, b). Inr (s\<lparr>bitbang := b, sda := v\<rparr>))
      else
        rbind (bitbang_i2c_set (bitbang s) BITBANG_I2C_SCL level) (\<lambda>(v, b).
          Inr (s\<lparr>bitbang := b, sda := v, scl := level\<rparr>)))"

definition s5pc1xx_i2c_bitbang_read :: "'d S5pc1xxI2CGPIOState \<Rightarrow> nat \<Rightarrow> u32" where
  "s5pc1xx_i2c_bitbang_read s io_index = (if io_index = SDA_PIN_NUM then of_int (sda s) else of_int (scl s))"

definition s5pc1xx_i2c_gpio_init1 :: "'d i2c_bus \<Rightarrow> 'd S5pc1xxI2CGPIOState" where
  "s5pc1xx_i2c_gpio_init1 b = s5pc1xx_i2c_gpio_reset \<lparr>bitbang = bitbang_i2c_init b, sda = 0, scl = 0\<rparr>"

section \<open>A driver of the pins\<close>

text \<open>
  The guest's side of the protocol, as the bit-banging driver of a kernel runs it: a pin is
  released by configuring it as an input and pulled low by configuring it as an output.  Every
  bit is put on the data line, sampled while the clock is high, and ended by a low clock.
\<close>

text \<open>The driver is written over an operation that sets a pin and one that samples the data pin.\<close>

type_synonym 's pin_set = "nat \<Rightarrow> bool \<Rightarrow> 's \<Rightarrow> 's res"
type_synonym 's pin_get = "'s \<Rightarrow> (bool \<times> 's) res"

definition drv_start :: "'s pin_set \<Rightarrow> 's \<Rightarrow> 's res" where
  "drv_start pset s = rbind (pset SDA_PIN_NUM False s) (pset GPIO_IDX_I2C_SCL False)"

definition drv_bit :: "'s pin_set \<Rightarrow> 's pin_get \<Rightarrow> bool \<Rightarrow> 's \<Rightarrow> (bool \<times> 's) res" where
  "drv_bit pset pget level s = rbind (pset SDA_PIN_NUM level s) (\<lambda>s.
     rbind (pset GPIO_IDX_I2C_SCL True s) (\<lambda>s.
     rbind (pget s) (\<lambda>(sample, s).
     rbind (pset GPIO_IDX_I2C_SCL False s) (\<lambda>s. Inr (sample, s)))))"

definition drv_stop :: "'s pin_set \<Rightarrow> 's \<Rightarrow> 's res" where
  "drv_stop pset s = rbind (pset SDA_PIN_NUM False s) (\<lambda>s.
     rbind (pset GPIO_IDX_I2C_SCL True s) (pset SDA_PIN_NUM True))"

text \<open>Bytes go most significant bit first; the ninth bit is the acknowledgement, low for yes.\<close>

definition drv_put :: "'s pin_set \<Rightarrow> 's pin_get \<Rightarrow> u8 \<Rightarrow> 's \<Rightarrow> (bool \<times> 's) res" where
  "drv_put pset pget d s = rbind (rfold (\<lambda>k s. rbind (drv_bit pset pget (bit d k) s) (\<lambda>(v, s). Inr s)) [7, 6, 5, 4, 3, 2, 1, 0] s) (\<lambda>s.
     rbind (drv_bit pset pget True s) (\<lambda>(v, s). Inr (\<not> v, s)))"

definition drv_get :: "'s pin_set \<Rightarrow> 's pin_get \<Rightarrow> bool \<Rightarrow> 's \<Rightarrow> (u8 \<times> 's) res" where
  "drv_get pset pget ack s = rbind (rfold (\<lambda>k (w, s). rbind (drv_bit pset pget True s) (\<lambda>(v, s). Inr (shift_in w v, s)))
        [7, 6, 5, 4, 3, 2, 1, 0 :: nat] (0, s)) (\<lambda>(w, s).
     rbind (drv_bit pset pget (\<not> ack) s) (\<lambda>(v, s). Inr (w, s)))"

primrec drv_put_all :: "'s pin_set \<Rightarrow> 's pin_get \<Rightarrow> u8 list \<Rightarrow> 's \<Rightarrow> (bool \<times> 's) res" where
  "drv_put_all pset pget [] s = Inr (True, s)"
| "drv_put_all pset pget (d # ds) s = rbind (drv_put pset pget d s) (\<lambda>(ack, s).
     rbind (drv_put_all pset pget ds s) (\<lambda>(acks, s). Inr (ack \<and> acks, s)))"

primrec drv_get_all :: "'s pin_set \<Rightarrow> 's pin_get \<Rightarrow> nat \<Rightarrow> 's \<Rightarrow> (u8 list \<times> 's) res" where
  "drv_get_all pset pget 0 s = Inr ([], s)"
| "drv_get_all pset pget (Suc n) s = rbind (drv_get pset pget (n \<noteq> 0) s) (\<lambda>(v, s).
     rbind (drv_get_all pset pget n s) (\<lambda>(vs, s). Inr (v # vs, s)))"

definition drv_write :: "'s pin_set \<Rightarrow> 's pin_get \<Rightarrow> u8 \<Rightarrow> u8 list \<Rightarrow> 's \<Rightarrow> (bool \<times> 's) res" where
  "drv_write pset pget a ds s = rbind (drv_start pset s) (\<lambda>s.
     rbind (drv_put_all pset pget (shift_in a False # ds) s) (\<lambda>(acks, s).
     rbind (drv_stop pset s) (\<lambda>s. Inr (acks, s))))"

definition drv_read :: "'s pin_set \<Rightarrow> 's pin_get \<Rightarrow> u8 \<Rightarrow> nat \<Rightarrow> 's \<Rightarrow> (u8 list \<times> 's) res" where
  "drv_read pset pget a n s = rbind (drv_start pset s) (\<lambda>s.
     rbind (drv_put pset pget (shift_in a True) s) (\<lambda>(ack, s).
     rbind (drv_get_all pset pget n s) (\<lambda>(vs, s).
     rbind (drv_stop pset s) (\<lambda>s. Inr (vs, s)))))"

text \<open>On the pins themselves: the handlers that the GPIO controller calls.\<close>

definition set_pin :: "'d S5pc1xxI2CGPIOState pin_set" where
  "set_pin pin level s = s5pc1xx_i2c_bitbang_set_conf s pin (if level then GIPIO_CONF_INPUT else 1)"

definition get_pin :: "'d S5pc1xxI2CGPIOState pin_get" where
  "get_pin s = Inr (s5pc1xx_i2c_bitbang_read s SDA_PIN_NUM \<noteq> 0, s)"

abbreviation "gpio_start \<equiv> drv_start set_pin"
abbreviation "gpio_bit \<equiv> drv_bit set_pin get_pin"
abbreviation "gpio_stop \<equiv> drv_stop set_pin"
abbreviation "gpio_put \<equiv> drv_put set_pin get_pin"
abbreviation "gpio_get \<equiv> drv_get set_pin get_pin"
abbreviation "gpio_put_all \<equiv> drv_put_all set_pin get_pin"
abbreviation "gpio_get_all \<equiv> drv_get_all set_pin get_pin"
abbreviation "gpio_write \<equiv> drv_write set_pin get_pin"
abbreviation "gpio_read \<equiv> drv_read set_pin get_pin"

section \<open>Bits and bytes\<close>

text \<open>The master between two messages, and within a message with the clock low.\<close>

definition gpio_idle :: "'d S5pc1xxI2CGPIOState \<Rightarrow> bool" where
  "gpio_idle s \<longleftrightarrow> state (bitbang s) = STOPPED \<and> last_data (bitbang s) = 1 \<and> last_clock (bitbang s) = 1
     \<and> device_out (bitbang s) = 1 \<and> sda s = 1 \<and> scl s = 1"

definition xfer :: "'d i2c_bus \<Rightarrow> nat \<Rightarrow> bool \<Rightarrow> u8 \<Rightarrow> int \<Rightarrow> 'd S5pc1xxI2CGPIOState" where
  "xfer b st d buf ca = \<lparr>bitbang = \<lparr>bus = b, state = st, last_data = of_bool d, last_clock = 0, device_out = 1,
     buffer = buf, current_addr = ca\<rparr>, sda = of_bool d, scl = 0\<rparr>"

definition rest :: "'d i2c_bus \<Rightarrow> u8 \<Rightarrow> 'd S5pc1xxI2CGPIOState" where
  "rest b buf = \<lparr>bitbang = \<lparr>bus = b, state = STOPPED, last_data = 1, last_clock = 1, device_out = 1,
     buffer = buf, current_addr = - 1\<rparr>, sda = 1, scl = 1\<rparr>"

lemma rest_idle [simp]: "gpio_idle (rest b buf)" "bus (bitbang (rest b buf)) = b"
  by (simp_all add: rest_def gpio_idle_def)

lemmas pin_defs = set_pin_def s5pc1xx_i2c_bitbang_set_conf_def s5pc1xx_i2c_bitbang_read_def bitbang_i2c_set_def
  bitbang_i2c_nop_def bitbang_i2c_ret_def

lemma gpio_start_idle:
  assumes "gpio_idle s"
  shows "gpio_start s = Inr (xfer (bus (bitbang s)) SENDING_BIT7 False (buffer (bitbang s)) (- 1))"
  using assms by (simp add: drv_start_def gpio_idle_def pin_defs xfer_def)

text \<open>A bit is the action of the state machine at the rising edge, with the clock low again after it.\<close>

definition clock_up :: "bool \<Rightarrow> 'd i2c_bus \<Rightarrow> nat \<Rightarrow> u8 \<Rightarrow> int \<Rightarrow> 'd bitbang_i2c_interface" where
  "clock_up v b st buf ca = \<lparr>bus = b, state = st, last_data = of_bool v, last_clock = 1, device_out = 1,
     buffer = buf, current_addr = ca\<rparr>"

definition clock_down :: "int \<Rightarrow> 'd bitbang_i2c_interface \<Rightarrow> (bool \<times> 'd S5pc1xxI2CGPIOState) res" where
  "clock_down r i2c = rbind (set_pin GPIO_IDX_I2C_SCL False \<lparr>bitbang = i2c, sda = r, scl = 1\<rparr>) (\<lambda>s.
     Inr ((of_int r :: u32) \<noteq> 0, s))"

lemma clock_up_low: "set_pin SDA_PIN_NUM v (xfer b st d buf ca) = Inr (xfer b st v buf ca)"
  by (cases v; cases d) (simp_all add: pin_defs xfer_def)

lemma clock_up_high: "set_pin GPIO_IDX_I2C_SCL True (xfer b st v buf ca) =
  rbind (bitbang_clock (clock_up v b st buf ca)) (\<lambda>(r, i2c). Inr \<lparr>bitbang = i2c, sda = r, scl = 1\<rparr>)"
  by (cases "bitbang_clock (clock_up v b st buf ca)")
     (auto simp: pin_defs xfer_def clock_up_def split: prod.splits)

lemma gpio_bit_xfer:
  "gpio_bit v (xfer b st d buf ca) =
     rbind (bitbang_clock (clock_up v b st buf ca)) (\<lambda>(r, i2c). clock_down r i2c)"
  unfolding drv_bit_def get_pin_def clock_up_low rbind_Inr clock_up_high clock_down_def rbind_assoc
  by (intro rbind_cong) (auto simp: s5pc1xx_i2c_bitbang_read_def)

lemma clock_down_up:
  "clock_down (of_bool x) ((clock_up v b st buf ca)\<lparr>device_out := o'\<rparr>) = Inr (x, xfer b st v buf ca)"
  by (cases v; cases x) (simp_all add: clock_down_def clock_up_def pin_defs xfer_def)

lemma gpio_bit_sending:
  assumes "SENDING_BIT7 \<le> st" and "st \<le> SENDING_BIT0"
  shows "gpio_bit v (xfer b st d buf ca) = Inr (v, xfer b (st + 1) v (shift_in buf v) ca)"
proof -
  have "bitbang_clock (clock_up v b st buf ca) =
    Inr (of_bool v, (clock_up v b (st + 1) (push_bit 1 buf OR of_bool v) ca)\<lparr>device_out := 1\<rparr>)"
    using assms by (cases v) (simp_all add: bitbang_clock_def clock_up_def bitbang_i2c_ret_def)
  then show ?thesis by (simp add: gpio_bit_xfer clock_down_up shift_in_def)
qed

text \<open>The state machine at the rising edge: the new state is the old one with some fields changed.\<close>

lemma clock_down_clock:
  assumes "bitbang_clock (clock_up v b st buf ca) = rbind m (\<lambda>x. Inr (of_bool (f x), (clock_up v (g x) (h x) (k x) (c x))\<lparr>device_out := p x\<rparr>))"
  shows "gpio_bit v (xfer b st d buf ca) = rbind m (\<lambda>x. Inr (f x, xfer (g x) (h x) v (k x) (c x)))"
  unfolding gpio_bit_xfer assms rbind_assoc by (intro rbind_cong) (simp_all add: clock_down_up)

lemma uint_and_1: "uint (buf :: u8) AND 1 = of_bool (bit buf 0)"
  using bit_uint_iff [of buf 0] by (simp add: and_one_eq bit_0 mod2_eq_if)

lemma of_int_drop_uint: "(of_int (drop_bit 1 (uint buf)) :: u8) = drop_bit 1 buf"
  by (rule bit_word_eqI) (simp add: bit_simps)

lemma uint_top_bit: "uint (drop_bit 7 buf :: u8) = of_bool (bit buf 7)"
proof -
  have "drop_bit 7 buf = of_bool (bit buf 7)"
  proof (rule u8_eqI)
    show "bit (drop_bit 7 buf) n = bit (of_bool (bit buf 7) :: u8) n" for n
      using bit_imp_le_length [of buf "7 + n"] by (cases n) (auto simp: bit_drop_bit_eq bit_of_bool_iff)
  qed
  then show ?thesis by simp
qed

lemma gpio_bit_ack_addr:
  "gpio_bit True (xfer b WAITING_FOR_ACK d buf (- 1)) =
     rbind (i2c_start_transfer b (drop_bit 1 buf) (bit buf 0)) (\<lambda>(r, b).
       Inr (False, xfer b (if bit buf 0 then RECEIVING_BIT7 else SENDING_BIT7) True buf (uint buf)))"
  unfolding case_prod_beta
  by (rule clock_down_clock [where p = "\<lambda>_. 0"], cases "i2c_start_transfer b (drop_bit 1 buf) (bit buf 0)")
     (auto simp: bitbang_clock_def clock_up_def bitbang_i2c_ret_def uint_and_1 of_int_drop_uint Let_def case_prod_beta
        simp del: One_nat_def)

lemma gpio_bit_ack_data:
  assumes "ca \<ge> 0" and "even ca"
  shows "gpio_bit True (xfer b WAITING_FOR_ACK d buf ca) =
     rbind (i2c_send b buf) (\<lambda>(r, b). Inr (False, xfer b SENDING_BIT7 True buf ca))"
proof -
  have "ca AND 1 = 0" using assms(2) by (simp add: and_one_eq)
  then show ?thesis
    unfolding case_prod_beta using assms(1)
    by (intro clock_down_clock [where p = "\<lambda>_. 0"], cases "i2c_send b buf")
       (auto simp: bitbang_clock_def clock_up_def bitbang_i2c_ret_def Let_def case_prod_beta)
qed

lemma gpio_bit_receiving:
  assumes "RECEIVING_BIT7 < st" and "st \<le> RECEIVING_BIT0"
  shows "gpio_bit True (xfer b st d buf ca) = Inr (bit buf 7, xfer b (st + 1) True (push_bit 1 buf) ca)"
  using clock_down_clock [of True b st buf ca "Inr ()" "\<lambda>_. bit buf 7" "\<lambda>_. of_bool (bit buf 7)" "\<lambda>_. b" "\<lambda>_. st + 1"
    "\<lambda>_. push_bit 1 buf" "\<lambda>_. ca"] assms
  by (simp add: bitbang_clock_def clock_up_def bitbang_i2c_ret_def Let_def uint_top_bit)

lemma gpio_bit_first:
  "gpio_bit True (xfer b RECEIVING_BIT7 d buf ca) = rbind (i2c_recv b) (\<lambda>(r, b).
     Inr (bit (of_int r :: u8) 7, xfer b (RECEIVING_BIT7 + 1) True (push_bit 1 (of_int r)) ca))"
  unfolding case_prod_beta
  by (rule clock_down_clock [where p = "\<lambda>x. of_bool (bit (of_int (fst x) :: u8) 7)"], cases "i2c_recv b")
     (auto simp: bitbang_clock_def clock_up_def bitbang_i2c_ret_def Let_def case_prod_beta uint_top_bit)

lemma gpio_bit_nack:
  "gpio_bit True (xfer b SENDING_ACK d buf ca) = rbind (i2c_nack b) (\<lambda>b. Inr (True, xfer b STOPPED True buf ca))"
  by (rule clock_down_clock [where p = "\<lambda>_. 1"], cases "i2c_nack b")
     (auto simp: bitbang_clock_def clock_up_def bitbang_i2c_ret_def)

lemma gpio_bit_more:
  "gpio_bit False (xfer b SENDING_ACK d buf ca) = Inr (False, xfer b RECEIVING_BIT7 False buf ca)"
  using clock_down_clock [of False b SENDING_ACK buf ca "Inr ()" "\<lambda>_. False" "\<lambda>_. 1" "\<lambda>_. b"
    "\<lambda>_. RECEIVING_BIT7" "\<lambda>_. buf" "\<lambda>_. ca"]
  by (simp add: bitbang_clock_def clock_up_def bitbang_i2c_ret_def)

lemma gpio_put_bits:
  "rfold (\<lambda>k s. rbind (gpio_bit (bit d k) s) (\<lambda>(v, s). Inr s)) [7, 6, 5, 4, 3, 2, 1, 0] (xfer b SENDING_BIT7 e buf ca)
   = Inr (xfer b WAITING_FOR_ACK (bit d 0) d ca)"
proof -
  let ?w = "\<lambda>k w. shift_in w (bit d k)"
  have "?w 0 (?w 1 (?w 2 (?w 3 (?w 4 (?w 5 (?w 6 (?w 7 buf))))))) = d"
    by (rule u8_eqI, erule u8_bit_cases) (simp_all add: bit_shift_in del: One_nat_def)
  then show ?thesis by (simp add: gpio_bit_sending del: One_nat_def)
qed

lemma gpio_put_addr:
  "gpio_put d (xfer b SENDING_BIT7 e buf (- 1)) = rbind (i2c_start_transfer b (drop_bit 1 d) (bit d 0)) (\<lambda>(r, b).
     Inr (True, xfer b (if bit d 0 then RECEIVING_BIT7 else SENDING_BIT7) True d (uint d)))"
  unfolding drv_put_def gpio_put_bits rbind_Inr gpio_bit_ack_addr rbind_assoc
  by (intro rbind_cong) (auto simp: case_prod_beta)

lemma gpio_put_data:
  assumes "ca \<ge> 0" and "even ca"
  shows "gpio_put d (xfer b SENDING_BIT7 e buf ca) = rbind (i2c_send b d) (\<lambda>(r, b).
     Inr (True, xfer b SENDING_BIT7 True d ca))"
  unfolding drv_put_def gpio_put_bits rbind_Inr gpio_bit_ack_data [OF assms] rbind_assoc
  by (intro rbind_cong) (auto simp: case_prod_beta)

lemma gpio_put_all_eq:
  assumes "ca \<ge> 0" and "even ca"
  shows "gpio_put_all ds (xfer b SENDING_BIT7 e buf ca) = rbind (bus_send_all ds b) (\<lambda>b.
     Inr (True, xfer b SENDING_BIT7 (ds \<noteq> [] \<or> e) (if ds = [] then buf else last ds) ca))"
proof (induction ds arbitrary: b e buf)
  case (Cons d ds)
  show ?case
    unfolding drv_put_all.simps gpio_put_data [OF assms] bus_send_all.simps rbind_assoc
    by (intro rbind_cong) (auto simp: Cons.IH rbind_assoc case_prod_beta intro!: rbind_cong simp del: One_nat_def)
qed simp

definition shifted :: "nat \<Rightarrow> u8 \<Rightarrow> u8" where
  "shifted k w = push_bit k w"

lemma bit_shifted [simp]: "bit (shifted k w) 7 \<longleftrightarrow> k \<le> 7 \<and> bit w (7 - k)"
  by (auto simp: shifted_def bit_push_bit_iff)

lemma shifted_Suc: "push_bit 1 (shifted k w) = shifted (k + 1) w"
  by (simp add: shifted_def push_bit_push_bit)

lemma shifted_8: "shifted 8 w = 0"
  unfolding shifted_def by (rule bit_word_eqI) (auto simp: bit_push_bit_iff)

lemma gpio_get_bits:
  "rfold (\<lambda>k (w, s). rbind (gpio_bit True s) (\<lambda>(v, s). Inr (shift_in w v, s))) [7, 6, 5, 4, 3, 2, 1, 0 :: nat]
     (0, xfer b RECEIVING_BIT7 e buf ca) =
   rbind (i2c_recv b) (\<lambda>(r, b). Inr (of_int r, xfer b SENDING_ACK True 0 ca))"
proof -
  let ?w = "\<lambda>d k w. shift_in w (bit d k)"
  have byte: "?w d 0 (?w d 1 (?w d 2 (?w d 3 (?w d 4 (?w d 5 (?w d 6 (?w d 7 0))))))) = d" for d
    by (rule u8_eqI, erule u8_bit_cases) (simp_all add: bit_shift_in del: One_nat_def)
  have rest: "gpio_bit True (xfer b st d (shifted k w) ca) =
      Inr (bit (shifted k w) 7, xfer b (st + 1) True (shifted (k + 1) w) ca)"
    if "RECEIVING_BIT7 < st" "st \<le> RECEIVING_BIT0" for b st d k w
    by (simp only: gpio_bit_receiving [OF that] shifted_Suc)
  have first: "push_bit 1 w = shifted 1 w" for w by (simp add: shifted_def)
  show ?thesis
    by (cases "i2c_recv b") (auto simp: gpio_bit_first first rest byte [unfolded One_nat_def] shifted_8 simp del: One_nat_def push_bit_Suc)
qed

lemma gpio_get_eq:
  "gpio_get ack (xfer b RECEIVING_BIT7 e buf ca) = rbind (i2c_recv b) (\<lambda>(r, b).
     if ack then Inr (of_int r, xfer b RECEIVING_BIT7 False 0 ca)
     else rbind (i2c_nack b) (\<lambda>b. Inr (of_int r, xfer b STOPPED True 0 ca)))"
  unfolding drv_get_def gpio_get_bits rbind_assoc
  by (intro rbind_cong) (auto simp: gpio_bit_nack gpio_bit_more rbind_assoc)

lemma gpio_get_all_eq:
  "gpio_get_all (Suc n) (xfer b RECEIVING_BIT7 e buf ca) = rbind (bus_recv_all (Suc n) b) (\<lambda>(vs, b).
     rbind (i2c_nack b) (\<lambda>b. Inr (vs, xfer b STOPPED True 0 ca)))"
proof (induction n arbitrary: b e buf)
  case 0
  show ?case by (simp add: gpio_get_eq rbind_assoc case_prod_beta)
next
  case (Suc n)
  show ?case
    unfolding drv_get_all.simps(2) [of _ _ "Suc n"] bus_recv_all.simps(2) [of "Suc n"] gpio_get_eq rbind_assoc
    by (intro rbind_cong) (auto simp: Suc.IH rbind_assoc case_prod_beta simp del: drv_get_all.simps bus_recv_all.simps)
qed

text \<open>The rising clock of the stop condition adds one more bit to the byte that is then abandoned.\<close>

lemma gpio_stop_eq:
  assumes "st = STOPPED \<or> st = SENDING_BIT7" and "ca \<ge> 0"
  shows "gpio_stop (xfer b st e buf ca) = rbind (i2c_end_transfer b) (\<lambda>b.
     Inr (rest b (if st = STOPPED then buf else push_bit 1 buf)))"
  using assms
  by (cases e; cases "i2c_end_transfer b")
     (auto simp: drv_stop_def xfer_def rest_def pin_defs bitbang_clock_def bitbang_i2c_enter_stop_def)

section \<open>Messages\<close>

lemma gpio_write_eq:
  assumes "gpio_idle s" and "a < 128"
  shows "\<exists>f. gpio_write a ds s = rbind (bus_write a ds (bus (bitbang s))) (\<lambda>b. Inr (True, rest b f))"
proof -
  define d where "d = shift_in a False"
  note addr = shift_addr [OF assms(2), of False, folded d_def]
  let ?f = "push_bit 1 (if ds = [] then d else last ds)"
  have "rbind (gpio_put_all (d # ds) (xfer (bus (bitbang s)) SENDING_BIT7 False (buffer (bitbang s)) (- 1))) (\<lambda>(acks, s).
      rbind (gpio_stop s) (\<lambda>s. Inr (acks, s)))
    = rbind (bus_write a ds (bus (bitbang s))) (\<lambda>b. Inr (True, rest b ?f))"
    unfolding drv_put_all.simps gpio_put_addr bus_write_def rbind_assoc addr(1) using addr(2,3)
    by (auto simp: gpio_put_all_eq gpio_stop_eq rbind_assoc case_prod_beta simp del: One_nat_def push_bit_Suc intro!: rbind_cong)
  then show ?thesis
    unfolding drv_write_def gpio_start_idle [OF assms(1)] d_def [symmetric] rbind_Inr by blast
qed

lemma gpio_read_eq:
  assumes "gpio_idle s" and "a < 128"
  shows "gpio_read a (Suc n) s = rbind (bus_read True a (Suc n) (bus (bitbang s))) (\<lambda>(vs, b). Inr (vs, rest b 0))"
proof -
  define d where "d = shift_in a True"
  note addr = shift_addr [OF assms(2), of True, folded d_def]
  show ?thesis
    unfolding drv_read_def gpio_start_idle [OF assms(1)] d_def [symmetric] rbind_Inr gpio_put_addr bus_read_def rbind_assoc addr(1)
    using addr(2,3)
    by (auto simp: gpio_get_all_eq gpio_stop_eq rbind_assoc case_prod_beta
        simp del: One_nat_def bus_recv_all.simps drv_get_all.simps intro!: rbind_cong)
qed

text \<open>The two pins are a master of the bus.\<close>

definition gpio_write_msg :: "u8 \<Rightarrow> u8 list \<Rightarrow> 'd S5pc1xxI2CGPIOState \<Rightarrow> 'd S5pc1xxI2CGPIOState res" where
  "gpio_write_msg a ds s = rbind (gpio_write a ds s) (\<lambda>(acks, s). Inr s)"

lemma gpio_write_msg_ok:
  assumes "gpio_idle s" and "a < 128" and "bus_write a ds (bus (bitbang s)) = Inr b"
  shows "\<exists>s'. gpio_write_msg a ds s = Inr s' \<and> gpio_idle s' \<and> bus (bitbang s') = b"
  using gpio_write_eq [OF assms(1,2), of ds] assms(3) by (auto simp: gpio_write_msg_def)

lemma gpio_read_msg_ok:
  assumes "gpio_idle s" and "a < 128" and "bus_read True a (Suc n) (bus (bitbang s)) = Inr (vs, b)"
  shows "\<exists>s'. gpio_read a (Suc n) s = Inr (vs, s') \<and> gpio_idle s' \<and> bus (bitbang s') = b"
  using gpio_read_eq [OF assms(1,2), of n] assms(3) by auto

interpretation pins: register_master gpio_write_msg gpio_read gpio_idle "\<lambda>s. bus (bitbang s)" True
  by unfold_locales (fact gpio_write_msg_ok gpio_read_msg_ok)+

lemma gpio_init_idle: "gpio_idle (s5pc1xx_i2c_gpio_init1 b)"
  by (simp add: gpio_idle_def s5pc1xx_i2c_gpio_init1_def s5pc1xx_i2c_gpio_reset_def bitbang_i2c_init_def)

section \<open>Properties\<close>

text \<open>The result of a message, with the bus in place of the pins.\<close>

definition bus_result :: "('a \<times> 'd S5pc1xxI2CGPIOState) res \<Rightarrow> ('a \<times> 'd i2c_bus) res" where
  "bus_result m = rbind m (\<lambda>(x, s). Inr (x, bus (bitbang s)))"

text \<open>
  The pins speak the I2C protocol: a message that a driver writes or reads bit by bit on the
  clock and data pins, start and stop conditions included, has exactly the effect and the result of
  the calls of the bus for the same address and bytes, whatever slaves are on the bus and however
  they react, faults included, and leaves the pins ready for the next message.  Every byte
  written is acknowledged, also when no slave has the address.
\<close>

lemma bitbang_equiv:
  assumes "gpio_idle s" and "a < 128" and "0 < n"
  shows "bus_result (gpio_write a ds s) = rbind (bus_write a ds (bus (bitbang s))) (\<lambda>b. Inr (True, b))
    \<and> bus_result (gpio_read a n s) = bus_read True a n (bus (bitbang s))
    \<and> (\<forall>acks s'. gpio_write a ds s = Inr (acks, s') \<longrightarrow> gpio_idle s')
    \<and> (\<forall>vs s'. gpio_read a n s = Inr (vs, s') \<longrightarrow> gpio_idle s')"
proof -
  obtain m where n: "n = Suc m" using assms(3) by (cases n) auto
  obtain f where w: "gpio_write a ds s = rbind (bus_write a ds (bus (bitbang s))) (\<lambda>b. Inr (True, rest b f))"
    using gpio_write_eq [OF assms(1,2)] by blast
  have "rbind x Inr = x" for x :: "(u8 list \<times> 'a i2c_bus) res" by (cases x) auto
  then show ?thesis
    by (simp add: bus_result_def w n gpio_read_eq [OF assms(1,2)] rbind_assoc rbind_eq_Inr case_prod_beta split: prod.splits)
       auto
qed

text \<open>A slave that counts what it is sent, alone on the bus at address 0x36.\<close>

definition counter_slave :: "nat list i2c_slave" where
  "counter_slave = \<lparr>info = \<lparr>event_cb = (\<lambda>e d. Inr d), recv_cb = (\<lambda>d. Inr (int (length d), 0 # d)),
     send_cb = (\<lambda>v d. Inr (1, unat v # d))\<rparr>, address = 0x36, dev = []\<rparr>"

end
