(* ===== verification/S5pc1xx_I2c.thy ===== *)
theory S5pc1xx_I2c
  imports I2c_Bus
begin

text \<open>
  The I2C controller of the board (\<^verbatim>\<open>hw/s5pc1xx_i2c.c\<close>) and the compass on one of its buses
  (\<^verbatim>\<open>hw/ak8973.c\<close>).
\<close>

section \<open>The controller\<close>

abbreviation (input) I2CCON :: hwaddr where "I2CCON \<equiv> 0x00"
abbreviation (input) I2CSTAT :: hwaddr where "I2CSTAT \<equiv> 0x04"
abbreviation (input) I2CADD :: hwaddr where "I2CADD \<equiv> 0x08"
abbreviation (input) I2CDS :: hwaddr where "I2CDS \<equiv> 0x0c"
abbreviation (input) I2CLC :: hwaddr where "I2CLC \<equiv> 0x10"

abbreviation (input) S5PC1XX_IICCON_IRQEN :: "'a::len word" where "S5PC1XX_IICCON_IRQEN \<equiv> 0x20"
abbreviation (input) S5PC1XX_IICCON_IRQPEND :: "'a::len word" where "S5PC1XX_IICCON_IRQPEND \<equiv> 0x10"
abbreviation (input) S5PC1XX_IICSTAT_START :: "'a::len word" where "S5PC1XX_IICSTAT_START \<equiv> 0x20"
abbreviation (input) S5PC1XX_IICSTAT_TXRXEN :: "'a::len word" where "S5PC1XX_IICSTAT_TXRXEN \<equiv> 0x10"
abbreviation (input) S5PC1XX_IICSTAT_LASTBIT :: "'a::len word" where "S5PC1XX_IICSTAT_LASTBIT \<equiv> 0x01"

record 'd S5pc1xxI2CState =
  i2c_bus :: "'d i2c_bus"
  i2c_irq :: "unit irq_log"
  control :: u8
  status :: u8
  slave_address :: u8
  datashift :: u8
  line_ctrl :: u8
  ibmr :: u8
  data :: u8

definition s5pc1xx_i2c_update :: "'d S5pc1xxI2CState \<Rightarrow> 'd S5pc1xxI2CState" where
  "s5pc1xx_i2c_update s =
     (let level = (status s AND S5PC1XX_IICSTAT_START \<noteq> 0 \<and> control s AND S5PC1XX_IICCON_IRQEN \<noteq> 0);
          level = (if control s AND S5PC1XX_IICCON_IRQPEND \<noteq> 0 then False else level)
      in s\<lparr>i2c_irq := qemu_set_irq () level (i2c_irq s)\<rparr>)"

definition s5pc1xx_i2c_receive :: "'d S5pc1xxI2CState \<Rightarrow> (int \<times> 'd S5pc1xxI2CState) res" where
  "s5pc1xx_i2c_receive s = rbind (i2c_recv (i2c_bus s)) (\<lambda>(r, b). Inr (r, s5pc1xx_i2c_update (s\<lparr>i2c_bus := b\<rparr>)))"

definition s5pc1xx_i2c_send :: "'d S5pc1xxI2CState \<Rightarrow> u8 \<Rightarrow> (int \<times> 'd S5pc1xxI2CState) res" where
  "s5pc1xx_i2c_send s d =
     rbind (if status s AND S5PC1XX_IICSTAT_LASTBIT = 0 then
              let s = s\<lparr>data := d\<rparr> in
              rbind (i2c_send (i2c_bus s) (data s)) (\<lambda>(r, b). Inr (s\<lparr>i2c_bus := b\<rparr>))
            else Inr s) (\<lambda>s.
     Inr (1, s5pc1xx_i2c_update s))"

definition s5pc1xx_i2c_read :: "'d S5pc1xxI2CState \<Rightarrow> hwaddr \<Rightarrow> (u32 \<times> 'd S5pc1xxI2CState) res" where
  "s5pc1xx_i2c_read s offset =
     (if offset = I2CCON then Inr (ucast (control s), s)
      else if offset = I2CSTAT then Inr (ucast (status s), s)
      else if offset = I2CADD then Inr (ucast (slave_address s), s)
      else if offset = I2CDS then
        rbind (s5pc1xx_i2c_receive s) (\<lambda>(r, s). let s = s\<lparr>data := of_int r\<rparr> in Inr (ucast (data s), s))
      else if offset = I2CLC then Inr (ucast (line_ctrl s), s)
      else Inl (HwError ''s5pc1xx_i2c: bad read offset''))"

text \<open>The two master modes act alike, and so do the two slave modes.\<close>

definition i2c_stat_mode :: "u32 \<Rightarrow> 'd S5pc1xxI2CState \<Rightarrow> 'd S5pc1xxI2CState res" where
  "i2c_stat_mode val s =
     (let mode = drop_bit 6 (status s) AND 0x3 in
      if mode = 0 \<or> mode = 1 then
        rbind (s5pc1xx_i2c_receive s) (\<lambda>(r, s). Inr (s\<lparr>data := of_int r\<rparr>))
      else if val AND 0x20 \<noteq> 0 then
        let s = s\<lparr>status := status s AND NOT S5PC1XX_IICSTAT_LASTBIT\<rparr> in
        rbind (i2c_start_transfer (i2c_bus s) (drop_bit 1 (data s)) (data s AND 1 \<noteq> 0)) (\<lambda>(r, b).
          Inr (s\<lparr>i2c_bus := b\<rparr>))
      else
        rbind (i2c_end_transfer (i2c_bus s)) (\<lambda>b.
          Inr (s\<lparr>i2c_bus := b, status := status s OR S5PC1XX_IICSTAT_TXRXEN\<rparr>)))"

definition s5pc1xx_i2c_write :: "'d S5pc1xxI2CState \<Rightarrow> hwaddr \<Rightarrow> u32 \<Rightarrow> 'd S5pc1xxI2CState res" where
  "s5pc1xx_i2c_write s offset val =
     (let s = s\<lparr>i2c_irq := qemu_irq_lower () (i2c_irq s)\<rparr> in
      if offset = I2CCON then
        let s = s\<lparr>control := ucast (val AND 0xff)\<rparr> in
        Inr (if val AND S5PC1XX_IICCON_IRQEN \<noteq> 0 then s5pc1xx_i2c_update s else s)
      else if offset = I2CSTAT then
        let s = s\<lparr>status := ucast (val AND 0xff)\<rparr> in
        rbind (if val AND S5PC1XX_IICSTAT_TXRXEN \<noteq> 0 then i2c_stat_mode val s else Inr s) (\<lambda>s.
          Inr (s5pc1xx_i2c_update s))
      else if offset = I2CADD then Inr (s\<lparr>slave_address := ucast (val AND 0xff)\<rparr>)
      else if offset = I2CDS then
        rbind (s5pc1xx_i2c_send s (ucast (val AND 0xff))) (\<lambda>(r, s). Inr s)
      else if offset = I2CLC then Inr (s\<lparr>line_ctrl := ucast (val AND 0xff)\<rparr>)
      else Inl (HwError ''s5pc1xx_i2c: bad write offset''))"

definition s5pc1xx_i2c_init :: "'d i2c_bus \<Rightarrow> 'd S5pc1xxI2CState" where
  "s5pc1xx_i2c_init b = \<lparr>i2c_bus = b, i2c_irq = [], control = 0, status = 0, slave_address = 0, datashift = 0,
     line_ctrl = 0, ibmr = 0, data = 0\<rparr>"

section \<open>A driver of the controller\<close>

text \<open>
  The register accesses of a message as the driver of the guest makes them: end what may be under
  way, load the address, set the start bit, move the bytes, and end with a stop.
\<close>

definition hw_begin :: "u32 \<Rightarrow> u8 \<Rightarrow> 'd S5pc1xxI2CState \<Rightarrow> 'd S5pc1xxI2CState res" where
  "hw_begin mode d s = rbind (s5pc1xx_i2c_write s I2CSTAT (mode OR 0x10)) (\<lambda>s.
     rbind (s5pc1xx_i2c_write s I2CDS (ucast d)) (\<lambda>s.
     s5pc1xx_i2c_write s I2CSTAT (mode OR 0x30)))"

definition hw_write :: "u8 \<Rightarrow> u8 list \<Rightarrow> 'd S5pc1xxI2CState \<Rightarrow> 'd S5pc1xxI2CState res" where
  "hw_write a ds s = rbind (hw_begin 0xC0 (shift_in a False) s) (\<lambda>s.
     rbind (rfold (\<lambda>d s. s5pc1xx_i2c_write s I2CDS (ucast d)) ds s) (\<lambda>s.
     s5pc1xx_i2c_write s I2CSTAT 0xD0))"

primrec hw_read_all :: "nat \<Rightarrow> 'd S5pc1xxI2CState \<Rightarrow> (u8 list \<times> 'd S5pc1xxI2CState) res" where
  "hw_read_all 0 s = Inr ([], s)"
| "hw_read_all (Suc n) s = rbind (s5pc1xx_i2c_read s I2CDS) (\<lambda>(v, s).
     rbind (hw_read_all n s) (\<lambda>(vs, s). Inr (ucast v # vs, s)))"

definition hw_read :: "u8 \<Rightarrow> nat \<Rightarrow> 'd S5pc1xxI2CState \<Rightarrow> (u8 list \<times> 'd S5pc1xxI2CState) res" where
  "hw_read a n s = rbind (hw_begin 0x80 (shift_in a True) s) (\<lambda>s.
     rbind (hw_read_all n s) (\<lambda>(vs, s).
     rbind (s5pc1xx_i2c_write s I2CSTAT 0x90) (\<lambda>s. Inr (vs, s))))"

definition hw_idle :: "'d S5pc1xxI2CState \<Rightarrow> bool" where
  "hw_idle s \<longleftrightarrow> current_dev (i2c_bus s) = None"

section \<open>Register accesses on the bus\<close>

lemma update_fields [simp]:
  "i2c_bus (s5pc1xx_i2c_update s) = i2c_bus s" "status (s5pc1xx_i2c_update s) = status s"
  "data (s5pc1xx_i2c_update s) = data s" "control (s5pc1xx_i2c_update s) = control s"
  by (simp_all add: s5pc1xx_i2c_update_def Let_def)

text \<open>The state after an access: the bus, the status register without the last bit, and the data.\<close>

definition hw_state :: "'d i2c_bus \<Rightarrow> u8 \<Rightarrow> 'd S5pc1xxI2CState \<Rightarrow> bool" where
  "hw_state b d s \<longleftrightarrow> i2c_bus s = b \<and> status s AND S5PC1XX_IICSTAT_LASTBIT = 0 \<and> data s = d"

lemma hw_stop:
  assumes "mode = 0xC0 \<or> mode = 0x80" and "i2c_end_transfer (i2c_bus s) = Inr b"
  shows "\<exists>s'. s5pc1xx_i2c_write s I2CSTAT (mode OR 0x10) = Inr s' \<and> hw_state b (data s) s'"
  using assms by (auto simp: s5pc1xx_i2c_write_def i2c_stat_mode_def hw_state_def)

lemma hw_start:
  assumes "mode = 0xC0 \<or> mode = 0x80" and "i2c_start_transfer (i2c_bus s) (drop_bit 1 (data s)) (data s AND 1 \<noteq> 0) = Inr (r, b)"
  shows "\<exists>s'. s5pc1xx_i2c_write s I2CSTAT (mode OR 0x30) = Inr s' \<and> hw_state b (data s) s'"
  using assms by (auto simp: s5pc1xx_i2c_write_def i2c_stat_mode_def hw_state_def)

lemma hw_send:
  assumes "hw_state c e s" and "i2c_send c d = Inr (r, b)"
  shows "\<exists>s'. s5pc1xx_i2c_write s I2CDS (ucast d) = Inr s' \<and> hw_state b d s'"
proof -
  have "(ucast (ucast d AND 0xff :: u32) :: u8) = d"
    by (rule u8_eqI, erule u8_bit_cases) (simp_all add: bit_simps)
  then show ?thesis
    using assms by (simp add: s5pc1xx_i2c_write_def s5pc1xx_i2c_send_def hw_state_def Let_def)
qed

lemma hw_recv:
  assumes "hw_state c e s" and "i2c_recv c = Inr (r, b)"
  shows "\<exists>s'. s5pc1xx_i2c_read s I2CDS = Inr (ucast (of_int r :: u8), s') \<and> hw_state b (of_int r) s'"
  using assms by (simp add: s5pc1xx_i2c_read_def s5pc1xx_i2c_receive_def hw_state_def Let_def)

lemma hw_send_all:
  assumes "hw_state c e s" and "bus_send_all ds c = Inr b"
  shows "\<exists>s' d. rfold (\<lambda>d s. s5pc1xx_i2c_write s I2CDS (ucast d)) ds s = Inr s' \<and> hw_state b d s'"
  using assms
proof (induction ds arbitrary: c e s)
  case (Cons d ds)
  then obtain r c' where c': "i2c_send c d = Inr (r, c')" "bus_send_all ds c' = Inr b"
    by (auto simp: rbind_eq_Inr)
  with hw_send [OF Cons.prems(1)] obtain s1 where s1: "s5pc1xx_i2c_write s I2CDS (ucast d) = Inr s1" "hw_state c' d s1"
    by blast
  with Cons.IH [OF s1(2) c'(2)] show ?case by simp
qed auto

lemma ucast_back: "(ucast (ucast (x :: u8) :: u32) :: u8) = x"
  by (rule bit_word_eqI) (auto simp: bit_simps)

lemma hw_recv_all:
  assumes "hw_state c e s" and "bus_recv_all n c = Inr (vs, b)"
  shows "\<exists>s' d. hw_read_all n s = Inr (vs, s') \<and> hw_state b d s'"
  using assms
proof (induction n arbitrary: c e s vs)
  case (Suc n)
  then obtain r c' ws where c': "i2c_recv c = Inr (r, c')" "bus_recv_all n c' = Inr (ws, b)" "vs = of_int r # ws"
    by (auto simp: rbind_eq_Inr)
  with hw_recv [OF Suc.prems(1)] obtain s1 where s1: "s5pc1xx_i2c_read s I2CDS = Inr (ucast (of_int r :: u8), s1)"
    "hw_state c' (of_int r) s1" by blast
  with Suc.IH [OF s1(2) c'(2)] c'(3) show ?case by (auto simp: ucast_back)
qed auto

lemma shift_in_and: "shift_in a v AND 1 \<noteq> 0 \<longleftrightarrow> v"
proof -
  have "shift_in a v AND 1 = of_bool v" by (rule u8_eqI) (auto simp: bit_simps bit_shift_in)
  then show ?thesis by simp
qed

lemma hw_begin_ok:
  assumes "mode = 0xC0 \<or> mode = 0x80" and "hw_idle s" and "i2c_start_transfer (i2c_bus s) (drop_bit 1 d) (d AND 1 \<noteq> 0) = Inr (r, b)"
  shows "\<exists>s'. hw_begin mode d s = Inr s' \<and> hw_state b d s'"
proof -
  have "i2c_end_transfer (i2c_bus s) = Inr (i2c_bus s)" using assms(2) by (simp add: hw_idle_def i2c_end_transfer_def)
  from hw_stop [OF assms(1) this] obtain s1 where s1: "s5pc1xx_i2c_write s I2CSTAT (mode OR 0x10) = Inr s1"
    "hw_state (i2c_bus s) (data s) s1" by blast
  have "i2c_send (i2c_bus s) d = Inr (- 1, i2c_bus s)" using assms(2) by (simp add: hw_idle_def i2c_send_def)
  from hw_send [OF s1(2) this] obtain s2 where s2: "s5pc1xx_i2c_write s1 I2CDS (ucast d) = Inr s2" "hw_state (i2c_bus s) d s2"
    by blast
  from hw_start [OF assms(1), of s2 r b] s2(2) assms(3) obtain s3 where
    "s5pc1xx_i2c_write s2 I2CSTAT (mode OR 0x30) = Inr s3" "hw_state b d s3" by (auto simp: hw_state_def)
  with s1 s2 show ?thesis by (auto simp: hw_begin_def)
qed

lemma end_transfer_none: "i2c_end_transfer b = Inr c \<Longrightarrow> current_dev c = None"
  by (auto simp: i2c_end_transfer_def split: option.splits elim!: rbind_InrE)

lemma hw_write_ok:
  assumes "hw_idle s" and "a < 128" and "bus_write a ds (i2c_bus s) = Inr b"
  shows "\<exists>s'. hw_write a ds s = Inr s' \<and> hw_idle s' \<and> i2c_bus s' = b"
proof -
  obtain r c e where c: "i2c_start_transfer (i2c_bus s) a False = Inr (r, c)" "bus_send_all ds c = Inr e" "i2c_end_transfer e = Inr b"
    using assms(3) by (auto simp: bus_write_def rbind_eq_Inr)
  obtain s1 where s1: "hw_begin 0xC0 (shift_in a False) s = Inr s1" "hw_state c (shift_in a False) s1"
    using hw_begin_ok [of "0xC0" s "shift_in a False" r c] assms(1) c(1) shift_addr [OF assms(2)] shift_in_and by auto
  from hw_send_all [OF s1(2) c(2)] obtain s2 d where
    s2: "rfold (\<lambda>d s. s5pc1xx_i2c_write s I2CDS (ucast d)) ds s1 = Inr s2" "hw_state e d s2" by blast
  from hw_stop [of "0xC0" s2 b] s2(2) c(3) obtain s3 where "s5pc1xx_i2c_write s2 I2CSTAT 0xD0 = Inr s3" "hw_state b (data s2) s3"
    by (auto simp: hw_state_def)
  with s1(1) s2(1) end_transfer_none [OF c(3)] show ?thesis
    by (auto simp: hw_write_def hw_state_def hw_idle_def)
qed

lemma hw_read_ok:
  assumes "hw_idle s" and "a < 128" and "bus_read False a (Suc n) (i2c_bus s) = Inr (vs, b)"
  shows "\<exists>s'. hw_read a (Suc n) s = Inr (vs, s') \<and> hw_idle s' \<and> i2c_bus s' = b"
proof -
  let ?d = "shift_in a True"
  obtain r c e where c: "i2c_start_transfer (i2c_bus s) a True = Inr (r, c)" "bus_recv_all (Suc n) c = Inr (vs, e)" "i2c_end_transfer e = Inr b"
    using assms(3) unfolding bus_read_def by (auto simp: rbind_eq_Inr simp del: bus_recv_all.simps)
  obtain s1 where s1: "hw_begin 0x80 ?d s = Inr s1" "hw_state c ?d s1"
    using hw_begin_ok [of "0x80" s ?d r c] assms(1) c(1) shift_addr [OF assms(2)] shift_in_and by auto
  from hw_recv_all [OF s1(2) c(2)] obtain s2 d where s2: "hw_read_all (Suc n) s1 = Inr (vs, s2)" "hw_state e d s2" by blast
  from hw_stop [of "0x80" s2 b] s2(2) c(3) obtain s3 where "s5pc1xx_i2c_write s2 I2CSTAT 0x90 = Inr s3" "hw_state b (data s2) s3"
    by (auto simp: hw_state_def)
  with s1(1) s2(1) end_transfer_none [OF c(3)] show ?thesis
    by (auto simp: hw_read_def hw_state_def hw_idle_def simp del: hw_read_all.simps)
qed

interpretation hw: register_master hw_write hw_read hw_idle i2c_bus False
  by unfold_locales (fact hw_write_ok hw_read_ok)+

end
