(* ===== verification/Ak8973.thy ===== *)
theory Ak8973
  imports S5pc1xx_I2c
begin

text \<open>
  The AK8973 compass (\<^verbatim>\<open>hw/ak8973.c\<close>), an addressable slave on the DDC bus of the board, and the
  accesses of the guest to its registers through the I2C controller.
\<close>

section \<open>The compass\<close>

abbreviation (input) AK8973_ST :: u32 where "AK8973_ST \<equiv> 0xC0"
abbreviation (input) AK8973_TMPS :: u32 where "AK8973_TMPS \<equiv> 0xC1"
abbreviation (input) AK8973_H1X :: u32 where "AK8973_H1X \<equiv> 0xC2"
abbreviation (input) AK8973_H1Y :: u32 where "AK8973_H1Y \<equiv> 0xC3"
abbreviation (input) AK8973_H1Z :: u32 where "AK8973_H1Z \<equiv> 0xC4"
abbreviation (input) AK8973_MS1 :: u32 where "AK8973_MS1 \<equiv> 0xE0"
abbreviation (input) AK8973_HXDA :: u32 where "AK8973_HXDA \<equiv> 0xE1"
abbreviation (input) AK8973_HXGA :: u32 where "AK8973_HXGA \<equiv> 0xE4"

text \<open>\<^verbatim>\<open>AK8973_WRAL1\<close> and the registers from \<^verbatim>\<open>AK8973_ETS\<close> to \<^verbatim>\<open>AK8973_EHZGA\<close>.\<close>

definition ak8973_eeprom :: "u32 list" where
  "ak8973_eeprom = [0x62, 0x63, 0x64, 0x65, 0x66, 0x67, 0x68, 0x60]"

record AK8973State =
  ak_status :: u8
  ak_x :: u8
  ak_y :: u8
  ak_z :: u8
  ms1 :: u8
  dac :: "u8 list"
  gain :: "u8 list"
  ak_irq :: "unit irq_log"

definition ak8973_reset :: "AK8973State \<Rightarrow> AK8973State" where
  "ak8973_reset s = s\<lparr>ak_status := 0, ak_x := 10, ak_y := 20, ak_z := 30, ms1 := 0x3,
     dac := [0, 0, 0], gain := [0, 0, 0]\<rparr>"

text \<open>Reading a measurement lowers the interrupt and clears the data ready bit.\<close>

definition ak8973_taken :: "AK8973State \<Rightarrow> AK8973State" where
  "ak8973_taken s = s\<lparr>ak_irq := qemu_irq_lower () (ak_irq s), ak_status := ak_status s AND NOT 1\<rparr>"

definition ak8973_read :: "AK8973State \<Rightarrow> u32 \<Rightarrow> u8 \<Rightarrow> (u8 \<times> AK8973State) res" where
  "ak8973_read s adr offset =
     (let index = adr + ucast offset in
      if index = AK8973_ST then Inr (ak_status s, s)
      else if index = AK8973_TMPS then Inr (0x90, ak8973_taken s)
      else if index = AK8973_H1X then Inr (ak_x s, ak8973_taken s)
      else if index = AK8973_H1Y then Inr (ak_y s, ak8973_taken s)
      else if index = AK8973_H1Z then Inr (ak_z s, ak8973_taken s)
      else if index = AK8973_MS1 then Inr (ms1 s, s)
      else if index \<in> {0xE1, 0xE2, 0xE3} then
        rbind (arr_get (dac s) (unat (index - AK8973_HXDA))) (\<lambda>v. Inr (v, s))
      else if index \<in> {0xE4, 0xE5, 0xE6} then
        rbind (arr_get (gain s) (unat (index - AK8973_HXGA))) (\<lambda>v. Inr (v, s))
      else if index \<in> set ak8973_eeprom then Inr (0, s)
      else Inl (HwError ''ak8973: bad read offset''))"

definition ak8973_write :: "AK8973State \<Rightarrow> u32 \<Rightarrow> u8 \<Rightarrow> u8 \<Rightarrow> AK8973State res" where
  "ak8973_write s adr offset val =
     (let index = adr + ucast offset in
      if index = AK8973_MS1 then
        let s = (if val AND 3 = 2 then s\<lparr>ms1 := val\<rparr> else s\<lparr>ms1 := ms1 s OR 3\<rparr>) in
        Inr (if val AND 3 = 0
             then s\<lparr>ak_irq := qemu_irq_raise () (ak_irq s), ak_status := ak_status s OR 1\<rparr>
             else s)
      else if index \<in> {0xE1, 0xE2, 0xE3} then
        rbind (arr_set (dac s) (unat (index - AK8973_HXDA)) val) (\<lambda>xs. Inr (s\<lparr>dac := xs\<rparr>))
      else if index \<in> {0xE4, 0xE5, 0xE6} then
        rbind (arr_set (gain s) (unat (index - AK8973_HXGA)) val) (\<lambda>xs. Inr (s\<lparr>gain := xs\<rparr>))
      else if index \<in> set ak8973_eeprom then Inr s
      else Inl (HwError ''ak8973: bad write offset''))"

definition ak8973_info :: "AK8973State I2CAddressableDeviceInfo" where
  "ak8973_info = \<lparr>read_cb = Some ak8973_read, write_cb = Some ak8973_write, addr_size = 1, rev_order = False\<rparr>"

definition ak8973_init :: AK8973State where
  "ak8973_init = ak8973_reset \<lparr>ak_status = 0, ak_x = 0, ak_y = 0, ak_z = 0, ms1 = 0, dac = [0, 0, 0],
     gain = [0, 0, 0], ak_irq = []\<rparr>"

section \<open>Accesses through the controller\<close>

definition ak_ok :: "AK8973State \<Rightarrow> bool" where
  "ak_ok s \<longleftrightarrow> length (dac s) = 3 \<and> length (gain s) = 3"

definition ak_trim :: "u8 list" where
  "ak_trim = [0xE1, 0xE2, 0xE3, 0xE4, 0xE5, 0xE6]"

lemma ak_trim_write_read:
  assumes "ak_ok s" and "r \<in> set ak_trim"
  shows "\<exists>s'. ak8973_write s (ucast r) 0 v = Inr s' \<and> ak_ok s' \<and> ak8973_read s' (ucast r) 0 = Inr (v, s')"
  using assms by (auto simp: ak_trim_def ak8973_write_def ak8973_read_def ak_ok_def)

text \<open>The bus of the compass: \<^verbatim>\<open>S5PC1XX_AK8973_ADDR\<close> is 0x1C.\<close>

definition compass_at :: "nat \<Rightarrow> AK8973State I2CAddressableState S5pc1xxI2CState \<Rightarrow> bool" where
  "compass_at i s \<longleftrightarrow> hw_idle s \<and> slave_at 0x1C i ak8973_info (i2c_bus s) \<and> ak_ok (device (slave i (i2c_bus s)))"

text \<open>
  Property C33.  The trim registers of the compass can be written and read back by the guest through the I2C
  controller: the message that writes register \<open>r\<close>, the message that selects it and the message that
  reads one byte all succeed, and the byte is the one that was written.
\<close>

theorem compass_roundtrip:
  assumes "compass_at i s" and "r \<in> set ak_trim"
  shows "\<exists>s1 s2 s3. hw_write 0x1C [r, v] s = Inr s1 \<and> hw_write 0x1C [r] s1 = Inr s2
    \<and> hw_read 0x1C 1 s2 = Inr ([v], s3) \<and> compass_at i s3"
proof -
  let ?d = "device (slave i (i2c_bus s))"
  have s: "hw_idle s" "slave_at 0x1C i ak8973_info (i2c_bus s)" "ak_ok ?d"
    using assms(1) by (simp_all add: compass_at_def)
  obtain x where x: "ak8973_write ?d (ucast r) 0 v = Inr x" "ak_ok x" "ak8973_read x (ucast r) 0 = Inr (v, x)"
    using ak_trim_write_read [OF s(3) assms(2)] by blast
  have info: "addr_size ak8973_info = 1" "write_cb ak8973_info = Some ak8973_write" "read_cb ak8973_info = Some ak8973_read"
    by (simp_all add: ak8973_info_def)
  from hw.register_access [OF s(1) _ s(2) info x(1,3)] x(2) show ?thesis
    by (auto simp: compass_at_def)
qed

text \<open>The board's bus with the compass.\<close>

definition compass_board :: "AK8973State I2CAddressableState S5pc1xxI2CState" where
  "compass_board = s5pc1xx_i2c_init (i2c_init_bus [\<lparr>info = i2c_addressable_register_device ak8973_info,
     address = 0x1C, dev = \<lparr>addr = 0, num = 0, device = ak8973_init\<rparr>\<rparr>])"

lemma compass_board_at: "compass_at 0 compass_board"
  by (simp add: compass_at_def compass_board_def hw_idle_def s5pc1xx_i2c_init_def i2c_init_bus_def slave_at_def
      ak_ok_def ak8973_init_def ak8973_reset_def)

theorem compass_roundtrip_witness:
  "\<exists>s1 s2 s3. hw_write 0x1C [0xE4, 0x55] compass_board = Inr s1 \<and> hw_write 0x1C [0xE4] s1 = Inr s2
    \<and> hw_read 0x1C 1 s2 = Inr ([0x55], s3)"
proof -
  have "(0xE4 :: u8) \<in> set ak_trim" by (simp add: ak_trim_def)
  from compass_roundtrip [OF compass_board_at this, of "0x55"] show ?thesis by blast
qed

section \<open>The repeated start\<close>

text \<open>
  The combined access of the I2C protocol: the register is selected and read in one message, with a
  second start condition instead of a stop between the two halves.
\<close>

definition hw_combined_read :: "u8 \<Rightarrow> u8 \<Rightarrow> 'd S5pc1xxI2CState \<Rightarrow> (u8 list \<times> 'd S5pc1xxI2CState) res" where
  "hw_combined_read a r s = rbind (hw_begin 0xC0 (shift_in a False) s) (\<lambda>s.
     rbind (s5pc1xx_i2c_write s I2CDS (ucast r)) (\<lambda>s.
     rbind (s5pc1xx_i2c_write s I2CDS (ucast (shift_in a True))) (\<lambda>s.
     rbind (s5pc1xx_i2c_write s I2CSTAT 0xB0) (\<lambda>s.
     rbind (hw_read_all 1 s) (\<lambda>(vs, s).
     rbind (s5pc1xx_i2c_write s I2CSTAT 0x90) (\<lambda>s. Inr (vs, s)))))))"

lemma combined_bus:
  assumes s: "slave_at a i t b" and t: "addr_size t = 1" "write_cb t = Some wr" "read_cb t = Some rd"
    and wr: "wr (device (slave i b)) (ucast r) 0 (shift_in a True) = Inr x" and rd: "rd x (ucast r) 0 = Inr (v, y)"
  shows "\<exists>b1 b2 b3 b4 b5 b6. i2c_start_transfer b a False = Inr (0, b1) \<and> i2c_send b1 r = Inr (1, b2)
    \<and> i2c_send b2 (shift_in a True) = Inr (1, b3) \<and> i2c_start_transfer b3 a True = Inr (0, b4)
    \<and> i2c_recv b4 = Inr (uint v, b5) \<and> i2c_end_transfer b5 = Inr b6 \<and> device (slave i b6) = y"
  using assms slave_at_less [OF s]
  by (simp add: bus_defs slave_at_def i2c_addressable_tx_def i2c_addressable_rx_def)

lemma hw_combined:
  assumes "hw_idle s" and "a < 128" and "slave_at a i t (i2c_bus s)" and "addr_size t = 1" "write_cb t = Some wr" "read_cb t = Some rd"
    and "wr (device (slave i (i2c_bus s))) (ucast r) 0 (shift_in a True) = Inr x" and "rd x (ucast r) 0 = Inr (v, y)"
  shows "\<exists>s'. hw_combined_read a r s = Inr ([v], s') \<and> device (slave i (i2c_bus s')) = y"
proof -
  obtain b1 b2 b3 b4 b5 b6 where b: "i2c_start_transfer (i2c_bus s) a False = Inr (0, b1)" "i2c_send b1 r = Inr (1, b2)"
    "i2c_send b2 (shift_in a True) = Inr (1, b3)" "i2c_start_transfer b3 a True = Inr (0, b4)"
    "i2c_recv b4 = Inr (uint v, b5)" "i2c_end_transfer b5 = Inr b6" "device (slave i b6) = y"
    using combined_bus [OF assms(3-8)] by blast
  have addr: "drop_bit 1 (shift_in a u) = a" "(shift_in a u AND 1 \<noteq> 0) = u" for u
    using shift_addr [OF assms(2)] shift_in_and by blast+
  obtain s1 where s1: "hw_begin 0xC0 (shift_in a False) s = Inr s1" "hw_state b1 (shift_in a False) s1"
    using hw_begin_ok [of "0xC0" s "shift_in a False" 0 b1] assms(1) b(1) by (auto simp: addr simp del: One_nat_def)
  obtain s2 where s2: "s5pc1xx_i2c_write s1 I2CDS (ucast r) = Inr s2" "hw_state b2 r s2"
    using hw_send [OF s1(2) b(2)] by blast
  obtain s3 where s3: "s5pc1xx_i2c_write s2 I2CDS (ucast (shift_in a True)) = Inr s3" "hw_state b3 (shift_in a True) s3"
    using hw_send [OF s2(2) b(3)] by blast
  obtain s4 where s4: "s5pc1xx_i2c_write s3 I2CSTAT 0xB0 = Inr s4" "hw_state b4 (shift_in a True) s4"
    using hw_start [of "0x80" s3 0 b4] s3(2) b(4) by (auto simp: hw_state_def addr simp del: One_nat_def)
  obtain s5 d where s5: "hw_read_all 1 s4 = Inr ([v], s5)" "hw_state b5 d s5"
    using hw_recv_all [OF s4(2), of 1 "[v]" b5] b(5) by auto
  obtain s6 where "s5pc1xx_i2c_write s5 I2CSTAT 0x90 = Inr s6" "hw_state b6 (data s5) s6"
    using hw_stop [of "0x80" s5 b6] s5(2) b(6) by (auto simp: hw_state_def)
  with s1(1) s2(1) s3(1) s4(1) s5(1) b(7) show ?thesis
    by (auto simp: hw_combined_read_def hw_state_def simp del: hw_read_all.simps)
qed

text \<open>
  A combined access destroys the register it reads: the driver loads the slave address into the
  data register before the second start condition, and the controller sends every byte written
  there to the slave that is still selected, so the trim register is overwritten with the address
  byte 0x39, which the read then returns whatever the register held.
\<close>

lemma compass_repeated_start:
  assumes "compass_at i s" and "r \<in> set ak_trim"
  shows "\<exists>s'. hw_combined_read 0x1C r s = Inr ([0x39], s')
    \<and> (\<exists>x. ak8973_write (device (slave i (i2c_bus s))) (ucast r) 0 0x39 = Inr x \<and> device (slave i (i2c_bus s')) = x)"
proof -
  let ?d = "device (slave i (i2c_bus s))"
  have s: "hw_idle s" "slave_at 0x1C i ak8973_info (i2c_bus s)" "ak_ok ?d"
    using assms(1) by (simp_all add: compass_at_def)
  have byte: "shift_in 0x1C True = 0x39" by (simp add: shift_in_def)
  obtain x where x: "ak8973_write ?d (ucast r) 0 0x39 = Inr x" "ak8973_read x (ucast r) 0 = Inr (0x39, x)"
    using ak_trim_write_read [OF s(3) assms(2)] by blast
  have info: "addr_size ak8973_info = 1" "write_cb ak8973_info = Some ak8973_write" "read_cb ak8973_info = Some ak8973_read"
    by (simp_all add: ak8973_info_def)
  from hw_combined [OF s(1) _ s(2) info, of r x "0x39" x] x show ?thesis by (auto simp: byte)
qed

end
