(* ===== verification/S5pc1xx_Gpio.thy ===== *)
theory S5pc1xx_Gpio
  imports Qemu_Prelude
begin

text \<open>
  The GPIO controller of the board (\<^verbatim>\<open>hw/s5pc1xx_gpio.c\<close>, \<^verbatim>\<open>hw/s5pc1xx_gpio_regs.h\<close>): the pin
  configuration and data registers, which reach the handlers that other devices have registered
  for their pins, and the interrupts of the pins.
\<close>

section \<open>Pins\<close>

text \<open>What a pin can be connected to, as the macros of the header number it.\<close>

abbreviation (input) PWM_TOUT :: "u32 \<Rightarrow> u32" where "PWM_TOUT n \<equiv> CASE_ID 1 0 n"
abbreviation (input) PWM_MIE_MDNI :: u32 where "PWM_MIE_MDNI \<equiv> CASE_ID 1 0 4"
abbreviation (input) GPIO_UART_RXD :: "u32 \<Rightarrow> u32" where "GPIO_UART_RXD n \<equiv> CASE_ID 2 n 1"
abbreviation (input) GPIO_UART_TXD :: "u32 \<Rightarrow> u32" where "GPIO_UART_TXD n \<equiv> CASE_ID 2 n 2"
abbreviation (input) GPIO_UART_CTS :: "u32 \<Rightarrow> u32" where "GPIO_UART_CTS n \<equiv> CASE_ID 2 n 3"
abbreviation (input) GPIO_UART_RTS :: "u32 \<Rightarrow> u32" where "GPIO_UART_RTS n \<equiv> CASE_ID 2 n 4"
abbreviation (input) GPIO_UART_AUDIO_RXD :: u32 where "GPIO_UART_AUDIO_RXD \<equiv> CASE_ID 2 0 5"
abbreviation (input) GPIO_UART_AUDIO_TXD :: u32 where "GPIO_UART_AUDIO_TXD \<equiv> CASE_ID 2 0 6"
abbreviation (input) GPIO_KP_COL :: "u32 \<Rightarrow> u32" where "GPIO_KP_COL n \<equiv> CASE_ID 3 n 1"
abbreviation (input) GPIO_KP_ROW :: "u32 \<Rightarrow> u32" where "GPIO_KP_ROW n \<equiv> CASE_ID 3 n 2"
abbreviation (input) LCD_FRM :: u32 where "LCD_FRM \<equiv> CASE_ID 4 0 1"
abbreviation (input) LCD_HSYNC :: u32 where "LCD_HSYNC \<equiv> CASE_ID 4 0 2"
abbreviation (input) LCD_VSYNC :: u32 where "LCD_VSYNC \<equiv> CASE_ID 4 0 3"
abbreviation (input) LCD_VDEN :: u32 where "LCD_VDEN \<equiv> CASE_ID 4 0 4"
abbreviation (input) LCD_VCLK :: u32 where "LCD_VCLK \<equiv> CASE_ID 4 0 5"
abbreviation (input) LCD_VD :: "u32 \<Rightarrow> u32" where "LCD_VD n \<equiv> CASE_ID 4 n 6"
abbreviation (input) GPIO_I2C_SDA :: "u32 \<Rightarrow> u32" where "GPIO_I2C_SDA n \<equiv> CASE_ID 5 n 2"
abbreviation (input) GPIO_I2C_SCL :: "u32 \<Rightarrow> u32" where "GPIO_I2C_SCL n \<equiv> CASE_ID 5 n 1"
abbreviation (input) GPIO_AC97BITCLK :: u32 where "GPIO_AC97BITCLK \<equiv> CASE_ID 6 0 1"
abbreviation (input) GPIO_AC97RESETn :: u32 where "GPIO_AC97RESETn \<equiv> CASE_ID 6 0 2"
abbreviation (input) GPIO_AC97SYNC :: u32 where "GPIO_AC97SYNC \<equiv> CASE_ID 6 0 3"
abbreviation (input) GPIO_AC97SDI :: u32 where "GPIO_AC97SDI \<equiv> CASE_ID 6 0 4"
abbreviation (input) GPIO_AC97SDO :: u32 where "GPIO_AC97SDO \<equiv> CASE_ID 6 0 5"
abbreviation (input) PCM_SCLK :: "u32 \<Rightarrow> u32" where "PCM_SCLK n \<equiv> CASE_ID 7 n 1"
abbreviation (input) PCM_EXTCLK :: "u32 \<Rightarrow> u32" where "PCM_EXTCLK n \<equiv> CASE_ID 7 n 2"
abbreviation (input) PCM_FSYNC :: "u32 \<Rightarrow> u32" where "PCM_FSYNC n \<equiv> CASE_ID 7 n 3"
abbreviation (input) PCM_SIN :: "u32 \<Rightarrow> u32" where "PCM_SIN n \<equiv> CASE_ID 7 n 4"
abbreviation (input) PCM_SOUT :: "u32 \<Rightarrow> u32" where "PCM_SOUT n \<equiv> CASE_ID 7 n 5"
abbreviation (input) SPDIF_0_OUT :: u32 where "SPDIF_0_OUT \<equiv> CASE_ID 8 0 1"
abbreviation (input) SPDIF_EXTCLK :: u32 where "SPDIF_EXTCLK \<equiv> CASE_ID 8 0 2"

text \<open>
  The functions of the pins: for a group and a pin the cases of the configurations 2, 3, 4, 5, 0, 1
  in this order, and the case whose device is told about configuration changes.  Entries that the
  initialiser of the C array leaves out are zero.
\<close>

definition s5pc1xx_gpio_case :: "(nat \<times> u32 list list) list" where
  "s5pc1xx_gpio_case =
    [(0, [[GPIO_UART_RXD 0], [GPIO_UART_TXD 0], [GPIO_UART_CTS 0], [GPIO_UART_RTS 0], [GPIO_UART_RXD 1],
       [GPIO_UART_TXD 1], [GPIO_UART_CTS 1], [GPIO_UART_RTS 1]]),
     (1, [[GPIO_UART_RXD 2, 0, GPIO_UART_AUDIO_RXD], [GPIO_UART_TXD 2, 0, GPIO_UART_AUDIO_TXD],
       [GPIO_UART_RXD 3, 0, GPIO_UART_CTS 2], [GPIO_UART_TXD 3, 0, GPIO_UART_RTS 2]]),
     (3, [[0, PCM_SCLK 1, GPIO_AC97BITCLK], [0, PCM_EXTCLK 1, GPIO_AC97RESETn], [0, PCM_FSYNC 1,
       GPIO_AC97SYNC], [0, PCM_SIN 1, GPIO_AC97SDI], [0, PCM_SOUT 1, GPIO_AC97SDO]]),
     (4, [[PCM_SCLK 0, SPDIF_0_OUT], [PCM_EXTCLK 0, SPDIF_EXTCLK], [PCM_FSYNC 0, LCD_FRM], [PCM_SIN 0],
       [PCM_SOUT 0]]),
     (5, [[PWM_TOUT 0], [PWM_TOUT 1], [PWM_TOUT 2], [PWM_TOUT 3, PWM_MIE_MDNI]]),
     (9, [[LCD_HSYNC], [LCD_VSYNC], [LCD_VDEN], [LCD_VCLK], [LCD_VD 0], [LCD_VD 1], [LCD_VD 2],
       [LCD_VD 3]]),
     (10, [[LCD_VD 4], [LCD_VD 5], [LCD_VD 6], [LCD_VD 7], [LCD_VD 8], [LCD_VD 9], [LCD_VD 10],
       [LCD_VD 11]]),
     (11, [[LCD_VD 12], [LCD_VD 13], [LCD_VD 14], [LCD_VD 15], [LCD_VD 16], [LCD_VD 17], [LCD_VD 18],
       [LCD_VD 19]]),
     (12, [[LCD_VD 20], [LCD_VD 21], [LCD_VD 22], [LCD_VD 23]]),
     (17, [[0, PCM_SCLK 2], [0, PCM_EXTCLK 2], [0, PCM_FSYNC 2], [0, PCM_SIN 2], [0, PCM_SOUT 2]]),
     (19, [[], [], [], [], [0, GPIO_KP_COL 0]]),
     (20, [[0, GPIO_KP_COL 1], [0, GPIO_KP_COL 2], [0, GPIO_KP_COL 3], [0, GPIO_KP_COL 4], [0,
       GPIO_KP_COL 5], [0, GPIO_KP_COL 6], [0, GPIO_KP_COL 7], [0, GPIO_KP_ROW 0]]),
     (21, [[0, GPIO_KP_ROW 1, 0, 0, GPIO_I2C_SDA 10, 0, GPIO_I2C_SDA 10], [0, GPIO_KP_ROW 2, 0, 0,
       GPIO_I2C_SCL 10, 0, GPIO_I2C_SCL 10], [0, GPIO_KP_ROW 3], [0, GPIO_KP_ROW 4], [0, GPIO_KP_ROW 5],
       [0, GPIO_KP_ROW 6], [0, GPIO_KP_ROW 7, 0, 0, GPIO_I2C_SDA 3, 0, GPIO_I2C_SDA 3], [0,
       GPIO_KP_ROW 8, 0, 0, GPIO_I2C_SCL 3, 0, GPIO_I2C_SCL 3]]),
     (22, [[0, GPIO_KP_ROW 9, 0, 0, GPIO_I2C_SDA 4, 0, GPIO_I2C_SDA 4], [0, GPIO_KP_ROW 10], [0,
       GPIO_KP_ROW 11], [0, GPIO_KP_ROW 12, 0, 0, GPIO_I2C_SCL 4, 0, GPIO_I2C_SCL 4], [0,
       GPIO_KP_ROW 13]]),
     (27, [[], [], [0, 0, 0, 0, GPIO_I2C_SCL 5, 0, GPIO_I2C_SCL 5], [0, 0, 0, 0, GPIO_I2C_SDA 5, 0,
       GPIO_I2C_SDA 5], [], [], [], []]),
     (98, [[0, GPIO_KP_COL 0], [0, GPIO_KP_COL 1], [0, GPIO_KP_COL 2], [0, GPIO_KP_COL 3], [0,
       GPIO_KP_COL 4], [0, GPIO_KP_COL 5], [0, GPIO_KP_COL 6], [0, GPIO_KP_COL 7]]),
     (99, [[0, GPIO_KP_ROW 0], [0, GPIO_KP_ROW 1], [0, GPIO_KP_ROW 2], [0, GPIO_KP_ROW 3], [0,
       GPIO_KP_ROW 4], [0, GPIO_KP_ROW 5], [0, GPIO_KP_ROW 6], [0, GPIO_KP_ROW 7]])]"

definition gpio_case :: "nat \<Rightarrow> nat \<Rightarrow> nat \<Rightarrow> u32" where
  "gpio_case grp pin k = (case map_of s5pc1xx_gpio_case grp of
     None \<Rightarrow> 0
   | Some pins \<Rightarrow> if pin < length pins \<and> k < length (pins ! pin) then pins ! pin ! k else 0)"

abbreviation (input) GPIO_CONF_CASE :: nat where "GPIO_CONF_CASE \<equiv> 6"

definition CASE :: "u32 \<Rightarrow> nat" where
  "CASE index = (if index > 1 then unat index - 2 else 4 + unat index)"

section \<open>Handlers of the devices\<close>

text \<open>
  The tables of function pointers, and of the pointers to the devices they are called with.  The
  handlers act on the state \<open>'w\<close> of all devices; a device pointer is a value of type \<open>'o\<close>, absent
  while null.
\<close>

record ('o, 'w) gpio_io_mem =
  gpio_io_mem_write :: "('o option \<Rightarrow> u32 \<Rightarrow> u32 \<Rightarrow> 'w \<Rightarrow> 'w res) option list"
  gpio_io_mem_read :: "('o option \<Rightarrow> u32 \<Rightarrow> 'w \<Rightarrow> (u32 \<times> 'w) res) option list"
  gpio_io_mem_conf :: "('o option \<Rightarrow> u32 \<Rightarrow> u32 \<Rightarrow> 'w \<Rightarrow> 'w res) option list"
  gpio_io_mem_opaque :: "'o option list list"

abbreviation (input) GPIO_IDX_MAX :: nat where "GPIO_IDX_MAX \<equiv> 9"

definition gpio_io_empty :: "('o, 'w) gpio_io_mem" where
  "gpio_io_empty = \<lparr>gpio_io_mem_write = replicate GPIO_IDX_MAX None, gpio_io_mem_read = replicate GPIO_IDX_MAX None,
     gpio_io_mem_conf = replicate GPIO_IDX_MAX None, gpio_io_mem_opaque = replicate GPIO_IDX_MAX (replicate 8 None)\<rparr>"

definition s5pc1xx_gpio_register_io_memory where
  "s5pc1xx_gpio_register_io_memory io_index inst mem_read mem_write mem_conf opaque T =
     rbind (arr_set (gpio_io_mem_read T) io_index mem_read) (\<lambda>r.
     rbind (arr_set (gpio_io_mem_write T) io_index mem_write) (\<lambda>w.
     rbind (arr_set (gpio_io_mem_conf T) io_index mem_conf) (\<lambda>c.
     rbind (arr_get (gpio_io_mem_opaque T) io_index) (\<lambda>row.
     rbind (arr_set row inst opaque) (\<lambda>row.
       Inr (T\<lparr>gpio_io_mem_read := r, gpio_io_mem_write := w, gpio_io_mem_conf := c,
         gpio_io_mem_opaque := (gpio_io_mem_opaque T)[io_index := row]\<rparr>))))))"

definition s5pc1xx_empty_gpio_read :: "'o option \<Rightarrow> u32 \<Rightarrow> 'w \<Rightarrow> (u32 \<times> 'w) res" where
  "s5pc1xx_empty_gpio_read opaque io_index w = Inr (0, w)"

definition s5pc1xx_empty_gpio_write :: "'o option \<Rightarrow> u32 \<Rightarrow> u32 \<Rightarrow> 'w \<Rightarrow> 'w res" where
  "s5pc1xx_empty_gpio_write opaque io_index val w = Inr w"

text \<open>
  The call through a table: the device, the instance and the event of a case; a device without a
  handler is replaced by device 0, whose handlers do nothing.
\<close>

definition gpio_handler :: "'h option list \<Rightarrow> 'o option list list \<Rightarrow> u32 \<Rightarrow> ('h \<times> 'o option \<times> u32) res" where
  "gpio_handler tab opaques c =
     (let device = unat (drop_bit 11 c AND 0x1F); inst = unat (drop_bit 6 c AND 0x1F); io_index = c AND 0x3F in
      rbind (arr_get tab device) (\<lambda>h.
      let device = (if Option.is_none h then 0 else device) in
      rbind (arr_get tab device) (\<lambda>h.
      rbind (arr_get opaques device) (\<lambda>row.
      rbind (arr_get row inst) (\<lambda>p.
        case h of None \<Rightarrow> Inl NullDeref | Some f \<Rightarrow> Inr (f, p, io_index))))))"

section \<open>The controller\<close>

datatype gpio_line = GpioInt | Extend

record S5pc1xxGPIOState =
  con :: "u32 list"
  int_con :: "u32 list"
  int_fltcon :: "u32 list list"
  int_mask :: "u32 list"
  int_pend :: "u32 list"
  int_fixpri :: "u32 list"
  int_grppri :: u32
  int_priority :: u32
  int_ser :: u32
  int_ser_pend :: u32
  int_grpfixpri :: u32
  ext_int_mask :: "u32 list"
  ext_int_pend :: "u32 list"
  gpio_irq :: "gpio_line irq_log"

abbreviation (input) ETC2 :: nat where "ETC2 \<equiv> 50"
abbreviation (input) GPH0 :: nat where "GPH0 \<equiv> 96"
abbreviation (input) GPH3 :: nat where "GPH3 \<equiv> 99"
abbreviation (input) GPJ4 :: nat where "GPJ4 \<equiv> 22"
abbreviation (input) IRQ_EXTEND_NUM :: nat where "IRQ_EXTEND_NUM \<equiv> 32"

text \<open>The groups from \<^verbatim>\<open>ETC2\<close> to \<^verbatim>\<open>GPH0\<close> do not exist and keep the zeros of the allocation.\<close>

definition s5pc1xx_gpio_reset :: "S5pc1xxGPIOState \<Rightarrow> S5pc1xxGPIOState" where
  "s5pc1xx_gpio_reset s =
     s\<lparr>con := map (\<lambda>g. if g \<le> ETC2 \<or> GPH0 \<le> g then 0 else con s ! g) [0..<length (con s)],
       ext_int_mask := replicate 4 0xFF, ext_int_pend := replicate 4 0,
       int_con := replicate (GPJ4 + 1) 0, int_fltcon := replicate (GPJ4 + 1) [0, 0],
       int_mask := replicate (GPJ4 + 1) 0xFF, int_pend := replicate (GPJ4 + 1) 0,
       int_fixpri := replicate (GPJ4 + 1) 0, int_grppri := 0, int_priority := 0, int_ser := 0,
       int_ser_pend := 0, int_grpfixpri := 0\<rparr>"

definition s5pc1xx_gpio_irq_lower :: "nat \<Rightarrow> u32 \<Rightarrow> S5pc1xxGPIOState \<Rightarrow> S5pc1xxGPIOState res" where
  "s5pc1xx_gpio_irq_lower grp pinmask s =
     rbind (arr_get (int_pend s) grp) (\<lambda>p.
     rbind (arr_set (int_pend s) grp (p AND NOT pinmask)) (\<lambda>ps.
     let s = s\<lparr>int_pend := ps\<rparr> in
     Inr (if list_ex (\<lambda>i. int_pend s ! i \<noteq> 0) [0..<GPJ4 + 1] then s
          else s\<lparr>gpio_irq := qemu_irq_lower GpioInt (gpio_irq s)\<rparr>)))"

definition s5pc1xx_gpio_extended_irq_lower :: "nat \<Rightarrow> u32 \<Rightarrow> S5pc1xxGPIOState \<Rightarrow> S5pc1xxGPIOState res" where
  "s5pc1xx_gpio_extended_irq_lower grp pinmask s =
     rbind (arr_get (ext_int_pend s) grp) (\<lambda>p.
     rbind (arr_set (ext_int_pend s) grp (p AND NOT pinmask)) (\<lambda>ps.
     let s = s\<lparr>ext_int_pend := ps\<rparr> in
     Inr (if list_ex (\<lambda>i. ext_int_pend s ! i \<noteq> 0) [0..<4] then s
          else s\<lparr>gpio_irq := qemu_irq_lower Extend (gpio_irq s)\<rparr>)))"

definition gpio_ext_irq :: "nat \<Rightarrow> bool \<Rightarrow> S5pc1xxGPIOState \<Rightarrow> S5pc1xxGPIOState res" where
  "gpio_ext_irq irq level s =
     (let grp = irq div 8; pin = irq mod 8 in
      if irq < 16 then Inl (HwError ''s5pc1xx_gpio: extended IRQs 0-15 through GPIO are not supported'')
      else
        rbind (arr_get (ext_int_mask s) grp) (\<lambda>m.
        if bit m pin then Inr s
        else
          rbind (arr_get (ext_int_pend s) grp) (\<lambda>p.
          if bit p pin then Inr s
          else if level then
            rbind (arr_set (ext_int_pend s) grp (p OR push_bit pin 1)) (\<lambda>ps.
              Inr (s\<lparr>ext_int_pend := ps, gpio_irq := qemu_irq_raise Extend (gpio_irq s)\<rparr>))
          else s5pc1xx_gpio_extended_irq_lower grp (push_bit pin 1) s)))"

definition GIPIO_CONF_INT :: u32 where "GIPIO_CONF_INT = 0xF"

definition s5pc1xx_gpio_irq_handler :: "nat \<Rightarrow> bool \<Rightarrow> S5pc1xxGPIOState \<Rightarrow> S5pc1xxGPIOState res" where
  "s5pc1xx_gpio_irq_handler irq level s =
     (if irq < IRQ_EXTEND_NUM then gpio_ext_irq irq level s
      else
        let grp = (irq - IRQ_EXTEND_NUM) div 8; pin = (irq - IRQ_EXTEND_NUM) mod 8 in
        rbind (arr_get (con s) grp) (\<lambda>c.
        if drop_bit (pin * 4) c AND 0xF \<noteq> GIPIO_CONF_INT then Inr s
        else
          rbind (arr_get (int_mask s) grp) (\<lambda>m.
          if bit m pin then Inr s
          else
            rbind (arr_get (int_pend s) grp) (\<lambda>p.
            if bit p pin then Inr s
            else if level then
              rbind (arr_set (int_pend s) grp (p OR push_bit pin 1)) (\<lambda>ps.
                Inr (s\<lparr>int_pend := ps, gpio_irq := qemu_irq_raise GpioInt (gpio_irq s)\<rparr>))
            else s5pc1xx_gpio_irq_lower grp (push_bit pin 1) s))))"

section \<open>Registers\<close>

abbreviation (input) STEP :: hwaddr where "STEP \<equiv> 0x20"
abbreviation (input) INT_REGS_SIZE :: hwaddr where "INT_REGS_SIZE \<equiv> 0x58"
abbreviation (input) INT_CON_BASE :: hwaddr where "INT_CON_BASE \<equiv> 0x700"
abbreviation (input) INT_FLTCON_BASE :: hwaddr where "INT_FLTCON_BASE \<equiv> 0x800"
abbreviation (input) INT_MASK_BASE :: hwaddr where "INT_MASK_BASE \<equiv> 0x900"
abbreviation (input) INT_PEND_BASE :: hwaddr where "INT_PEND_BASE \<equiv> 0xA00"
abbreviation (input) INT_FIXPRI_BASE :: hwaddr where "INT_FIXPRI_BASE \<equiv> 0xB14"
abbreviation (input) GPIO_INT_GRPPRI :: hwaddr where "GPIO_INT_GRPPRI \<equiv> 0xB00"
abbreviation (input) GPIO_INT_PRIORITY :: hwaddr where "GPIO_INT_PRIORITY \<equiv> 0xB04"
abbreviation (input) GPIO_INT_SER :: hwaddr where "GPIO_INT_SER \<equiv> 0xB08"
abbreviation (input) GPIO_INT_SER_PEND :: hwaddr where "GPIO_INT_SER_PEND \<equiv> 0xB0C"
abbreviation (input) GPIO_INT_GRPFIXPRI :: hwaddr where "GPIO_INT_GRPFIXPRI \<equiv> 0xB10"

definition EXT_INT_MASK :: "nat \<Rightarrow> hwaddr" where "EXT_INT_MASK n = 0xF00 + 4 * of_nat n"
definition EXT_INT_PEND :: "nat \<Rightarrow> hwaddr" where "EXT_INT_PEND n = 0xF40 + 4 * of_nat n"

text \<open>The interrupt registers leave out the group GPI.\<close>

definition INT_TO_GROUP_NUM :: "nat \<Rightarrow> nat" where
  "INT_TO_GROUP_NUM n = n + (if n < 17 then 0 else 1)"

definition GET_GROUP :: "hwaddr \<Rightarrow> hwaddr \<Rightarrow> hwaddr \<Rightarrow> nat" where
  "GET_GROUP base stride adr = INT_TO_GROUP_NUM (unat ((adr - base) div stride))"

definition in_window :: "hwaddr \<Rightarrow> hwaddr \<Rightarrow> hwaddr \<Rightarrow> bool" where
  "in_window base bytes offset \<longleftrightarrow> base \<le> offset \<and> offset < base + bytes"

definition gpio_group :: "hwaddr \<Rightarrow> nat" where
  "gpio_group offset = unat (ucast (offset div STEP) :: u32)"

definition gpio_port :: "nat \<Rightarrow> bool" where
  "gpio_port grp \<longleftrightarrow> grp \<le> ETC2 \<or> (GPH0 \<le> grp \<and> grp \<le> GPH3)"

text \<open>
  The data register of a group, pin by pin.  The value of the last pin whose device was asked stays
  in the local variable for the pins that follow.
\<close>

definition gpio_read_pin ::
    "('o, 'w) gpio_io_mem \<Rightarrow> u32 \<Rightarrow> nat \<Rightarrow> nat \<Rightarrow> u32 \<times> u32 \<times> 'w \<Rightarrow> (u32 \<times> u32 \<times> 'w) res" where
  "gpio_read_pin T c grp pin = (\<lambda>(val, ret_val, w).
     let index = drop_bit (pin * 4) c AND 0xF in
     rbind (if index = 1 \<or> index = 0xF then Inr (val, w)
            else if index \<le> 5 then
              let gc = gpio_case grp pin (CASE index) in
              if gc \<noteq> 0 then
                rbind (gpio_handler (gpio_io_mem_read T) (gpio_io_mem_opaque T) gc) (\<lambda>(f, p, i). f p i w)
              else Inr (val, w)
            else Inl (HwError ''s5pc1xx_gpio: bad pin configuration index''))
     (\<lambda>(val, w). Inr (val, ret_val OR push_bit pin (val AND 1), w)))"

definition gpio_read_dat :: "('o, 'w) gpio_io_mem \<Rightarrow> u32 \<Rightarrow> nat \<Rightarrow> 'w \<Rightarrow> (u32 \<times> 'w) res" where
  "gpio_read_dat T c grp w =
     rbind (rfold (gpio_read_pin T c grp) [0, 1, 2, 3, 4, 5, 6, 7] (0, 0, w)) (\<lambda>(val, ret_val, w). Inr (ret_val, w))"

text \<open>The extended interrupt registers: the first \<open>n < 4\<close> that the offset matches.\<close>

definition ext_match :: "(nat \<Rightarrow> hwaddr) \<Rightarrow> hwaddr \<Rightarrow> nat option" where
  "ext_match reg offset = find (\<lambda>n. offset = reg n) [0, 1, 2, 3]"

definition gpio_reg_read :: "S5pc1xxGPIOState \<Rightarrow> hwaddr \<Rightarrow> u32 res" where
  "gpio_reg_read s offset =
     (if in_window INT_CON_BASE INT_REGS_SIZE offset then arr_get (int_con s) (GET_GROUP INT_CON_BASE 4 offset)
      else if in_window INT_FLTCON_BASE (INT_REGS_SIZE * 2) offset then
        rbind (arr_get (int_fltcon s) (GET_GROUP INT_FLTCON_BASE 8 offset)) (\<lambda>row.
          arr_get row (unat (drop_bit 2 (offset AND 4))))
      else if in_window INT_MASK_BASE INT_REGS_SIZE offset then arr_get (int_mask s) (GET_GROUP INT_MASK_BASE 4 offset)
      else if in_window INT_PEND_BASE INT_REGS_SIZE offset then arr_get (int_pend s) (GET_GROUP INT_PEND_BASE 4 offset)
      else if in_window INT_FIXPRI_BASE INT_REGS_SIZE offset then arr_get (int_fixpri s) (GET_GROUP INT_FIXPRI_BASE 4 offset)
      else if offset = GPIO_INT_GRPPRI then Inr (int_grppri s)
      else if offset = GPIO_INT_PRIORITY then Inr (int_priority s)
      else if offset = GPIO_INT_SER then Inr (int_ser s)
      else if offset = GPIO_INT_SER_PEND then Inr (int_ser_pend s)
      else if offset = GPIO_INT_GRPFIXPRI then Inr (int_grpfixpri s)
      else (case ext_match EXT_INT_MASK offset of
        Some n \<Rightarrow> arr_get (ext_int_mask s) n
      | None \<Rightarrow> (case ext_match EXT_INT_PEND offset of
          Some n \<Rightarrow> arr_get (ext_int_pend s) n
        | None \<Rightarrow> Inr 0)))"

definition s5pc1xx_gpio_read ::
    "('o, 'w) gpio_io_mem \<Rightarrow> S5pc1xxGPIOState \<Rightarrow> hwaddr \<Rightarrow> 'w \<Rightarrow> (u32 \<times> 'w) res" where
  "s5pc1xx_gpio_read T s offset w =
     (let grp = gpio_group offset in
      if gpio_port grp \<and> offset mod STEP = 0 then rbind (arr_get (con s) grp) (\<lambda>c. Inr (c, w))
      else if gpio_port grp \<and> offset mod STEP = 4 then
        rbind (arr_get (con s) grp) (\<lambda>c. gpio_read_dat T c grp w)
      else rbind (gpio_reg_read s offset) (\<lambda>v. Inr (v, w)))"

text \<open>A write of the configuration tells the devices of all pins of the group, in the order of the pins.\<close>

definition gpio_conf_pin :: "('o, 'w) gpio_io_mem \<Rightarrow> u32 \<Rightarrow> nat \<Rightarrow> nat \<Rightarrow> 'w \<Rightarrow> 'w res" where
  "gpio_conf_pin T val grp pin w =
     (let new_con = drop_bit (pin * 4) val AND 0xF; gc = gpio_case grp pin GPIO_CONF_CASE in
      if gc \<noteq> 0 then
        rbind (gpio_handler (gpio_io_mem_conf T) (gpio_io_mem_opaque T) gc) (\<lambda>(f, p, i). f p i new_con w)
      else Inr w)"

definition gpio_write_pin :: "('o, 'w) gpio_io_mem \<Rightarrow> u32 \<Rightarrow> u32 \<Rightarrow> nat \<Rightarrow> nat \<Rightarrow> 'w \<Rightarrow> 'w res" where
  "gpio_write_pin T c val grp pin w =
     (let index = drop_bit (pin * 4) c AND 0xF in
      if index = 0 \<or> index = 0xF then Inr w
      else if index \<le> 5 then
        let gc = gpio_case grp pin (CASE index) in
        if gc \<noteq> 0 then
          rbind (gpio_handler (gpio_io_mem_write T) (gpio_io_mem_opaque T) gc) (\<lambda>(f, p, i).
            f p i (drop_bit pin val AND 1) w)
        else Inr w
      else Inl (HwError ''s5pc1xx_gpio: bad pin configuration index''))"

text \<open>The registers behind the ports.  The group of the offset is also used for the extended pending registers.\<close>

definition gpio_reg_write :: "nat \<Rightarrow> hwaddr \<Rightarrow> u32 \<Rightarrow> S5pc1xxGPIOState \<Rightarrow> S5pc1xxGPIOState res" where
  "gpio_reg_write grp offset val s =
     (if in_window INT_CON_BASE INT_REGS_SIZE offset then
        rbind (arr_set (int_con s) (GET_GROUP INT_CON_BASE 4 offset) val) (\<lambda>xs. Inr (s\<lparr>int_con := xs\<rparr>))
      else if in_window INT_FLTCON_BASE (INT_REGS_SIZE * 2) offset then
        rbind (arr_get (int_fltcon s) (GET_GROUP INT_FLTCON_BASE 8 offset)) (\<lambda>row.
        rbind (arr_set row (unat (drop_bit 2 (offset AND 4))) val) (\<lambda>row.
          Inr (s\<lparr>int_fltcon := (int_fltcon s)[GET_GROUP INT_FLTCON_BASE 8 offset := row]\<rparr>)))
      else if in_window INT_MASK_BASE INT_REGS_SIZE offset then
        rbind (arr_set (int_mask s) (GET_GROUP INT_MASK_BASE 4 offset) val) (\<lambda>xs. Inr (s\<lparr>int_mask := xs\<rparr>))
      else if in_window INT_PEND_BASE INT_REGS_SIZE offset then
        s5pc1xx_gpio_irq_lower (GET_GROUP INT_PEND_BASE 4 offset) val s
      else if in_window INT_FIXPRI_BASE INT_REGS_SIZE offset then
        rbind (arr_set (int_fixpri s) (GET_GROUP INT_FIXPRI_BASE 4 offset) val) (\<lambda>xs. Inr (s\<lparr>int_fixpri := xs\<rparr>))
      else if offset = GPIO_INT_GRPPRI then Inr (s\<lparr>int_grppri := val\<rparr>)
      else if offset = GPIO_INT_PRIORITY then Inr (s\<lparr>int_priority := val\<rparr>)
      else if offset = GPIO_INT_SER then Inr (s\<lparr>int_ser := val\<rparr>)
      else if offset = GPIO_INT_SER_PEND then Inr (s\<lparr>int_ser_pend := val\<rparr>)
      else if offset = GPIO_INT_GRPFIXPRI then Inr (s\<lparr>int_grpfixpri := val\<rparr>)
      else (case ext_match EXT_INT_MASK offset of
        Some n \<Rightarrow> rbind (arr_set (ext_int_mask s) n val) (\<lambda>xs. Inr (s\<lparr>ext_int_mask := xs\<rparr>))
      | None \<Rightarrow> (case ext_match EXT_INT_PEND offset of
          Some n \<Rightarrow> s5pc1xx_gpio_extended_irq_lower grp val s
        | None \<Rightarrow> Inr s)))"

definition s5pc1xx_gpio_write ::
    "('o, 'w) gpio_io_mem \<Rightarrow> S5pc1xxGPIOState \<Rightarrow> hwaddr \<Rightarrow> u32 \<Rightarrow> 'w \<Rightarrow> (S5pc1xxGPIOState \<times> 'w) res" where
  "s5pc1xx_gpio_write T s offset val w =
     (let grp = gpio_group offset in
      if gpio_port grp \<and> offset mod STEP = 0 then
        rbind (rfold (gpio_conf_pin T val grp) [0, 1, 2, 3, 4, 5, 6, 7] w) (\<lambda>w.
        rbind (arr_set (con s) grp val) (\<lambda>xs. Inr (s\<lparr>con := xs\<rparr>, w)))
      else if gpio_port grp \<and> offset mod STEP = 4 then
        rbind (arr_get (con s) grp) (\<lambda>c.
        rbind (rfold (gpio_write_pin T c val grp) [0, 1, 2, 3, 4, 5, 6, 7] w) (\<lambda>w. Inr (s, w)))
      else rbind (gpio_reg_write grp offset val s) (\<lambda>s. Inr (s, w)))"

text \<open>The state as it is allocated, and the controller with its table entry for device 0.\<close>

definition s5pc1xx_gpio_init :: "('o, 'w) gpio_io_mem \<Rightarrow> (S5pc1xxGPIOState \<times> ('o, 'w) gpio_io_mem) res" where
  "s5pc1xx_gpio_init T =
     rbind (s5pc1xx_gpio_register_io_memory 0 0 (Some s5pc1xx_empty_gpio_read) (Some s5pc1xx_empty_gpio_write)
       (Some s5pc1xx_empty_gpio_write) None T) (\<lambda>T.
     Inr (s5pc1xx_gpio_reset \<lparr>con = replicate (GPH3 + 1) 0, int_con = replicate (GPJ4 + 1) 0,
       int_fltcon = replicate (GPJ4 + 1) [0, 0], int_mask = replicate (GPJ4 + 1) 0, int_pend = replicate (GPJ4 + 1) 0,
       int_fixpri = replicate (GPJ4 + 1) 0, int_grppri = 0, int_priority = 0, int_ser = 0, int_ser_pend = 0, int_grpfixpri = 0,
       ext_int_mask = replicate 4 0, ext_int_pend = replicate 4 0, gpio_irq = []\<rparr>, T))"

section \<open>Invariant\<close>

definition gpio_ok :: "S5pc1xxGPIOState \<Rightarrow> bool" where
  "gpio_ok s \<longleftrightarrow> length (con s) = 100 \<and> length (int_con s) = 23 \<and> length (int_fltcon s) = 23
     \<and> (\<forall>row \<in> set (int_fltcon s). length row = 2) \<and> length (int_mask s) = 23 \<and> length (int_pend s) = 23
     \<and> length (int_fixpri s) = 23 \<and> length (ext_int_mask s) = 4 \<and> length (ext_int_pend s) = 4"

text \<open>The two lines follow the pending registers; the group GPI stays masked, so it never pends.\<close>

definition gpio_lines :: "S5pc1xxGPIOState \<Rightarrow> bool" where
  "gpio_lines s \<longleftrightarrow> (irq_level (gpio_irq s) GpioInt \<longleftrightarrow> (\<exists>g < 23. int_pend s ! g \<noteq> 0))
     \<and> (irq_level (gpio_irq s) Extend \<longleftrightarrow> (\<exists>g < 4. ext_int_pend s ! g \<noteq> 0))
     \<and> int_mask s ! 17 = 0xFF \<and> int_pend s ! 17 = 0"

named_theorems gpio_defs

lemma list_ex_upt: "list_ex P [0..<n] \<longleftrightarrow> (\<exists>i < n. P i)"
  by (auto simp: list_ex_iff)

lemma u32_set_bit_nonzero: "pin < 32 \<Longrightarrow> (p OR push_bit pin 1 :: u32) \<noteq> 0"
proof
  assume "pin < 32" and eq: "(p OR push_bit pin 1 :: u32) = 0"
  have "bit (p OR push_bit pin 1 :: u32) pin"
    using \<open>pin < 32\<close> unfolding bit_or_iff bit_push_bit_iff by simp
  then show False unfolding eq by simp
qed

lemma in_window_sub:
  assumes "in_window b n off" and "unat b + unat n < 2 ^ 64"
  shows "unat (off - b) < unat n"
proof -
  have "unat (b + n) = unat b + unat n" using assms(2) by (simp add: unat_add_lem [symmetric])
  moreover have "unat (off - b) = unat off - unat b"
    using assms(1) by (simp add: in_window_def unat_sub)
  ultimately show ?thesis using assms(1) unfolding in_window_def word_less_nat_alt word_le_nat_alt by linarith
qed

lemma GET_GROUP_bound:
  assumes "in_window b (0x58 * k) off" and "unat b < 0x10000" and "k = 1 \<or> k = 2"
  shows "GET_GROUP b (4 * k) off < 23" and "GET_GROUP b (4 * k) off \<noteq> 17"
proof -
  have "unat (off - b) < 0x58 * unat k"
    using in_window_sub [OF assms(1)] assms(2,3) by auto
  then have "unat ((off - b) div (4 * k)) < 22" using assms(3) by (auto simp: unat_div less_mult_imp_div_less)
  then show "GET_GROUP b (4 * k) off < 23" "GET_GROUP b (4 * k) off \<noteq> 17"
    by (auto simp: GET_GROUP_def INT_TO_GROUP_NUM_def)
qed

lemmas int_group = GET_GROUP_bound [where k = 1, simplified]
lemmas int_group2 = GET_GROUP_bound [where k = 2, simplified]

lemma gpio_irq_lower_ok:
  assumes "gpio_ok s" and "g < 23"
  obtains s' where "s5pc1xx_gpio_irq_lower g m s = Inr s'" "gpio_ok s'" "gpio_lines s \<Longrightarrow> gpio_lines s'"
    "int_pend s' = (int_pend s)[g := int_pend s ! g AND NOT m]" "ext_int_pend s' = ext_int_pend s"
    "irq_level (gpio_irq s') Extend = irq_level (gpio_irq s) Extend" "int_mask s' = int_mask s"
proof
  let ?s = "s\<lparr>int_pend := (int_pend s)[g := int_pend s ! g AND NOT m]\<rparr>"
  let ?s' = "if list_ex (\<lambda>i. int_pend ?s ! i \<noteq> 0) [0..<GPJ4 + 1] then ?s
    else ?s\<lparr>gpio_irq := qemu_irq_lower GpioInt (gpio_irq ?s)\<rparr>"
  show "s5pc1xx_gpio_irq_lower g m s = Inr ?s'"
    using assms by (simp add: s5pc1xx_gpio_irq_lower_def gpio_ok_def Let_def)
  show "gpio_lines ?s'" if "gpio_lines s"
  proof -
    have "irq_level (gpio_irq s) GpioInt" if "(int_pend s)[g := int_pend s ! g AND NOT m] ! i \<noteq> 0" "i < 23" for i
      using \<open>gpio_lines s\<close> that assms
      by (cases "i = g") (auto simp: gpio_lines_def gpio_ok_def)
    then show ?thesis
      using that assms unfolding list_ex_upt by (auto simp: gpio_lines_def gpio_ok_def nth_list_update)
  qed
qed (use assms in \<open>auto simp: gpio_ok_def\<close>)

lemma gpio_ext_lower_ok:
  assumes "gpio_ok s" and "g < 4" and "gpio_lines s"
  obtains s' where "s5pc1xx_gpio_extended_irq_lower g m s = Inr s'" "gpio_ok s'" "gpio_lines s'"
    "ext_int_pend s' = (ext_int_pend s)[g := ext_int_pend s ! g AND NOT m]"
proof
  let ?s = "s\<lparr>ext_int_pend := (ext_int_pend s)[g := ext_int_pend s ! g AND NOT m]\<rparr>"
  let ?s' = "if list_ex (\<lambda>i. ext_int_pend ?s ! i \<noteq> 0) [0..<4] then ?s
    else ?s\<lparr>gpio_irq := qemu_irq_lower Extend (gpio_irq ?s)\<rparr>"
  show "s5pc1xx_gpio_extended_irq_lower g m s = Inr ?s'"
    using assms by (simp add: s5pc1xx_gpio_extended_irq_lower_def gpio_ok_def Let_def)
  have "irq_level (gpio_irq s) Extend" if "(ext_int_pend s)[g := ext_int_pend s ! g AND NOT m] ! i \<noteq> 0" "i < 4" for i
    using assms that by (cases "i = g") (auto simp: gpio_lines_def gpio_ok_def)
  then show "gpio_lines ?s'"
    using assms unfolding list_ex_upt by (auto simp: gpio_lines_def gpio_ok_def nth_list_update)
qed (use assms in \<open>auto simp: gpio_ok_def\<close>)

lemma gpio_ext_irq_ok:
  assumes "gpio_ok s" and "gpio_lines s" and "16 \<le> irq" and "irq < 32"
  obtains s' where "gpio_ext_irq irq level s = Inr s'" "gpio_ok s'" "gpio_lines s'"
    "\<And>g. g < 4 \<Longrightarrow> ext_int_pend s ! g \<noteq> 0 \<Longrightarrow> ext_int_pend s' ! g \<noteq> 0"
proof -
  define g pin where gp: "g = irq div 8" "pin = irq mod 8"
  have g: "g < 4" "pin < 32" using assms(4) by (auto simp: gp)
  have len: "length (ext_int_mask s) = 4" "length (ext_int_pend s) = 4" using assms(1) by (auto simp: gpio_ok_def)
  have raised: "gpio_ok s'" "gpio_lines s'"
    if "s' = s\<lparr>ext_int_pend := (ext_int_pend s)[g := ext_int_pend s ! g OR push_bit pin 1], gpio_irq := qemu_irq_raise Extend (gpio_irq s)\<rparr>" for s'
    using assms(1,2) g that u32_set_bit_nonzero [OF g(2)] by (auto simp: gpio_ok_def gpio_lines_def nth_list_update)
  have eq: "gpio_ext_irq irq level s =
     (if bit (ext_int_mask s ! g) pin \<or> bit (ext_int_pend s ! g) pin then Inr s
      else if level then Inr (s\<lparr>ext_int_pend := (ext_int_pend s)[g := ext_int_pend s ! g OR push_bit pin 1],
        gpio_irq := qemu_irq_raise Extend (gpio_irq s)\<rparr>)
      else s5pc1xx_gpio_extended_irq_lower g (push_bit pin 1) s)"
    using assms(3) g len by (simp add: gpio_ext_irq_def gp [symmetric] Let_def)
  consider (same) "bit (ext_int_mask s ! g) pin \<or> bit (ext_int_pend s ! g) pin"
    | (raise) "\<not> (bit (ext_int_mask s ! g) pin \<or> bit (ext_int_pend s ! g) pin)" level
    | (lower) "\<not> (bit (ext_int_mask s ! g) pin \<or> bit (ext_int_pend s ! g) pin)" "\<not> level" by blast
  then show thesis
  proof cases
    case same
    then show ?thesis using that [of s] assms(1,2) eq by simp
  next
    case raise
    then have "gpio_ext_irq irq level s = Inr (s\<lparr>ext_int_pend := (ext_int_pend s)[g := ext_int_pend s ! g OR push_bit pin 1],
        gpio_irq := qemu_irq_raise Extend (gpio_irq s)\<rparr>)" unfolding eq by simp
    then show ?thesis
      by (rule that [OF _ raised [OF refl]]) (use g len u32_set_bit_nonzero [OF g(2)] in \<open>simp add: nth_list_update\<close>)
  next
    case lower
    have "ext_int_pend s ! g AND NOT (push_bit pin 1) = ext_int_pend s ! g"
      using lower(1) by (intro bit_word_eqI) (auto simp: bit_simps)
    moreover obtain s' where "s5pc1xx_gpio_extended_irq_lower g (push_bit pin 1) s = Inr s'" "gpio_ok s'" "gpio_lines s'"
      "ext_int_pend s' = (ext_int_pend s)[g := ext_int_pend s ! g AND NOT (push_bit pin 1)]"
      using gpio_ext_lower_ok [OF assms(1) g(1) assms(2)] by blast
    ultimately show ?thesis using that [of s'] lower unfolding eq by simp
  qed
qed

lemma gpio_irq_handler_ok:
  assumes "gpio_ok s" and "gpio_lines s" and "16 \<le> irq" and "irq < 216"
  obtains s' where "s5pc1xx_gpio_irq_handler irq level s = Inr s'" "gpio_ok s'" "gpio_lines s'"
    "\<And>g. g < 4 \<Longrightarrow> ext_int_pend s ! g \<noteq> 0 \<Longrightarrow> ext_int_pend s' ! g \<noteq> 0"
proof (cases "irq < 32")
  case True
  then show ?thesis
    using gpio_ext_irq_ok [OF assms(1-3), of level] that by (auto simp: s5pc1xx_gpio_irq_handler_def)
next
  case False
  define g pin where gp: "g = (irq - 32) div 8" "pin = (irq - 32) mod 8"
  have g: "g < 23" "pin < 32" using assms(4) by (auto simp: gp)
  have len: "length (con s) = 100" "length (int_mask s) = 23" "length (int_pend s) = 23" using assms(1) by (auto simp: gpio_ok_def)
  let ?stop = "drop_bit (pin * 4) (con s ! g) AND 0xF \<noteq> GIPIO_CONF_INT \<or> bit (int_mask s ! g) pin \<or> bit (int_pend s ! g) pin"
  let ?r = "s\<lparr>int_pend := (int_pend s)[g := int_pend s ! g OR push_bit pin 1], gpio_irq := qemu_irq_raise GpioInt (gpio_irq s)\<rparr>"
  have eq: "s5pc1xx_gpio_irq_handler irq level s =
     (if ?stop then Inr s else if level then Inr ?r else s5pc1xx_gpio_irq_lower g (push_bit pin 1) s)"
    using False g len by (simp add: s5pc1xx_gpio_irq_handler_def gp [symmetric] Let_def)
  consider (same) ?stop | (raise) "\<not> ?stop" level | (lower) "\<not> ?stop" "\<not> level" by blast
  then show thesis
  proof cases
    case same
    then show ?thesis using that [of s] assms(1,2) unfolding eq by simp
  next
    case raise
    have pin: "pin < 8" by (simp add: gp)
    have "(0xFF :: u32) = mask 8" by (simp add: mask_eq_exp_minus_1)
    with pin have "bit (0xFF :: u32) pin" by (simp only: bit_mask_iff) simp
    then have "g \<noteq> 17" using raise(1) assms(2) by (auto simp: gpio_lines_def)
    moreover have "gpio_ok ?r" using assms(1) by (simp add: gpio_ok_def)
    ultimately have "gpio_lines ?r"
      using assms(2) g len u32_set_bit_nonzero [OF g(2)] by (auto simp: gpio_lines_def nth_list_update)
    moreover have "s5pc1xx_gpio_irq_handler irq level s = Inr ?r" using raise unfolding eq by simp
    ultimately show ?thesis using \<open>gpio_ok ?r\<close> that [of ?r] by simp
  next
    case lower
    moreover obtain s' where "s5pc1xx_gpio_irq_lower g (push_bit pin 1) s = Inr s'" "gpio_ok s'" "gpio_lines s'" "ext_int_pend s' = ext_int_pend s"
      using gpio_irq_lower_ok [OF assms(1) g(1)] assms(2) by metis
    ultimately show ?thesis using that [of s'] unfolding eq by simp
  qed
qed

lemma gpio_port_less: "gpio_port grp \<Longrightarrow> grp < 100"
  by (auto simp: gpio_port_def)

lemma ext_match_ext_pend:
  assumes "ext_match EXT_INT_PEND offset = Some n"
  shows "4 \<le> gpio_group offset" and "gpio_group offset = 122" and "n < 4" and "offset = EXT_INT_PEND n"
proof -
  have "n < 4 \<and> offset = EXT_INT_PEND n"
    using assms by (auto simp: ext_match_def split: if_splits)
  then have n: "n \<in> {0, 1, 2, 3}" "offset = EXT_INT_PEND n" by auto
  then show "gpio_group offset = 122" "4 \<le> gpio_group offset" by (auto simp: EXT_INT_PEND_def gpio_group_def)
  show "n < 4" "offset = EXT_INT_PEND n" using n by auto
qed

lemma ext_match_less: "ext_match reg offset = Some n \<Longrightarrow> n < 4"
  by (auto simp: ext_match_def split: if_splits)

lemma ext_pend_offset:
  assumes "n < 4"
  shows "gpio_group (EXT_INT_PEND n) = 122" "EXT_INT_PEND n mod STEP = 4 * of_nat n"
    "\<not> in_window INT_CON_BASE INT_REGS_SIZE (EXT_INT_PEND n)"
    "\<not> in_window INT_FLTCON_BASE (INT_REGS_SIZE * 2) (EXT_INT_PEND n)"
    "\<not> in_window INT_MASK_BASE INT_REGS_SIZE (EXT_INT_PEND n)"
    "\<not> in_window INT_PEND_BASE INT_REGS_SIZE (EXT_INT_PEND n)"
    "\<not> in_window INT_FIXPRI_BASE INT_REGS_SIZE (EXT_INT_PEND n)"
    "EXT_INT_PEND n \<notin> {GPIO_INT_GRPPRI, GPIO_INT_PRIORITY, GPIO_INT_SER, GPIO_INT_SER_PEND, GPIO_INT_GRPFIXPRI}"
    "ext_match EXT_INT_MASK (EXT_INT_PEND n) = None" "ext_match EXT_INT_PEND (EXT_INT_PEND n) = Some n"
proof -
  have "n = 0 \<or> n = 1 \<or> n = 2 \<or> n = 3" using assms by auto
  then show "gpio_group (EXT_INT_PEND n) = 122" "EXT_INT_PEND n mod STEP = 4 * of_nat n"
    "\<not> in_window INT_CON_BASE INT_REGS_SIZE (EXT_INT_PEND n)"
    "\<not> in_window INT_FLTCON_BASE (INT_REGS_SIZE * 2) (EXT_INT_PEND n)"
    "\<not> in_window INT_MASK_BASE INT_REGS_SIZE (EXT_INT_PEND n)"
    "\<not> in_window INT_PEND_BASE INT_REGS_SIZE (EXT_INT_PEND n)"
    "\<not> in_window INT_FIXPRI_BASE INT_REGS_SIZE (EXT_INT_PEND n)"
    "EXT_INT_PEND n \<notin> {GPIO_INT_GRPPRI, GPIO_INT_PRIORITY, GPIO_INT_SER, GPIO_INT_SER_PEND, GPIO_INT_GRPFIXPRI}"
    "ext_match EXT_INT_MASK (EXT_INT_PEND n) = None" "ext_match EXT_INT_PEND (EXT_INT_PEND n) = Some n"
    by (elim disjE; simp add: EXT_INT_PEND_def EXT_INT_MASK_def gpio_group_def in_window_def ext_match_def)+
qed

lemma gpio_ext_pend_fault:
  assumes "gpio_ok s" and "n < 4"
  shows "s5pc1xx_gpio_write T s (EXT_INT_PEND n) val w = Inl ArrayBounds"
proof -
  have "length (ext_int_pend s) \<le> 122" using assms(1) by (simp add: gpio_ok_def)
  then show ?thesis
    using ext_pend_offset [OF assms(2)]
    by (simp add: s5pc1xx_gpio_write_def gpio_reg_write_def gpio_port_def s5pc1xx_gpio_extended_irq_lower_def)
qed

lemma gpio_ok_update:
  assumes "gpio_ok s"
  shows "gpio_ok (s\<lparr>con := (con s)[i := v]\<rparr>)" "gpio_ok (s\<lparr>int_con := (int_con s)[i := v]\<rparr>)"
    "gpio_ok (s\<lparr>int_mask := (int_mask s)[i := v]\<rparr>)" "gpio_ok (s\<lparr>int_fixpri := (int_fixpri s)[i := v]\<rparr>)"
    "gpio_ok (s\<lparr>ext_int_mask := (ext_int_mask s)[i := v]\<rparr>)" "gpio_ok (s\<lparr>int_grppri := v\<rparr>)"
    "gpio_ok (s\<lparr>int_priority := v\<rparr>)" "gpio_ok (s\<lparr>int_ser := v\<rparr>)" "gpio_ok (s\<lparr>int_ser_pend := v\<rparr>)"
    "gpio_ok (s\<lparr>int_grpfixpri := v\<rparr>)"
    "i < length (int_fltcon s) \<Longrightarrow> gpio_ok (s\<lparr>int_fltcon := (int_fltcon s)[i := (int_fltcon s ! i)[j := v]]\<rparr>)"
  using assms by (auto simp: gpio_ok_def dest!: subsetD [OF set_update_subset_insert])

text \<open>A write keeps the invariant and, when it returns, the extended pending registers.\<close>

lemma gpio_reg_write_ok:
  assumes "gpio_ok s" and "gpio_lines s" and "4 \<le> grp \<or> ext_match EXT_INT_PEND offset = None"
    and "gpio_reg_write grp offset val s = Inr s'"
  shows "gpio_ok s' \<and> gpio_lines s' \<and> ext_int_pend s' = ext_int_pend s"
proof -
  let ?lower = "in_window INT_PEND_BASE INT_REGS_SIZE offset \<and>
    s5pc1xx_gpio_irq_lower (GET_GROUP INT_PEND_BASE 4 offset) val s = Inr s'"
  let ?msk = "in_window INT_MASK_BASE INT_REGS_SIZE offset
    \<and> s' = s\<lparr>int_mask := (int_mask s)[GET_GROUP INT_MASK_BASE 4 offset := val]\<rparr>"
  let ?same = "int_mask s' = int_mask s \<and> int_pend s' = int_pend s \<and> ext_int_pend s' = ext_int_pend s \<and> gpio_irq s' = gpio_irq s"
  have ext: "s5pc1xx_gpio_extended_irq_lower g m s = Inl ArrayBounds" if "4 \<le> g" for g m
    using assms(1) that by (simp add: s5pc1xx_gpio_extended_irq_lower_def gpio_ok_def)
  consider (lower) ?lower | (msk) ?msk | (other) "gpio_ok s' \<and> ?same"
    using assms(3,4) gpio_ok_update [OF assms(1)] assms(1) ext unfolding gpio_reg_write_def
    by (auto elim!: rbind_InrE simp: arr_set_eq_Inr arr_get_eq_Inr split: if_splits option.splits)
  then show ?thesis
  proof cases
    case lower
    then show ?thesis
      using gpio_irq_lower_ok [OF assms(1) int_group(1) [of INT_PEND_BASE offset], of val] assms(2) by auto
  next
    case msk
    then show ?thesis using int_group [of INT_MASK_BASE offset] assms(1,2) by (auto simp: gpio_ok_def gpio_lines_def)
  next
    case other
    then show ?thesis using assms(2) by (auto simp: gpio_lines_def)
  qed
qed

lemma gpio_write_ok:
  assumes "gpio_ok s" and "gpio_lines s" and "s5pc1xx_gpio_write T s offset val w = Inr (s', w')"
  shows "gpio_ok s' \<and> gpio_lines s' \<and> ext_int_pend s' = ext_int_pend s"
proof -
  have ext: "4 \<le> gpio_group offset \<or> ext_match EXT_INT_PEND offset = None"
    using ext_match_ext_pend(1) by (cases "ext_match EXT_INT_PEND offset") auto
  have lines: "gpio_lines (s\<lparr>con := xs\<rparr>)" for xs using assms(2) by (simp add: gpio_lines_def)
  show ?thesis
    using assms(1,2,3) gpio_ok_update(1) [OF assms(1)] lines gpio_reg_write_ok [OF assms(1,2) ext]
    by (auto simp: s5pc1xx_gpio_write_def Let_def arr_set_eq_Inr elim!: rbind_InrE split: if_splits)
qed

section \<open>Runs of the controller\<close>

text \<open>
  What can happen to the controller: a write of the guest, a level on one of its inputs, and any
  change of the devices behind the pins.
\<close>

inductive gpio_step :: "('o, 'w) gpio_io_mem \<Rightarrow> S5pc1xxGPIOState \<times> 'w \<Rightarrow> S5pc1xxGPIOState \<times> 'w \<Rightarrow> bool" for T where
  guest: "s5pc1xx_gpio_write T s offset val w = Inr (s', w') \<Longrightarrow> gpio_step T (s, w) (s', w')"
| pin: "s5pc1xx_gpio_irq_handler irq level s = Inr s' \<Longrightarrow> irq < 216 \<Longrightarrow> gpio_step T (s, w) (s', w)"
| devices: "gpio_step T (s, w) (s, w')"

inductive gpio_reach :: "('o, 'w) gpio_io_mem \<Rightarrow> S5pc1xxGPIOState \<times> 'w \<Rightarrow> bool" for T where
  init: "s5pc1xx_gpio_init (T0 :: ('o, 'w) gpio_io_mem) = Inr (s, T1) \<Longrightarrow> gpio_reach T (s, w)"
| step: "gpio_reach T x \<Longrightarrow> gpio_step T x y \<Longrightarrow> gpio_reach T y"

definition gpio_inv :: "S5pc1xxGPIOState \<Rightarrow> bool" where
  "gpio_inv s \<longleftrightarrow> gpio_ok s \<and> gpio_lines s"

lemma gpio_step_inv:
  assumes "gpio_step T x y" and "gpio_inv (fst x)"
  shows "gpio_inv (fst y) \<and> (\<forall>g < 4. ext_int_pend (fst x) ! g \<noteq> 0 \<longrightarrow> ext_int_pend (fst y) ! g \<noteq> 0)"
  using assms
proof cases
  case (guest s offset val w s' w')
  then show ?thesis using gpio_write_ok [of s T offset val w s' w'] assms(2) by (auto simp: gpio_inv_def)
next
  case (pin irq level s s' w)
  then have "16 \<le> irq" by (cases "irq < 16") (auto simp: s5pc1xx_gpio_irq_handler_def gpio_ext_irq_def)
  with pin assms(2) show ?thesis
    using gpio_irq_handler_ok [of s irq level] by (auto simp: gpio_inv_def)
next
  case (devices s w w')
  then show ?thesis using assms(2) by simp
qed

lemma gpio_init_inv: "s5pc1xx_gpio_init T0 = Inr (s, T1) \<Longrightarrow> gpio_inv s"
  by (auto simp: s5pc1xx_gpio_init_def s5pc1xx_gpio_reset_def gpio_inv_def gpio_ok_def gpio_lines_def nth_replicate elim!: rbind_InrE)

lemma gpio_reach_inv: "gpio_reach T x \<Longrightarrow> gpio_inv (fst x)"
  by (induction rule: gpio_reach.induct) (auto dest: gpio_init_inv gpio_step_inv)

section \<open>Registration\<close>

lemma register_eq:
  assumes "length (gpio_io_mem_read T) = 9" "length (gpio_io_mem_write T) = 9" "length (gpio_io_mem_conf T) = 9"
    "length (gpio_io_mem_opaque T) = 9" "length (gpio_io_mem_opaque T ! k) = 8" "k < 9" "n < 8"
  shows "s5pc1xx_gpio_register_io_memory k n rd wr cf p T = Inr \<lparr>gpio_io_mem_write = (gpio_io_mem_write T)[k := wr],
      gpio_io_mem_read = (gpio_io_mem_read T)[k := rd], gpio_io_mem_conf = (gpio_io_mem_conf T)[k := cf],
      gpio_io_mem_opaque = (gpio_io_mem_opaque T)[k := (gpio_io_mem_opaque T ! k)[n := p]]\<rparr>"
  using assms by (cases T) (simp add: s5pc1xx_gpio_register_io_memory_def)

lemma table_rows: "replicate 9 x = [x, x, x, x, x, x, x, x, x]" "replicate 8 x = [x, x, x, x, x, x, x, x]"
  by (simp_all add: eval_nat_numeral)

lemma reset_con:
  assumes "con s = replicate 100 0"
  shows "con (s5pc1xx_gpio_reset s) = replicate 100 0"
proof (rule nth_equalityI)
  show "length (con (s5pc1xx_gpio_reset s)) = length (replicate 100 (0 :: u32))"
    by (simp add: s5pc1xx_gpio_reset_def assms)
  show "con (s5pc1xx_gpio_reset s) ! i = replicate 100 0 ! i" if "i < length (con (s5pc1xx_gpio_reset s))" for i
    using that by (simp add: s5pc1xx_gpio_reset_def assms)
qed

lemma gpio_init_value:
  obtains s where "con s = replicate 100 0" "gpio_inv s"
    "s5pc1xx_gpio_init gpio_io_empty = Inr (s, \<lparr>gpio_io_mem_write = (replicate 9 None)[0 := Some s5pc1xx_empty_gpio_write],
       gpio_io_mem_read = (replicate 9 None)[0 := Some s5pc1xx_empty_gpio_read],
       gpio_io_mem_conf = (replicate 9 None)[0 := Some s5pc1xx_empty_gpio_write],
       gpio_io_mem_opaque = replicate 9 (replicate 8 None)\<rparr>)"
proof -
  have null: "(replicate 9 (replicate 8 None))[0 := (replicate 8 None)[0 := None]] = replicate 9 (replicate 8 None)"
    by (simp add: table_rows)
  let ?z = "\<lparr>con = replicate 100 0, int_con = replicate 23 0, int_fltcon = replicate 23 [0, 0], int_mask = replicate 23 0,
    int_pend = replicate 23 0, int_fixpri = replicate 23 0, int_grppri = 0, int_priority = 0, int_ser = 0, int_ser_pend = 0,
    int_grpfixpri = 0, ext_int_mask = replicate 4 0, ext_int_pend = replicate 4 0, gpio_irq = []\<rparr>"
  have eq: "s5pc1xx_gpio_init gpio_io_empty = Inr (s5pc1xx_gpio_reset ?z,
      \<lparr>gpio_io_mem_write = (replicate 9 None)[0 := Some s5pc1xx_empty_gpio_write],
       gpio_io_mem_read = (replicate 9 None)[0 := Some s5pc1xx_empty_gpio_read],
       gpio_io_mem_conf = (replicate 9 None)[0 := Some s5pc1xx_empty_gpio_write],
       gpio_io_mem_opaque = replicate 9 (replicate 8 None)\<rparr>)"
    unfolding s5pc1xx_gpio_init_def gpio_io_empty_def by (simp add: register_eq null)
  show thesis by (rule that [OF reset_con gpio_init_inv [OF eq] eq]) simp
qed

section \<open>Acknowledging interrupts\<close>

text \<open>The handler of a guest: every pending register is read and its bits are written back.\<close>

definition INT_PEND_REG :: "nat \<Rightarrow> hwaddr" where "INT_PEND_REG n = INT_PEND_BASE + 4 * of_nat n"

definition gpio_ack :: "('o, 'w) gpio_io_mem \<Rightarrow> nat \<Rightarrow> S5pc1xxGPIOState \<times> 'w \<Rightarrow> (S5pc1xxGPIOState \<times> 'w) res" where
  "gpio_ack T n = (\<lambda>(s, w). rbind (s5pc1xx_gpio_read T s (INT_PEND_REG n) w) (\<lambda>(v, w).
     s5pc1xx_gpio_write T s (INT_PEND_REG n) v w))"

lemma int_pend_table:
  "list_all (\<lambda>n. \<not> gpio_port (gpio_group (INT_PEND_REG n)) \<and> \<not> in_window INT_CON_BASE INT_REGS_SIZE (INT_PEND_REG n)
     \<and> \<not> in_window INT_FLTCON_BASE (INT_REGS_SIZE * 2) (INT_PEND_REG n)
     \<and> \<not> in_window INT_MASK_BASE INT_REGS_SIZE (INT_PEND_REG n)
     \<and> in_window INT_PEND_BASE INT_REGS_SIZE (INT_PEND_REG n)
     \<and> GET_GROUP INT_PEND_BASE 4 (INT_PEND_REG n) = INT_TO_GROUP_NUM n) [0..<22]"
  by code_simp

lemma gpio_ack_eq:
  assumes "gpio_ok s" and "n < 22"
  shows "gpio_ack T n (s, w) = rbind (s5pc1xx_gpio_irq_lower (INT_TO_GROUP_NUM n) (int_pend s ! INT_TO_GROUP_NUM n) s) (\<lambda>s. Inr (s, w))"
proof -
  have "INT_TO_GROUP_NUM n < length (int_pend s)"
    using assms by (auto simp: INT_TO_GROUP_NUM_def gpio_ok_def)
  then show ?thesis
    using int_pend_table assms(2)
    by (simp add: list_all_iff gpio_ack_def s5pc1xx_gpio_read_def s5pc1xx_gpio_write_def gpio_reg_read_def gpio_reg_write_def)
qed

lemma gpio_ack_prefix:
  assumes "gpio_ok s" and "gpio_lines s" and "k \<le> 22"
  shows "\<exists>s'. rfold (gpio_ack T) [0..<k] (s, w) = Inr (s', w) \<and> gpio_ok s' \<and> gpio_lines s'
    \<and> (\<forall>n < k. int_pend s' ! INT_TO_GROUP_NUM n = 0) \<and> ext_int_pend s' = ext_int_pend s"
  using assms(3)
proof (induction k)
  case 0
  then show ?case using assms by simp
next
  case (Suc k)
  then obtain s' where s': "rfold (gpio_ack T) [0..<k] (s, w) = Inr (s', w)" "gpio_ok s'" "gpio_lines s'"
    "\<forall>n < k. int_pend s' ! INT_TO_GROUP_NUM n = 0" "ext_int_pend s' = ext_int_pend s" by auto
  let ?g = "INT_TO_GROUP_NUM k"
  have g: "?g < 23" using Suc.prems by (simp add: INT_TO_GROUP_NUM_def)
  obtain s2 where s2: "s5pc1xx_gpio_irq_lower ?g (int_pend s' ! ?g) s' = Inr s2" "gpio_ok s2" "gpio_lines s2"
    "int_pend s2 = (int_pend s')[?g := int_pend s' ! ?g AND NOT (int_pend s' ! ?g)]" "ext_int_pend s2 = ext_int_pend s'"
    using gpio_irq_lower_ok [OF s'(2) g] s'(3) by metis
  moreover have "int_pend s2 ! INT_TO_GROUP_NUM n = 0" if "n < Suc k" for n
    using s2(4) s'(2,4) g that by (cases "n = k") (auto simp: gpio_ok_def nth_list_update)
  ultimately show ?case using s' Suc.prems by (simp add: rfold_append gpio_ack_eq)
qed

section \<open>Properties\<close>

text \<open>Pin 0 of GPB as an interrupt source and the extended interrupt 16, both unmasked and raised.\<close>

definition gpio_bare :: "(unit, unit) gpio_io_mem" where
  "gpio_bare = gpio_io_empty"

definition gpio_setup :: "(S5pc1xxGPIOState \<times> unit) res" where
  "gpio_setup = rbind (s5pc1xx_gpio_init gpio_bare) (\<lambda>(s, T).
     rbind (s5pc1xx_gpio_write gpio_bare s 0x40 0xF ()) (\<lambda>(s, w).
     rbind (s5pc1xx_gpio_write gpio_bare s 0x908 0xFE w) (\<lambda>(s, w).
     s5pc1xx_gpio_write gpio_bare s (EXT_INT_MASK 2) 0xFE w)))"

definition gpio_demo :: "(S5pc1xxGPIOState \<times> unit) res" where
  "gpio_demo = rbind gpio_setup (\<lambda>(s, w). rbind (s5pc1xx_gpio_irq_handler 48 True s) (\<lambda>s.
     rbind (s5pc1xx_gpio_irq_handler 16 True s) (\<lambda>s. Inr (s, w))))"

lemma gpio_case_GPB: "gpio_case 2 pin k = 0"
  by (simp add: gpio_case_def s5pc1xx_gpio_case_def)

lemma gpio_demo_ready:
  obtains s where "gpio_setup = Inr (s, ())" "gpio_reach gpio_bare (s, ())" "con s ! 2 = 0xF" "int_mask s ! 2 = 0xFE" "int_pend s ! 2 = 0"
    "ext_int_mask s ! 2 = 0xFE" "ext_int_pend s ! 2 = 0"
proof -
  have "case gpio_setup of Inl e \<Rightarrow> False | Inr (s, w) \<Rightarrow> con s ! 2 = 0xF \<and> int_mask s ! 2 = 0xFE \<and> int_pend s ! 2 = 0
    \<and> ext_int_mask s ! 2 = 0xFE \<and> ext_int_pend s ! 2 = 0"
    by (simp add: gpio_setup_def s5pc1xx_gpio_init_def s5pc1xx_gpio_register_io_memory_def gpio_bare_def
      gpio_io_empty_def s5pc1xx_gpio_reset_def s5pc1xx_gpio_write_def gpio_reg_write_def gpio_group_def gpio_port_def
      gpio_conf_pin_def gpio_case_GPB in_window_def GET_GROUP_def INT_TO_GROUP_NUM_def ext_match_def EXT_INT_MASK_def Let_def)
  then obtain s where s: "gpio_setup = Inr (s, ())" "con s ! 2 = 0xF" "int_mask s ! 2 = 0xFE" "int_pend s ! 2 = 0"
    "ext_int_mask s ! 2 = 0xFE" "ext_int_pend s ! 2 = 0" by (auto split: sum.splits)
  obtain s0 T s1 s2 where "s5pc1xx_gpio_init gpio_bare = Inr (s0, T)" "s5pc1xx_gpio_write gpio_bare s0 0x40 0xF () = Inr (s1, ())"
      "s5pc1xx_gpio_write gpio_bare s1 0x908 0xFE () = Inr (s2, ())"
      "s5pc1xx_gpio_write gpio_bare s2 (EXT_INT_MASK 2) 0xFE () = Inr (s, ())"
    using s(1) by (auto simp: gpio_setup_def elim!: rbind_InrE)
  then have "gpio_reach gpio_bare (s, ())" by (meson gpio_reach.init gpio_reach.step gpio_step.guest)
  with s that show thesis by blast
qed

lemma gpio_demo_value:
  obtains s where "gpio_demo = Inr (s, ())" "gpio_reach gpio_bare (s, ())" "int_pend s ! 2 = 1" "ext_int_pend s ! 2 = 1"
proof -
  obtain s where s: "gpio_setup = Inr (s, ())" "gpio_reach gpio_bare (s, ())" "con s ! 2 = 0xF" "int_mask s ! 2 = 0xFE" "int_pend s ! 2 = 0"
    "ext_int_mask s ! 2 = 0xFE" "ext_int_pend s ! 2 = 0" by (rule gpio_demo_ready)
  have len: "length (con s) = 100" "length (int_mask s) = 23" "length (int_pend s) = 23" "length (ext_int_mask s) = 4" "length (ext_int_pend s) = 4"
    using gpio_reach_inv [OF s(2)] by (simp_all add: gpio_inv_def gpio_ok_def)
  obtain s1 where s1: "s5pc1xx_gpio_irq_handler 48 True s = Inr s1" "int_pend s1 ! 2 = 1" "ext_int_mask s1 = ext_int_mask s" "ext_int_pend s1 = ext_int_pend s"
    using s(3-5) len by (simp add: s5pc1xx_gpio_irq_handler_def GIPIO_CONF_INT_def bit_0)
  obtain s2 where s2: "s5pc1xx_gpio_irq_handler 16 True s1 = Inr s2" "int_pend s2 = int_pend s1" "ext_int_pend s2 ! 2 = 1"
    using s(6,7) s1(3,4) len by (simp add: s5pc1xx_gpio_irq_handler_def gpio_ext_irq_def bit_0)
  have "gpio_reach gpio_bare (s2, ())"
    using gpio_reach.step [OF gpio_reach.step [OF s(2) gpio_step.pin [OF s1(1)]] gpio_step.pin [OF s2(1)]] by simp
  moreover have "gpio_demo = Inr (s2, ())" unfolding gpio_demo_def s(1) using s1(1) s2(1) by simp
  ultimately show thesis using that s1(2) s2(2,3) by simp
qed

text \<open>
  Property C10.  The interrupt lines of the GPIO controller follow its pending registers: in every state that
  accesses of the guest and levels on the inputs can lead to, the line \<^verbatim>\<open>gpioint\<close> is high exactly while
  some group has a pending interrupt and the line \<^verbatim>\<open>extend\<close> exactly while some extended interrupt is
  pending, and an event on any input from 16 on is handled without a fault.
\<close>

theorem gpio_lines_follow:
  assumes "gpio_reach T (s, w)"
  shows "(irq_level (gpio_irq s) GpioInt \<longleftrightarrow> (\<exists>g < 23. int_pend s ! g \<noteq> 0))
    \<and> (irq_level (gpio_irq s) Extend \<longleftrightarrow> (\<exists>g < 4. ext_int_pend s ! g \<noteq> 0))
    \<and> (\<forall>irq level. 16 \<le> irq \<and> irq < 216 \<longrightarrow> (\<exists>s'. s5pc1xx_gpio_irq_handler irq level s = Inr s'))"
proof -
  have "gpio_ok s" "gpio_lines s" using gpio_reach_inv [OF assms] by (simp_all add: gpio_inv_def)
  moreover from this have "\<exists>s'. s5pc1xx_gpio_irq_handler irq level s = Inr s'" if "16 \<le> irq \<and> irq < 216" for irq level
    using gpio_irq_handler_ok that by metis
  ultimately show ?thesis by (auto simp: gpio_lines_def)
qed

theorem gpio_lines_follow_witness:
  "\<exists>s. gpio_demo = Inr (s, ()) \<and> irq_level (gpio_irq s) GpioInt \<and> irq_level (gpio_irq s) Extend"
proof -
  obtain s where s: "gpio_demo = Inr (s, ())" "gpio_reach gpio_bare (s, ())" "int_pend s ! 2 = 1" "ext_int_pend s ! 2 = 1"
    by (rule gpio_demo_value)
  have "\<exists>g < 23. int_pend s ! g \<noteq> 0" "\<exists>g < 4. ext_int_pend s ! g \<noteq> 0"
    using s(3,4) by (auto intro: exI [of _ 2])
  then show ?thesis using s(1) gpio_lines_follow [OF s(2)] by blast
qed

text \<open>
  Property C21.  The guest can silence the GPIO interrupt: when it reads the 22 pending registers one after the
  other and writes back what it read, every access succeeds, no interrupt of a group is pending
  afterwards and the line \<^verbatim>\<open>gpioint\<close> is low.  This includes the group GPI, which has no pending
  register: it stays masked from the reset on.
\<close>

theorem gpio_acknowledged:
  assumes "gpio_reach T (s, w)"
  shows "\<exists>s'. rfold (gpio_ack T) [0..<22] (s, w) = Inr (s', w) \<and> (\<forall>g < 23. int_pend s' ! g = 0)
    \<and> \<not> irq_level (gpio_irq s') GpioInt \<and> ext_int_pend s' = ext_int_pend s"
proof -
  have inv: "gpio_ok s" "gpio_lines s" using gpio_reach_inv [OF assms] by (simp_all add: gpio_inv_def)
  obtain s' where s': "rfold (gpio_ack T) [0..<22] (s, w) = Inr (s', w)" "gpio_lines s'"
    "\<forall>n < 22. int_pend s' ! INT_TO_GROUP_NUM n = 0" "ext_int_pend s' = ext_int_pend s"
    using gpio_ack_prefix [OF inv, of 22 T w] by auto
  have "int_pend s' ! g = 0" if "g < 23" for g
  proof (cases "g = 17")
    case True
    then show ?thesis using s'(2) by (simp add: gpio_lines_def)
  next
    case False
    then have "INT_TO_GROUP_NUM (if g < 17 then g else g - 1) = g" "(if g < 17 then g else g - 1) < 22"
      using that by (auto simp: INT_TO_GROUP_NUM_def)
    then show ?thesis using s'(3) by metis
  qed
  then show ?thesis using s' by (auto simp: gpio_lines_def)
qed

theorem gpio_acknowledged_witness:
  "\<exists>s s'. gpio_demo = Inr (s, ()) \<and> int_pend s ! 2 = 1
    \<and> rfold (gpio_ack gpio_bare) [0..<22] (s, ()) = Inr (s', ()) \<and> \<not> irq_level (gpio_irq s') GpioInt"
proof -
  obtain s where s: "gpio_demo = Inr (s, ())" "gpio_reach gpio_bare (s, ())" "int_pend s ! 2 = 1"
    by (rule gpio_demo_value)
  then show ?thesis using gpio_acknowledged [OF s(2)] by blast
qed

text \<open>
  Property C37.  An extended interrupt is never over: the write to one of its pending registers computes
  the index from the port groups, outside the array, and a low level on the input is ignored while
  the interrupt is pending, so the line \<^verbatim>\<open>extend\<close> that was raised once stays high in every run.
\<close>

theorem gpio_extend_stuck:
  assumes "gpio_reach T x" and "irq_level (gpio_irq (fst x)) Extend" and "(gpio_step T)\<^sup>*\<^sup>* x y"
  shows "irq_level (gpio_irq (fst y)) Extend
    \<and> (\<forall>n < 4. \<forall>val. s5pc1xx_gpio_write T (fst y) (EXT_INT_PEND n) val (snd y) = Inl ArrayBounds)"
proof -
  from assms(3) have "gpio_inv (fst y) \<and> irq_level (gpio_irq (fst y)) Extend"
  proof (induction rule: rtranclp_induct)
    case base
    then show ?case using gpio_reach_inv [OF assms(1)] assms(2) by simp
  next
    case (step y z)
    then obtain g where "g < 4" "ext_int_pend (fst y) ! g \<noteq> 0" by (auto simp: gpio_inv_def gpio_lines_def)
    with gpio_step_inv [OF step.hyps(2)] step.IH show ?case by (auto simp: gpio_inv_def gpio_lines_def)
  qed
  then show ?thesis using gpio_ext_pend_fault by (auto simp: gpio_inv_def)
qed

theorem gpio_extend_stuck_witness:
  "\<exists>s. gpio_demo = Inr (s, ()) \<and> irq_level (gpio_irq s) Extend
    \<and> s5pc1xx_gpio_write gpio_bare s (EXT_INT_PEND 2) 1 () = Inl ArrayBounds"
proof -
  obtain s where s: "gpio_demo = Inr (s, ())" "gpio_reach gpio_bare (s, ())" "ext_int_pend s ! 2 = 1"
    by (rule gpio_demo_value)
  have "gpio_lines s" using gpio_reach_inv [OF s(2)] by (simp add: gpio_inv_def)
  then have "irq_level (gpio_irq (fst (s, ()))) Extend"
    using s(3) by (auto simp: gpio_lines_def intro!: exI [of _ 2])
  from gpio_extend_stuck [OF s(2) this, of "(s, ())"] s(1) show ?thesis
    by (intro exI [of _ s]) simp
qed

end
