(* ===== verification/S5pc1xx_Keyif.thy ===== *)
theory S5pc1xx_Keyif
  imports S5pc1xx_Gpio
begin

text \<open>
  The keypad interface (\<^verbatim>\<open>hw/s5pc1xx_keyif.c\<close>): the matrix of 8 columns and 14 rows, the key events
  of the user interface, the scan registers and the interrupt.  The board file creates the keypad or
  the touchkeys, by a preprocessor switch.
\<close>

section \<open>State\<close>

record S5pc1xxKeyIFState =
  keyifcon :: u32
  keyifstsclr :: u32
  keyifcol :: u32
  keyifrow :: u32
  keyiffc :: u32
  irq_keypad :: "unit irq_log"
  keypad :: "u16 list"

abbreviation (input) COLUMN_NUM :: nat where "COLUMN_NUM \<equiv> 8"
abbreviation (input) KEY_MAX_NUMBER :: nat where "KEY_MAX_NUMBER \<equiv> 128"

definition ROW_INIT :: "'a::len word" where "ROW_INIT = 0x3FFF"

text \<open>The bit fields of the control and status registers.\<close>

definition int_f_en :: "u32 \<Rightarrow> bool" where "int_f_en v = bit v 0"
definition int_r_en :: "u32 \<Rightarrow> bool" where "int_r_en v = bit v 1"
definition p_int :: "u32 \<Rightarrow> u32" where "p_int v = v AND 0x3FFF"
definition r_int :: "u32 \<Rightarrow> u32" where "r_int v = drop_bit 16 v AND 0x3FFF"
definition set_p_int :: "u32 \<Rightarrow> u32 \<Rightarrow> u32" where "set_p_int x v = (v AND NOT 0x3FFF) OR x"
definition set_r_int :: "u32 \<Rightarrow> u32 \<Rightarrow> u32" where "set_r_int x v = (v AND NOT 0x3FFF0000) OR push_bit 16 x"

section \<open>Key codes\<close>

abbreviation (input) KEY_1 :: u32 where "KEY_1 \<equiv> 2"
abbreviation (input) KEY_2 :: u32 where "KEY_2 \<equiv> 3"
abbreviation (input) KEY_3 :: u32 where "KEY_3 \<equiv> 4"
abbreviation (input) KEY_4 :: u32 where "KEY_4 \<equiv> 5"
abbreviation (input) KEY_5 :: u32 where "KEY_5 \<equiv> 6"
abbreviation (input) KEY_6 :: u32 where "KEY_6 \<equiv> 7"
abbreviation (input) KEY_7 :: u32 where "KEY_7 \<equiv> 8"
abbreviation (input) KEY_8 :: u32 where "KEY_8 \<equiv> 9"
abbreviation (input) KEY_9 :: u32 where "KEY_9 \<equiv> 10"
abbreviation (input) KEY_0 :: u32 where "KEY_0 \<equiv> 11"
abbreviation (input) KEY_BACKSPACE :: u32 where "KEY_BACKSPACE \<equiv> 14"
abbreviation (input) KEY_Q :: u32 where "KEY_Q \<equiv> 16"
abbreviation (input) KEY_W :: u32 where "KEY_W \<equiv> 17"
abbreviation (input) KEY_E :: u32 where "KEY_E \<equiv> 18"
abbreviation (input) KEY_R :: u32 where "KEY_R \<equiv> 19"
abbreviation (input) KEY_T :: u32 where "KEY_T \<equiv> 20"
abbreviation (input) KEY_Y :: u32 where "KEY_Y \<equiv> 21"
abbreviation (input) KEY_U :: u32 where "KEY_U \<equiv> 22"
abbreviation (input) KEY_I :: u32 where "KEY_I \<equiv> 23"
abbreviation (input) KEY_O :: u32 where "KEY_O \<equiv> 24"
abbreviation (input) KEY_P :: u32 where "KEY_P \<equiv> 25"
abbreviation (input) KEY_ENTER :: u32 where "KEY_ENTER \<equiv> 28"
abbreviation (input) KEY_A :: u32 where "KEY_A \<equiv> 30"
abbreviation (input) KEY_S :: u32 where "KEY_S \<equiv> 31"
abbreviation (input) KEY_D :: u32 where "KEY_D \<equiv> 32"
abbreviation (input) KEY_F :: u32 where "KEY_F \<equiv> 33"
abbreviation (input) KEY_G :: u32 where "KEY_G \<equiv> 34"
abbreviation (input) KEY_H :: u32 where "KEY_H \<equiv> 35"
abbreviation (input) KEY_J :: u32 where "KEY_J \<equiv> 36"
abbreviation (input) KEY_K :: u32 where "KEY_K \<equiv> 37"
abbreviation (input) KEY_L :: u32 where "KEY_L \<equiv> 38"
abbreviation (input) KEY_LEFTSHIFT :: u32 where "KEY_LEFTSHIFT \<equiv> 42"
abbreviation (input) KEY_Z :: u32 where "KEY_Z \<equiv> 44"
abbreviation (input) KEY_X :: u32 where "KEY_X \<equiv> 45"
abbreviation (input) KEY_C :: u32 where "KEY_C \<equiv> 46"
abbreviation (input) KEY_V :: u32 where "KEY_V \<equiv> 47"
abbreviation (input) KEY_B :: u32 where "KEY_B \<equiv> 48"
abbreviation (input) KEY_N :: u32 where "KEY_N \<equiv> 49"
abbreviation (input) KEY_M :: u32 where "KEY_M \<equiv> 50"
abbreviation (input) KEY_COMMA :: u32 where "KEY_COMMA \<equiv> 51"
abbreviation (input) KEY_SPACE :: u32 where "KEY_SPACE \<equiv> 57"
abbreviation (input) KEY_KP8 :: u32 where "KEY_KP8 \<equiv> 72"
abbreviation (input) KEY_KP4 :: u32 where "KEY_KP4 \<equiv> 75"
abbreviation (input) KEY_KP6 :: u32 where "KEY_KP6 \<equiv> 77"
abbreviation (input) KEY_KP2 :: u32 where "KEY_KP2 \<equiv> 80"

definition keypad_keycode :: "u32 list list" where
  "keypad_keycode =
    [[1, 2, KEY_1, KEY_Q, KEY_A, 6, 7, KEY_KP4],
     [9, 10, KEY_2, KEY_W, KEY_S, KEY_Z, KEY_KP6, 16],
     [17, 18, KEY_3, KEY_E, KEY_D, KEY_X, 23, KEY_KP8],
     [25, 26, KEY_4, KEY_R, KEY_F, KEY_C, 31, 32],
     [33, KEY_O, KEY_5, KEY_T, KEY_G, KEY_V, KEY_KP2, KEY_BACKSPACE],
     [KEY_P, KEY_0, KEY_6, KEY_Y, KEY_H, KEY_SPACE, 47, 48],
     [KEY_M, KEY_L, KEY_7, KEY_U, KEY_J, KEY_N, 55, KEY_ENTER],
     [KEY_LEFTSHIFT, KEY_9, KEY_8, KEY_I, KEY_K, KEY_B, 63, KEY_COMMA]]"

text \<open>The reverse table, filled position by position; a code without a position is \<open>None\<close>, \<^verbatim>\<open>{-1, -1}\<close> in the code.\<close>

type_synonym keymap = "(nat \<times> nat) option list"

definition s5pc1xx_init_keymap :: "keymap res" where
  "s5pc1xx_init_keymap =
     rfold (\<lambda>i m. rfold (\<lambda>j m. rbind (arr_get keypad_keycode i) (\<lambda>row. rbind (arr_get row j) (\<lambda>code.
         arr_set m (unat code) (Some (i, j))))) [0..<8] m) [0..<8] (replicate KEY_MAX_NUMBER None)"

section \<open>Operations\<close>

definition s5pc1xx_keyif_reset :: "S5pc1xxKeyIFState \<Rightarrow> S5pc1xxKeyIFState" where
  "s5pc1xx_keyif_reset s = s\<lparr>keyifcon := 0, keyifstsclr := 0, keyifcol := 0, keyifrow := 0, keyiffc := 0,
     keypad := replicate COLUMN_NUM ROW_INIT\<rparr>"

text \<open>Bit 7 of a key code of the user interface tells a release.\<close>

definition s5pc1xx_keypad_event :: "keymap \<Rightarrow> u32 \<Rightarrow> S5pc1xxKeyIFState \<Rightarrow> S5pc1xxKeyIFState res" where
  "s5pc1xx_keypad_event km keycode s =
     (let rel = (keycode AND 0x80 \<noteq> 0); keycode = keycode AND NOT 0x80 in
      rbind (arr_get km (unat keycode)) (\<lambda>k.
      case k of None \<Rightarrow> Inr s
      | Some (column, row) \<Rightarrow>
        rbind (arr_get (keypad s) column) (\<lambda>v.
        rbind (arr_set (keypad s) column (if rel then v OR push_bit row 1 else v AND NOT (push_bit row 1))) (\<lambda>ks.
        let s = s\<lparr>keypad := ks\<rparr>;
            s = (if rel \<and> int_r_en (keyifcon s)
                 then s\<lparr>irq_keypad := qemu_irq_raise () (irq_keypad s), keyifstsclr := set_r_int 1 (keyifstsclr s)\<rparr> else s);
            s = (if \<not> rel \<and> int_f_en (keyifcon s)
                 then s\<lparr>irq_keypad := qemu_irq_raise () (irq_keypad s), keyifstsclr := set_p_int 1 (keyifstsclr s)\<rparr> else s)
        in Inr s))))"

definition s5pc1xx_keyif_gpio_read :: "S5pc1xxKeyIFState \<Rightarrow> u32 \<Rightarrow> u32" where
  "s5pc1xx_keyif_gpio_read s io_index =
     (case find (\<lambda>i. io_index = GPIO_KP_COL (of_nat i)) [0..<8] of
        Some i \<Rightarrow> drop_bit i (keyifcol s)
      | None \<Rightarrow> (case find (\<lambda>i. io_index = GPIO_KP_ROW (of_nat i)) [0..<14] of
          Some i \<Rightarrow> drop_bit i (keyifrow s)
        | None \<Rightarrow> 0))"

definition s5pc1xx_keyif_gpio_write :: "u32 \<Rightarrow> u32 \<Rightarrow> S5pc1xxKeyIFState \<Rightarrow> S5pc1xxKeyIFState" where
  "s5pc1xx_keyif_gpio_write io_index val s =
     fold (\<lambda>i s. if io_index = GPIO_KP_COL (of_nat i) then s\<lparr>keyifcol := keyifcol s OR push_bit i val\<rparr> else s) [0..<8] s"

definition s5pc1xx_keyif_read :: "S5pc1xxKeyIFState \<Rightarrow> hwaddr \<Rightarrow> u32 res" where
  "s5pc1xx_keyif_read s offset =
     (if offset = 0x00 then Inr (keyifcon s)
      else if offset = 0x04 then Inr (keyifstsclr s)
      else if offset = 0x08 then Inr (keyifcol s)
      else if offset = 0x0C then Inr (keyifrow s)
      else if offset = 0x10 then Inr (keyiffc s)
      else Inl (HwError ''s5pc1xx_keyif: bad read offset''))"

definition s5pc1xx_keyif_write :: "S5pc1xxKeyIFState \<Rightarrow> hwaddr \<Rightarrow> u32 \<Rightarrow> S5pc1xxKeyIFState res" where
  "s5pc1xx_keyif_write s offset val =
     (if offset = 0x00 then Inr (s\<lparr>keyifcon := val\<rparr>)
      else if offset = 0x04 then
        let s = (if p_int val \<noteq> 0
                 then s\<lparr>keyifstsclr := set_p_int 0 (keyifstsclr s), irq_keypad := qemu_irq_lower () (irq_keypad s)\<rparr> else s);
            s = (if r_int val \<noteq> 0
                 then s\<lparr>keyifstsclr := set_r_int 0 (keyifstsclr s), irq_keypad := qemu_irq_lower () (irq_keypad s)\<rparr> else s)
        in Inr s
      else if offset = 0x08 then
        let s = s\<lparr>keyifcol := val AND NOT 0xFF00, keyifrow := ROW_INIT\<rparr> in
        rfold (\<lambda>i s. if \<not> bit (keyifcol s) i
                      then rbind (arr_get (keypad s) i) (\<lambda>k. Inr (s\<lparr>keyifrow := keyifrow s AND ucast k\<rparr>))
                      else Inr s) [0..<COLUMN_NUM] s
      else if offset = 0x0C then Inr s
      else if offset = 0x10 then Inr (s\<lparr>keyiffc := val\<rparr>)
      else Inl (HwError ''s5pc1xx_keyif: bad write offset''))"

definition s5pc1xx_keyif_init :: S5pc1xxKeyIFState where
  "s5pc1xx_keyif_init = s5pc1xx_keyif_reset \<lparr>keyifcon = 0, keyifstsclr = 0, keyifcol = 0, keyifrow = 0, keyiffc = 0,
     irq_keypad = [], keypad = replicate COLUMN_NUM 0\<rparr>"

section \<open>The map of the keys\<close>

definition the_keymap :: keymap where
  "the_keymap = (case s5pc1xx_init_keymap of Inl e \<Rightarrow> [] | Inr m \<Rightarrow> m)"

text \<open>The positions that the table gives to a named key; the others hold a running number.\<close>

definition named_keys :: "(nat \<times> nat) list" where
  "named_keys = [(0, 2), (0, 3), (0, 4), (0, 7), (1, 2), (1, 3), (1, 4), (1, 5), (1, 6), (2, 2), (2, 3), (2, 4), (2, 5),
     (2, 7), (3, 2), (3, 3), (3, 4), (3, 5), (4, 1), (4, 2), (4, 3), (4, 4), (4, 5), (4, 6), (4, 7), (5, 0), (5, 1),
     (5, 2), (5, 3), (5, 4), (5, 5), (6, 0), (6, 1), (6, 2), (6, 3), (6, 4), (6, 5), (6, 7), (7, 0), (7, 1), (7, 2),
     (7, 3), (7, 4), (7, 5), (7, 7)]"

definition keycode_at :: "nat \<times> nat \<Rightarrow> nat" where
  "keycode_at p = unat (keypad_keycode ! fst p ! snd p)"

lemma the_keymap_positions:
  "list_all (\<lambda>k. case k of None \<Rightarrow> True | Some (c, r) \<Rightarrow> c < 8 \<and> r < 8) the_keymap \<and> length the_keymap = 128"
  by code_simp

lemma the_keymap_eq: "s5pc1xx_init_keymap = Inr the_keymap"
proof -
  have "case s5pc1xx_init_keymap of Inl e \<Rightarrow> False | Inr m \<Rightarrow> True" by code_simp
  then obtain m where "s5pc1xx_init_keymap = Inr m" by (auto split: sum.splits)
  then show ?thesis unfolding the_keymap_def by (metis sum.simps(6))
qed

lemma keymap_pos:
  assumes "k < 128" and "the_keymap ! k = Some (c, r)"
  shows "c < 8 \<and> r < 8"
proof -
  have "the_keymap ! k \<in> set the_keymap" using assms(1) the_keymap_positions by simp
  then show ?thesis using the_keymap_positions assms(2) by (auto simp: list_all_iff)
qed

section \<open>The set of pressed keys\<close>

text \<open>The abstract keypad: the positions that are held down, changed by the codes of the user interface.\<close>

definition key_event :: "u32 \<Rightarrow> (nat \<times> nat) set \<Rightarrow> (nat \<times> nat) set" where
  "key_event keycode A =
     (case the_keymap ! unat (keycode AND NOT 0x80) of
        None \<Rightarrow> A | Some p \<Rightarrow> if keycode AND 0x80 \<noteq> 0 then A - {p} else insert p A)"

definition keypad_abs :: "S5pc1xxKeyIFState \<Rightarrow> (nat \<times> nat) set \<Rightarrow> bool" where
  "keypad_abs s A \<longleftrightarrow> length (keypad s) = 8 \<and> A \<subseteq> {..<8} \<times> {..<8}
     \<and> (\<forall>c < 8. \<forall>r. bit (keypad s ! c) r \<longleftrightarrow> r < 14 \<and> (c, r) \<notin> A)"

inductive keyif_reach :: "S5pc1xxKeyIFState \<Rightarrow> (nat \<times> nat) set \<Rightarrow> bool" where
  init: "keyif_reach s5pc1xx_keyif_init {}"
| key: "keyif_reach s A \<Longrightarrow> keycode < 0x100 \<Longrightarrow> s5pc1xx_keypad_event the_keymap keycode s = Inr s'
    \<Longrightarrow> keyif_reach s' (key_event keycode A)"
| guest: "keyif_reach s A \<Longrightarrow> s5pc1xx_keyif_write s offset val = Inr s' \<Longrightarrow> keyif_reach s' A"
| pins: "keyif_reach s A \<Longrightarrow> keyif_reach (s5pc1xx_keyif_gpio_write io_index val s) A"

lemma bit_ROW_INIT: "bit (ROW_INIT :: 'a::len word) r \<longleftrightarrow> r < 14 \<and> r < LENGTH('a)"
proof -
  have "(ROW_INIT :: 'a word) = mask 14" by (simp add: ROW_INIT_def mask_eq_exp_minus_1)
  show ?thesis unfolding \<open>ROW_INIT = _\<close> by (auto simp: bit_mask_iff)
qed

lemma keyif_init_abs: "keypad_abs s5pc1xx_keyif_init {}"
  by (auto simp: keypad_abs_def s5pc1xx_keyif_init_def s5pc1xx_keyif_reset_def bit_ROW_INIT nth_replicate)

lemma keycode_index: "unat (keycode AND NOT 0x80 :: u32) < 128" if "keycode < 0x100"
proof -
  have "keycode AND NOT 0x80 = keycode AND mask 7"
  proof (rule bit_word_eqI)
    fix n assume n: "n < LENGTH(32)"
    have "\<not> bit keycode n" if "8 \<le> n"
    proof -
      have "keycode = take_bit 8 keycode"
        using \<open>keycode < 0x100\<close> by (simp add: take_bit_eq_mod mod_word_less)
      then have "bit keycode n = bit (take_bit 8 keycode) n" by simp
      then show ?thesis using that by (simp add: bit_take_bit_iff)
    qed
    moreover have "bit (0x80 :: u32) n \<longleftrightarrow> n = 7" using bit_exp_iff [where 'a = "32 word", of 7 n] by auto
    ultimately show "bit (keycode AND NOT 0x80) n = bit (keycode AND mask 7) n"
      using n unfolding bit_and_iff bit_not_iff bit_mask_iff by (cases "8 \<le> n") auto
  qed
  also have "unat (keycode AND mask 7) < 128" by (simp add: take_bit_eq_mod unat_mod flip: take_bit_eq_mask)
  finally show ?thesis .
qed

lemma keypad_event_abs:
  assumes "keypad_abs s A" and "keycode < 0x100"
  shows "\<exists>s'. s5pc1xx_keypad_event the_keymap keycode s = Inr s' \<and> keypad_abs s' (key_event keycode A)"
proof (cases "the_keymap ! unat (keycode AND NOT 0x80)")
  case None
  then show ?thesis using assms keycode_index [OF assms(2)] the_keymap_positions
    by (simp add: s5pc1xx_keypad_event_def key_event_def Let_def)
next
  case (Some p)
  obtain c r where p: "p = (c, r)" by force
  have cr: "c < 8" "r < 8" using keymap_pos [OF keycode_index [OF assms(2)]] Some p by auto
  let ?v = "\<lambda>v. if keycode AND 0x80 \<noteq> 0 then v OR push_bit r 1 else v AND NOT (push_bit r 1 :: u16)"
  have bits: "bit (?v v) k \<longleftrightarrow> (if k = r then keycode AND 0x80 \<noteq> 0 else bit v k)" for v k
    using cr(2) bit_imp_le_length [of v k] by (auto simp: bit_simps)
  have "keypad_abs s' (key_event keycode A)" if "keypad s' = (keypad s)[c := ?v (keypad s ! c)]" for s'
  proof -
    have "bit (keypad s' ! i) k \<longleftrightarrow> k < 14 \<and> (i, k) \<notin> key_event keycode A" if "i < 8" for i k
      using assms(1) cr that \<open>keypad s' = _\<close> bits Some p
      by (cases "i = c") (auto simp: keypad_abs_def key_event_def)
    then show ?thesis using assms(1) cr that Some p by (auto simp: keypad_abs_def key_event_def)
  qed
  then show ?thesis
    using assms(1) cr keycode_index [OF assms(2)] the_keymap_positions Some p
    by (simp add: s5pc1xx_keypad_event_def Let_def keypad_abs_def [of s])
qed

lemma scan_rows:
  assumes "length (keypad s) = 8" and "n \<le> 8"
  shows "\<exists>row. rfold (\<lambda>i s. if \<not> bit (keyifcol s) i
        then rbind (arr_get (keypad s) i) (\<lambda>k. Inr (s\<lparr>keyifrow := keyifrow s AND ucast k\<rparr>)) else Inr s) [0..<n] s
      = Inr (s\<lparr>keyifrow := row\<rparr>)
    \<and> (\<forall>r. bit row r \<longleftrightarrow> bit (keyifrow s) r \<and> (\<forall>c < n. \<not> bit (keyifcol s) c \<longrightarrow> bit (ucast (keypad s ! c) :: u32) r))"
  using assms(2)
proof (induction n)
  case 0
  show ?case by (rule exI [of _ "keyifrow s"]) simp
next
  case (Suc n)
  then obtain row where row: "rfold (\<lambda>i s. if \<not> bit (keyifcol s) i
        then rbind (arr_get (keypad s) i) (\<lambda>k. Inr (s\<lparr>keyifrow := keyifrow s AND ucast k\<rparr>)) else Inr s) [0..<n] s
      = Inr (s\<lparr>keyifrow := row\<rparr>)"
    "\<forall>r. bit row r \<longleftrightarrow> bit (keyifrow s) r \<and> (\<forall>c < n. \<not> bit (keyifcol s) c \<longrightarrow> bit (ucast (keypad s ! c) :: u32) r)"
    by auto
  show ?case
    by (rule exI [of _ "if bit (keyifcol s) n then row else row AND ucast (keypad s ! n)"])
       (use row Suc.prems assms(1) in \<open>auto simp: rfold_append bit_and_iff less_Suc_eq\<close>)
qed

lemma keyif_col_write:
  assumes "keypad_abs s A"
  obtains s' where "s5pc1xx_keyif_write s 0x08 val = Inr s'" "keypad s' = keypad s"
    "\<And>r. bit (keyifrow s') r \<longleftrightarrow> r < 14 \<and> (\<forall>c < 8. (c, r) \<in> A \<longrightarrow> bit val c)"
proof -
  let ?s = "s\<lparr>keyifcol := val AND NOT 0xFF00, keyifrow := ROW_INIT\<rparr>"
  have len: "length (keypad s) = 8" using assms by (simp add: keypad_abs_def)
  have mask: "(0xFF00 :: u32) = push_bit 8 (mask 8)" by (simp add: mask_eq_exp_minus_1 push_bit_eq_mult)
  have col: "bit (val AND NOT 0xFF00) c = bit val c" if "c < 8" for c
    unfolding mask bit_and_iff bit_not_iff bit_push_bit_iff using that by (auto simp: bit_imp_le_length)
  have up: "bit (ucast (keypad s ! c) :: u32) r \<longleftrightarrow> r < 14 \<and> (c, r) \<notin> A" if "c < 8" for c r
    using assms that by (auto simp: keypad_abs_def bit_ucast_iff dest: bit_imp_le_length)
  obtain row where row: "s5pc1xx_keyif_write s 0x08 val = Inr (?s\<lparr>keyifrow := row\<rparr>)"
    "\<forall>r. bit row r \<longleftrightarrow> bit (ROW_INIT :: u32) r
      \<and> (\<forall>c < 8. \<not> bit (val AND NOT 0xFF00) c \<longrightarrow> bit (ucast (keypad s ! c) :: u32) r)"
    using scan_rows [of ?s 8] len by (auto simp: s5pc1xx_keyif_write_def Let_def)
  show thesis
  proof
    show "bit (keyifrow (?s\<lparr>keyifrow := row\<rparr>)) r \<longleftrightarrow> r < 14 \<and> (\<forall>c < 8. (c, r) \<in> A \<longrightarrow> bit val c)" for r
      using row(2) up col by (auto simp: bit_ROW_INIT)
  qed (use row(1) in simp_all)
qed

lemma keyif_write_keypad:
  assumes "s5pc1xx_keyif_write s offset val = Inr s'" and "keypad_abs s A"
  shows "keypad_abs s' A"
proof -
  have "keypad s' = keypad s"
  proof (cases "offset = 0x08")
    case True
    then show ?thesis using keyif_col_write [OF assms(2), of val] assms(1) by auto
  next
    case False
    then show ?thesis using assms(1) by (auto simp: s5pc1xx_keyif_write_def Let_def split: if_splits)
  qed
  then show ?thesis using assms(2) by (simp add: keypad_abs_def)
qed

lemma keyif_gpio_write_keypad: "keypad (s5pc1xx_keyif_gpio_write io_index val s) = keypad s"
proof -
  have "keypad (fold (\<lambda>i s. if io_index = GPIO_KP_COL (of_nat i)
      then s\<lparr>keyifcol := keyifcol s OR push_bit i val\<rparr> else s) is s) = keypad s" for "is"
    by (induction "is" arbitrary: s) simp_all
  then show ?thesis by (simp only: s5pc1xx_keyif_gpio_write_def)
qed

lemma keyif_reach_abs: "keyif_reach s A \<Longrightarrow> keypad_abs s A"
proof (induction rule: keyif_reach.induct)
  case (key s A keycode s')
  then show ?case using keypad_event_abs [OF key.IH key.hyps(2)] by auto
next
  case (pins s A io_index val)
  then show ?case using keyif_gpio_write_keypad [of io_index val s] by (simp add: keypad_abs_def)
qed (auto intro: keyif_init_abs keyif_write_keypad)

section \<open>The interrupt\<close>

lemma field_p_r:
  "p_int (set_p_int 0 v) = 0" "p_int (set_p_int 1 v) = 1" "r_int (set_r_int 0 v) = 0" "r_int (set_r_int 1 v) = 1"
  "p_int (set_r_int 0 v) = p_int v" "p_int (set_r_int 1 v) = p_int v"
  "r_int (set_p_int 0 v) = r_int v" "r_int (set_p_int 1 v) = r_int v"
proof -
  have m: "(0x3FFF :: u32) = mask 14" "(0x3FFF0000 :: u32) = push_bit 16 (mask 14)"
    by (simp_all add: mask_eq_exp_minus_1 push_bit_eq_mult)
  note defs = p_int_def r_int_def set_p_int_def set_r_int_def m
  note bits = bit_and_iff bit_or_iff bit_not_iff bit_drop_bit_eq bit_push_bit_iff bit_mask_iff bit_1_iff bit_0_eq bot_fun_def
  show "p_int (set_p_int 0 v) = 0" "p_int (set_p_int 1 v) = 1" "r_int (set_r_int 0 v) = 0" "r_int (set_r_int 1 v) = 1"
    "p_int (set_r_int 0 v) = p_int v" "p_int (set_r_int 1 v) = p_int v"
    "r_int (set_p_int 0 v) = r_int v" "r_int (set_p_int 1 v) = r_int v"
    by (rule bit_word_eqI; unfold defs bits; auto)+
qed

text \<open>A high line has a cause in the status register.\<close>

definition keyif_cause :: "S5pc1xxKeyIFState \<Rightarrow> bool" where
  "keyif_cause s \<longleftrightarrow> (irq_level (irq_keypad s) () \<longrightarrow> p_int (keyifstsclr s) \<noteq> 0 \<or> r_int (keyifstsclr s) \<noteq> 0)"

lemma keyif_reach_cause: "keyif_reach s A \<Longrightarrow> keyif_cause s"
proof (induction rule: keyif_reach.induct)
  case init
  show ?case by (simp add: keyif_cause_def s5pc1xx_keyif_init_def s5pc1xx_keyif_reset_def)
next
  case (key s A keycode s')
  then show ?case
    by (auto simp: s5pc1xx_keypad_event_def Let_def keyif_cause_def field_p_r elim!: rbind_InrE split: option.splits if_splits)
next
  case (guest s A offset val s')
  then show ?case
  proof (cases "offset = 0x08")
    case True
    have "keypad_abs s A" using guest.hyps(1) by (rule keyif_reach_abs)
    then have "length (keypad s) = 8" by (simp add: keypad_abs_def)
    then obtain row where "s' = s\<lparr>keyifcol := val AND NOT 0xFF00, keyifrow := row\<rparr>"
      using scan_rows [of "s\<lparr>keyifcol := val AND NOT 0xFF00, keyifrow := ROW_INIT\<rparr>" 8] guest.hyps(2) True
      by (auto simp: s5pc1xx_keyif_write_def Let_def)
    then show ?thesis using guest.IH by (simp add: keyif_cause_def)
  next
    case False
    then show ?thesis using guest.IH guest.hyps(2)
      by (auto simp: s5pc1xx_keyif_write_def Let_def keyif_cause_def field_p_r split: if_splits)
  qed
next
  case (pins s A io_index val)
  have "irq_keypad (fold (\<lambda>i s. if io_index = GPIO_KP_COL (of_nat i) then s\<lparr>keyifcol := keyifcol s OR push_bit i val\<rparr> else s) is s) = irq_keypad s
    \<and> keyifstsclr (fold (\<lambda>i s. if io_index = GPIO_KP_COL (of_nat i) then s\<lparr>keyifcol := keyifcol s OR push_bit i val\<rparr> else s) is s) = keyifstsclr s"
    for "is" by (induction "is" arbitrary: s) simp_all
  then show ?case using pins.IH by (simp only: keyif_cause_def s5pc1xx_keyif_gpio_write_def)
qed

section \<open>Properties\<close>

text \<open>
  Property C17.  The keypad implements the set of the keys that are held down: in every state that key events,
  register writes and pin writes lead to, every key event is accepted, and a scan reads the set: after
  a write of a column pattern the row register has bit \<open>r\<close> cleared exactly when a held key in row \<open>r\<close>
  has its column selected by a zero.
\<close>

theorem keypad_scan:
  assumes "keyif_reach s A"
  shows "\<exists>s' row. s5pc1xx_keyif_write s 0x08 val = Inr s' \<and> s5pc1xx_keyif_read s' 0x0C = Inr row
    \<and> (\<forall>r. bit row r \<longleftrightarrow> r < 14 \<and> \<not> (\<exists>c < 8. (c, r) \<in> A \<and> \<not> bit val c)) \<and> keyif_reach s' A
    \<and> (\<forall>keycode < 0x100. \<exists>s''. s5pc1xx_keypad_event the_keymap keycode s' = Inr s'' \<and> keyif_reach s'' (key_event keycode A))"
proof -
  obtain s' where s': "s5pc1xx_keyif_write s 0x08 val = Inr s'" "keypad s' = keypad s"
    "\<And>r. bit (keyifrow s') r \<longleftrightarrow> r < 14 \<and> (\<forall>c < 8. (c, r) \<in> A \<longrightarrow> bit val c)"
    using keyif_col_write [OF keyif_reach_abs [OF assms]] by blast
  have reach: "keyif_reach s' A" using keyif_reach.guest [OF assms s'(1)] .
  have "\<exists>s''. s5pc1xx_keypad_event the_keymap keycode s' = Inr s'' \<and> keyif_reach s'' (key_event keycode A)"
    if "keycode < 0x100" for keycode
    using keypad_event_abs [OF keyif_reach_abs [OF reach] that] keyif_reach.key [OF reach that] by blast
  with s' reach show ?thesis by (auto simp: s5pc1xx_keyif_read_def)
qed

text \<open>Key A (position 0, 4) and key Z (position 1, 5) are held; A is released again.\<close>

theorem keypad_scan_witness:
  "\<exists>s s' row. keyif_reach s {(1, 5)} \<and> s5pc1xx_keyif_write s 0x08 0 = Inr s' \<and> s5pc1xx_keyif_read s' 0x0C = Inr row
    \<and> bit row 4 \<and> \<not> bit row 5"
proof -
  have ev: "key_event 30 {} = {(0, 4)}" "key_event 44 {(0, 4)} = {(0, 4), (1, 5)}" "key_event 0x9E {(0, 4), (1, 5)} = {(1, 5)}"
    by code_simp+
  obtain s1 where s1: "keyif_reach s1 {(0, 4)}"
    using keyif_reach.key [OF keyif_reach.init, of 30] keypad_event_abs [OF keyif_init_abs, of 30] ev(1) by auto
  obtain s2 where s2: "keyif_reach s2 {(0, 4), (1, 5)}"
    using keyif_reach.key [OF s1, of 44] keypad_event_abs [OF keyif_reach_abs [OF s1], of 44] ev(2) by auto
  obtain s3 where s3: "keyif_reach s3 {(1, 5)}"
    using keyif_reach.key [OF s2, of "0x9E"] keypad_event_abs [OF keyif_reach_abs [OF s2], of "0x9E"] ev(3) by auto
  from keypad_scan [OF s3, of 0] s3 show ?thesis by auto
qed

text \<open>
  The keypad line is only high with a cause in the status register, but a cause can be left
  without the line: when the guest acknowledges one of two pending interrupts, a press and a
  release, the line falls while the other one stays in the status register.
\<close>

lemma keypad_ack_loses:
  assumes "keyif_reach s A"
  shows "(irq_level (irq_keypad s) () \<longrightarrow> p_int (keyifstsclr s) \<noteq> 0 \<or> r_int (keyifstsclr s) \<noteq> 0)
    \<and> (\<forall>val. p_int val \<noteq> 0 \<and> r_int val = 0 \<longrightarrow> (\<exists>s'. s5pc1xx_keyif_write s 0x04 val = Inr s'
        \<and> p_int (keyifstsclr s') = 0 \<and> r_int (keyifstsclr s') = r_int (keyifstsclr s) \<and> \<not> irq_level (irq_keypad s') ()))"
  using keyif_reach_cause [OF assms] by (simp add: s5pc1xx_keyif_write_def Let_def field_p_r keyif_cause_def)

text \<open>Both interrupts enabled, key A pressed and released, the press acknowledged.\<close>

text \<open>
  Six letters are wired to the wrong place: the numbers that fill the unused positions of the
  key table are key codes of other keys, and the later position wins.  Of the keys the table
  names, all are found at their own position except Q, W, S, D, F and V, whose codes lead to an unused
  position.
\<close>

lemma keymap_letters:
  "map (\<lambda>p. (p, the_keymap ! keycode_at p)) (filter (\<lambda>p. the_keymap ! keycode_at p \<noteq> Some p) named_keys) =
     [((0, 3), Some (1, 7)), ((1, 3), Some (2, 0)), ((1, 4), Some (3, 6)), ((2, 4), Some (3, 7)),
      ((3, 4), Some (4, 0)), ((4, 5), Some (5, 6))]
   \<and> map (\<lambda>p. keycode_at p) [(0, 3), (1, 3), (1, 4), (2, 4), (3, 4), (4, 5)] =
     map unat [KEY_Q, KEY_W, KEY_S, KEY_D, KEY_F, KEY_V]"
  by code_simp

end
