(* ===== verification/Gpio_I2c.thy ===== *)
theory Gpio_I2c
  imports S5pc1xx_Gpio Bitbang_I2c
begin

text \<open>
  The I2C master of the board behind the GPIO controller: the registration of the pins by
  \<^verbatim>\<open>hw/s5pc1xx_i2c_gpio.c\<close>, and a driver that reaches the bus by nothing but accesses to the
  configuration and data registers of the group MP0_5.
\<close>

section \<open>Drivers that simulate each other\<close>

lemma rel_rbind:
  assumes "rel_sum (=) R m n" and "\<And>x y. R x y \<Longrightarrow> rel_sum (=) Q (f x) (g y)"
  shows "rel_sum (=) Q (rbind m f) (rbind n g)"
  using assms by (cases m; cases n) auto

lemma rel_rfold:
  assumes "\<And>x s t. R s t \<Longrightarrow> rel_sum (=) R (f x s) (g x t)" and "R s t"
  shows "rel_sum (=) R (rfold f xs s) (rfold g xs t)"
  using assms(2) by (induction xs arbitrary: s t) (auto intro!: rel_rbind [OF assms(1)])

lemma set_pin_last:
  assumes "set_pin p v s = Inr s'" and "last_data (bitbang s) \<in> {0, 1}"
  shows "last_data (bitbang s') = (if p = SDA_PIN_NUM then of_bool v else last_data (bitbang s))"
  using assms
  by (auto simp: pin_defs bitbang_i2c_enter_stop_def bitbang_clock_def Let_def elim!: rbind_InrE split: if_splits)

text \<open>
  Another pair of pin operations, related to the pins of the model.  The sample has to agree only
  while the data pin is released.
\<close>

locale pin_sim =
  fixes set1 :: "'x pin_set" and get1 :: "'x pin_get" and R :: "'x \<Rightarrow> 'd S5pc1xxI2CGPIOState \<Rightarrow> bool"
  assumes set_sim: "R x s \<Longrightarrow> p = SDA_PIN_NUM \<or> p = GPIO_IDX_I2C_SCL \<Longrightarrow> rel_sum (=) R (set1 p v x) (set_pin p v s)"
    and get_sim: "R x s \<Longrightarrow> \<exists>v x'. get1 x = Inr (v, x') \<and> R x' s
      \<and> (last_data (bitbang s) = 1 \<longrightarrow> v = (s5pc1xx_i2c_bitbang_read s SDA_PIN_NUM \<noteq> 0))"
    and data_sim: "R x s \<Longrightarrow> last_data (bitbang s) \<in> {0, 1}"
begin

lemma start_sim: "R x s \<Longrightarrow> rel_sum (=) R (drv_start set1 x) (gpio_start s)"
  unfolding drv_start_def by (rule rel_rbind [of R]) (auto intro: set_sim)

lemma stop_sim: "R x s \<Longrightarrow> rel_sum (=) R (drv_stop set1 x) (gpio_stop s)"
  unfolding drv_stop_def by (intro rel_rbind [of R] set_sim) auto

definition R_bit :: "bool \<Rightarrow> bool \<times> 'x \<Rightarrow> bool \<times> 'd S5pc1xxI2CGPIOState \<Rightarrow> bool" where
  "R_bit level = (\<lambda>(v, x) (v', s). R x s \<and> (level \<longrightarrow> v = v'))"

lemma bit_sim:
  assumes "R x s"
  shows "rel_sum (=) (R_bit level) (drv_bit set1 get1 level x) (gpio_bit level s)"
proof (cases "set_pin SDA_PIN_NUM level s")
  case (Inl e)
  then show ?thesis using set_sim [OF assms, of SDA_PIN_NUM level] by (auto simp: drv_bit_def elim: rel_sum.cases)
next
  case (Inr s1)
  obtain x1 where x1: "set1 SDA_PIN_NUM level x = Inr x1" "R x1 s1"
    using set_sim [OF assms, of SDA_PIN_NUM level] Inr by (auto elim: rel_sum.cases)
  show ?thesis
  proof (cases "set_pin GPIO_IDX_I2C_SCL True s1")
    case (Inl e)
    then show ?thesis using set_sim [OF x1(2), of GPIO_IDX_I2C_SCL True] Inr x1(1)
      by (auto simp: drv_bit_def elim: rel_sum.cases)
  next
    case (Inr s2)
    obtain x2 where x2: "set1 GPIO_IDX_I2C_SCL True x1 = Inr x2" "R x2 s2"
      using set_sim [OF x1(2), of GPIO_IDX_I2C_SCL True] Inr by (auto elim: rel_sum.cases)
    have "last_data (bitbang s1) = of_bool level"
      using set_pin_last [OF \<open>set_pin SDA_PIN_NUM level s = _\<close> data_sim [OF assms]] by simp
    then have ld: "last_data (bitbang s2) = of_bool level"
      using set_pin_last [OF Inr data_sim [OF x1(2)]] by simp
    obtain v x3 where x3: "get1 x2 = Inr (v, x3)" "R x3 s2" "level \<longrightarrow> v = (s5pc1xx_i2c_bitbang_read s2 SDA_PIN_NUM \<noteq> 0)"
      using get_sim [OF x2(2)] ld by auto
    have "rel_sum (=) (R_bit level) (rbind (set1 GPIO_IDX_I2C_SCL False x3) (\<lambda>x. Inr (v, x)))
       (rbind (set_pin GPIO_IDX_I2C_SCL False s2) (\<lambda>s. Inr (s5pc1xx_i2c_bitbang_read s2 SDA_PIN_NUM \<noteq> 0, s)))"
      using x3(2,3) by (intro rel_rbind [of R] set_sim) (auto simp: R_bit_def)
    then show ?thesis
      using \<open>set_pin SDA_PIN_NUM level s = _\<close> Inr x1(1) x2(1) x3(1) by (simp add: drv_bit_def get_pin_def)
  qed
qed

definition R_val :: "'a \<times> 'x \<Rightarrow> 'a \<times> 'd S5pc1xxI2CGPIOState \<Rightarrow> bool" where
  "R_val = (\<lambda>(v, x) (v', s). R x s \<and> v = v')"

lemma put_sim: "R x s \<Longrightarrow> rel_sum (=) R_val (drv_put set1 get1 d x) (gpio_put d s)"
  unfolding drv_put_def
  by (intro rel_rbind [of R] rel_rfold rel_rbind [OF bit_sim] rel_rbind [OF bit_sim [of _ _ True]]) (auto simp: R_bit_def R_val_def)

lemma get_byte_sim: "R x s \<Longrightarrow> rel_sum (=) R_val (drv_get set1 get1 ack x) (gpio_get ack s)"
  unfolding drv_get_def
  by (intro rel_rbind [of R_val] rel_rfold) (auto simp: R_val_def R_bit_def intro!: rel_rbind [OF bit_sim])

lemma put_all_sim: "R x s \<Longrightarrow> rel_sum (=) R_val (drv_put_all set1 get1 ds x) (gpio_put_all ds s)"
proof (induction ds arbitrary: x s)
  case Nil
  then show ?case by (simp add: R_val_def)
next
  case (Cons d ds)
  show ?case unfolding drv_put_all.simps
    by (rule rel_rbind [OF put_sim [OF Cons.prems]]) (auto simp: R_val_def intro!: rel_rbind [OF Cons.IH])
qed

lemma get_all_sim: "R x s \<Longrightarrow> rel_sum (=) R_val (drv_get_all set1 get1 n x) (gpio_get_all n s)"
proof (induction n arbitrary: x s)
  case 0
  then show ?case by (simp add: R_val_def)
next
  case (Suc n)
  show ?case unfolding drv_get_all.simps
    by (rule rel_rbind [OF get_byte_sim [OF Suc.prems]]) (auto simp: R_val_def intro!: rel_rbind [OF Suc.IH])
qed

theorem write_sim: "R x s \<Longrightarrow> rel_sum (=) R_val (drv_write set1 get1 a ds x) (gpio_write a ds s)"
  unfolding drv_write_def
  by (rule rel_rbind [OF start_sim], assumption)
     (rule rel_rbind [OF put_all_sim], assumption, auto simp: R_val_def intro!: rel_rbind [OF stop_sim])

theorem read_sim: "R x s \<Longrightarrow> rel_sum (=) R_val (drv_read set1 get1 a n x) (gpio_read a n s)"
  unfolding drv_read_def
  by (rule rel_rbind [OF start_sim], assumption)
     (rule rel_rbind [OF put_sim], assumption,
      auto simp: R_val_def intro!: rel_rbind [OF get_all_sim] rel_rbind [OF stop_sim])

end

section \<open>The registration of the pins\<close>

text \<open>
  The handlers as the controller calls them: the device pointer is the number of the instance, and
  the devices are a function from the instances to their states.
\<close>

type_synonym 'd i2c_devs = "nat \<Rightarrow> 'd S5pc1xxI2CGPIOState"

definition i2c_read_fn :: "nat option \<Rightarrow> u32 \<Rightarrow> 'd i2c_devs \<Rightarrow> (u32 \<times> 'd i2c_devs) res" where
  "i2c_read_fn opaque io_index w = (case opaque of None \<Rightarrow> Inl NullDeref
     | Some n \<Rightarrow> Inr (s5pc1xx_i2c_bitbang_read (w n) (unat io_index), w))"

definition s5pc1xx_i2c_bitbang_write :: "nat option \<Rightarrow> u32 \<Rightarrow> u32 \<Rightarrow> 'd i2c_devs \<Rightarrow> 'd i2c_devs res" where
  "s5pc1xx_i2c_bitbang_write opaque io_index val w = Inr w"

definition i2c_conf_fn :: "nat option \<Rightarrow> u32 \<Rightarrow> u32 \<Rightarrow> 'd i2c_devs \<Rightarrow> 'd i2c_devs res" where
  "i2c_conf_fn opaque io_index conf w = (case opaque of None \<Rightarrow> Inl NullDeref
     | Some n \<Rightarrow> rbind (s5pc1xx_i2c_bitbang_set_conf (w n) (unat io_index) conf) (\<lambda>s. Inr (w(n := s))))"

definition s5pc1xx_i2c_gpio_init :: "nat \<Rightarrow> (nat, 'd i2c_devs) gpio_io_mem \<Rightarrow> (nat, 'd i2c_devs) gpio_io_mem res" where
  "s5pc1xx_i2c_gpio_init inst T =
     s5pc1xx_gpio_register_io_memory 5 inst (Some i2c_read_fn) (Some s5pc1xx_i2c_bitbang_write) (Some i2c_conf_fn) (Some inst) T"

text \<open>The controller and the first three masters, in the order of \<^verbatim>\<open>hw/s5pc1xx.c\<close>.\<close>

definition s5pc110_i2c_gpio_init :: "(S5pc1xxGPIOState \<times> (nat, 'd i2c_devs) gpio_io_mem) res" where
  "s5pc110_i2c_gpio_init =
     rbind (s5pc1xx_gpio_init gpio_io_empty) (\<lambda>(s, T).
     rbind (s5pc1xx_i2c_gpio_init 3 T) (\<lambda>T.
     rbind (s5pc1xx_i2c_gpio_init 4 T) (\<lambda>T.
     rbind (s5pc1xx_i2c_gpio_init 5 T) (\<lambda>T. Inr (s, T)))))"

definition i2c_table :: "(nat, 'd i2c_devs) gpio_io_mem" where
  "i2c_table = \<lparr>
     gpio_io_mem_write = [Some s5pc1xx_empty_gpio_write, None, None, None, None, Some s5pc1xx_i2c_bitbang_write, None, None, None],
     gpio_io_mem_read = [Some s5pc1xx_empty_gpio_read, None, None, None, None, Some i2c_read_fn, None, None, None],
     gpio_io_mem_conf = [Some s5pc1xx_empty_gpio_write, None, None, None, None, Some i2c_conf_fn, None, None, None],
     gpio_io_mem_opaque = (replicate 9 (replicate 8 None))[5 := [None, None, None, Some 3, Some 4, Some 5, None, None]]\<rparr>"

lemma i2c_table_init:
  "\<exists>s. s5pc110_i2c_gpio_init = Inr (s, i2c_table :: (nat, 'd i2c_devs) gpio_io_mem) \<and> gpio_inv s \<and> con s = replicate 100 0"
proof (rule gpio_init_value)
  fix s
  assume s: "con s = replicate 100 0" "gpio_inv s"
    "s5pc1xx_gpio_init gpio_io_empty = Inr (s, \<lparr>gpio_io_mem_write = (replicate 9 None)[0 := Some s5pc1xx_empty_gpio_write],
       gpio_io_mem_read = (replicate 9 None)[0 := Some s5pc1xx_empty_gpio_read],
       gpio_io_mem_conf = (replicate 9 None)[0 := Some s5pc1xx_empty_gpio_write],
       gpio_io_mem_opaque = replicate 9 (replicate 8 None)\<rparr> :: (nat, 'd i2c_devs) gpio_io_mem)"
  have "s5pc110_i2c_gpio_init = Inr (s, i2c_table :: (nat, 'd i2c_devs) gpio_io_mem)"
    unfolding s5pc110_i2c_gpio_init_def s(3) rbind_Inr prod.case
    by (simp add: s5pc1xx_i2c_gpio_init_def register_eq i2c_table_def table_rows)
  then show ?thesis using s(1,2) by blast
qed

text \<open>The fourth master has the instance number 10, past the eight of the table.\<close>

lemma i2c_gpio10_out: "s5pc1xx_i2c_gpio_init 10 i2c_table = Inl ArrayBounds"
  by (simp add: s5pc1xx_i2c_gpio_init_def s5pc1xx_gpio_register_io_memory_def i2c_table_def)

section \<open>The driver on the registers\<close>

text \<open>Group MP0_5: pin 2 is the clock and pin 3 the data line of master 5.\<close>

definition MP0_5_CON :: hwaddr where "MP0_5_CON = 0x360"
definition MP0_5_DAT :: hwaddr where "MP0_5_DAT = 0x364"

definition nib :: "u32 \<Rightarrow> nat \<Rightarrow> u32" where
  "nib c pin = drop_bit (pin * 4) c AND 0xF"

definition set_nib :: "nat \<Rightarrow> u32 \<Rightarrow> u32 \<Rightarrow> u32" where
  "set_nib pin v c = (c AND NOT (push_bit (pin * 4) 0xF)) OR push_bit (pin * 4) v"

definition mp05_pin :: "nat \<Rightarrow> nat" where
  "mp05_pin p = (if p = SDA_PIN_NUM then 3 else 2)"

definition reg_set :: "(S5pc1xxGPIOState \<times> 'd i2c_devs) pin_set" where
  "reg_set p level = (\<lambda>(s, w). rbind (s5pc1xx_gpio_read i2c_table s MP0_5_CON w) (\<lambda>(c, w).
     s5pc1xx_gpio_write i2c_table s MP0_5_CON (set_nib (mp05_pin p) (if level then 0 else 1) c) w))"

definition reg_get :: "(S5pc1xxGPIOState \<times> 'd i2c_devs) pin_get" where
  "reg_get = (\<lambda>(s, w). rbind (s5pc1xx_gpio_read i2c_table s MP0_5_DAT w) (\<lambda>(d, w). Inr (bit d 3, (s, w))))"

lemma nib_set_nib:
  assumes "p < 8" and "q < 8" and "v < 16"
  shows "nib (set_nib p v c) q = (if p = q then v else nib c q)"
proof (rule bit_word_eqI)
  fix n assume n: "n < LENGTH(32)"
  have m: "(0xF :: u32) = mask 4" by (simp add: mask_eq_exp_minus_1)
  have "take_bit 4 v = v" using assms(3) by (simp add: take_bit_eq_mod mod_word_less)
  then have v: "bit v k \<Longrightarrow> k < 4" for k by (metis bit_take_bit_iff)
  have "p * 4 \<le> q * 4 + n \<and> q * 4 + n - p * 4 < 4 \<longleftrightarrow> p = q" if "n < 4" using that by presburger
  then show "bit (nib (set_nib p v c) q) n = bit (if p = q then v else nib c q) n"
    using v [of "q * 4 + n - p * 4"] v [of n] assms(1,2) n
    unfolding nib_def set_nib_def m bit_and_iff bit_or_iff bit_not_iff bit_drop_bit_eq bit_push_bit_iff bit_mask_iff
    by (auto simp: bit_and_iff bit_mask_iff bit_drop_bit_eq)
qed

lemma mp05_cases:
  "gpio_case 27 0 k = 0" "gpio_case 27 1 k = 0" "gpio_case 27 4 k = 0" "gpio_case 27 5 k = 0" "gpio_case 27 6 k = 0" "gpio_case 27 7 k = 0"
  "k \<noteq> 4 \<Longrightarrow> k \<noteq> 6 \<Longrightarrow> gpio_case 27 2 k = 0" "k \<noteq> 4 \<Longrightarrow> k \<noteq> 6 \<Longrightarrow> gpio_case 27 3 k = 0"
  "k = 4 \<or> k = 6 \<Longrightarrow> gpio_case 27 2 k = CASE_ID 5 5 1" "k = 4 \<or> k = 6 \<Longrightarrow> gpio_case 27 3 k = CASE_ID 5 5 2"
proof -
  have row: "map_of s5pc1xx_gpio_case 27 = Some [[], [], [0, 0, 0, 0, GPIO_I2C_SCL 5, 0, GPIO_I2C_SCL 5],
    [0, 0, 0, 0, GPIO_I2C_SDA 5, 0, GPIO_I2C_SDA 5], [], [], [], []]"
    by (simp add: s5pc1xx_gpio_case_def)
  have nth: "k < 7 \<Longrightarrow> [0, 0, 0, 0, x, 0, x] ! k = (if k = 4 \<or> k = 6 then x else 0 :: u32)" for x
    by (auto simp: nth_Cons' less_Suc_eq numeral_eq_Suc)
  show "gpio_case 27 0 k = 0" "gpio_case 27 1 k = 0" "gpio_case 27 4 k = 0" "gpio_case 27 5 k = 0" "gpio_case 27 6 k = 0" "gpio_case 27 7 k = 0"
    by (simp_all add: gpio_case_def row)
  show "k \<noteq> 4 \<Longrightarrow> k \<noteq> 6 \<Longrightarrow> gpio_case 27 2 k = 0" "k \<noteq> 4 \<Longrightarrow> k \<noteq> 6 \<Longrightarrow> gpio_case 27 3 k = 0"
    "k = 4 \<or> k = 6 \<Longrightarrow> gpio_case 27 2 k = CASE_ID 5 5 1" "k = 4 \<or> k = 6 \<Longrightarrow> gpio_case 27 3 k = CASE_ID 5 5 2"
    using nth by (auto simp: gpio_case_def row simp del: nth_Cons_numeral)
qed

lemma i2c_handlers:
  "gpio_handler (gpio_io_mem_conf i2c_table) (gpio_io_mem_opaque i2c_table) (CASE_ID 5 5 1) = Inr (i2c_conf_fn, Some 5, 1)"
  "gpio_handler (gpio_io_mem_conf i2c_table) (gpio_io_mem_opaque i2c_table) (CASE_ID 5 5 2) = Inr (i2c_conf_fn, Some 5, 2)"
  "gpio_handler (gpio_io_mem_read i2c_table) (gpio_io_mem_opaque i2c_table) (CASE_ID 5 5 1) = Inr (i2c_read_fn, Some 5, 1)"
  "gpio_handler (gpio_io_mem_read i2c_table) (gpio_io_mem_opaque i2c_table) (CASE_ID 5 5 2) = Inr (i2c_read_fn, Some 5, 2)"
  by (simp_all add: gpio_handler_def i2c_table_def CASE_ID_def Let_def)

lemma case_id_nonzero: "CASE_ID 5 5 1 \<noteq> 0" "CASE_ID 5 5 2 \<noteq> 0"
  by (simp_all add: CASE_ID_def)

lemma mp05_offsets:
  "gpio_group MP0_5_CON = 27" "gpio_group MP0_5_DAT = 27" "MP0_5_CON mod 0x20 = 0" "MP0_5_DAT mod 0x20 = 4" "gpio_port 27"
  by (simp_all add: MP0_5_CON_def MP0_5_DAT_def gpio_group_def gpio_port_def)

text \<open>A write of the configuration register tells the clock pin first, then the data pin.\<close>

lemma mp05_con_write:
  assumes "gpio_ok s"
  shows "s5pc1xx_gpio_write i2c_table s MP0_5_CON val w =
     rbind (s5pc1xx_i2c_bitbang_set_conf (w 5) GPIO_IDX_I2C_SCL (nib val 2)) (\<lambda>st.
     rbind (s5pc1xx_i2c_bitbang_set_conf st SDA_PIN_NUM (nib val 3)) (\<lambda>st.
       Inr (s\<lparr>con := (con s)[27 := val]\<rparr>, w(5 := st))))"
proof -
  have len: "27 < length (con s)" using assms by (simp add: gpio_ok_def)
  have pins: "gpio_conf_pin i2c_table val 27 p w = Inr w" if "p \<in> {0, 1, 4, 5, 6, 7}" for p w
    using that by (auto simp: gpio_conf_pin_def mp05_cases simp del: One_nat_def)
  have scl: "gpio_conf_pin i2c_table val 27 2 w = rbind (s5pc1xx_i2c_bitbang_set_conf (w 5) GPIO_IDX_I2C_SCL (nib val 2)) (\<lambda>st.
      Inr (w(5 := st)))" for w
    by (simp add: gpio_conf_pin_def mp05_cases case_id_nonzero i2c_handlers i2c_conf_fn_def nib_def)
  have sda: "gpio_conf_pin i2c_table val 27 3 w = rbind (s5pc1xx_i2c_bitbang_set_conf (w 5) SDA_PIN_NUM (nib val 3)) (\<lambda>st.
      Inr (w(5 := st)))" for w
    by (simp add: gpio_conf_pin_def mp05_cases case_id_nonzero i2c_handlers i2c_conf_fn_def nib_def)
  show ?thesis
    using len by (simp add: s5pc1xx_gpio_write_def mp05_offsets pins scl sda rbind_assoc)
qed

section \<open>The registers simulate the pins\<close>

text \<open>What every call on the state machine leaves: the level read back is the one on the wire.\<close>

definition pins_ok :: "'d S5pc1xxI2CGPIOState \<Rightarrow> bool" where
  "pins_ok st \<longleftrightarrow> last_data (bitbang st) \<in> {0, 1} \<and> last_clock (bitbang st) \<in> {0, 1}
     \<and> sda st = device_out (bitbang st) AND last_data (bitbang st) \<and> scl st = last_clock (bitbang st)"

definition pin_conf :: "int \<Rightarrow> u32" where
  "pin_conf level = (if level = 1 then 0 else 1)"

definition gpio_pins :: "S5pc1xxGPIOState \<times> 'd i2c_devs \<Rightarrow> 'd S5pc1xxI2CGPIOState \<Rightarrow> bool" where
  "gpio_pins x st \<longleftrightarrow> gpio_ok (fst x) \<and> snd x 5 = st \<and> pins_ok st
     \<and> nib (con (fst x) ! 27) 2 = pin_conf (last_clock (bitbang st)) \<and> nib (con (fst x) ! 27) 3 = pin_conf (last_data (bitbang st))
     \<and> (\<forall>q < 8. nib (con (fst x) ! 27) q \<le> 5)"

lemma set_conf_same:
  assumes "pins_ok st"
  shows "s5pc1xx_i2c_bitbang_set_conf st GPIO_IDX_I2C_SCL (pin_conf (last_clock (bitbang st))) = Inr st"
    "s5pc1xx_i2c_bitbang_set_conf st SDA_PIN_NUM (pin_conf (last_data (bitbang st))) = Inr st"
  using assms by (auto simp: pins_ok_def pin_conf_def pin_defs)

lemma set_pin_ok:
  assumes "pins_ok st" and "set_pin p v st = Inr st'" and "p = SDA_PIN_NUM \<or> p = GPIO_IDX_I2C_SCL"
  shows "pins_ok st' \<and> last_clock (bitbang st') = (if p = SDA_PIN_NUM then last_clock (bitbang st) else of_bool v)
    \<and> last_data (bitbang st') = (if p = SDA_PIN_NUM then of_bool v else last_data (bitbang st))"
  using assms
  by (auto simp: pins_ok_def pin_defs bitbang_i2c_enter_stop_def bitbang_clock_def Let_def elim!: rbind_InrE split: if_splits)

lemma set_pin_conf: "set_pin p v st = s5pc1xx_i2c_bitbang_set_conf st p (pin_conf (of_bool v))"
  by (simp add: set_pin_def pin_conf_def)

lemma reg_set_eq:
  assumes "gpio_pins (s, w) st" and "p = SDA_PIN_NUM \<or> p = GPIO_IDX_I2C_SCL"
  shows "reg_set p v (s, w) = rbind (set_pin p v st) (\<lambda>st'.
    Inr (s\<lparr>con := (con s)[27 := set_nib (mp05_pin p) (pin_conf (of_bool v)) (con s ! 27)]\<rparr>, w(5 := st')))"
proof -
  let ?c = "con s ! 27"
  have s: "gpio_ok s" "w 5 = st" "pins_ok st" "nib ?c 2 = pin_conf (last_clock (bitbang st))" "nib ?c 3 = pin_conf (last_data (bitbang st))"
    using assms(1) by (auto simp: gpio_pins_def)
  have len: "27 < length (con s)" using s(1) by (simp add: gpio_ok_def)
  have small: "pin_conf l < 16" for l by (simp add: pin_conf_def)
  have eq: "reg_set p v (s, w) = s5pc1xx_gpio_write i2c_table s MP0_5_CON (set_nib (mp05_pin p) (pin_conf (of_bool v)) ?c) w"
    using len by (simp add: reg_set_def s5pc1xx_gpio_read_def mp05_offsets pin_conf_def)
  show ?thesis
  proof (cases "p = SDA_PIN_NUM")
    case True
    then show ?thesis
      unfolding eq mp05_con_write [OF s(1)] using s(2,4) set_conf_same(1) [OF s(3)]
      by (simp add: mp05_pin_def nib_set_nib [OF _ _ small] set_pin_conf)
  next
    case False
    then have p: "p = GPIO_IDX_I2C_SCL" using assms(2) by simp
    have "s5pc1xx_i2c_bitbang_set_conf st' SDA_PIN_NUM (nib ?c 3) = Inr st'" if "set_pin p v st = Inr st'" for st'
      using set_conf_same(2) [of st'] set_pin_ok [OF s(3) that assms(2)] p s(5) by simp
    then show ?thesis
      unfolding eq mp05_con_write [OF s(1)] using s(2)
      by (cases "set_pin p v st") (auto simp: p mp05_pin_def nib_set_nib [OF _ _ small] set_pin_conf)
  qed
qed

lemma reg_set_sim:
  assumes "gpio_pins x st" and "p = SDA_PIN_NUM \<or> p = GPIO_IDX_I2C_SCL"
  shows "rel_sum (=) gpio_pins (reg_set p v x) (set_pin p v st)"
proof -
  obtain s w where x: "x = (s, w)" by force
  have len: "27 < length (con s)" using assms(1) by (simp add: x gpio_pins_def gpio_ok_def)
  have small: "pin_conf l < 16" "pin_conf l \<le> 5" for l by (simp_all add: pin_conf_def)
  have "gpio_pins (s\<lparr>con := (con s)[27 := set_nib (mp05_pin p) (pin_conf (of_bool v)) (con s ! 27)]\<rparr>, w(5 := st')) st'"
    if st': "set_pin p v st = Inr st'" for st'
    using set_pin_ok [OF _ st' assms(2)] assms len small gpio_ok_update(1) [of s]
    by (auto simp: x gpio_pins_def mp05_pin_def nib_set_nib)
  then show ?thesis
    unfolding x reg_set_eq [OF assms(1) [unfolded x] assms(2)] by (cases "set_pin p v st") auto
qed

lemma read_pin_skip:
  assumes "nib c p \<le> 5" and "nib c p = 1 \<or> gpio_case 27 p (CASE (nib c p)) = 0"
  shows "gpio_read_pin T c 27 p (v, r, w) = Inr (v, r OR push_bit p (v AND 1), w)"
  using assms by (auto simp: gpio_read_pin_def nib_def [symmetric] Let_def)

lemma read_pin_i2c:
  assumes "nib c p = 0" and "(p, i) \<in> {(2, 1), (3, 2)}"
  shows "gpio_read_pin i2c_table c 27 p (v, r, w) = Inr (s5pc1xx_i2c_bitbang_read (w 5) i,
    r OR push_bit p (s5pc1xx_i2c_bitbang_read (w 5) i AND 1), w)"
  using assms
  by (auto simp: gpio_read_pin_def nib_def [symmetric] Let_def CASE_def mp05_cases case_id_nonzero i2c_handlers i2c_read_fn_def)

lemma reg_get_sim:
  assumes "gpio_pins x st"
  shows "\<exists>v x'. reg_get x = Inr (v, x') \<and> gpio_pins x' st
    \<and> (last_data (bitbang st) = 1 \<longrightarrow> v = (s5pc1xx_i2c_bitbang_read st SDA_PIN_NUM \<noteq> 0))"
proof -
  obtain s w where x: "x = (s, w)" by force
  let ?c = "con s ! 27"
  have s: "27 < length (con s)" "w 5 = st" "pins_ok st" "nib ?c 2 = pin_conf (last_clock (bitbang st))"
    "nib ?c 3 = pin_conf (last_data (bitbang st))" "\<And>q. q < 8 \<Longrightarrow> nib ?c q \<le> 5"
    using assms by (auto simp: x gpio_pins_def gpio_ok_def)
  have skip: "gpio_read_pin i2c_table ?c 27 p (v, r, w) = Inr (v, r OR push_bit p (v AND 1), w)"
    if "p \<in> {0, 1, 4, 5, 6, 7}" for p v r
    using that s(6) by (intro read_pin_skip) (auto simp: mp05_cases simp del: One_nat_def)
  have two: "\<exists>u. gpio_read_pin i2c_table ?c 27 2 (v, r, w) = Inr (u, r OR push_bit 2 (u AND 1), w)" for v r
  proof (cases "nib ?c 2 = 1")
    case True
    show ?thesis by (rule exI, rule read_pin_skip) (use True in simp_all)
  next
    case False
    then have zero: "nib ?c 2 = 0" using s(4) by (simp add: pin_conf_def split: if_splits)
    show ?thesis by (rule exI, rule read_pin_i2c [of _ 2 1]) (use zero in simp_all)
  qed
  have three: "\<exists>u. gpio_read_pin i2c_table ?c 27 3 (v, r, w) = Inr (u, r OR push_bit 3 (u AND 1), w)
      \<and> (last_data (bitbang st) = 1 \<longrightarrow> u = s5pc1xx_i2c_bitbang_read st SDA_PIN_NUM)" for v r
  proof (cases "nib ?c 3 = 1")
    case True
    then have "last_data (bitbang st) \<noteq> 1" using s(5) by (simp add: pin_conf_def split: if_splits)
    moreover have "gpio_read_pin i2c_table ?c 27 3 (v, r, w) = Inr (v, r OR push_bit 3 (v AND 1), w)"
      by (rule read_pin_skip) (use True in simp_all)
    ultimately show ?thesis by blast
  next
    case False
    then have zero: "nib ?c 3 = 0" using s(5) by (simp add: pin_conf_def split: if_splits)
    have "gpio_read_pin i2c_table ?c 27 3 (v, r, w) = Inr (s5pc1xx_i2c_bitbang_read (w 5) 2,
        r OR push_bit 3 (s5pc1xx_i2c_bitbang_read (w 5) 2 AND 1), w)"
      by (rule read_pin_i2c) (use zero in simp_all)
    then show ?thesis using s(2) by blast
  qed
  obtain u2 where u2: "gpio_read_pin i2c_table ?c 27 2 (0, 0, w) = Inr (u2, push_bit 2 (u2 AND 1), w)" using two [of 0 0] by auto
  obtain u3 where u3: "gpio_read_pin i2c_table ?c 27 3 (u2, push_bit 2 (u2 AND 1), w) = Inr (u3, push_bit 2 (u2 AND 1) OR push_bit 3 (u3 AND 1), w)"
    "last_data (bitbang st) = 1 \<longrightarrow> u3 = s5pc1xx_i2c_bitbang_read st SDA_PIN_NUM" using three by blast
  define d where "d = push_bit 2 (u2 AND 1) OR push_bit 3 (u3 AND 1) OR push_bit 4 (u3 AND 1) OR push_bit 5 (u3 AND 1)
    OR push_bit 6 (u3 AND 1) OR push_bit 7 (u3 AND 1 :: u32)"
  have "bit d 3 = bit u3 0" by (simp add: d_def bit_simps)
  moreover have "reg_get x = Inr (bit d 3, (s, w))"
    using s(1) by (simp add: x reg_get_def s5pc1xx_gpio_read_def mp05_offsets gpio_read_dat_def skip u2 u3(1) d_def or.assoc del: One_nat_def push_bit_and)
  moreover have "bit (s5pc1xx_i2c_bitbang_read st SDA_PIN_NUM) 0 \<longleftrightarrow> s5pc1xx_i2c_bitbang_read st SDA_PIN_NUM \<noteq> 0"
    using s(3) by (auto simp: s5pc1xx_i2c_bitbang_read_def pins_ok_def and_one_eq mod2_eq_if)
  ultimately show ?thesis using u3(2) assms x by auto
qed

interpretation regs: pin_sim reg_set reg_get gpio_pins
proof
  show "rel_sum (=) gpio_pins (reg_set p v x) (set_pin p v s)" if "gpio_pins x s" "p = SDA_PIN_NUM \<or> p = GPIO_IDX_I2C_SCL" for x s p v
    using that by (rule reg_set_sim)
  show "last_data (bitbang s) \<in> {0, 1}" if "gpio_pins x s" for x s
    using that by (simp add: gpio_pins_def pins_ok_def)
qed (rule reg_get_sim)

section \<open>Properties\<close>

abbreviation "reg_write \<equiv> drv_write reg_set reg_get"
abbreviation "reg_read \<equiv> drv_read reg_set reg_get"

definition reg_bus :: "S5pc1xxGPIOState \<times> 'd i2c_devs \<Rightarrow> 'd i2c_bus" where
  "reg_bus x = bus (bitbang (snd x 5))"

text \<open>Between two messages: both pins are inputs and the state machine is at rest.\<close>

definition reg_idle :: "S5pc1xxGPIOState \<times> 'd i2c_devs \<Rightarrow> bool" where
  "reg_idle x \<longleftrightarrow> gpio_pins x (snd x 5) \<and> gpio_idle (snd x 5)"

lemma rel_result:
  assumes "rel_sum (=) regs.R_val m (rbind b (\<lambda>(v, y). Inr (v, f y)))" and "\<And>y. gpio_idle (f y) \<and> bus (bitbang (f y)) = y"
  shows "rbind m (\<lambda>(v, x). Inr (v, reg_bus x)) = b \<and> (\<forall>v x. m = Inr (v, x) \<longrightarrow> reg_idle x)"
proof -
  have "reg_idle x \<and> reg_bus x = y" if "gpio_pins x (f y)" for x y
    using that assms(2) [of y] by (auto simp: reg_idle_def reg_bus_def gpio_pins_def)
  with assms(1) show ?thesis by (cases m; cases b) (auto simp: regs.R_val_def)
qed

text \<open>
  Property C3.  The guest reaches the I2C bus through the registers of the GPIO controller: a message that a
  driver writes or reads with nothing but reads and writes of the configuration register and reads
  of the data register of group MP0_5 has exactly the effect and the result of the calls of the bus
  of master 5 for the same address and bytes, whatever slaves are on the bus, faults included.
  The controller starts in a state where this holds, and every message leaves such a state.
\<close>

theorem gpio_registers_i2c:
  assumes "reg_idle x" and "a < 128" and "0 < n"
  shows "rbind (reg_write a ds x) (\<lambda>(acks, x). Inr (acks, reg_bus x)) = rbind (bus_write a ds (reg_bus x)) (\<lambda>b. Inr (True, b))
    \<and> rbind (reg_read a n x) (\<lambda>(vs, x). Inr (vs, reg_bus x)) = bus_read True a n (reg_bus x)
    \<and> (\<forall>acks x'. reg_write a ds x = Inr (acks, x') \<longrightarrow> reg_idle x')
    \<and> (\<forall>vs x'. reg_read a n x = Inr (vs, x') \<longrightarrow> reg_idle x')"
proof -
  let ?st = "snd x 5"
  have pins: "gpio_pins x ?st" and idle: "gpio_idle ?st" using assms(1) by (simp_all add: reg_idle_def)
  obtain m where n: "n = Suc m" using assms(3) by (cases n) auto
  obtain f where w: "gpio_write a ds ?st = rbind (bus_write a ds (reg_bus x)) (\<lambda>b. Inr (True, rest b f))"
    using gpio_write_eq [OF idle assms(2)] by (auto simp: reg_bus_def)
  have "rel_sum (=) regs.R_val (reg_write a ds x) (rbind (rbind (bus_write a ds (reg_bus x)) (\<lambda>b. Inr (True, b))) (\<lambda>(v, y). Inr (v, rest y f)))"
    using regs.write_sim [OF pins, of a ds] by (simp add: w rbind_assoc)
  from rel_result [OF this] have wr: "rbind (reg_write a ds x) (\<lambda>(acks, x). Inr (acks, reg_bus x)) = rbind (bus_write a ds (reg_bus x)) (\<lambda>b. Inr (True, b))"
    "\<forall>acks x'. reg_write a ds x = Inr (acks, x') \<longrightarrow> reg_idle x'" by simp_all
  have "rel_sum (=) regs.R_val (reg_read a n x) (rbind (bus_read True a n (reg_bus x)) (\<lambda>(v, y). Inr (v, rest y 0)))"
    using regs.read_sim [OF pins, of a n] gpio_read_eq [OF idle assms(2), of m] by (simp add: n reg_bus_def)
  from rel_result [OF this] wr show ?thesis by simp
qed

definition gpio_i2c_board :: "'d i2c_bus \<Rightarrow> (S5pc1xxGPIOState \<times> 'd i2c_devs) res" where
  "gpio_i2c_board b = rbind s5pc110_i2c_gpio_init (\<lambda>(s, T :: (nat, 'd i2c_devs) gpio_io_mem).
     Inr (s, \<lambda>n. s5pc1xx_i2c_gpio_init1 b))"

lemma gpio_i2c_board_idle: "\<exists>x. gpio_i2c_board b = Inr x \<and> reg_idle x \<and> reg_bus x = b"
proof -
  obtain s where s: "s5pc110_i2c_gpio_init = Inr (s, i2c_table :: (nat, 'a i2c_devs) gpio_io_mem)" "gpio_inv s" "con s = replicate 100 0"
    using i2c_table_init by blast
  have "reg_idle (s, \<lambda>n. s5pc1xx_i2c_gpio_init1 b)"
    using s(2,3) by (simp add: reg_idle_def gpio_pins_def pins_ok_def gpio_inv_def nib_def pin_conf_def gpio_idle_def
        s5pc1xx_i2c_gpio_init1_def s5pc1xx_i2c_gpio_reset_def bitbang_i2c_init_def)
  moreover have "reg_bus (s, \<lambda>n. s5pc1xx_i2c_gpio_init1 b) = b"
    by (simp add: reg_bus_def s5pc1xx_i2c_gpio_init1_def s5pc1xx_i2c_gpio_reset_def bitbang_i2c_init_def)
  ultimately show ?thesis unfolding gpio_i2c_board_def s(1) by auto
qed

theorem gpio_registers_i2c_witness:
  "\<exists>x x'. gpio_i2c_board (i2c_init_bus [counter_slave]) = Inr x \<and> reg_write 0x36 [5, 0xA7] x = Inr (True, x')
    \<and> map dev (children (reg_bus x')) = [[0xA7, 5]] \<and> reg_idle x'"
proof -
  obtain x where x: "gpio_i2c_board (i2c_init_bus [counter_slave]) = Inr x" "reg_idle x" "reg_bus x = i2c_init_bus [counter_slave]"
    using gpio_i2c_board_idle by blast
  obtain b where b: "bus_write 0x36 [5, 0xA7] (i2c_init_bus [counter_slave]) = Inr b" "map dev (children b) = [[0xA7, 5]]"
    by (simp add: bus_defs i2c_init_bus_def counter_slave_def slave_put_def)
  from gpio_registers_i2c [OF x(2), of "0x36" 1 "[5, 0xA7]"] x b show ?thesis
    by (auto simp: rbind_eq_Inr)
qed

end
