(* ===== verification/Gpio_Devices.thy ===== *)
theory Gpio_Devices
  imports S5pc1xx_Keyif S5pc1xx_Uart S5pc1xx_Pwm
begin

text \<open>
  The UARTs, the PWM timers and the keypad behind the pins of the GPIO controller: the handlers they
  register and what the data registers show of them.
\<close>

section \<open>Registration\<close>

datatype pin_dev = UartDev nat | PwmDev | KeyifDev

record pin_devs =
  pd_uart :: "nat \<Rightarrow> S5pc1xxUartState"
  pd_pwm :: S5pc1xxPWMState
  pd_keyif :: S5pc1xxKeyIFState

text \<open>The handlers, called with the pointer of the table; \<open>now\<close> is the time of the virtual clock.\<close>

type_synonym pin_read = "pin_dev option \<Rightarrow> u32 \<Rightarrow> pin_devs \<Rightarrow> (u32 \<times> pin_devs) res"
type_synonym pin_write = "pin_dev option \<Rightarrow> u32 \<Rightarrow> u32 \<Rightarrow> pin_devs \<Rightarrow> pin_devs res"

definition uart_readfn :: pin_read where
  "uart_readfn opaque io_index w = (case opaque of Some (UartDev n) \<Rightarrow> Inr (s5pc1xx_uart_gpio_read (pd_uart w n) io_index, w)
     | _ \<Rightarrow> Inl NullDeref)"

definition pwm_readfn :: "u64 \<Rightarrow> pin_read" where
  "pwm_readfn now opaque io_index w = (case opaque of Some PwmDev \<Rightarrow>
       rbind (s5pc1xx_pwm_gpio_read now (pd_pwm w) io_index) (\<lambda>v. Inr (v, w))
     | _ \<Rightarrow> Inl NullDeref)"

text \<open>The keypad follows its pointer only for a pin it knows.\<close>

definition keyif_pin :: "u32 \<Rightarrow> bool" where
  "keyif_pin io_index \<longleftrightarrow> (\<exists>i \<in> {0..<8}. io_index = GPIO_KP_COL (of_nat i)) \<or> (\<exists>i \<in> {0..<14}. io_index = GPIO_KP_ROW (of_nat i))"

definition keyif_readfn :: pin_read where
  "keyif_readfn opaque io_index w = (case opaque of
       Some KeyifDev \<Rightarrow> Inr (s5pc1xx_keyif_gpio_read (pd_keyif w) io_index, w)
     | _ \<Rightarrow> if keyif_pin io_index then Inl NullDeref else Inr (0, w))"

definition keyif_writefn :: pin_write where
  "keyif_writefn opaque io_index val w = (case opaque of
       Some KeyifDev \<Rightarrow> Inr (w\<lparr>pd_keyif := s5pc1xx_keyif_gpio_write io_index val (pd_keyif w)\<rparr>)
     | _ \<Rightarrow> if keyif_pin io_index then Inl NullDeref else Inr w)"

text \<open>
  The devices in the order in which \<^verbatim>\<open>hw/s5pc1xx.c\<close> creates them.  The keypad comes last: the file has
  it as the alternative to the touchkeys, chosen by a preprocessor switch.
\<close>

definition uart_gpio_init :: "nat \<Rightarrow> (pin_dev, pin_devs) gpio_io_mem \<Rightarrow> (pin_dev, pin_devs) gpio_io_mem res" where
  "uart_gpio_init inst = s5pc1xx_gpio_register_io_memory 2 inst (Some uart_readfn) (Some s5pc1xx_empty_gpio_write) None
     (Some (UartDev inst))"

definition pin_devs_init :: "u64 \<Rightarrow> (S5pc1xxGPIOState \<times> (pin_dev, pin_devs) gpio_io_mem) res" where
  "pin_devs_init now =
     rbind (s5pc1xx_gpio_init gpio_io_empty) (\<lambda>(s, T).
     rbind (s5pc1xx_gpio_register_io_memory 1 0 (Some (pwm_readfn now)) (Some s5pc1xx_empty_gpio_write) None (Some PwmDev) T) (\<lambda>T.
     rbind (uart_gpio_init 0 T) (\<lambda>T. rbind (uart_gpio_init 1 T) (\<lambda>T.
     rbind (uart_gpio_init 2 T) (\<lambda>T. rbind (uart_gpio_init 3 T) (\<lambda>T.
     rbind (s5pc1xx_gpio_register_io_memory 3 0 (Some keyif_readfn) (Some keyif_writefn) None (Some KeyifDev) T) (\<lambda>T.
       Inr (s, T))))))))"

section \<open>What the handlers see\<close>

text \<open>The controller passes the number of the event alone, six bits; every number that a device knows has its device in the bits from 11 on.\<close>

lemma event_not_case:
  assumes "bit d k" and "k < 21"
  shows "(c AND 0x3F :: u32) \<noteq> CASE_ID d n e"
proof
  assume eq: "c AND 0x3F = CASE_ID d n e"
  have m: "(0x3F :: u32) = mask 6" by (simp add: mask_eq_exp_minus_1)
  have "bit (CASE_ID d n e) (11 + k)"
    unfolding CASE_ID_def bit_or_iff bit_push_bit_iff using assms by simp
  moreover have "\<not> bit (c AND 0x3F) (11 + k)" unfolding m bit_and_iff bit_mask_iff by simp
  ultimately show False unfolding eq by simp
qed

lemma uart_event: "s5pc1xx_uart_gpio_read s (c AND 0x3F) = 0"
proof -
  have "(c AND 0x3F :: u32) \<noteq> CASE_ID 2 n e" for n e
    by (rule event_not_case [of _ 1]) (simp_all add: bit_numeral_rec(1))
  then show ?thesis by (simp add: s5pc1xx_uart_gpio_read_def)
qed

lemma pwm_event: "s5pc1xx_pwm_gpio_read now s (c AND 0x3F) = Inr v \<Longrightarrow> v = 0"
proof -
  have "(c AND 0x3F :: u32) \<noteq> GPIO_PWM_TOUT i" for i
    unfolding GPIO_PWM_TOUT_def by (rule event_not_case [of _ 0]) (simp_all add: bit_0)
  then have "rfold (\<lambda>i tout. if c AND 0x3F = GPIO_PWM_TOUT i then f i tout else Inr tout) xs a = Inr a" for f xs and a :: u32
    by (induction xs) auto
  then show "s5pc1xx_pwm_gpio_read now s (c AND 0x3F) = Inr v \<Longrightarrow> v = 0"
    by (simp add: s5pc1xx_pwm_gpio_read_def split: if_splits)
qed

lemma keyif_event: "s5pc1xx_keyif_gpio_read s (c AND 0x3F) = 0" "\<not> keyif_pin (c AND 0x3F)"
proof -
  have ne: "(c AND 0x3F :: u32) \<noteq> CASE_ID 3 n e" for n e
    by (rule event_not_case [of _ 0]) (simp_all add: bit_0)
  then show "\<not> keyif_pin (c AND 0x3F)" by (auto simp: keyif_pin_def)
  have "find (\<lambda>i. c AND 0x3F = GPIO_KP_COL (of_nat i)) xs = None" "find (\<lambda>i. c AND 0x3F = GPIO_KP_ROW (of_nat i)) xs = None" for xs
    using ne by (auto simp: find_None_iff)
  then show "s5pc1xx_keyif_gpio_read s (c AND 0x3F) = 0" by (simp add: s5pc1xx_keyif_gpio_read_def)
qed

definition blind :: "pin_read \<Rightarrow> bool" where
  "blind f \<longleftrightarrow> (\<forall>p c w v w'. f p (c AND 0x3F) w = Inr (v, w') \<longrightarrow> v = 0 \<and> w' = w)"

lemma blind_handlers: "blind uart_readfn" "blind (pwm_readfn now)" "blind keyif_readfn" "blind s5pc1xx_empty_gpio_read"
  using uart_event pwm_event keyif_event
  by (auto simp: blind_def uart_readfn_def pwm_readfn_def keyif_readfn_def s5pc1xx_empty_gpio_read_def
      elim!: rbind_InrE split: option.splits pin_dev.splits if_splits)

lemma gpio_handler_mem:
  assumes "gpio_handler tab ops c = Inr (f, p, i)"
  shows "Some f \<in> set tab \<and> i = c AND 0x3F"
proof -
  have mem: "tab ! k = Some f \<Longrightarrow> k < length tab \<Longrightarrow> Some f \<in> set tab" for k by (metis nth_mem)
  show ?thesis
    using assms by (auto simp: gpio_handler_def Let_def arr_get_eq_Inr intro: mem elim!: rbind_InrE split: option.splits if_splits)
qed

lemma gpio_read_dat_blind:
  assumes "\<And>f. Some f \<in> set (gpio_io_mem_read T) \<Longrightarrow> blind f" and "gpio_read_dat T c grp w = Inr (v, w')"
  shows "v = 0 \<and> w' = w"
proof -
  obtain val where r: "rfold (gpio_read_pin T c grp) [0, 1, 2, 3, 4, 5, 6, 7] (0, 0, w) = Inr (val, v, w')"
    using assms(2) by (auto simp: gpio_read_dat_def simp del: One_nat_def elim!: rbind_InrE)
  have "(case (val, v, w') of (val, v, w') \<Rightarrow> val = 0 \<and> v = 0 \<and> w' = w)"
  proof (rule rfold_invariant [OF r])
    fix pin x y
    assume x: "case x of (val, v, w') \<Rightarrow> val = 0 \<and> v = 0 \<and> w' = w" and y: "gpio_read_pin T c grp pin x = Inr y"
    have call: "u = 0 \<and> w2 = w"
      if h: "gpio_handler (gpio_io_mem_read T) (gpio_io_mem_opaque T) gc = Inr (f, p, i)" and f: "f p i w = Inr (u, w2)" for gc f p i u w2
    proof -
      have "blind f" "i = gc AND 0x3F" using gpio_handler_mem [OF h] assms(1) by auto
      then show ?thesis using f unfolding blind_def by blast
    qed
    show "case y of (val, v, w') \<Rightarrow> val = 0 \<and> v = 0 \<and> w' = w"
      using x y by (auto simp: gpio_read_pin_def Let_def elim!: rbind_InrE split: if_splits dest!: call)
  qed simp
  then show ?thesis by simp
qed

lemma register_read:
  assumes "s5pc1xx_gpio_register_io_memory k inst (Some f) wr cf ptr T = Inr T'"
  shows "gpio_io_mem_read T' = (gpio_io_mem_read T)[k := Some f]"
  using assms by (auto simp: s5pc1xx_gpio_register_io_memory_def arr_set_eq_Inr elim!: rbind_InrE)

definition blind_table :: "(pin_dev, pin_devs) gpio_io_mem \<Rightarrow> bool" where
  "blind_table T \<longleftrightarrow> (\<forall>f. Some f \<in> set (gpio_io_mem_read T) \<longrightarrow> blind f)"

lemma register_blind:
  assumes "s5pc1xx_gpio_register_io_memory k inst (Some f) wr cf ptr T = Inr T'" and "blind_table T" and "blind f"
  shows "blind_table T'"
  using assms(2,3) unfolding blind_table_def register_read [OF assms(1)]
  by (auto dest!: subsetD [OF set_update_subset_insert])

lemma pin_devs_blind: "pin_devs_init now = Inr (s, T) \<Longrightarrow> blind_table T"
proof -
  have empty: "blind_table gpio_io_empty" by (auto simp: blind_table_def gpio_io_empty_def)
  show "pin_devs_init now = Inr (s, T) \<Longrightarrow> blind_table T"
    by (auto simp: pin_devs_init_def uart_gpio_init_def s5pc1xx_gpio_init_def elim!: rbind_InrE
        dest!: register_blind intro: empty blind_handlers)
qed

section \<open>Properties\<close>


text \<open>The table after the registrations.\<close>

definition pin_table :: "u64 \<Rightarrow> (pin_dev, pin_devs) gpio_io_mem" where
  "pin_table now = \<lparr>
     gpio_io_mem_write = [Some s5pc1xx_empty_gpio_write, Some s5pc1xx_empty_gpio_write, Some s5pc1xx_empty_gpio_write, Some keyif_writefn,
       None, None, None, None, None],
     gpio_io_mem_read = [Some s5pc1xx_empty_gpio_read, Some (pwm_readfn now), Some uart_readfn, Some keyif_readfn,
       None, None, None, None, None],
     gpio_io_mem_conf = [Some s5pc1xx_empty_gpio_write, None, None, None, None, None, None, None, None],
     gpio_io_mem_opaque = (replicate 9 (replicate 8 None))
       [1 := [Some PwmDev, None, None, None, None, None, None, None],
        2 := [Some (UartDev 0), Some (UartDev 1), Some (UartDev 2), Some (UartDev 3), None, None, None, None],
        3 := [Some KeyifDev, None, None, None, None, None, None, None]]\<rparr>"

lemma pin_devs_table: "\<exists>s. pin_devs_init now = Inr (s, pin_table now) \<and> gpio_inv s \<and> con s = replicate 100 0"
proof (rule gpio_init_value)
  fix s
  assume s: "con s = replicate 100 0" "gpio_inv s"
    "s5pc1xx_gpio_init gpio_io_empty = Inr (s, \<lparr>gpio_io_mem_write = (replicate 9 None)[0 := Some s5pc1xx_empty_gpio_write],
       gpio_io_mem_read = (replicate 9 None)[0 := Some s5pc1xx_empty_gpio_read],
       gpio_io_mem_conf = (replicate 9 None)[0 := Some s5pc1xx_empty_gpio_write],
       gpio_io_mem_opaque = replicate 9 (replicate 8 None)\<rparr> :: (pin_dev, pin_devs) gpio_io_mem)"
  have "pin_devs_init now = Inr (s, pin_table now)"
    unfolding pin_devs_init_def s(3) rbind_Inr prod.case uart_gpio_init_def
    by (simp add: register_eq pin_table_def table_rows)
  then show ?thesis using s(1,2) by blast
qed


end
