(* ===== verification/Block_Layer.thy ===== *)
theory Block_Layer
  imports Qemu_Prelude
begin

text \<open>
  The part of the block layer (\<^verbatim>\<open>block.c\<close>) that the card and the flash memories call, over an image that is a list of
  sectors, and the copies between buffers and images that these devices make.
\<close>

section \<open>Copying between buffers\<close>

text \<open>\<^verbatim>\<open>memcpy\<close> to and from the middle of an array.\<close>

definition splice :: "nat \<Rightarrow> 'a list \<Rightarrow> 'a list \<Rightarrow> 'a list" where
  "splice pos bytes xs = take pos xs @ bytes @ drop (pos + length bytes) xs"

definition arr_put :: "'a list \<Rightarrow> nat \<Rightarrow> 'a list \<Rightarrow> 'a list res" where
  "arr_put xs pos bytes = (if pos + length bytes \<le> length xs then Inr (splice pos bytes xs) else Inl ArrayBounds)"

definition slice :: "'a list \<Rightarrow> nat \<Rightarrow> nat \<Rightarrow> 'a list res" where
  "slice xs pos len = (if pos + len \<le> length xs then Inr (take len (drop pos xs)) else Inl ArrayBounds)"

lemma length_splice [simp]: "pos + length bytes \<le> length xs \<Longrightarrow> length (splice pos bytes xs) = length xs"
  by (simp add: splice_def)

lemma splice_nth:
  "pos + length bytes \<le> length xs \<Longrightarrow> i < length xs \<Longrightarrow>
   splice pos bytes xs ! i = (if pos \<le> i \<and> i < pos + length bytes then bytes ! (i - pos) else xs ! i)"
  by (auto simp: splice_def nth_append min_def)

lemma take_drop_splice [simp]:
  "pos + length bytes \<le> length xs \<Longrightarrow> take (length bytes) (drop pos (splice pos bytes xs)) = bytes"
  by (simp add: splice_def min_def)

lemma splice_all: "length bytes = length xs \<Longrightarrow> splice 0 bytes xs = bytes"
  by (simp add: splice_def)

lemma splice_snoc:
  "pos + length bytes < length xs \<Longrightarrow> (splice pos bytes xs)[pos + length bytes := b] = splice pos (bytes @ [b]) xs"
  by (rule nth_equalityI) (auto simp: splice_nth nth_list_update nth_append)

text \<open>A change within one chunk of an array is a change of the array.\<close>

lemma splice_chunk:
  assumes "k + n \<le> length xs" and "off + length bytes \<le> n"
  shows "splice k (splice off bytes (take n (drop k xs))) xs = splice (k + off) bytes xs"
  using assms by (intro nth_equalityI) (auto simp: splice_nth)

lemma splice_splice:
  assumes "pos + length a + length b \<le> length xs"
  shows "splice (pos + length a) b (splice pos a xs) = splice pos (a @ b) xs"
  using assms by (intro nth_equalityI) (auto simp: splice_nth nth_append)

lemma chunk_slice: "off + len \<le> n \<Longrightarrow> take len (drop off (take n (drop k xs))) = take len (drop (k + off) xs)"
  by (simp add: drop_take min_def add.commute)

lemma slice_ok: "pos + len \<le> length xs \<Longrightarrow> slice xs pos len = Inr (take len (drop pos xs))"
  by (simp add: slice_def)

lemma slice_chunk:
  "k + n \<le> length xs \<Longrightarrow> off + len \<le> n \<Longrightarrow> slice (take n (drop k xs)) off len = Inr (take len (drop (k + off) xs))"
  by (simp only: slice_def chunk_slice) simp

section \<open>The block device\<close>

record BlockDriverState =
  sectors :: "u8 list list"
  read_only :: bool
  inserted :: bool

text \<open>
  The return values are the error codes of the block layer, which are negative; \<^verbatim>\<open>-1\<close> is not one of them.
  An error leaves the buffer as it was.
\<close>

definition ENOMEDIUM :: int where "ENOMEDIUM = 123"
definition EACCES :: int where "EACCES = 13"
definition EIO :: int where "EIO = 5"

definition bdrv_read :: "BlockDriverState \<Rightarrow> nat \<Rightarrow> u8 list \<Rightarrow> int \<times> u8 list" where
  "bdrv_read bs sector_num buf =
     (if \<not> inserted bs then (- ENOMEDIUM, buf)
      else if sector_num < length (sectors bs) then (0, sectors bs ! sector_num)
      else (- EIO, buf))"

definition bdrv_write :: "BlockDriverState \<Rightarrow> nat \<Rightarrow> u8 list \<Rightarrow> int \<times> BlockDriverState" where
  "bdrv_write bs sector_num buf =
     (if \<not> inserted bs then (- ENOMEDIUM, bs)
      else if read_only bs then (- EACCES, bs)
      else if sector_num < length (sectors bs) then (0, bs\<lparr>sectors := (sectors bs)[sector_num := buf]\<rparr>)
      else (- EIO, bs))"

definition bdrv_get_geometry :: "BlockDriverState \<Rightarrow> u64" where
  "bdrv_get_geometry bs = of_nat (length (sectors bs))"

text \<open>Several sectors at once: the bytes that are read, none after an error, and the image with the bytes that are written.\<close>

definition bdrv_read_sectors :: "BlockDriverState \<Rightarrow> nat \<Rightarrow> nat \<Rightarrow> int \<times> u8 list" where
  "bdrv_read_sectors bs sector_num nb_sectors =
     (if \<not> inserted bs then (- ENOMEDIUM, [])
      else if sector_num + nb_sectors \<le> length (sectors bs) then (0, concat (take nb_sectors (drop sector_num (sectors bs))))
      else (- EIO, []))"

definition sector_chunks :: "nat \<Rightarrow> u8 list \<Rightarrow> u8 list list" where
  "sector_chunks n bytes = map (\<lambda>i. take 512 (drop (512 * i) bytes)) [0..<n]"

definition bdrv_write_sectors :: "BlockDriverState \<Rightarrow> nat \<Rightarrow> u8 list \<Rightarrow> nat \<Rightarrow> int \<times> BlockDriverState" where
  "bdrv_write_sectors bs sector_num bytes nb_sectors =
     (if \<not> inserted bs then (- ENOMEDIUM, bs)
      else if read_only bs then (- EACCES, bs)
      else if sector_num + nb_sectors \<le> length (sectors bs)
      then (0, bs\<lparr>sectors := splice sector_num (sector_chunks nb_sectors bytes) (sectors bs)\<rparr>)
      else (- EIO, bs))"

section \<open>The image as a sequence of bytes\<close>

definition disk_wf :: "BlockDriverState \<Rightarrow> bool" where
  "disk_wf b \<longleftrightarrow> list_all (\<lambda>s. length s = 512) (sectors b) \<and> length (sectors b) < 2 ^ 40"

definition disk :: "BlockDriverState \<Rightarrow> u8 list" where
  "disk b = concat (sectors b)"

lemma length_concat_uniform: "list_all (\<lambda>s. length s = n) xs \<Longrightarrow> length (concat xs) = n * length xs"
  by (induction xs) auto

lemma concat_chunk:
  "list_all (\<lambda>s. length s = n) xs \<Longrightarrow> k < length xs \<Longrightarrow> take n (drop (n * k) (concat xs)) = xs ! k"
  by (induction xs arbitrary: k) (auto simp: nth_Cons less_Suc_eq_0_disj split: nat.splits)

lemma concat_update:
  assumes "list_all (\<lambda>s. length s = n) xs" and "k < length xs" and "length s = n"
  shows "concat (xs[k := s]) = splice (n * k) s (concat xs)"
  using assms
proof (induction xs arbitrary: k)
  case (Cons x xs)
  then show ?case by (cases k) (auto simp: splice_def add.commute)
qed simp

lemma length_disk: "disk_wf b \<Longrightarrow> length (disk b) = 512 * length (sectors b)"
  by (simp add: disk_def disk_wf_def length_concat_uniform)

lemma disk_sector: "disk_wf b \<Longrightarrow> k < length (sectors b) \<Longrightarrow> sectors b ! k = take 512 (drop (512 * k) (disk b))"
  by (simp add: disk_def disk_wf_def concat_chunk)

lemma disk_update:
  "disk_wf b \<Longrightarrow> k < length (sectors b) \<Longrightarrow> length s = 512 \<Longrightarrow>
   disk (b\<lparr>sectors := (sectors b)[k := s]\<rparr>) = splice (512 * k) s (disk b)
   \<and> disk_wf (b\<lparr>sectors := (sectors b)[k := s]\<rparr>)"
  by (auto simp: disk_def disk_wf_def concat_update list_all_length nth_list_update)

text \<open>Accesses to several sectors, in the flat view.\<close>

lemma bdrv_read_sectors_flat:
  assumes "disk_wf b" and "inserted b" and "k + n \<le> length (sectors b)"
  shows "bdrv_read_sectors b k n = (0, take (512 * n) (drop (512 * k) (disk b)))"
proof -
  have *: "list_all (\<lambda>s. length s = 512) xs \<Longrightarrow> k + n \<le> length xs
      \<Longrightarrow> concat (take n (drop k xs)) = take (512 * n) (drop (512 * k) (concat xs))" for xs :: "u8 list list"
  proof (induction xs arbitrary: k n)
    case (Cons x xs)
    then show ?case
    proof (cases k)
      case 0
      then show ?thesis using Cons.IH [of 0 "n - 1"] Cons.prems by (cases n) auto
    next
      case (Suc k')
      then show ?thesis using Cons.IH [of k' n] Cons.prems by simp
    qed
  qed simp
  show ?thesis using assms * [of "sectors b"] by (simp add: bdrv_read_sectors_def disk_def disk_wf_def)
qed

lemma concat_sector_chunks: "length bytes = 512 * n \<Longrightarrow> concat (sector_chunks n bytes) = bytes"
proof (induction n arbitrary: bytes)
  case (Suc n)
  have "sector_chunks (Suc n) bytes = take 512 bytes # sector_chunks n (drop 512 bytes)"
    by (simp add: sector_chunks_def upt_conv_Cons map_Suc_upt [symmetric] add.commute del: upt_Suc)
  with Suc show ?case by simp
qed (simp add: sector_chunks_def)

lemma length_sector_chunks [simp]: "length (sector_chunks n bytes) = n"
  by (simp add: sector_chunks_def)

lemma sector_chunks_uniform: "length bytes = 512 * n \<Longrightarrow> list_all (\<lambda>s. length s = 512) (sector_chunks n bytes)"
  by (auto simp: sector_chunks_def list_all_iff)

lemma concat_splice:
  assumes "list_all (\<lambda>s. length s = n) xs" and "list_all (\<lambda>s. length s = n) ys" and "k + length ys \<le> length xs"
  shows "concat (splice k ys xs) = splice (n * k) (concat ys) (concat xs)"
proof -
  have t: "list_all (\<lambda>s. length s = n) zs \<Longrightarrow> j \<le> length zs \<Longrightarrow> concat (take j zs) = take (n * j) (concat zs)" for zs :: "'a list list" and j
    by (induction zs arbitrary: j) (auto simp: take_Cons split: nat.splits)
  have d: "list_all (\<lambda>s. length s = n) zs \<Longrightarrow> j \<le> length zs \<Longrightarrow> concat (drop j zs) = drop (n * j) (concat zs)" for zs :: "'a list list" and j
    by (induction zs arbitrary: j) (auto simp: drop_Cons split: nat.splits)
  show ?thesis
    using assms t [OF assms(1), of k] d [OF assms(1), of "k + length ys"]
    by (simp add: splice_def length_concat_uniform [OF assms(2)] distrib_left)
qed

lemma bdrv_write_sectors_flat:
  assumes "disk_wf b" and "inserted b" and "\<not> read_only b" and "k + n \<le> length (sectors b)" and "length bytes = 512 * n"
  shows "\<exists>b'. bdrv_write_sectors b k bytes n = (0, b') \<and> disk b' = splice (512 * k) bytes (disk b) \<and> disk_wf b'
    \<and> inserted b' \<and> \<not> read_only b' \<and> length (sectors b') = length (sectors b)"
proof -
  let ?s = "splice k (sector_chunks n bytes) (sectors b)"
  have u: "list_all (\<lambda>s. length s = 512) (sector_chunks n bytes)" by (rule sector_chunks_uniform [OF assms(5)])
  have "list_all (\<lambda>s. length s = 512) ?s"
    using assms(1) u by (auto simp: splice_def disk_wf_def list_all_iff dest: in_set_takeD in_set_dropD)
  moreover have "concat ?s = splice (512 * k) bytes (concat (sectors b))"
    using assms by (subst concat_splice [OF _ u]) (simp_all add: disk_wf_def concat_sector_chunks)
  ultimately show ?thesis using assms by (simp add: bdrv_write_sectors_def disk_def disk_wf_def)
qed

end
