(* ===== verification/Sd_Card.thy ===== *)
theory Sd_Card
  imports Block_Layer
begin

text \<open>
  The SD memory card (\<^verbatim>\<open>hw/sd.c\<close>, \<^verbatim>\<open>hw/sd.h\<close>): its registers, the commands and the states they lead
  through, and the data transfer byte by byte.
\<close>

section \<open>The card\<close>

datatype sd_rsp_type_t = sd_r0 | sd_r1 | sd_r2_i | sd_r2_s | sd_r3 | sd_r6 | sd_r7 | sd_r1b

datatype sd_mode_t = sd_inactive | sd_card_identification_mode | sd_data_transfer_mode

datatype sd_state_t = sd_inactive_state | sd_idle_state | sd_ready_state | sd_identification_state | sd_standby_state
  | sd_transfer_state | sd_sendingdata_state | sd_receivingdata_state | sd_programming_state | sd_disconnect_state

datatype sd_cmd_type_t = sd_none | sd_bc | sd_bcr | sd_ac | sd_adtc

datatype sd_line = ReadonlyCb | InsertedCb

record SDState =
  sd_mode :: sd_mode_t
  sd_state :: sd_state_t
  ocr :: u32
  scr :: "u8 list"
  cid :: "u8 list"
  csd :: "u8 list"
  rca :: u16
  card_status :: u32
  sd_status :: "u8 list"
  vhs :: u32
  wp_switch :: bool
  wp_groups :: "bool list"
  sd_size :: u64
  blk_len :: u32
  erase_start :: u32
  erase_end :: u32
  pwd :: "u8 list"
  pwd_len :: int
  function_group :: "u32 list"
  spi :: bool
  current_cmd :: u8
  blk_written :: u32
  data_start :: u64
  data_offset :: u32
  sd_data :: "u8 list"
  sd_cb :: "sd_line irq_log"
  bdrv :: "BlockDriverState option"
  sd_buf :: "u8 list"
  enable :: bool

abbreviation (input) ADDRESS_ERROR :: u32 where "ADDRESS_ERROR \<equiv> 0x40000000"
abbreviation (input) BLOCK_LEN_ERROR :: u32 where "BLOCK_LEN_ERROR \<equiv> 0x20000000"
abbreviation (input) ERASE_SEQ_ERROR :: u32 where "ERASE_SEQ_ERROR \<equiv> 0x10000000"
abbreviation (input) WP_VIOLATION :: u32 where "WP_VIOLATION \<equiv> 0x04000000"
abbreviation (input) CARD_IS_LOCKED :: u32 where "CARD_IS_LOCKED \<equiv> 0x02000000"
abbreviation (input) LOCK_UNLOCK_FAILED :: u32 where "LOCK_UNLOCK_FAILED \<equiv> 0x01000000"
abbreviation (input) COM_CRC_ERROR :: u32 where "COM_CRC_ERROR \<equiv> 0x00800000"
abbreviation (input) ILLEGAL_COMMAND :: u32 where "ILLEGAL_COMMAND \<equiv> 0x00400000"
abbreviation (input) CID_CSD_OVERWRITE :: u32 where "CID_CSD_OVERWRITE \<equiv> 0x00010000"
abbreviation (input) WP_ERASE_SKIP :: u32 where "WP_ERASE_SKIP \<equiv> 0x00008000"
abbreviation (input) CURRENT_STATE :: u32 where "CURRENT_STATE \<equiv> 0x00000E00"
abbreviation (input) APP_CMD :: u32 where "APP_CMD \<equiv> 0x00000020"
abbreviation (input) CARD_STATUS_B :: u32 where "CARD_STATUS_B \<equiv> 0x00c01e00"
abbreviation (input) CARD_STATUS_C :: u32 where "CARD_STATUS_C \<equiv> 0xfd39a028"

text \<open>The state as the number that goes into the status register; the inactive state is -1 in the code.\<close>

definition sd_state_num :: "sd_state_t \<Rightarrow> u32" where
  "sd_state_num st = (case st of sd_inactive_state \<Rightarrow> - 1 | sd_idle_state \<Rightarrow> 0 | sd_ready_state \<Rightarrow> 1
     | sd_identification_state \<Rightarrow> 2 | sd_standby_state \<Rightarrow> 3 | sd_transfer_state \<Rightarrow> 4 | sd_sendingdata_state \<Rightarrow> 5
     | sd_receivingdata_state \<Rightarrow> 6 | sd_programming_state \<Rightarrow> 7 | sd_disconnect_state \<Rightarrow> 8)"

definition sd_mode_of :: "sd_state_t \<Rightarrow> sd_mode_t" where
  "sd_mode_of st = (case st of sd_inactive_state \<Rightarrow> sd_inactive
     | sd_idle_state \<Rightarrow> sd_card_identification_mode | sd_ready_state \<Rightarrow> sd_card_identification_mode
     | sd_identification_state \<Rightarrow> sd_card_identification_mode
     | _ \<Rightarrow> sd_data_transfer_mode)"

definition sd_set_status :: "SDState \<Rightarrow> SDState" where
  "sd_set_status sd = sd\<lparr>sd_mode := sd_mode_of (sd_state sd),
     card_status := (card_status sd AND NOT CURRENT_STATE) OR push_bit 9 (sd_state_num (sd_state sd))\<rparr>"

definition sd_cmd_type :: "sd_cmd_type_t list" where
  "sd_cmd_type =
    [sd_bc,   sd_none, sd_bcr,  sd_bcr,  sd_none, sd_none, sd_none, sd_ac,
     sd_bcr,  sd_ac,   sd_ac,   sd_adtc, sd_ac,   sd_ac,   sd_none, sd_ac,
     sd_ac,   sd_adtc, sd_adtc, sd_none, sd_none, sd_none, sd_none, sd_none,
     sd_adtc, sd_adtc, sd_adtc, sd_adtc, sd_ac,   sd_ac,   sd_adtc, sd_none,
     sd_ac,   sd_ac,   sd_none, sd_none, sd_none, sd_none, sd_ac,   sd_none,
     sd_none, sd_none, sd_bc,   sd_none, sd_none, sd_none, sd_none, sd_none,
     sd_none, sd_none, sd_none, sd_none, sd_none, sd_none, sd_none, sd_ac,
     sd_adtc, sd_none, sd_none, sd_none, sd_none, sd_none, sd_none, sd_none]"

definition sd_cmd_class :: "nat list" where
  "sd_cmd_class =
    [0,  0,  0,  0,  0,  9, 10,  0,  0,  0,  0,  1,  0,  0,  0,  0,
     2,  2,  2,  2,  3,  3,  3,  3,  4,  4,  4,  4,  6,  6,  6,  6,
     5,  5, 10, 10, 10, 10,  5,  9,  9,  9,  7,  7,  7,  7,  7,  7,
     7,  7, 10,  7,  9,  9,  9,  8,  8, 10,  8,  8,  8,  8,  8,  8]"

section \<open>Check sums\<close>

definition crc7_bit :: "u8 \<Rightarrow> nat \<Rightarrow> u8 \<Rightarrow> u8" where
  "crc7_bit msg b shift_reg =
     (let r = push_bit 1 shift_reg in if bit r 7 \<noteq> bit msg b then r XOR 0x89 else r)"

definition sd_crc7 :: "u8 list \<Rightarrow> u8" where
  "sd_crc7 message = fold (\<lambda>msg r. fold (crc7_bit msg) [7, 6, 5, 4, 3, 2, 1, 0] r) message 0"

definition crc16_bit :: "u16 \<Rightarrow> nat \<Rightarrow> u16 \<Rightarrow> u16" where
  "crc16_bit msg b shift_reg =
     (let r = push_bit 1 shift_reg in if bit r 15 \<noteq> bit msg b then r XOR 0x1011 else r)"

text \<open>The width counts twice: the loop runs over \<open>2 * width\<close> words of two bytes, in the byte order of the host.\<close>

definition halfword :: "u8 list \<Rightarrow> nat \<Rightarrow> u16 res" where
  "halfword m i = rbind (arr_get m (2 * i)) (\<lambda>lo. rbind (arr_get m (2 * i + 1)) (\<lambda>hi. Inr (ucast lo OR push_bit 8 (ucast hi))))"

definition sd_crc16 :: "u8 list \<Rightarrow> nat \<Rightarrow> u16 res" where
  "sd_crc16 message width = rfold (\<lambda>i r. rbind (halfword message i) (\<lambda>msg.
     Inr (fold (crc16_bit msg) [15, 14, 13, 12, 11, 10, 9, 8, 7, 6, 5, 4, 3, 2, 1, 0] r))) [0..<2 * width] 0"

section \<open>Registers\<close>

definition sd_set_ocr :: "SDState \<Rightarrow> SDState" where
  "sd_set_ocr sd = sd\<lparr>ocr := 0x80ffff00\<rparr>"

definition sd_set_scr :: "SDState \<Rightarrow> SDState" where
  "sd_set_scr sd = sd\<lparr>scr := [0x00, 0x2f, 0, 0, 0, 0, 0, 0]\<rparr>"

definition sd_cid_bytes :: "u8 list" where
  "sd_cid_bytes = [0xaa, 0x58, 0x59, 0x51, 0x45, 0x4d, 0x55, 0x21, 0x01, 0xde, 0xad, 0xbe, 0xef, 0x00, 0x62]"

definition sd_set_cid :: "SDState \<Rightarrow> SDState" where
  "sd_set_cid sd = sd\<lparr>cid := sd_cid_bytes @ [push_bit 1 (sd_crc7 sd_cid_bytes) OR 1]\<rparr>"

abbreviation (input) WPGROUP_BITS :: nat where "WPGROUP_BITS \<equiv> 21"

definition sd_csd_rw_mask :: "u8 list" where
  "sd_csd_rw_mask = [0, 0, 0, 0, 0, 0, 0, 0, 0, 0, 0, 0, 0, 0, 0xfc, 0xfe]"

definition sd_set_csd :: "u64 \<Rightarrow> SDState \<Rightarrow> SDState" where
  "sd_set_csd siz sd =
     (let csize = (ucast (drop_bit 18 siz) :: u32) - 1; sectsize = 0x3f :: u32; wpsize = 0xff :: u32 in
      if siz \<le> 0x40000000 then
        let b = [0x00, 0x26, 0x00, 0x5a, 0x5f, 0x59,
                 0xe0 OR ucast (drop_bit 10 csize AND 0x03),
                 ucast (drop_bit 2 csize AND 0xff),
                 0x3f OR ucast (push_bit 6 csize AND 0xc0),
                 0xff,
                 0x40 OR 0x80 OR ucast (drop_bit 1 sectsize),
                 ucast (push_bit 7 sectsize AND 0x80) OR ucast wpsize,
                 0x92, 0x20 OR 0x40, 0x00]
        in sd\<lparr>csd := b @ [push_bit 1 (sd_crc7 b) OR 1]\<rparr>
      else
        let siz = siz div 0x80000 - 1
        in sd\<lparr>csd := [0x40, 0x0e, 0x00, 0x32, 0x5b, 0x59, 0x00, ucast (drop_bit 16 siz AND 0xff),
             ucast (drop_bit 8 siz AND 0xff), ucast (siz AND 0xff), 0x7f, 0x80, 0x0a, 0x40, 0x00, 0x00],
             ocr := ocr sd OR 0x40000000\<rparr>)"

definition sd_set_rca :: "SDState \<Rightarrow> SDState" where
  "sd_set_rca sd = sd\<lparr>rca := rca sd + 0x4567\<rparr>"

definition sd_set_cardstatus :: "SDState \<Rightarrow> SDState" where
  "sd_set_cardstatus sd = sd\<lparr>card_status := 0x00000100\<rparr>"

definition sd_set_sdstatus :: "SDState \<Rightarrow> SDState" where
  "sd_set_sdstatus sd = sd\<lparr>sd_status := replicate 64 0\<rparr>"

definition word_bytes :: "u32 \<Rightarrow> u8 list" where
  "word_bytes w = [ucast (drop_bit 24 w), ucast (drop_bit 16 w), ucast (drop_bit 8 w), ucast w]"

definition sd_response_r1_make :: "u32 \<Rightarrow> SDState \<Rightarrow> u8 list \<times> SDState" where
  "sd_response_r1_make last_status sd =
     (let mask = CARD_STATUS_B XOR ILLEGAL_COMMAND;
          status = (card_status sd AND NOT mask) OR (last_status AND mask)
      in (word_bytes status, sd\<lparr>card_status := card_status sd AND (NOT CARD_STATUS_C OR APP_CMD)\<rparr>))"

definition sd_response_r3_make :: "SDState \<Rightarrow> u8 list" where
  "sd_response_r3_make sd = word_bytes (ocr sd)"

definition sd_response_r6_make :: "SDState \<Rightarrow> u8 list" where
  "sd_response_r6_make sd =
     (let arg = rca sd;
          status = ucast ((drop_bit 8 (card_status sd) AND 0xc000) OR (drop_bit 6 (card_status sd) AND 0x2000)
            OR (card_status sd AND 0x1fff)) :: u16
      in [ucast (drop_bit 8 arg), ucast arg, ucast (drop_bit 8 status), ucast status])"

definition sd_response_r7_make :: "SDState \<Rightarrow> u8 list" where
  "sd_response_r7_make sd = word_bytes (vhs sd)"

definition sd_reset :: "BlockDriverState option \<Rightarrow> SDState \<Rightarrow> SDState" where
  "sd_reset bs sd =
     (let sect = (case bs of None \<Rightarrow> 0 | Some b \<Rightarrow> bdrv_get_geometry b);
          siz = push_bit 9 sect + 1;
          sect = drop_bit WPGROUP_BITS siz + 1;
          sd = sd\<lparr>sd_state := sd_idle_state, rca := 0\<rparr>;
          sd = sd_set_sdstatus (sd_set_cardstatus (sd_set_csd siz (sd_set_cid (sd_set_scr (sd_set_ocr sd)))))
      in sd\<lparr>bdrv := bs, wp_switch := (case bs of None \<Rightarrow> False | Some b \<Rightarrow> read_only b),
           wp_groups := replicate (unat sect) False, function_group := replicate 6 0, erase_start := 0, erase_end := 0,
           sd_size := siz, blk_len := 0x200, pwd_len := 0\<rparr>)"

section \<open>Creation and change of the medium\<close>

definition sd_cardchange :: "SDState \<Rightarrow> SDState res" where
  "sd_cardchange sd = (case bdrv sd of None \<Rightarrow> Inl NullDeref
     | Some b \<Rightarrow>
       let sd = sd\<lparr>sd_cb := qemu_set_irq InsertedCb (inserted b) (sd_cb sd)\<rparr> in
       Inr (if inserted b then
              let sd = sd_reset (bdrv sd) sd in sd\<lparr>sd_cb := qemu_set_irq ReadonlyCb (wp_switch sd) (sd_cb sd)\<rparr>
            else sd))"

text \<open>The card is zeroed when it is allocated; its sector buffer is not, so its bytes are an argument.\<close>

definition sd_init :: "BlockDriverState option \<Rightarrow> bool \<Rightarrow> u8 list \<Rightarrow> SDState" where
  "sd_init bs is_spi buf0 = sd_reset bs
     \<lparr>sd_mode = sd_inactive, sd_state = sd_idle_state, ocr = 0, scr = replicate 8 0, cid = replicate 16 0, csd = replicate 16 0,
      rca = 0, card_status = 0, sd_status = replicate 64 0, vhs = 0, wp_switch = False, wp_groups = [], sd_size = 0,
      blk_len = 0, erase_start = 0, erase_end = 0, pwd = replicate 16 0, pwd_len = 0, function_group = replicate 6 0,
      spi = is_spi, current_cmd = 0, blk_written = 0, data_start = 0, data_offset = 0, sd_data = replicate 512 0,
      sd_cb = [], bdrv = None, sd_buf = buf0, enable = True\<rparr>"

definition sd_set_cb :: "SDState \<Rightarrow> SDState res" where
  "sd_set_cb sd = (case bdrv sd of None \<Rightarrow> Inl NullDeref
     | Some b \<Rightarrow> Inr (sd\<lparr>sd_cb := qemu_set_irq InsertedCb (inserted b) (qemu_set_irq ReadonlyCb (read_only b) (sd_cb sd))\<rparr>))"

definition sd_enable :: "bool \<Rightarrow> SDState \<Rightarrow> SDState" where
  "sd_enable e sd = sd\<lparr>enable := e\<rparr>"

section \<open>Helpers of the commands\<close>

definition sd_fail :: "u32 \<Rightarrow> SDState \<Rightarrow> SDState" where
  "sd_fail e sd = sd\<lparr>card_status := card_status sd OR e\<rparr>"

definition sd_erase :: "SDState \<Rightarrow> SDState res" where
  "sd_erase sd =
     (if erase_start sd = 0 \<or> erase_end sd = 0 then Inr (sd_fail ERASE_SEQ_ERROR sd)
      else
        let first = unat (drop_bit WPGROUP_BITS (erase_start sd)); final = unat (drop_bit WPGROUP_BITS (erase_end sd));
            sd = sd\<lparr>erase_start := 0, erase_end := 0, csd := (csd sd)[14 := csd sd ! 14 OR 0x40]\<rparr>
        in rfold (\<lambda>i sd. rbind (arr_get (wp_groups sd) i) (\<lambda>p. Inr (if p then sd_fail WP_ERASE_SKIP sd else sd)))
             [first..<final + 1] sd)"

text \<open>The counters are 32 and 64 bits wide.\<close>

definition sd_wpbits :: "SDState \<Rightarrow> u64 \<Rightarrow> u32 res" where
  "sd_wpbits sd adr =
     (let wpnum = ucast (drop_bit WPGROUP_BITS adr) :: u32 in
      rfold (\<lambda>i ret.
        if adr + of_nat i * 0x200000 < sd_size sd then
          rbind (arr_get (wp_groups sd) (unat (wpnum + of_nat i))) (\<lambda>p. Inr (if p then ret OR push_bit i 1 else ret))
        else Inr ret) [0..<32] 0)"

definition data_set :: "nat \<Rightarrow> u8 list \<Rightarrow> SDState \<Rightarrow> SDState res" where
  "data_set pos bytes sd = rbind (arr_put (sd_data sd) pos bytes) (\<lambda>d. Inr (sd\<lparr>sd_data := d\<rparr>))"

definition sd_switch_step :: "u32 \<Rightarrow> nat \<Rightarrow> SDState \<Rightarrow> SDState res" where
  "sd_switch_step arg i sd =
     (let new_func = drop_bit (i * 4) arg AND 0x0f in
      rbind (if bit arg 31 \<and> new_func \<noteq> 0x0f
             then rbind (arr_set (function_group sd) i new_func) (\<lambda>g. Inr (sd\<lparr>function_group := g\<rparr>)) else Inr sd) (\<lambda>sd.
      data_set (14 + i div 2) [ucast (push_bit (if odd i then 4 else 0) new_func)] sd))"

definition sd_function_switch :: "u32 \<Rightarrow> SDState \<Rightarrow> SDState res" where
  "sd_function_switch arg sd =
     rbind (data_set 0 [0x00, 0x01, 0x80, 0x01, 0x80, 0x01, 0x80, 0x01, 0x80, 0x01, 0x80, 0x43, 0x80, 0x03] sd) (\<lambda>sd.
     rbind (rfold (sd_switch_step arg) [0, 1, 2, 3, 4, 5] sd) (\<lambda>sd.
     rbind (data_set 17 (replicate 47 0) sd) (\<lambda>sd.
     rbind (sd_crc16 (sd_data sd) 64) (\<lambda>crc.
     data_set 65 [ucast (drop_bit 8 crc), ucast crc] sd))))"

definition sd_wp_addr :: "SDState \<Rightarrow> u32 \<Rightarrow> bool res" where
  "sd_wp_addr sd adr = arr_get (wp_groups sd) (unat (drop_bit WPGROUP_BITS adr))"

text \<open>Force erase.\<close>

definition sd_force_erase :: "SDState \<Rightarrow> SDState" where
  "sd_force_erase sd =
     (let n = unat (drop_bit WPGROUP_BITS (sd_size sd)) in
      sd\<lparr>wp_groups := replicate n False @ drop n (wp_groups sd), csd := (csd sd)[14 := csd sd ! 14 AND NOT 0x10],
         card_status := card_status sd AND NOT CARD_IS_LOCKED, pwd_len := 0\<rparr>)"

text \<open>The end of \<^verbatim>\<open>sd_lock_command\<close>, with the length of the new password.\<close>

definition sd_set_password :: "int \<Rightarrow> SDState \<Rightarrow> SDState" where
  "sd_set_password len sd = sd\<lparr>pwd := take (nat len) (drop (nat (2 + pwd_len sd)) (sd_data sd)) @ drop (nat len) (pwd sd), pwd_len := len\<rparr>"

definition sd_lock_apply :: "u8 \<Rightarrow> int \<Rightarrow> SDState \<Rightarrow> SDState" where
  "sd_lock_apply flags len sd =
     (let sd = (if bit flags 0 then sd_set_password len sd else sd);
          sd = (if bit flags 1 then sd\<lparr>pwd_len := 0\<rparr> else sd)
      in if bit flags 2 then sd_fail CARD_IS_LOCKED sd else sd\<lparr>card_status := card_status sd AND NOT CARD_IS_LOCKED\<rparr>)"

definition sd_lock_command :: "SDState \<Rightarrow> SDState" where
  "sd_lock_command sd =
     (let flags = sd_data sd ! 0; erase = bit flags 3; lock = bit flags 2; clr_pwd = bit flags 1; set_pwd = bit flags 0;
          len = (if blk_len sd > 1 then uint (sd_data sd ! 1) else 0) in
      if erase then
        if card_status sd AND CARD_IS_LOCKED = 0 \<or> blk_len sd > 1 \<or> set_pwd \<or> clr_pwd \<or> lock \<or> wp_switch sd
           \<or> csd sd ! 14 AND 0x20 \<noteq> 0
        then sd_fail LOCK_UNLOCK_FAILED sd
        else sd_force_erase sd
      else if uint (blk_len sd) < 2 + len \<or> len \<le> pwd_len sd \<or> len > pwd_len sd + 16 then sd_fail LOCK_UNLOCK_FAILED sd
      else if pwd_len sd \<noteq> 0 \<and> take (nat (pwd_len sd)) (pwd sd) \<noteq> take (nat (pwd_len sd)) (drop 2 (sd_data sd))
      then sd_fail LOCK_UNLOCK_FAILED sd
      else
        let len = len - pwd_len sd; locked = (card_status sd AND CARD_IS_LOCKED \<noteq> 0) in
        if (len \<noteq> 0 \<and> \<not> set_pwd) \<or> (clr_pwd \<and> (set_pwd \<or> lock)) \<or> (lock \<and> pwd_len sd = 0 \<and> \<not> set_pwd)
           \<or> (\<not> set_pwd \<and> \<not> clr_pwd \<and> ((locked \<and> lock) \<or> (\<not> locked \<and> \<not> lock)))
        then sd_fail LOCK_UNLOCK_FAILED sd
        else sd_lock_apply flags len sd)"

section \<open>Commands\<close>

type_synonym sd_reply = "(sd_rsp_type_t \<times> SDState) res"

definition sd_illegal :: "SDState \<Rightarrow> sd_reply" where
  "sd_illegal sd = Inr (sd_r0, sd_fail ILLEGAL_COMMAND sd)"

text \<open>A command that is only allowed in the transfer state.\<close>

definition in_transfer :: "SDState \<Rightarrow> sd_reply \<Rightarrow> sd_reply" where
  "in_transfer sd m = (if sd_state sd = sd_transfer_state then m else sd_illegal sd)"

text \<open>The index of the first bit that is set, counted from 1.\<close>

definition ffs :: "u32 \<Rightarrow> nat" where
  "ffs w = (case find (bit w) [0..<32] of None \<Rightarrow> 0 | Some n \<Rightarrow> n + 1)"

definition check_range :: "SDState \<Rightarrow> SDState" where
  "check_range sd = (if data_start sd + ucast (blk_len sd) > sd_size sd then sd_fail ADDRESS_ERROR sd else sd)"

definition data_begin :: "sd_state_t \<Rightarrow> u64 \<Rightarrow> SDState \<Rightarrow> SDState" where
  "data_begin st start sd = sd\<lparr>sd_state := st, data_start := start, data_offset := 0\<rparr>"

text \<open>CMD0 to CMD15.\<close>

definition sd_basic_command :: "nat \<Rightarrow> u32 \<Rightarrow> u16 \<Rightarrow> u64 \<Rightarrow> SDState \<Rightarrow> sd_reply" where
  "sd_basic_command cmd arg r adr sd =
     (if cmd = 0 then
        if sd_state sd = sd_inactive_state then Inr (if spi sd then sd_r1 else sd_r0, sd)
        else Inr (if spi sd then sd_r1 else sd_r0, sd_reset (bdrv sd) (sd\<lparr>sd_state := sd_idle_state\<rparr>))
      else if cmd = 1 then
        if \<not> spi sd then sd_illegal sd else Inr (sd_r1, sd\<lparr>sd_state := sd_transfer_state\<rparr>)
      else if cmd = 2 then
        if \<not> spi sd \<and> sd_state sd = sd_ready_state then Inr (sd_r2_i, sd\<lparr>sd_state := sd_identification_state\<rparr>)
        else sd_illegal sd
      else if cmd = 3 then
        if \<not> spi sd \<and> sd_state sd \<in> {sd_identification_state, sd_standby_state}
        then Inr (sd_r6, sd_set_rca (sd\<lparr>sd_state := sd_standby_state\<rparr>)) else sd_illegal sd
      else if cmd = 6 then
        if \<not> spi sd \<and> sd_mode sd = sd_data_transfer_mode
        then rbind (sd_function_switch arg sd) (\<lambda>sd. Inr (sd_r1, data_begin sd_sendingdata_state 0 sd)) else sd_illegal sd
      else if cmd = 7 then
        if spi sd then sd_illegal sd
        else if sd_state sd = sd_standby_state then
          if rca sd \<noteq> r then Inr (sd_r0, sd) else Inr (sd_r1b, sd\<lparr>sd_state := sd_transfer_state\<rparr>)
        else if sd_state sd \<in> {sd_transfer_state, sd_sendingdata_state} \<and> rca sd \<noteq> r then
          Inr (sd_r1b, sd\<lparr>sd_state := sd_standby_state\<rparr>)
        else if sd_state sd = sd_disconnect_state then
          if rca sd \<noteq> r then Inr (sd_r0, sd) else Inr (sd_r1b, sd\<lparr>sd_state := sd_programming_state\<rparr>)
        else if sd_state sd = sd_programming_state \<and> rca sd \<noteq> r then
          Inr (sd_r1b, sd\<lparr>sd_state := sd_disconnect_state\<rparr>)
        else sd_illegal sd
      else if cmd = 8 then
        if sd_state sd = sd_idle_state then
          let sd = sd\<lparr>vhs := 0\<rparr> in
          if drop_bit 8 arg = 0 then Inr (if spi sd then sd_r7 else sd_r0, sd)
          else if ffs (arg AND NOT 0xff) \<ge> 32 then Inl ShiftRange
          else if drop_bit (ffs (arg AND NOT 0xff)) arg \<noteq> 0 then Inr (if spi sd then sd_r7 else sd_r0, sd)
          else Inr (sd_r7, sd\<lparr>vhs := arg\<rparr>)
        else sd_illegal sd
      else if cmd = 9 \<or> cmd = 10 then
        if sd_state sd = sd_standby_state then
          if rca sd \<noteq> r then Inr (sd_r0, sd) else Inr (if cmd = 9 then sd_r2_s else sd_r2_i, sd)
        else if sd_state sd = sd_transfer_state \<and> spi sd then
          rbind (data_set 0 (if cmd = 9 then csd sd else cid sd) sd) (\<lambda>sd. Inr (sd_r1, data_begin sd_sendingdata_state adr sd))
        else sd_illegal sd
      else if cmd = 11 then
        if spi sd then sd_illegal sd
        else in_transfer sd (Inr (sd_r0, check_range (data_begin sd_sendingdata_state (ucast arg) sd)))
      else if cmd = 12 then
        if sd_state sd \<in> {sd_sendingdata_state, sd_receivingdata_state}
        then Inr (sd_r1b, sd\<lparr>sd_state := sd_transfer_state\<rparr>) else sd_illegal sd
      else if cmd = 13 then
        if sd_mode sd = sd_data_transfer_mode then Inr (if rca sd \<noteq> r then sd_r0 else sd_r1, sd) else sd_illegal sd
      else if cmd = 15 then
        if \<not> spi sd \<and> sd_mode sd = sd_data_transfer_mode then
          Inr (sd_r0, if rca sd \<noteq> r then sd else sd\<lparr>sd_state := sd_inactive_state\<rparr>)
        else sd_illegal sd
      else sd_illegal sd)"

text \<open>CMD24 and CMD25.\<close>

definition sd_write_block :: "u64 \<Rightarrow> SDState \<Rightarrow> sd_reply" where
  "sd_write_block adr sd =
     (let sd = check_range ((data_begin sd_receivingdata_state adr sd)\<lparr>blk_written := 0\<rparr>) in
      rbind (sd_wp_addr sd (ucast (data_start sd))) (\<lambda>p.
      let sd = (if p then sd_fail WP_VIOLATION sd else sd);
          sd = (if csd sd ! 14 AND 0x30 \<noteq> 0 then sd_fail WP_VIOLATION sd else sd)
      in Inr (sd_r1, sd)))"

text \<open>CMD28 and CMD29; the error of the address replaces the whole status.\<close>

definition sd_write_prot :: "bool \<Rightarrow> u64 \<Rightarrow> SDState \<Rightarrow> sd_reply" where
  "sd_write_prot p adr sd =
     (if adr \<ge> sd_size sd then Inr (sd_r1b, sd\<lparr>card_status := ADDRESS_ERROR\<rparr>)
      else rbind (arr_set (wp_groups sd) (unat (drop_bit WPGROUP_BITS adr)) p) (\<lambda>g. Inr (sd_r1b, sd\<lparr>wp_groups := g\<rparr>)))"

text \<open>CMD16 to CMD56.\<close>

definition sd_block_command :: "nat \<Rightarrow> u32 \<Rightarrow> u16 \<Rightarrow> u64 \<Rightarrow> SDState \<Rightarrow> sd_reply" where
  "sd_block_command cmd arg r adr sd =
     (if cmd = 16 then
        in_transfer sd (Inr (sd_r1, if arg > 0x200 then sd_fail BLOCK_LEN_ERROR sd else sd\<lparr>blk_len := arg\<rparr>))
      else if cmd = 17 \<or> cmd = 18 then
        in_transfer sd (Inr (sd_r1, check_range (data_begin sd_sendingdata_state adr sd)))
      else if cmd = 24 \<or> cmd = 25 then
        if spi sd then sd_illegal sd else in_transfer sd (sd_write_block adr sd)
      else if cmd = 26 \<or> cmd = 27 \<or> cmd = 42 then
        if spi sd then sd_illegal sd else in_transfer sd (Inr (sd_r1, data_begin sd_receivingdata_state 0 sd))
      else if cmd = 28 \<or> cmd = 29 then in_transfer sd (sd_write_prot (cmd = 28) adr sd)
      else if cmd = 30 then
        in_transfer sd (rbind (sd_wpbits sd (ucast arg)) (\<lambda>b.
          rbind (data_set 0 (rev (word_bytes b)) sd) (\<lambda>sd. Inr (sd_r1b, data_begin sd_sendingdata_state adr sd))))
      else if cmd = 32 then in_transfer sd (Inr (sd_r1, sd\<lparr>erase_start := arg\<rparr>))
      else if cmd = 33 then in_transfer sd (Inr (sd_r1, sd\<lparr>erase_end := arg\<rparr>))
      else if cmd = 38 then
        in_transfer sd (if csd sd ! 14 AND 0x30 \<noteq> 0 then Inr (sd_r1b, sd_fail WP_VIOLATION sd)
                        else rbind (sd_erase sd) (\<lambda>sd. Inr (sd_r1b, sd)))
      else if cmd = 55 then
        if rca sd \<noteq> r then Inr (sd_r0, sd) else Inr (sd_r1, sd_fail APP_CMD sd)
      else if cmd = 56 then
        in_transfer sd (Inr (sd_r1, sd\<lparr>data_offset := 0,
          sd_state := if arg AND 1 \<noteq> 0 then sd_sendingdata_state else sd_receivingdata_state\<rparr>))
      else sd_illegal sd)"

text \<open>Cards of more than 1 GB are addressed in blocks, the others in bytes.\<close>

definition sd_address :: "u32 \<Rightarrow> SDState \<Rightarrow> u64" where
  "sd_address arg sd = (if ocr sd AND 0x40000000 \<noteq> 0 then push_bit 9 (ucast arg) else ucast arg)"

definition sd_normal_command :: "u8 \<Rightarrow> u32 \<Rightarrow> SDState \<Rightarrow> sd_reply" where
  "sd_normal_command cmd arg sd =
     rbind (arr_get sd_cmd_type (unat cmd)) (\<lambda>ty.
     let r = (if ty = sd_ac \<or> ty = sd_adtc then ucast (drop_bit 16 arg) else 0);
         adr = sd_address arg sd
     in if unat cmd < 16 then sd_basic_command (unat cmd) arg r adr sd else sd_block_command (unat cmd) arg r adr sd)"

definition sd_app_command :: "u8 \<Rightarrow> u32 \<Rightarrow> SDState \<Rightarrow> sd_reply" where
  "sd_app_command cmd arg sd =
     rbind (arr_get sd_cmd_type (unat cmd)) (\<lambda>ty.
     let transfer = (\<lambda>m. if sd_state sd = sd_transfer_state then m else Inr (sd_r0, sd)) in
     if cmd = 6 then
       transfer (Inr (sd_r1, sd\<lparr>sd_status := (sd_status sd)[0 := (sd_status sd ! 0 AND 0x3f) OR push_bit 6 (ucast arg AND 0x03)]\<rparr>))
     else if cmd = 13 then transfer (Inr (sd_r1, sd\<lparr>data_start := 0, data_offset := 0\<rparr>))
     else if cmd = 22 then
       transfer (rbind (data_set 0 (rev (word_bytes (blk_written sd))) sd) (\<lambda>sd. Inr (sd_r1, sd\<lparr>data_start := 0, data_offset := 0\<rparr>)))
     else if cmd = 23 then transfer (Inr (sd_r1, sd))
     else if cmd = 41 then
       if spi sd then Inr (sd_r1, sd\<lparr>sd_state := sd_transfer_state\<rparr>)
       else if sd_state sd = sd_idle_state then Inr (sd_r3, if arg \<noteq> 0 then sd\<lparr>sd_state := sd_ready_state\<rparr> else sd)
       else Inr (sd_r0, sd)
     else if cmd = 42 then transfer (Inr (sd_r1, sd))
     else if cmd = 51 then transfer (Inr (sd_r1, data_begin sd_sendingdata_state 0 sd))
     else sd_normal_command cmd arg (sd\<lparr>card_status := card_status sd AND NOT APP_CMD\<rparr>))"

text \<open>The medium is there and the card is enabled.\<close>

definition sd_present :: "SDState \<Rightarrow> bool" where
  "sd_present sd \<longleftrightarrow> (case bdrv sd of None \<Rightarrow> False | Some b \<Rightarrow> inserted b) \<and> enable sd"

text \<open>The response to a command, empty when there is none.  \<^verbatim>\<open>sd_req_crc_validate\<close> accepts every request.\<close>

definition sd_respond :: "u32 \<Rightarrow> sd_rsp_type_t \<Rightarrow> SDState \<Rightarrow> u8 list \<times> SDState" where
  "sd_respond last_status rtype sd = (case rtype of
       sd_r1 \<Rightarrow> sd_response_r1_make last_status sd
     | sd_r1b \<Rightarrow> sd_response_r1_make last_status sd
     | sd_r2_i \<Rightarrow> (cid sd, sd)
     | sd_r2_s \<Rightarrow> (csd sd, sd)
     | sd_r3 \<Rightarrow> (sd_response_r3_make sd, sd)
     | sd_r6 \<Rightarrow> (sd_response_r6_make sd, sd)
     | sd_r7 \<Rightarrow> (sd_response_r7_make sd, sd)
     | sd_r0 \<Rightarrow> ([], sd))"

definition sd_locked_out :: "u32 \<Rightarrow> u8 \<Rightarrow> bool res" where
  "sd_locked_out last_status cmd =
     (if last_status AND CARD_IS_LOCKED = 0 then Inr False
      else if last_status AND APP_CMD \<noteq> 0 then Inr (cmd = 41)
      else rbind (arr_get sd_cmd_class (unat cmd)) (\<lambda>c. Inr (c = 0 \<or> c = 7 \<or> cmd = 16 \<or> cmd = 55)))"

definition sd_do_command :: "u8 \<Rightarrow> u32 \<Rightarrow> SDState \<Rightarrow> (u8 list \<times> SDState) res" where
  "sd_do_command cmd arg sd =
     (let last_status = card_status sd in
      if \<not> sd_present sd then Inr ([], sd)
      else
        let sd = sd_set_status (sd\<lparr>card_status := card_status sd AND NOT CARD_STATUS_B\<rparr>) in
        rbind (sd_locked_out last_status cmd) (\<lambda>out.
        if out then Inr ([], sd_fail ILLEGAL_COMMAND sd)
        else
          rbind (if last_status AND APP_CMD \<noteq> 0
                 then rbind (sd_app_command cmd arg sd) (\<lambda>(rt, sd). Inr (rt, sd\<lparr>card_status := card_status sd AND NOT APP_CMD\<rparr>))
                 else sd_normal_command cmd arg sd) (\<lambda>(rtype, sd).
          let (response, sd) = sd_respond last_status rtype (sd\<lparr>current_cmd := cmd\<rparr>)
          in Inr (if card_status sd AND ILLEGAL_COMMAND \<noteq> 0 then [] else response, sd))))"

section \<open>Data\<close>

definition sd_blk_read :: "u64 \<Rightarrow> u32 \<Rightarrow> SDState \<Rightarrow> SDState res" where
  "sd_blk_read adr len sd =
     (case bdrv sd of None \<Rightarrow> Inr sd
      | Some b \<Rightarrow>
        let fin = adr + ucast len; off = unat (adr AND 511); (ret, buf) = bdrv_read b (unat (drop_bit 9 adr)) (sd_buf sd);
            sd = sd\<lparr>sd_buf := buf\<rparr> in
        if ret = - 1 then Inr sd
        else if fin > (adr AND NOT 511) + 512 then
          rbind (slice (sd_buf sd) off (512 - off)) (\<lambda>bytes.
          rbind (data_set 0 bytes sd) (\<lambda>sd.
          let (ret, buf) = bdrv_read b (unat (drop_bit 9 fin)) (sd_buf sd); sd = sd\<lparr>sd_buf := buf\<rparr> in
          if ret = - 1 then Inr sd
          else rbind (slice (sd_buf sd) 0 (unat (fin AND 511))) (\<lambda>bytes. data_set (512 - off) bytes sd)))
        else rbind (slice (sd_buf sd) off (unat len)) (\<lambda>bytes. data_set 0 bytes sd))"

definition buf_set :: "nat \<Rightarrow> u8 list \<Rightarrow> SDState \<Rightarrow> SDState res" where
  "buf_set pos bytes sd = rbind (arr_put (sd_buf sd) pos bytes) (\<lambda>d. Inr (sd\<lparr>sd_buf := d\<rparr>))"

definition bdrv_put :: "u64 \<Rightarrow> SDState \<Rightarrow> int \<times> SDState" where
  "bdrv_put adr sd = (case bdrv sd of None \<Rightarrow> (- 1, sd)
     | Some b \<Rightarrow> let (ret, b) = bdrv_write b (unat (drop_bit 9 adr)) (sd_buf sd) in (ret, sd\<lparr>bdrv := Some b\<rparr>))"

definition bdrv_get :: "u64 \<Rightarrow> SDState \<Rightarrow> int \<times> SDState" where
  "bdrv_get adr sd = (case bdrv sd of None \<Rightarrow> (- 1, sd)
     | Some b \<Rightarrow> let (ret, buf) = bdrv_read b (unat (drop_bit 9 adr)) (sd_buf sd) in (ret, sd\<lparr>sd_buf := buf\<rparr>))"

definition sd_blk_write :: "u64 \<Rightarrow> u32 \<Rightarrow> SDState \<Rightarrow> SDState res" where
  "sd_blk_write adr len sd =
     (let fin = adr + ucast len; off = unat (adr AND 511);
          (ret, sd) = (if off \<noteq> 0 \<or> len < 512 then bdrv_get adr sd else (0, sd)) in
      if ret = - 1 then Inr sd
      else if fin > (adr AND NOT 511) + 512 then
        rbind (slice (sd_data sd) 0 (512 - off)) (\<lambda>bytes.
        rbind (buf_set off bytes sd) (\<lambda>sd.
        let (ret, sd) = bdrv_put adr sd in
        if ret = - 1 then Inr sd
        else
          let (ret, sd) = bdrv_get fin sd in
          if ret = - 1 then Inr sd
          else
            rbind (slice (sd_data sd) (512 - off) (unat (fin AND 511))) (\<lambda>bytes.
            rbind (buf_set 0 bytes sd) (\<lambda>sd. Inr (snd (bdrv_put fin sd))))))
      else
        rbind (slice (sd_data sd) 0 (unat len)) (\<lambda>bytes.
        rbind (buf_set off bytes sd) (\<lambda>sd. Inr (snd (bdrv_put adr sd)))))"

text \<open>The byte goes to \<^verbatim>\<open>sd->data[sd->data_offset ++]\<close>.\<close>

definition sd_put :: "u8 \<Rightarrow> SDState \<Rightarrow> SDState res" where
  "sd_put v sd = rbind (arr_set (sd_data sd) (unat (data_offset sd)) v) (\<lambda>d.
     Inr (sd\<lparr>sd_data := d, data_offset := data_offset sd + 1\<rparr>))"

definition csd_written :: "SDState \<Rightarrow> SDState" where
  "csd_written sd = sd\<lparr>csd := (csd sd)[14 := csd sd ! 14 OR 0x40]\<rparr>"

definition sd_program_cid :: "SDState \<Rightarrow> SDState" where
  "sd_program_cid sd =
     (let sd = (if \<exists>i\<in>set [0..<16]. cid sd ! i OR 0x00 \<noteq> sd_data sd ! i then sd_fail CID_CSD_OVERWRITE sd else sd)
      in if card_status sd AND CID_CSD_OVERWRITE = 0
         then sd\<lparr>cid := map (\<lambda>i. (cid sd ! i OR 0x00) AND sd_data sd ! i) [0..<16]\<rparr> else sd)"

definition sd_program_csd :: "SDState \<Rightarrow> SDState" where
  "sd_program_csd sd =
     (let sd = (if \<exists>i\<in>set [0..<16]. csd sd ! i OR sd_csd_rw_mask ! i \<noteq> sd_data sd ! i OR sd_csd_rw_mask ! i
                then sd_fail CID_CSD_OVERWRITE sd else sd);
          sd = (if csd sd ! 14 AND NOT (sd_data sd ! 14) AND 0x60 \<noteq> 0 then sd_fail CID_CSD_OVERWRITE sd else sd)
      in if card_status sd AND CID_CSD_OVERWRITE = 0
         then sd\<lparr>csd := map (\<lambda>i. (csd sd ! i OR sd_csd_rw_mask ! i) AND sd_data sd ! i) [0..<16]\<rparr> else sd)"

text \<open>
  CMD25 after a block: the write goes on with the next one; when that one lies outside the card or is protected, the
  \<^verbatim>\<open>break\<close> leaves the card in the programming state.
\<close>

definition sd_next_block :: "SDState \<Rightarrow> SDState res" where
  "sd_next_block sd =
     (let sd = sd\<lparr>blk_written := blk_written sd + 1, data_start := data_start sd + ucast (blk_len sd), data_offset := 0\<rparr> in
      if data_start sd + ucast (blk_len sd) > sd_size sd then Inr (sd_fail ADDRESS_ERROR sd)
      else rbind (sd_wp_addr sd (ucast (data_start sd))) (\<lambda>p.
        if p then Inr (sd_fail WP_VIOLATION sd)
        else Inr ((csd_written sd)\<lparr>sd_state := sd_receivingdata_state\<rparr>)))"

definition sd_write_full :: "SDState \<Rightarrow> SDState res" where
  "sd_write_full sd =
     (let cmd = current_cmd sd; ready = (\<lambda>sd. sd\<lparr>sd_state := sd_transfer_state\<rparr>); busy = sd\<lparr>sd_state := sd_programming_state\<rparr> in
      if cmd = 24 then
        if data_offset sd \<ge> blk_len sd then
          rbind (sd_blk_write (data_start sd) (data_offset sd) busy) (\<lambda>sd.
          Inr (ready (csd_written (sd\<lparr>blk_written := blk_written sd + 1\<rparr>))))
        else Inr sd
      else if cmd = 25 then
        if data_offset sd \<ge> blk_len sd then rbind (sd_blk_write (data_start sd) (data_offset sd) busy) sd_next_block else Inr sd
      else if cmd = 26 then Inr (if data_offset sd \<ge> 16 then ready (sd_program_cid busy) else sd)
      else if cmd = 27 then Inr (if data_offset sd \<ge> 16 then ready (sd_program_csd busy) else sd)
      else if cmd = 42 then Inr (if data_offset sd \<ge> blk_len sd then ready (sd_lock_command busy) else sd)
      else Inr (if data_offset sd \<ge> blk_len sd then ready sd else sd))"

definition sd_write_data :: "u8 \<Rightarrow> SDState \<Rightarrow> SDState res" where
  "sd_write_data v sd =
     (if \<not> sd_present sd \<or> sd_state sd \<noteq> sd_receivingdata_state \<or> card_status sd AND (ADDRESS_ERROR OR WP_VIOLATION) \<noteq> 0
         \<or> current_cmd sd \<notin> {24, 25, 26, 27, 42, 56}
      then Inr sd
      else rbind (sd_put v sd) sd_write_full)"

text \<open>The byte comes from \<^verbatim>\<open>xs[sd->data_offset ++]\<close>.\<close>

definition sd_take :: "u8 list \<Rightarrow> SDState \<Rightarrow> (u8 \<times> SDState) res" where
  "sd_take xs sd = rbind (arr_get xs (unat (data_offset sd))) (\<lambda>v. Inr (v, sd\<lparr>data_offset := data_offset sd + 1\<rparr>))"

text \<open>The transfer ends after \<open>n\<close> bytes.\<close>

definition sd_until :: "u32 \<Rightarrow> SDState \<Rightarrow> SDState" where
  "sd_until n sd = (if data_offset sd \<ge> n then sd\<lparr>sd_state := sd_transfer_state\<rparr> else sd)"

definition io_len :: "SDState \<Rightarrow> u32" where
  "io_len sd = (if ocr sd AND 0x40000000 \<noteq> 0 then 512 else blk_len sd)"

text \<open>The transfer goes on with the next block.\<close>

definition sd_more :: "SDState \<Rightarrow> SDState" where
  "sd_more sd =
     (if data_offset sd \<ge> io_len sd then
        let sd = sd\<lparr>data_start := data_start sd + ucast (io_len sd), data_offset := 0\<rparr>
        in if data_start sd + ucast (io_len sd) > sd_size sd then sd_fail ADDRESS_ERROR sd else sd
      else sd)"

definition sd_fetch :: "SDState \<Rightarrow> SDState res" where
  "sd_fetch sd = (if data_offset sd = 0 then sd_blk_read (data_start sd) (io_len sd) sd else Inr sd)"

definition sd_app_fetch :: "SDState \<Rightarrow> SDState res" where
  "sd_app_fetch sd = (if data_offset sd = 0 then data_set 0 (replicate (unat (blk_len sd)) 0xec) sd else Inr sd)"

definition sd_read_byte :: "SDState \<Rightarrow> (u8 \<times> SDState) res" where
  "sd_read_byte sd =
     (let cmd = current_cmd sd; next = (\<lambda>m after. rbind m (\<lambda>(v, sd). Inr (v, after sd))) in
      if cmd = 6 then next (sd_take (sd_data sd) sd) (sd_until 64)
      else if cmd = 9 \<or> cmd = 10 then next (sd_take (sd_data sd) sd) (sd_until 16)
      else if cmd = 11 \<or> cmd = 18 then rbind (sd_fetch sd) (\<lambda>sd. next (sd_take (sd_data sd) sd) sd_more)
      else if cmd = 13 then next (sd_take (sd_status sd) sd) (sd_until 64)
      else if cmd = 17 then rbind (sd_fetch sd) (\<lambda>sd. next (sd_take (sd_data sd) sd) (sd_until (io_len sd)))
      else if cmd = 22 \<or> cmd = 30 then next (sd_take (sd_data sd) sd) (sd_until 4)
      else if cmd = 51 then next (sd_take (scr sd) sd) (sd_until 8)
      else if cmd = 56 then rbind (sd_app_fetch sd) (\<lambda>sd. next (sd_take (sd_data sd) sd) (sd_until (blk_len sd)))
      else Inr (0, sd))"

definition sd_read_data :: "SDState \<Rightarrow> (u8 \<times> SDState) res" where
  "sd_read_data sd =
     (if \<not> sd_present sd \<or> sd_state sd \<noteq> sd_sendingdata_state \<or> card_status sd AND (ADDRESS_ERROR OR WP_VIOLATION) \<noteq> 0
      then Inr (0, sd) else sd_read_byte sd)"

definition sd_data_ready :: "SDState \<Rightarrow> bool" where
  "sd_data_ready sd \<longleftrightarrow> sd_state sd = sd_sendingdata_state"

end
