(* ===== verification/Sd_Image.thy ===== *)
theory Sd_Image
  imports Sd_Card
begin

text \<open>
  The image behind the card as one sequence of bytes: the accesses of the card, which go through a buffer of one sector
  and may lie across two sectors, read and change exactly the bytes they name.
\<close>

section \<open>Addresses in the image\<close>

lemma off_and: "unat (adr AND 511 :: u64) = unat adr mod 512"
  using take_bit_eq_mask [of 9 "unat adr"] by (simp add: unsigned_and_eq mask_eq_exp_minus_1 take_bit_eq_mod)

lemma sector_num: "unat (drop_bit 9 adr :: u64) = unat adr div 512"
  by (simp add: unat_drop_bit_div)

lemma sector_end:
  assumes "unat adr < 2 ^ 63"
  shows "unat ((adr AND NOT 511) + 512 :: u64) = 512 * (unat adr div 512) + 512"
proof -
  have m: "511 = (mask 9 :: u64)" by (simp add: mask_eq_exp_minus_1)
  have "adr AND NOT 511 = push_bit 9 (drop_bit 9 adr)"
    unfolding m by (rule bit_word_eqI) (auto simp: bit_simps)
  moreover have "unat (push_bit 9 (drop_bit 9 adr)) = 512 * (unat adr div 512)"
    using assms by (simp add: push_bit_eq_mult unat_word_ariths(2) sector_num)
  ultimately show ?thesis using assms by (simp add: unat_word_ariths(1))
qed

text \<open>The end of a transfer of at most one sector, and whether it lies in the next sector.\<close>

lemma transfer_end:
  assumes "unat adr + unat len < 2 ^ 63" and "unat (len :: u32) \<le> 512"
  shows "unat (adr + ucast len :: u64) = unat adr + unat len"
    and "(adr + ucast len > (adr AND NOT 511) + 512) = (unat adr mod 512 + unat len > 512)"
proof -
  have "unat (ucast len :: u64) = unat len" using assms(2) by (simp add: unat_ucast_mod)
  with assms show e: "unat (adr + ucast len :: u64) = unat adr + unat len" by (simp add: unat_word_ariths)
  show "(adr + ucast len > (adr AND NOT 511) + 512) = (unat adr mod 512 + unat len > 512)"
    using sector_end [of adr] assms div_mult_mod_eq [of "unat adr" 512]
    unfolding word_less_nat_alt e by linarith
qed

lemma bdrv_read_ok:
  "disk_wf b \<Longrightarrow> inserted b \<Longrightarrow> k < length (sectors b) \<Longrightarrow> bdrv_read b k buf = (0, take 512 (drop (512 * k) (disk b)))"
  by (simp add: bdrv_read_def disk_sector)

lemma data_set_ok:
  "pos + length bytes \<le> length (sd_data sd) \<Longrightarrow> data_set pos bytes sd = Inr (sd\<lparr>sd_data := splice pos bytes (sd_data sd)\<rparr>)"
  by (simp add: data_set_def arr_put_def)

lemma buf_set_ok:
  "pos + length bytes \<le> length (sd_buf sd) \<Longrightarrow> buf_set pos bytes sd = Inr (sd\<lparr>sd_buf := splice pos bytes (sd_buf sd)\<rparr>)"
  by (simp add: buf_set_def arr_put_def)

text \<open>Reading at most one sector's length from any place of the image.\<close>

lemma sd_blk_read_flat:
  assumes b: "bdrv sd = Some b" "disk_wf b" "inserted b" and l: "length (sd_data sd) = 512"
    and len: "0 < unat len" "unat len \<le> 512" and r: "unat adr + unat len \<le> length (disk b)"
  shows "\<exists>buf. length buf = 512 \<and> sd_blk_read adr len sd
     = Inr (sd\<lparr>sd_buf := buf, sd_data := splice 0 (take (unat len) (drop (unat adr) (disk b))) (sd_data sd)\<rparr>)"
proof -
  define K off where "K = unat adr div 512" and "off = unat adr mod 512"
  have a: "unat adr = 512 * K + off" "off < 512" by (simp_all add: K_def off_def)
  have D: "length (disk b) = 512 * length (sectors b)" by (rule length_disk [OF b(2)])
  have bnd: "unat adr + unat len < 2 ^ 63" using r b(2) D by (simp add: disk_wf_def)
  note e = transfer_end [OF bnd len(2), folded off_def]
  have k: "K < length (sectors b)" using r len D a by linarith
  note r1 = bdrv_read_ok [OF b(2,3) k]
  have n1: "unat (drop_bit 9 adr) = K" "unat (adr AND 511) = off" by (simp_all add: K_def off_def sector_num off_and)
  have c1: "length (take 512 (drop (512 * K) (disk b))) = 512" using k D by simp
  show ?thesis
  proof (cases "off + unat len > 512")
    case False
    have "slice (take 512 (drop (512 * K) (disk b))) off (unat len) = Inr (take (unat len) (drop (unat adr) (disk b)))"
      unfolding a(1) using False k D by (intro slice_chunk) auto
    then show ?thesis
      using False c1 l len r unfolding sd_blk_read_def Let_def e(2) n1
      by (intro exI [of _ "take 512 (drop (512 * K) (disk b))"]) (simp add: b(1) r1 data_set_ok)
  next
    case True
    let ?s0 = "take 512 (drop (512 * K) (disk b))" and ?s1 = "take 512 (drop (512 * Suc K) (disk b))"
    have fin: "unat (adr + ucast len) = 512 * Suc K + (off + unat len - 512)" using e(1) a True by simp
    have j: "off + unat len - 512 < 512" using a(2) len(2) by simp
    have n2: "unat (drop_bit 9 (adr + ucast len)) = Suc K" "unat ((adr + ucast len) AND 511) = off + unat len - 512"
      unfolding sector_num off_and fin using j by (simp_all del: mult_Suc_right)
    have "512 * Suc K < 512 * length (sectors b)" using fin r D e(1) True by simp
    then have k2: "Suc K < length (sectors b)" by simp
    note r2 = bdrv_read_ok [OF b(2,3) k2]
    have c2: "length ?s1 = 512" using k2 D by simp
    have p1: "slice ?s0 off (512 - off) = Inr (take (512 - off) (drop (unat adr) (disk b)))"
      unfolding a(1) using a(2) k D by (intro slice_chunk) auto
    have p2: "slice ?s1 0 (off + unat len - 512) = Inr (take (off + unat len - 512) (drop (512 * Suc K) (disk b)))"
      using slice_chunk [of "512 * Suc K" 512 "disk b" 0 "off + unat len - 512"] j k2 D by simp
    have t: "take (512 - off) (drop (unat adr) (disk b)) @ take (off + unat len - 512) (drop (512 * Suc K) (disk b))
        = take (unat len) (drop (unat adr) (disk b))" (is "?x @ ?y = ?z")
    proof -
      have "unat len = (512 - off) + (off + unat len - 512)" using True a(2) by simp
      then have "?z = ?x @ take (off + unat len - 512) (drop (512 - off + unat adr) (disk b))"
        by (metis take_add drop_drop)
      then show ?thesis using a by simp
    qed
    have lx: "length ?x = 512 - off" using r a True by simp
    have ly: "length ?y = off + unat len - 512" using r a True by simp
    have "splice (512 - off) ?y (splice 0 ?x (sd_data sd)) = splice 0 ?z (sd_data sd)"
      using splice_splice [of 0 ?x ?y "sd_data sd"] lx ly l len a True unfolding t by simp
    then show ?thesis
      using True l len lx ly c2 p1 p2 a(2) unfolding sd_blk_read_def Let_def e(2) n1 n2
      by (intro exI [of _ ?s1]) (simp add: b(1) r1 r2 data_set_ok del: length_take length_drop)
  qed
qed

lemma bdrv_get_ok:
  "bdrv sd = Some b \<Longrightarrow> disk_wf b \<Longrightarrow> inserted b \<Longrightarrow> unat (drop_bit 9 adr) = k \<Longrightarrow> k < length (sectors b) \<Longrightarrow>
   bdrv_get adr sd = (0, sd\<lparr>sd_buf := take 512 (drop (512 * k) (disk b))\<rparr>)"
  by (simp add: bdrv_get_def bdrv_read_ok)

lemma bdrv_put_ok:
  "bdrv sd = Some b \<Longrightarrow> inserted b \<Longrightarrow> \<not> read_only b \<Longrightarrow> unat (drop_bit 9 adr) = k \<Longrightarrow> k < length (sectors b) \<Longrightarrow>
   bdrv_put adr sd = (0, sd\<lparr>bdrv := Some (b\<lparr>sectors := (sectors b)[k := sd_buf sd]\<rparr>)\<rparr>)"
  by (simp add: bdrv_put_def bdrv_write_def)

text \<open>Changing a part of one sector.\<close>

lemma disk_put:
  assumes "disk_wf b" and "k < length (sectors b)" and "off + length bytes \<le> 512"
  defines "b' \<equiv> b\<lparr>sectors := (sectors b)[k := splice off bytes (take 512 (drop (512 * k) (disk b)))]\<rparr>"
  shows "disk b' = splice (512 * k + off) bytes (disk b)" and "disk_wf b'"
proof -
  have n: "512 * k + 512 \<le> length (disk b)" using assms(2) length_disk [OF assms(1)] by simp
  have "length (splice off bytes (take 512 (drop (512 * k) (disk b)))) = 512" using assms(3) n by simp
  from disk_update [OF assms(1,2) this]
  show "disk b' = splice (512 * k + off) bytes (disk b)" and "disk_wf b'"
    unfolding b'_def using splice_chunk [OF n assms(3)] by simp_all
qed

text \<open>Writing at most one sector's length to any place of the image, within a sector and over the end of one.\<close>

lemma sd_blk_write_within:
  assumes b: "bdrv sd = Some b" "disk_wf b" "inserted b" "\<not> read_only b"
    and l: "length (sd_data sd) = 512" "length (sd_buf sd) = 512"
    and len: "unat len \<le> 512" and K: "unat adr = 512 * K + off" "K < length (sectors b)"
    and off: "off + unat len \<le> 512" "off < 512"
  shows "sd_blk_write adr len sd = Inr (sd\<lparr>
     sd_buf := splice off (take (unat len) (sd_data sd)) (take 512 (drop (512 * K) (disk b))),
     bdrv := Some (b\<lparr>sectors := (sectors b)[K := splice off (take (unat len) (sd_data sd)) (take 512 (drop (512 * K) (disk b)))]\<rparr>)\<rparr>)"
proof -
  let ?s = "take 512 (drop (512 * K) (disk b))" and ?x = "take (unat len) (sd_data sd)"
  have D: "512 * K + 512 \<le> length (disk b)" using K(2) length_disk [OF b(2)] by simp
  have n: "unat (drop_bit 9 adr) = K" "unat (adr AND 511) = off" using off(2) by (simp_all add: K sector_num off_and)
  have bnd: "unat adr + unat len < 2 ^ 63" using D K off len b(2) by (simp add: disk_wf_def)
  have e: "(adr + ucast len > (adr AND NOT 511) + 512) = False"
    using transfer_end(2) [OF bnd len] off(1) n(2) by (simp add: off_and)
  have same: "splice off ?x (sd_buf sd) = splice off ?x ?s" if "\<not> (off \<noteq> 0 \<or> len < 512)"
    using that len l D by (simp add: word_less_nat_alt splice_def)
  show ?thesis
  proof (cases "off \<noteq> 0 \<or> len < 512")
    case True
    then show ?thesis
      using l len off D b n unfolding sd_blk_write_def Let_def e n(2)
      by (simp add: bdrv_get_ok [OF b(1-3) n(1) K(2)] slice_ok buf_set_ok bdrv_put_ok [where k = K] K(2))
  next
    case False
    then show ?thesis
      using l len off D b n same unfolding sd_blk_write_def Let_def e n(2)
      by (simp add: slice_ok buf_set_ok bdrv_put_ok [where k = K] K(2))
  qed
qed

text \<open>Changing the end of one sector and the beginning of the next.\<close>

definition sector_patch :: "nat \<Rightarrow> nat \<Rightarrow> u8 list \<Rightarrow> BlockDriverState \<Rightarrow> BlockDriverState" where
  "sector_patch k off bytes b = b\<lparr>sectors := (sectors b)[k := splice off bytes (take 512 (drop (512 * k) (disk b)))]\<rparr>"

lemma sector_patch_simps [simp]:
  "inserted (sector_patch k off bytes b) = inserted b" "read_only (sector_patch k off bytes b) = read_only b"
  "length (sectors (sector_patch k off bytes b)) = length (sectors b)"
  by (simp_all add: sector_patch_def)

lemma disk_patch:
  assumes "disk_wf b" and "k < length (sectors b)" and "off + length bytes \<le> 512"
  shows "disk (sector_patch k off bytes b) = splice (512 * k + off) bytes (disk b)" "disk_wf (sector_patch k off bytes b)"
  unfolding sector_patch_def using disk_put [OF assms] by simp_all

lemma disk_patch_across:
  assumes "disk_wf b" and k: "Suc k < length (sectors b)" and x: "off + length x = 512" and y: "length y \<le> 512"
  shows "disk (sector_patch (Suc k) 0 y (sector_patch k off x b)) = splice (512 * k + off) (x @ y) (disk b)"
    "disk_wf (sector_patch (Suc k) 0 y (sector_patch k off x b))"
proof -
  have 1: "disk (sector_patch k off x b) = splice (512 * k + off) x (disk b)" "disk_wf (sector_patch k off x b)"
    using disk_patch [of b k off x] assms by simp_all
  then have 2: "disk (sector_patch (Suc k) 0 y (sector_patch k off x b)) = splice (512 * Suc k) y (disk (sector_patch k off x b))"
    and "disk_wf (sector_patch (Suc k) 0 y (sector_patch k off x b))"
    using disk_patch [of "sector_patch k off x b" "Suc k" 0 y] k y by simp_all
  then show "disk_wf (sector_patch (Suc k) 0 y (sector_patch k off x b))" by simp
  have "512 * Suc k = 512 * k + off + length x" using x by simp
  moreover have "512 * k + off + length x + length y \<le> length (disk b)"
    using length_disk [OF assms(1)] k x y by simp
  ultimately show "disk (sector_patch (Suc k) 0 y (sector_patch k off x b)) = splice (512 * k + off) (x @ y) (disk b)"
    unfolding 1 2 by (metis splice_splice)
qed

lemma transfer_across:
  assumes "unat adr = 512 * K + off" and "unat adr + unat len < 2 ^ 63"
    and "unat (len :: u32) \<le> 512" and "512 < off + unat len" and "off < 512"
  shows "unat (drop_bit 9 (adr + ucast len :: u64)) = Suc K" "unat ((adr + ucast len) AND 511) = off + unat len - 512"
    "((adr + ucast len) > (adr AND NOT 511) + 512) = True"
proof -
  have fin: "unat (adr + ucast len) = 512 * Suc K + (off + unat len - 512)"
    using transfer_end(1) [OF assms(2,3)] assms by simp
  have j: "off + unat len - 512 < 512" using assms by simp
  show "unat (drop_bit 9 (adr + ucast len)) = Suc K" "unat ((adr + ucast len) AND 511) = off + unat len - 512"
    unfolding sector_num off_and fin using j by (simp_all del: mult_Suc_right)
  show "((adr + ucast len) > (adr AND NOT 511) + 512) = True"
    using transfer_end(2) [OF assms(2,3)] assms by simp
qed

text \<open>The buffer between the calls: the sector as it is read, with the new bytes.\<close>

lemma bdrv_patch:
  assumes "bdrv sd = Some b" "disk_wf b" "inserted b" "\<not> read_only b" and "unat (drop_bit 9 adr) = k" "k < length (sectors b)"
    and "off + length bytes \<le> 512"
  defines "s \<equiv> sectors (sector_patch k off bytes b) ! k"
  shows "\<exists>sd1. bdrv_get adr sd = (0, sd1) \<and> sd_data sd1 = sd_data sd \<and> buf_set off bytes sd1 = Inr (sd\<lparr>sd_buf := s\<rparr>)"
    and "bdrv_put adr (sd\<lparr>sd_buf := s\<rparr>) = (0, sd\<lparr>sd_buf := s, bdrv := Some (sector_patch k off bytes b)\<rparr>)"
    and "length s = 512"
  using assms(1-7) length_disk [OF assms(2)] bdrv_get_ok [OF assms(1-3,5,6)] unfolding s_def
  by (simp_all add: buf_set_ok bdrv_put_ok [where k = k] sector_patch_def)

lemma sd_blk_write_across:
  assumes b: "bdrv sd = Some b" "disk_wf b" "inserted b" "\<not> read_only b"
    and l: "length (sd_data sd) = 512"
    and len: "unat len \<le> 512" and K: "unat adr = 512 * K + off" "Suc K < length (sectors b)"
    and off: "512 < off + unat len" "off < 512"
  shows "\<exists>buf b'. sd_blk_write adr len sd = Inr (sd\<lparr>sd_buf := buf, bdrv := Some b'\<rparr>) \<and> length buf = 512
     \<and> disk b' = splice (unat adr) (take (unat len) (sd_data sd)) (disk b) \<and> disk_wf b' \<and> (inserted b', read_only b') = (True, False)"
proof -
  define x y where "x = take (512 - off) (sd_data sd)" and "y = take (off + unat len - 512) (drop (512 - off) (sd_data sd))"
  have xy: "x @ y = take (unat len) (sd_data sd)" "length x = 512 - off" "length y = off + unat len - 512"
    using off len l take_add [of "512 - off" "off + unat len - 512" "sd_data sd"] by (simp_all add: x_def y_def)
  have n: "unat (drop_bit 9 adr) = K" "unat (adr AND 511) = off" using off(2) by (simp_all add: K sector_num off_and)
  have "unat adr + unat len < 2 ^ 63" using length_disk [OF b(2)] K off len b(2) by (simp add: disk_wf_def)
  note e = transfer_across [OF K(1) this len off]
  have p: "slice (sd_data sd) 0 (512 - off) = Inr x" "slice (sd_data sd) (512 - off) (off + unat len - 512) = Inr y"
    using l off len by (simp_all add: x_def y_def slice_ok)
  define b1 where "b1 = sector_patch K off x b"
  define s0 where "s0 = sectors b1 ! K"
  obtain sd1 where g: "bdrv_get adr sd = (0, sd1)" "sd_data sd1 = sd_data sd" "buf_set off x sd1 = Inr (sd\<lparr>sd_buf := s0\<rparr>)"
    and r: "bdrv_put adr (sd\<lparr>sd_buf := s0\<rparr>) = (0, sd\<lparr>sd_buf := s0, bdrv := Some b1\<rparr>)"
    using bdrv_patch [OF b n(1), of off x] K(2) xy(2) off unfolding s0_def b1_def by auto
  have d1: "disk_wf b1" "inserted b1" "\<not> read_only b1" "Suc K < length (sectors b1)"
    using disk_patch [OF b(2), of K off x] K(2) b xy(2) off by (simp_all add: b1_def)
  have ly: "0 + length y \<le> 512" using xy(3) off len by simp
  define b2 where "b2 = sector_patch (Suc K) 0 y b1"
  define s1 where "s1 = sectors b2 ! Suc K"
  obtain sd2 where g2: "bdrv_get (adr + ucast len) (sd\<lparr>sd_buf := s0, bdrv := Some b1\<rparr>) = (0, sd2)" "sd_data sd2 = sd_data sd"
      "buf_set 0 y sd2 = Inr (sd\<lparr>bdrv := Some b1, sd_buf := s1\<rparr>)"
    and r2: "bdrv_put (adr + ucast len) (sd\<lparr>bdrv := Some b1, sd_buf := s1\<rparr>)
      = (0, sd\<lparr>sd_buf := s1, bdrv := Some b2\<rparr>)" and s1: "length s1 = 512"
    using bdrv_patch [OF _ d1(1-3) e(1) d1(4) ly, of "sd\<lparr>sd_buf := s0, bdrv := Some b1\<rparr>"]
    unfolding s1_def b2_def by auto
  have "off \<noteq> 0" using off len by simp
  then have "sd_blk_write adr len sd = Inr (sd\<lparr>sd_buf := s1, bdrv := Some b2\<rparr>)"
    unfolding sd_blk_write_def Let_def e n(2) by (simp add: g p r g2 r2)
  then show ?thesis
    using disk_patch_across [OF b(2) K(2), of off x y] xy off ly s1 b unfolding b1_def b2_def K(1)
    by (intro exI [of _ s1] exI [of _ "sector_patch (Suc K) 0 y (sector_patch K off x b)"]) simp
qed

lemma sd_blk_write_flat:
  assumes b: "bdrv sd = Some b" "disk_wf b" "inserted b" "\<not> read_only b"
    and l: "length (sd_data sd) = 512" "length (sd_buf sd) = 512"
    and len: "0 < unat len" "unat len \<le> 512" and r: "unat adr + unat len \<le> length (disk b)"
  shows "\<exists>buf b'. sd_blk_write adr len sd = Inr (sd\<lparr>sd_buf := buf, bdrv := Some b'\<rparr>) \<and> length buf = 512
     \<and> disk b' = splice (unat adr) (take (unat len) (sd_data sd)) (disk b) \<and> disk_wf b' \<and> (inserted b', read_only b') = (True, False)"
proof (cases "unat adr mod 512 + unat len > 512")
  case True
  have "512 * (unat adr div 512) + 512 < 512 * length (sectors b)"
    using r length_disk [OF b(2)] True div_mult_mod_eq [of "unat adr" 512] by linarith
  then show ?thesis
    using True by (intro sd_blk_write_across [OF b l(1) len(2), where off = "unat adr mod 512" and K = "unat adr div 512"]) simp_all
next
  case False
  let ?K = "unat adr div 512" and ?off = "unat adr mod 512" and ?x = "take (unat len) (sd_data sd)"
  have K: "?K < length (sectors b)" using r length_disk [OF b(2)] len(1) by linarith
  have "sd_blk_write adr len sd = Inr (sd\<lparr>sd_buf := splice ?off ?x (take 512 (drop (512 * ?K) (disk b))),
      bdrv := Some (sector_patch ?K ?off ?x b)\<rparr>)"
    unfolding sector_patch_def using False by (intro sd_blk_write_within [OF b l len(2) _ K]) simp_all
  moreover have "length (splice ?off ?x (take 512 (drop (512 * ?K) (disk b)))) = 512"
    using False l len K length_disk [OF b(2)] by simp
  moreover have "512 * ?K + ?off = unat adr" and "?off + length ?x \<le> 512" using False by simp_all
  ultimately show ?thesis
    using disk_patch [OF b(2) K, of ?off ?x] b(3,4)
    by (intro exI [of _ "splice ?off ?x (take 512 (drop (512 * ?K) (disk b)))"] exI [of _ "sector_patch ?K ?off ?x b"])
      (simp only: sector_patch_simps simp_thms)
qed

end
