(* ===== verification/Sd_Protocol.thy ===== *)
theory Sd_Protocol
  imports Sd_Image
begin

text \<open>
  The commands of a transfer: the sequence that identifies a card after power on, the read and write commands, every byte
  of the data, and the end of a transfer.  The locale \<open>byte_card\<close> is the contract that a controller relies on.
\<close>

definition card_ok :: "BlockDriverState \<Rightarrow> SDState \<Rightarrow> bool" where
  "card_ok b sd \<longleftrightarrow> bdrv sd = Some b \<and> disk_wf b \<and> inserted b \<and> enable sd \<and> \<not> spi sd \<and> blk_len sd = 512
     \<and> length (sd_data sd) = 512 \<and> length (sd_buf sd) = 512 \<and> length (csd sd) = 16
     \<and> unat (sd_size sd) = length (disk b) + 1 \<and> length (wp_groups sd) = unat (sd_size sd) div 2 ^ 21 + 1
     \<and> card_status sd AND (CARD_IS_LOCKED OR APP_CMD) = 0"

definition card_ready :: "BlockDriverState \<Rightarrow> SDState \<Rightarrow> bool" where
  "card_ready b sd \<longleftrightarrow> card_ok b sd \<and> sd_state sd = sd_transfer_state"

text \<open>The commands a host sends to a card after power on, without the responses.\<close>

definition sd_cmd :: "u8 \<times> u32 \<Rightarrow> SDState \<Rightarrow> SDState res" where
  "sd_cmd r sd = rbind (sd_do_command (fst r) (snd r) sd) (\<lambda>(_, sd). Inr sd)"

definition identification :: "(u8 \<times> u32) list" where
  "identification = [(0, 0), (55, 0), (41, 0x00ff8000), (2, 0), (3, 0), (7, 0x45670000)]"

lemma size_of_image:
  assumes "disk_wf b"
  shows "unat (push_bit 9 (bdrv_get_geometry b) + 1) = length (disk b) + 1"
proof -
  have n: "length (sectors b) < 2 ^ 40" using assms by (simp add: disk_wf_def)
  then have "unat (bdrv_get_geometry b) = length (sectors b)"
    by (simp add: bdrv_get_geometry_def unat_of_nat)
  with n show ?thesis by (simp add: push_bit_eq_mult unat_word_ariths length_disk [OF assms])
qed

lemma sd_set_csd_length: "\<exists>c v. sd_set_csd siz sd = sd\<lparr>csd := c, ocr := v\<rparr> \<and> length c = 16"
  by (cases sd, rule exI [of _ "csd (sd_set_csd siz sd)"], rule exI [of _ "ocr (sd_set_csd siz sd)"])
    (simp add: sd_set_csd_def Let_def)

lemma sd_reset_eq:
  "\<exists>c v d. length c = 16 \<and> length d = 16 \<and> sd_reset bs sd = (let siz = push_bit 9 (case bs of None \<Rightarrow> 0 | Some b \<Rightarrow> bdrv_get_geometry b) + 1 in
     sd\<lparr>sd_state := sd_idle_state, ocr := v, scr := [0, 0x2f, 0, 0, 0, 0, 0, 0], cid := d, csd := c, rca := 0,
       card_status := 0x100, sd_status := replicate 64 0, wp_switch := (case bs of None \<Rightarrow> False | Some b \<Rightarrow> read_only b),
       wp_groups := replicate (unat (drop_bit 21 siz + 1)) False, sd_size := siz, blk_len := 0x200,
       erase_start := 0, erase_end := 0, pwd_len := 0, function_group := replicate 6 0, bdrv := bs\<rparr>)"
proof -
  define siz where "siz = push_bit 9 (case bs of None \<Rightarrow> 0 | Some b \<Rightarrow> bdrv_get_geometry b) + 1"
  obtain c v where c: "sd_set_csd siz (sd_set_cid (sd_set_scr (sd_set_ocr (sd\<lparr>sd_state := sd_idle_state, rca := 0\<rparr>))))
      = (sd_set_cid (sd_set_scr (sd_set_ocr (sd\<lparr>sd_state := sd_idle_state, rca := 0\<rparr>))))\<lparr>csd := c, ocr := v\<rparr>" "length c = 16"
    using sd_set_csd_length by metis
  show ?thesis
    using c unfolding sd_reset_def Let_def siz_def [symmetric]
    by (intro exI [of _ c] exI [of _ v] exI [of _ "sd_cid_bytes @ [push_bit 1 (sd_crc7 sd_cid_bytes) OR 1]"])
      (simp add: sd_set_sdstatus_def sd_set_cardstatus_def sd_set_cid_def sd_set_scr_def sd_set_ocr_def, simp add: sd_cid_bytes_def)
qed

definition card_at :: "BlockDriverState \<Rightarrow> sd_state_t \<Rightarrow> u32 \<Rightarrow> u16 \<Rightarrow> SDState \<Rightarrow> bool" where
  "card_at b st cs r sd \<longleftrightarrow> bdrv sd = Some b \<and> inserted b \<and> enable sd \<and> \<not> spi sd \<and> blk_len sd = 512
     \<and> length (sd_data sd) = 512 \<and> length (sd_buf sd) = 512 \<and> length (csd sd) = 16
     \<and> sd_size sd = push_bit 9 (bdrv_get_geometry b) + 1 \<and> wp_groups sd = replicate (unat (drop_bit 21 (sd_size sd) + 1)) False
     \<and> sd_state sd = st \<and> card_status sd = cs \<and> rca sd = r"

lemmas command_defs = sd_do_command_def sd_present_def sd_set_status_def sd_locked_out_def sd_normal_command_def
  sd_app_command_def sd_basic_command_def sd_block_command_def sd_respond_def sd_response_r1_make_def sd_state_num_def
  sd_illegal_def in_transfer_def sd_fail_def

lemma identify_55: "card_at b sd_idle_state 0x100 0 sd \<Longrightarrow> \<exists>sd'. sd_cmd (55, 0) sd = Inr sd' \<and> card_at b sd_idle_state 0x120 0 sd'"
  by (simp add: sd_cmd_def command_defs card_at_def Let_def sd_cmd_type_def arr_get_def)
lemma identify_41: "card_at b sd_idle_state 0x120 0 sd \<Longrightarrow> \<exists>sd'. sd_cmd (41, 0x00ff8000) sd = Inr sd' \<and> card_at b sd_ready_state 0x100 0 sd'"
  by (simp add: sd_cmd_def command_defs card_at_def Let_def sd_cmd_type_def arr_get_def)
lemma identify_2: "card_at b sd_ready_state 0x100 0 sd \<Longrightarrow> \<exists>sd'. sd_cmd (2, 0) sd = Inr sd' \<and> card_at b sd_identification_state 0x300 0 sd'"
  by (simp add: sd_cmd_def command_defs card_at_def Let_def sd_cmd_type_def arr_get_def)
lemma identify_3: "card_at b sd_identification_state 0x300 0 sd \<Longrightarrow> \<exists>sd'. sd_cmd (3, 0) sd = Inr sd' \<and> card_at b sd_standby_state 0x500 0x4567 sd'"
  by (simp add: sd_cmd_def command_defs card_at_def Let_def sd_cmd_type_def arr_get_def sd_set_rca_def)
lemma identify_7: "card_at b sd_standby_state 0x500 0x4567 sd \<Longrightarrow> \<exists>sd'. sd_cmd (7, 0x45670000) sd = Inr sd' \<and> card_at b sd_transfer_state 0x700 0x4567 sd'"
  by (simp add: sd_cmd_def command_defs card_at_def Let_def sd_cmd_type_def arr_get_def)

lemma sd_reset_at:
  assumes "inserted b" and "enable sd" "\<not> spi sd" "length (sd_data sd) = 512" "length (sd_buf sd) = 512"
  shows "card_at b sd_idle_state 0x100 0 (sd_reset (Some b) sd)"
proof -
  obtain c v d where "length c = 16" and r: "sd_reset (Some b) sd = (let siz = push_bit 9 (bdrv_get_geometry b) + 1 in
     sd\<lparr>sd_state := sd_idle_state, ocr := v, scr := [0, 0x2f, 0, 0, 0, 0, 0, 0], cid := d, csd := c, rca := 0,
       card_status := 0x100, sd_status := replicate 64 0, wp_switch := read_only b,
       wp_groups := replicate (unat (drop_bit 21 siz + 1)) False, sd_size := siz, blk_len := 0x200,
       erase_start := 0, erase_end := 0, pwd_len := 0, function_group := replicate 6 0, bdrv := Some b\<rparr>)"
    using sd_reset_eq [of "Some b" sd] unfolding option.case by blast
  then show ?thesis using assms by (simp add: card_at_def Let_def)
qed

lemma identify_0:
  assumes "card_at b sd_idle_state 0x100 0 sd"
  shows "\<exists>sd'. sd_cmd (0, 0) sd = Inr sd' \<and> card_at b sd_idle_state 0x100 0 sd'"
proof -
  let ?sd = "(sd_set_status (sd\<lparr>card_status := card_status sd AND NOT CARD_STATUS_B\<rparr>))\<lparr>sd_state := sd_idle_state\<rparr>"
  have "card_at b sd_idle_state 0x100 0 (sd_reset (Some b) ?sd)"
    using assms by (intro sd_reset_at) (simp_all add: card_at_def sd_set_status_def)
  moreover have "sd_cmd (0, 0) sd = Inr ((sd_reset (Some b) ?sd)\<lparr>current_cmd := 0\<rparr>)"
    using assms by (simp add: sd_cmd_def command_defs card_at_def Let_def sd_cmd_type_def arr_get_def)
  ultimately show ?thesis by (simp add: card_at_def)
qed

lemma card_at_ready:
  assumes "disk_wf b" and "card_at b sd_transfer_state 0x700 0x4567 sd"
  shows "card_ready b sd"
proof -
  note s = size_of_image [OF assms(1)]
  have "length (disk b) + 1 < 2 ^ 60" using length_disk [OF assms(1)] assms(1) by (simp add: disk_wf_def)
  then have "unat (drop_bit 21 (push_bit 9 (bdrv_get_geometry b) + 1) + 1) = (length (disk b) + 1) div 2 ^ 21 + 1"
    using s by (simp add: unat_drop_bit_div unat_word_ariths(1))
  then show ?thesis using assms s by (simp add: card_ready_def card_ok_def card_at_def)
qed

lemma rfold_chain: "f x s = Inr s' \<Longrightarrow> rfold f (x # xs) s = rfold f xs s'"
  by simp

lemma identified:
  assumes "disk_wf b" "inserted b" "length buf0 = 512"
  shows "\<exists>sd. rfold sd_cmd identification (sd_init (Some b) False buf0) = Inr sd \<and> card_at b sd_transfer_state 0x700 0x4567 sd
    \<and> card_ready b sd"
proof -
  have "card_at b sd_idle_state 0x100 0 (sd_init (Some b) False buf0)"
    unfolding sd_init_def using assms by (intro sd_reset_at) simp_all
  from identify_0 [OF this] obtain s1 where 1: "sd_cmd (0, 0) (sd_init (Some b) False buf0) = Inr s1" "card_at b sd_idle_state 0x100 0 s1" by blast
  from identify_55 [OF 1(2)] obtain s2 where 2: "sd_cmd (55, 0) s1 = Inr s2" "card_at b sd_idle_state 0x120 0 s2" by blast
  from identify_41 [OF 2(2)] obtain s3 where 3: "sd_cmd (41, 0x00ff8000) s2 = Inr s3" "card_at b sd_ready_state 0x100 0 s3" by blast
  from identify_2 [OF 3(2)] obtain s4 where 4: "sd_cmd (2, 0) s3 = Inr s4" "card_at b sd_identification_state 0x300 0 s4" by blast
  from identify_3 [OF 4(2)] obtain s5 where 5: "sd_cmd (3, 0) s4 = Inr s5" "card_at b sd_standby_state 0x500 0x4567 s5" by blast
  from identify_7 [OF 5(2)] obtain s6 where 6: "sd_cmd (7, 0x45670000) s5 = Inr s6" "card_at b sd_transfer_state 0x700 0x4567 s6" by blast
  from 6(2) show ?thesis
    using card_at_ready [OF assms(1) 6(2)] by (simp add: identification_def 1 2 3 4 5 6)
qed

definition no_error :: "SDState \<Rightarrow> bool" where
  "no_error sd \<longleftrightarrow> card_status sd AND (ADDRESS_ERROR OR WP_VIOLATION) = 0"

text \<open>The status as a command finds it, and what a response of type R1 leaves of it.\<close>

definition status_in :: "SDState \<Rightarrow> u32" where
  "status_in sd = ((card_status sd AND NOT CARD_STATUS_B) AND NOT CURRENT_STATE) OR push_bit 9 (sd_state_num (sd_state sd))"

definition selected :: "SDState \<Rightarrow> bool" where
  "selected sd \<longleftrightarrow> sd_state sd \<in> {sd_transfer_state, sd_sendingdata_state, sd_receivingdata_state}"

definition status_r1 :: "u32 \<Rightarrow> u32" where
  "status_r1 cs = cs AND (NOT CARD_STATUS_C OR APP_CMD)"

lemma and_masked: "m AND k = 0 \<Longrightarrow> (x AND m) AND k = (0 :: 'a::len word)"
  by (simp only: and.assoc and_zero_eq)

lemma status_flags:
  assumes "cs AND (CARD_IS_LOCKED OR APP_CMD) = 0"
  shows "cs AND CARD_IS_LOCKED = 0" "cs AND APP_CMD = 0"
  using assms by (simp_all only: bit.conj_disj_distrib or_eq_0_iff)

lemma r1_clears:
  "status_r1 cs AND (ADDRESS_ERROR OR WP_VIOLATION) = 0"
  unfolding status_r1_def by (rule and_masked) simp

lemma and_sub: "x AND k = 0 \<Longrightarrow> (x AND m) AND k = (0 :: 'a::len word)"
  by (metis and.commute and.assoc and_zero_eq)

lemma status_kept:
  assumes "card_status sd AND (CARD_IS_LOCKED OR APP_CMD) = 0" and "selected sd"
    and "e \<in> {0, ADDRESS_ERROR, WP_VIOLATION, ADDRESS_ERROR OR WP_VIOLATION}"
  shows "status_r1 (status_in sd OR e) AND (CARD_IS_LOCKED OR APP_CMD) = 0"
    and "status_r1 (status_in sd OR e) AND ILLEGAL_COMMAND = 0"
proof -
  let ?n = "push_bit 9 (sd_state_num (sd_state sd))"
  have n: "?n AND (CARD_IS_LOCKED OR APP_CMD) = 0" "?n AND ILLEGAL_COMMAND = 0"
    using assms(2) by (auto simp: selected_def sd_state_num_def)
  have "((card_status sd AND NOT CARD_STATUS_B) AND NOT CURRENT_STATE) AND (CARD_IS_LOCKED OR APP_CMD) = 0"
    by (intro and_sub assms(1))
  then have "(status_in sd OR e) AND (CARD_IS_LOCKED OR APP_CMD) = 0"
    using assms(3) n(1) unfolding status_in_def bit.conj_disj_distrib2 by auto
  then show "status_r1 (status_in sd OR e) AND (CARD_IS_LOCKED OR APP_CMD) = 0"
    unfolding status_r1_def by (rule and_sub)
  have "((card_status sd AND NOT CARD_STATUS_B) AND NOT CURRENT_STATE) AND ILLEGAL_COMMAND = 0"
    by (intro and_sub and_masked) simp
  then have "(status_in sd OR e) AND ILLEGAL_COMMAND = 0"
    using assms(3) n(2) unfolding status_in_def bit.conj_disj_distrib2 by auto
  then show "status_r1 (status_in sd OR e) AND ILLEGAL_COMMAND = 0"
    unfolding status_r1_def by (rule and_sub)
qed

definition command_in :: "SDState \<Rightarrow> SDState" where
  "command_in sd = sd\<lparr>sd_mode := sd_data_transfer_mode, card_status := status_in sd\<rparr>"

lemma do_command_r1:
  assumes c: "card_ok b sd" "selected sd" and t: "rt = sd_r1 \<or> rt = sd_r1b"
    and n: "sd_normal_command cmd arg (command_in sd) = Inr (rt, sd2)" "card_status sd2 = status_in sd OR e"
    and e: "e \<in> {0, ADDRESS_ERROR, WP_VIOLATION, ADDRESS_ERROR OR WP_VIOLATION}"
  shows "sd_do_command cmd arg sd = Inr
    (word_bytes ((card_status sd2 AND NOT (CARD_STATUS_B XOR ILLEGAL_COMMAND)) OR (card_status sd AND (CARD_STATUS_B XOR ILLEGAL_COMMAND))),
     sd2\<lparr>current_cmd := cmd, card_status := status_r1 (card_status sd2)\<rparr>)"
proof -
  from c have f: "card_status sd AND CARD_IS_LOCKED = 0" "card_status sd AND APP_CMD = 0" and p: "sd_present sd"
    using status_flags [of "card_status sd"] by (simp_all add: card_ok_def sd_present_def)
  have s: "sd_set_status (sd\<lparr>card_status := card_status sd AND NOT CARD_STATUS_B\<rparr>) = command_in sd"
    using c(2) by (auto simp: sd_set_status_def command_in_def status_in_def sd_mode_of_def selected_def)
  have k: "status_r1 (card_status sd2) AND ILLEGAL_COMMAND = 0"
    unfolding n(2) using status_kept(2) [OF _ c(2) e] c(1) by (simp add: card_ok_def)
  have r: "sd_respond (card_status sd) rt (sd2\<lparr>current_cmd := cmd\<rparr>) = (word_bytes ((card_status sd2 AND NOT (CARD_STATUS_B XOR ILLEGAL_COMMAND))
      OR (card_status sd AND (CARD_STATUS_B XOR ILLEGAL_COMMAND))), sd2\<lparr>current_cmd := cmd, card_status := status_r1 (card_status sd2)\<rparr>)"
    using t by (auto simp: sd_respond_def sd_response_r1_make_def Let_def status_r1_def)
  show ?thesis
    using p f k n(1) unfolding sd_do_command_def Let_def s r sd_locked_out_def by (simp add: r)
qed

lemma in_range:
  assumes "card_ok b sd" and "unat adr + 512 \<le> length (disk b)"
  shows "\<not> adr + ucast (blk_len sd) > sd_size sd" "unat (drop_bit 21 (ucast adr :: u32)) < length (wp_groups sd)"
proof -
  have "length (disk b) < 2 ^ 60" using assms(1) length_disk [of b] by (simp add: card_ok_def disk_wf_def)
  then have "unat (adr + 512) = unat adr + 512" using assms(2) by (simp add: unat_word_ariths)
  then show "\<not> adr + ucast (blk_len sd) > sd_size sd"
    using assms by (simp add: card_ok_def word_less_nat_alt)
  have "unat (ucast adr :: u32) \<le> unat adr" by (simp add: unat_ucast_mod)
  then have "unat (ucast adr :: u32) \<le> unat (sd_size sd)" using assms by (simp add: card_ok_def)
  then show "unat (drop_bit 21 (ucast adr :: u32)) < length (wp_groups sd)"
    using assms(1) by (simp add: card_ok_def unat_drop_bit_div div_le_mono le_imp_less_Suc)
qed

lemma length_word_bytes [simp]: "length (word_bytes w) = 4"
  by (simp add: word_bytes_def)

lemma card_ok_command_in [simp]: "card_ok b (command_in sd) \<longleftrightarrow> card_ok b (sd\<lparr>card_status := status_in sd\<rparr>)"
  by (simp add: card_ok_def command_in_def)

text \<open>A card that sends the blocks of a read command, or receives those of a write command.\<close>

definition sd_sending :: "u8 \<Rightarrow> BlockDriverState \<Rightarrow> SDState \<Rightarrow> bool" where
  "sd_sending cmd b sd \<longleftrightarrow> card_ok b sd \<and> no_error sd \<and> sd_state sd = sd_sendingdata_state \<and> current_cmd sd = cmd
     \<and> unat (data_start sd) + 512 \<le> length (disk b) \<and> unat (data_offset sd) < 512
     \<and> (data_offset sd \<noteq> 0 \<longrightarrow> sd_data sd = take 512 (drop (unat (data_start sd)) (disk b)))"

definition sd_receiving :: "u8 \<Rightarrow> BlockDriverState \<Rightarrow> SDState \<Rightarrow> bool" where
  "sd_receiving cmd b sd \<longleftrightarrow> card_ok b sd \<and> no_error sd \<and> sd_state sd = sd_receivingdata_state \<and> current_cmd sd = cmd
     \<and> \<not> read_only b \<and> unat (data_start sd) + 512 \<le> length (disk b) \<and> unat (data_offset sd) < 512"

lemma length_sd_cmd_type [simp]: "length sd_cmd_type = 64"
  by (simp add: sd_cmd_type_def)

lemma sd_normal_block:
  assumes "16 \<le> unat cmd" and "unat cmd < 64"
  obtains r where "sd_normal_command cmd arg sd = sd_block_command (unat cmd) arg r (sd_address arg sd) sd"
  using assms unfolding sd_normal_command_def Let_def by (simp add: arr_get_def)

lemma cmd_read:
  assumes ready: "card_ready b sd" and cmd: "cmd = 17 \<or> cmd = 18"
    and r: "unat (sd_address arg sd) + 512 \<le> length (disk b)"
  shows "\<exists>resp sd'. sd_do_command cmd arg sd = Inr (resp, sd') \<and> length resp = 4 \<and> sd_sending cmd b sd'
     \<and> data_start sd' = sd_address arg sd \<and> data_offset sd' = 0"
proof -
  have c: "card_ok b sd" "sd_state sd = sd_transfer_state" using ready by (simp_all add: card_ready_def)
  have t: "selected sd" using c(2) by (simp add: selected_def)
  note k = status_kept [OF _ t, of 0]
  let ?sd2 = "data_begin sd_sendingdata_state (sd_address arg sd) (command_in sd)"
  obtain r where n: "sd_normal_command cmd arg (command_in sd)
      = sd_block_command (unat cmd) arg r (sd_address arg (command_in sd)) (command_in sd)"
    using cmd by (elim disjE) (rule sd_normal_block [of cmd arg "command_in sd"], simp_all)+
  have a: "sd_address arg (command_in sd) = sd_address arg sd" by (simp add: sd_address_def command_in_def)
  have "sd_normal_command cmd arg (command_in sd) = Inr (sd_r1, ?sd2)"
    unfolding n a using cmd c(2) in_range(1) [OF c(1) r]
    by (elim disjE) (simp_all add: sd_block_command_def in_transfer_def check_range_def data_begin_def command_in_def)
  from do_command_r1 [OF c(1) t _ this, of 0]
  obtain x where "sd_do_command cmd arg sd
      = Inr (word_bytes x, ?sd2\<lparr>current_cmd := cmd, card_status := status_r1 (status_in sd)\<rparr>)"
    by (simp add: data_begin_def command_in_def)
  moreover have "sd_sending cmd b (?sd2\<lparr>current_cmd := cmd, card_status := status_r1 (status_in sd)\<rparr>)"
    using c(1) r k by (simp add: sd_sending_def no_error_def card_ok_def data_begin_def command_in_def r1_clears [simplified])
  ultimately show ?thesis by (simp add: data_begin_def)
qed

text \<open>
  A write command.  The response of a protected block carries the violation, but making the response clears it: the card
  receives the data of the block all the same.
\<close>

definition write_status :: "SDState \<Rightarrow> u64 \<Rightarrow> u32" where
  "write_status sd adr = (if wp_groups sd ! unat (drop_bit WPGROUP_BITS (ucast adr :: u32)) \<or> csd sd ! 14 AND 0x30 \<noteq> 0
     then WP_VIOLATION else 0)"

lemma cmd_write:
  assumes ready: "card_ready b sd" and cmd: "cmd = 24 \<or> cmd = 25" and w: "\<not> read_only b"
    and r: "unat (sd_address arg sd) + 512 \<le> length (disk b)"
  shows "\<exists>sd'. sd_do_command cmd arg sd = Inr (word_bytes (((status_in sd OR write_status sd (sd_address arg sd))
       AND NOT (CARD_STATUS_B XOR ILLEGAL_COMMAND)) OR (card_status sd AND (CARD_STATUS_B XOR ILLEGAL_COMMAND))), sd')
     \<and> sd_receiving cmd b sd' \<and> data_start sd' = sd_address arg sd \<and> data_offset sd' = 0 \<and> wp_groups sd' = wp_groups sd
     \<and> ocr sd' = ocr sd"
proof -
  have c: "card_ok b sd" "sd_state sd = sd_transfer_state" using ready by (simp_all add: card_ready_def)
  let ?a = "sd_address arg sd" and ?e = "write_status sd (sd_address arg sd)"
  have e: "?e \<in> {0, ADDRESS_ERROR, WP_VIOLATION, ADDRESS_ERROR OR WP_VIOLATION}" by (simp add: write_status_def)
  have t: "selected sd" using c(2) by (simp add: selected_def)
  note k = status_kept [OF _ t e]
  define sd2 where "sd2 = (data_begin sd_receivingdata_state ?a (command_in sd))\<lparr>blk_written := 0,
    card_status := status_in sd OR ?e\<rparr>"
  obtain r' where n: "sd_normal_command cmd arg (command_in sd)
      = sd_block_command (unat cmd) arg r' (sd_address arg (command_in sd)) (command_in sd)"
    using cmd by (elim disjE) (rule sd_normal_block [of cmd arg "command_in sd"], simp_all)+
  have a: "sd_address arg (command_in sd) = ?a" by (simp add: sd_address_def command_in_def)
  have s: "spi (command_in sd) = spi sd" "sd_state (command_in sd) = sd_state sd" by (simp_all add: command_in_def)
  have "sd_write_block ?a (command_in sd) = Inr (sd_r1, sd2)"
    using in_range [OF c(1) r]
    by (simp add: sd_write_block_def Let_def check_range_def data_begin_def sd_wp_addr_def arr_get_def sd_fail_def command_in_def
        write_status_def sd2_def or.assoc)
  then have "sd_normal_command cmd arg (command_in sd) = Inr (sd_r1, sd2)"
    unfolding n a using cmd c by (elim disjE) (simp_all add: sd_block_command_def in_transfer_def s card_ok_def)
  from do_command_r1 [OF c(1) t _ this _ e]
  have "sd_do_command cmd arg sd = Inr (word_bytes (((status_in sd OR ?e)
       AND NOT (CARD_STATUS_B XOR ILLEGAL_COMMAND)) OR (card_status sd AND (CARD_STATUS_B XOR ILLEGAL_COMMAND))),
     sd2\<lparr>current_cmd := cmd, card_status := status_r1 (status_in sd OR ?e)\<rparr>)"
    by (simp add: sd2_def)
  moreover have "sd_receiving cmd b (sd2\<lparr>current_cmd := cmd, card_status := status_r1 (status_in sd OR ?e)\<rparr>)"
    using c(1) r k w by (simp add: sd_receiving_def no_error_def card_ok_def data_begin_def command_in_def sd2_def r1_clears [simplified])
  ultimately show ?thesis by (simp add: sd2_def data_begin_def command_in_def)
qed

text \<open>CMD12 brings a card that sends or receives back to the transfer state.\<close>

lemma cmd_stop:
  assumes c: "card_ok b sd" and st: "sd_state sd = sd_sendingdata_state \<or> sd_state sd = sd_receivingdata_state"
  shows "\<exists>resp sd'. sd_do_command 12 arg sd = Inr (resp, sd') \<and> length resp = 4 \<and> card_ready b sd' \<and> ocr sd' = ocr sd
    \<and> wp_groups sd' = wp_groups sd"
proof -
  have t: "selected sd" using st by (auto simp: selected_def)
  let ?sd2 = "(command_in sd)\<lparr>sd_state := sd_transfer_state\<rparr>"
  have "sd_normal_command 12 arg (command_in sd) = Inr (sd_r1b, ?sd2)"
    using st by (auto simp: sd_normal_command_def Let_def arr_get_def sd_basic_command_def command_in_def)
  from do_command_r1 [OF c t _ this, of 0]
  obtain x where "sd_do_command 12 arg sd = Inr (word_bytes x, ?sd2\<lparr>current_cmd := 12, card_status := status_r1 (status_in sd)\<rparr>)"
    by (simp add: command_in_def)
  moreover have "card_ready b (?sd2\<lparr>current_cmd := 12, card_status := status_r1 (status_in sd)\<rparr>)"
    using c status_kept(1) [OF _ t, of 0] by (simp add: card_ready_def card_ok_def command_in_def)
  ultimately show ?thesis by (simp add: command_in_def)
qed

lemma card_okD:
  assumes "card_ok b sd"
  shows "bdrv sd = Some b" "disk_wf b" "inserted b" "length (sd_data sd) = 512" "length (sd_buf sd) = 512" "blk_len sd = 512"
    "sd_present sd" "io_len sd = 512" "unat (sd_size sd) = length (disk b) + 1" "length (disk b) < 2 ^ 60"
  using assms length_disk [of b] by (simp_all add: card_ok_def sd_present_def io_len_def disk_wf_def)

lemma sd_fetch_ok:
  assumes "sd_sending cmd b sd"
  shows "\<exists>buf. length buf = 512 \<and> sd_fetch sd = Inr (sd\<lparr>sd_buf := buf, sd_data := take 512 (drop (unat (data_start sd)) (disk b))\<rparr>)"
proof (cases "data_offset sd = 0")
  case True
  have c: "card_ok b sd" and r: "unat (data_start sd) + unat (512 :: u32) \<le> length (disk b)"
    using assms by (simp_all add: sd_sending_def)
  note d = card_okD [OF c]
  have "length (take 512 (drop (unat (data_start sd)) (disk b))) = 512" using r by simp
  then show ?thesis
    using sd_blk_read_flat [OF d(1-4) _ _ r] True d(4,8) by (simp add: sd_fetch_def splice_all)
next
  case False
  then show ?thesis using assms card_okD(5) [of b sd]
    by (intro exI [of _ "sd_buf sd"]) (cases sd, auto simp: sd_fetch_def sd_sending_def)
qed

text \<open>One byte of a read command, with the state in which the card is left.\<close>

lemma read_byte:
  assumes s: "sd_sending cmd b sd" and cmd: "cmd = 17 \<or> cmd = 18"
  shows "\<exists>buf. length buf = 512 \<and> sd_read_data sd = Inr (disk b ! (unat (data_start sd) + unat (data_offset sd)),
     (if cmd = 17 then sd_until 512 else sd_more)
       (sd\<lparr>sd_buf := buf, sd_data := take 512 (drop (unat (data_start sd)) (disk b)), data_offset := data_offset sd + 1\<rparr>))"
proof -
  obtain buf where b: "length buf = 512"
    and f: "sd_fetch sd = Inr (sd\<lparr>sd_buf := buf, sd_data := take 512 (drop (unat (data_start sd)) (disk b))\<rparr>)"
    using sd_fetch_ok [OF s] by blast
  have c: "card_ok b sd" using s by (simp add: sd_sending_def)
  note d = card_okD [OF c]
  have io: "io_len (sd\<lparr>sd_buf := u, sd_data := v\<rparr>) = 512" "io_len (sd\<lparr>sd_buf := u, sd_data := v, data_offset := w\<rparr>) = 512" for u v w
    using d(6) by (simp_all add: io_len_def)
  have g: "arr_get (take 512 (drop (unat (data_start sd)) (disk b))) (unat (data_offset sd))
      = Inr (disk b ! (unat (data_start sd) + unat (data_offset sd)))"
    using s by (subst arr_get_Inr) (auto simp: sd_sending_def)
  show ?thesis
    using b s d cmd
    by (elim disjE; intro exI [of _ buf])
      (simp_all add: sd_read_data_def sd_read_byte_def Let_def f sd_take_def sd_sending_def no_error_def io g)
qed

definition sd_pos :: "SDState \<Rightarrow> nat" where
  "sd_pos sd = unat (data_start sd) + unat (data_offset sd)"

lemma offset_next:
  assumes "unat (off :: u32) < 512"
  shows "unat (off + 1) = Suc (unat off)" and "(off + 1 \<ge> 512) = (unat off = 511)"
  using assms by (simp_all add: unat_word_ariths word_le_nat_alt) linarith

lemma next_aligned:
  assumes "512 dvd unat adr" and "unat adr + 512 < length (disk b)" and "disk_wf b"
  shows "unat adr + 1024 \<le> length (disk b)"
proof -
  from assms(1) obtain k where k: "unat adr = 512 * k" by (elim dvdE)
  then have "512 * (k + 1) < 512 * length (sectors b)" using assms(2) length_disk [OF assms(3)] by simp
  then have "k + 2 \<le> length (sectors b)" by simp
  then show ?thesis using k length_disk [OF assms(3)] by simp
qed

lemma read_18:
  assumes s: "sd_sending 18 b sd" and p: "Suc (sd_pos sd) < length (disk b)" and al: "512 dvd unat (data_start sd)"
  shows "\<exists>sd'. sd_read_data sd = Inr (disk b ! sd_pos sd, sd') \<and> sd_sending 18 b sd' \<and> sd_pos sd' = Suc (sd_pos sd)
    \<and> 512 dvd unat (data_start sd')"
proof -
  obtain buf where b: "length buf = 512" and f: "sd_read_data sd = Inr (disk b ! sd_pos sd, sd_more
       (sd\<lparr>sd_buf := buf, sd_data := take 512 (drop (unat (data_start sd)) (disk b)), data_offset := data_offset sd + 1\<rparr>))"
    (is "_ = Inr (_, sd_more ?sd)") using read_byte [OF s] by (auto simp: sd_pos_def)
  have c: "card_ok b sd" and off: "unat (data_offset sd) < 512" using s by (simp_all add: sd_sending_def)
  note d = card_okD [OF c] and o = offset_next [OF off]
  have m: "min (length (disk b) - unat (data_start sd)) 512 = 512" using s by (auto simp: sd_sending_def)
  have io: "io_len ?sd = 512" "io_len (?sd\<lparr>data_start := v, data_offset := w\<rparr>) = 512" for v w
    using d(6) by (simp_all add: io_len_def)
  show ?thesis
  proof (cases "unat (data_offset sd) = 511")
    case True
    then have st: "unat (data_start sd) + 1024 \<le> length (disk b)"
      using next_aligned [OF al _ d(2)] p by (simp add: sd_pos_def)
    then have n: "unat (data_start sd + 512) = unat (data_start sd) + 512"
      "\<not> data_start sd + 512 + 512 > sd_size sd"
      using d(9,10) by (simp_all add: unat_word_ariths word_less_nat_alt)
    have e: "sd_more ?sd = ?sd\<lparr>data_start := data_start sd + 512, data_offset := 0\<rparr>"
      using True o n(2) unfolding sd_more_def io Let_def by simp
    show ?thesis
      using f s b n st True al m unfolding e by (simp add: sd_sending_def sd_pos_def card_ok_def no_error_def)
  next
    case False
    then show ?thesis
      using s f b o d(6) io al m by (simp add: sd_more_def Let_def sd_sending_def sd_pos_def card_ok_def no_error_def)
  qed
qed

text \<open>The image with the bytes of the block that is being received.\<close>

definition sd_view :: "BlockDriverState \<Rightarrow> SDState \<Rightarrow> u8 list" where
  "sd_view b sd = splice (unat (data_start sd)) (take (unat (data_offset sd)) (sd_data sd)) (disk b)"

lemma splice_nil [simp]: "splice pos [] xs = xs"
  by (simp add: splice_def)

lemma view_byte:
  assumes "length data = 512" and "start + 512 \<le> length D" and "off < 512"
  shows "splice start (take (Suc off) (data[off := v])) D = (splice start (take off data) D)[start + off := v]"
proof -
  have "take (Suc off) (data[off := v]) = take off data @ [v]"
    using assms by (simp add: take_Suc_conv_app_nth)
  then show ?thesis using splice_snoc [of start "take off data" D v] assms by (simp add: min_def)
qed

lemma sd_write_data_receiving:
  assumes s: "sd_receiving cmd b sd" and cmd: "cmd = 24 \<or> cmd = 25"
  shows "sd_write_data v sd = sd_write_full (sd\<lparr>sd_data := (sd_data sd)[unat (data_offset sd) := v], data_offset := data_offset sd + 1\<rparr>)"
proof -
  have "card_ok b sd" using s by (simp add: sd_receiving_def)
  note d = card_okD [OF this]
  then show ?thesis using s cmd by (auto simp: sd_write_data_def sd_put_def sd_receiving_def no_error_def)
qed

lemma write_step:
  assumes s: "sd_receiving cmd b sd" and cmd: "cmd = 24 \<or> cmd = 25" and off: "unat (data_offset sd) < 511"
  shows "\<exists>sd'. sd_write_data v sd = Inr sd' \<and> sd_receiving cmd b sd' \<and> sd_pos sd' = Suc (sd_pos sd)
    \<and> data_start sd' = data_start sd \<and> sd_view b sd' = (sd_view b sd)[sd_pos sd := v] \<and> wp_groups sd' = wp_groups sd
    \<and> ocr sd' = ocr sd"
proof -
  have c: "card_ok b sd" using s by (simp add: sd_receiving_def)
  note d = card_okD [OF c]
  have o: "unat (data_offset sd + 1) = Suc (unat (data_offset sd))" "\<not> data_offset sd + 1 \<ge> 512"
    using offset_next [of "data_offset sd"] off by simp_all
  let ?sd = "sd\<lparr>sd_data := (sd_data sd)[unat (data_offset sd) := v], data_offset := data_offset sd + 1\<rparr>"
  have "sd_write_data v sd = Inr ?sd"
    using s cmd o d(6) unfolding sd_write_data_receiving [OF s cmd] sd_write_full_def Let_def
    by (auto simp: sd_receiving_def)
  moreover have "sd_receiving cmd b ?sd" using s o off by (simp add: sd_receiving_def card_ok_def no_error_def)
  moreover have "sd_view b ?sd = (sd_view b sd)[sd_pos sd := v]"
    using view_byte [OF d(4), of "unat (data_start sd)" "disk b" "unat (data_offset sd)" v] s o
    by (simp add: sd_view_def sd_pos_def sd_receiving_def)
  ultimately show ?thesis using o by (simp add: sd_pos_def)
qed

text \<open>The last byte of a block, up to the write to the image.\<close>

lemma write_block:
  fixes v :: u8
  assumes s: "sd_receiving cmd b sd" and cmd: "cmd = 24 \<or> cmd = 25" and off: "unat (data_offset sd) = 511"
  defines "sd1 \<equiv> sd\<lparr>sd_data := (sd_data sd)[511 := v], data_offset := 512, sd_state := sd_programming_state\<rparr>"
  shows "\<exists>buf b'. sd_blk_write (data_start sd) 512 sd1 = Inr (sd1\<lparr>sd_buf := buf, bdrv := Some b'\<rparr>) \<and> length buf = 512
     \<and> disk b' = (sd_view b sd)[sd_pos sd := v] \<and> disk_wf b' \<and> inserted b' \<and> \<not> read_only b' \<and> length (disk b') = length (disk b)"
proof -
  have c: "card_ok b sd" and w: "\<not> read_only b" and r: "unat (data_start sd) + unat (512 :: u32) \<le> length (disk b)"
    using s by (simp_all add: sd_receiving_def)
  note d = card_okD [OF c]
  have "take 512 ((sd_data sd)[511 := v]) = (sd_data sd)[511 := v]" using d(4) by simp
  moreover obtain buf b' where "sd_blk_write (data_start sd) 512 sd1 = Inr (sd1\<lparr>sd_buf := buf, bdrv := Some b'\<rparr>)" "length buf = 512"
     "disk b' = splice (unat (data_start sd)) (take 512 (sd_data sd1)) (disk b)" "disk_wf b'" "(inserted b', read_only b') = (True, False)"
    using sd_blk_write_flat [OF _ d(2,3) w, of sd1 512 "data_start sd"] d r by (auto simp: sd1_def)
  ultimately show ?thesis
    using view_byte [OF d(4), of "unat (data_start sd)" "disk b" 511 v] r off d(4)
    by (intro exI [of _ buf] exI [of _ b']) (simp add: sd_view_def sd_pos_def sd1_def)
qed

text \<open>The card when a block is in the image and before it goes on.\<close>

definition block_stored :: "u8 \<Rightarrow> u8 list \<Rightarrow> BlockDriverState \<Rightarrow> SDState \<Rightarrow> SDState" where
  "block_stored v buf b' sd = sd\<lparr>sd_data := (sd_data sd)[511 := v], data_offset := 512, sd_state := sd_programming_state,
     sd_buf := buf, bdrv := Some b'\<rparr>"

lemma write_full_last:
  assumes s: "sd_receiving cmd b sd" and cmd: "cmd = 24 \<or> cmd = 25" and off: "unat (data_offset sd) = 511"
  shows "\<exists>buf b'. disk b' = (sd_view b sd)[sd_pos sd := v] \<and> \<not> read_only b' \<and> length (disk b') = length (disk b)
    \<and> card_ok b' (block_stored v buf b' sd)
    \<and> sd_write_data v sd = (if cmd = 24 then
         Inr ((csd_written ((block_stored v buf b' sd)\<lparr>blk_written := blk_written sd + 1\<rparr>))\<lparr>sd_state := sd_transfer_state\<rparr>)
       else sd_next_block (block_stored v buf b' sd))"
proof -
  have c: "card_ok b sd" using s by (simp add: sd_receiving_def)
  note d = card_okD [OF c]
  have o: "data_offset sd + 1 = 512" using off by (intro unat_word_eqI) (simp add: unat_word_ariths)
  let ?sd1 = "sd\<lparr>sd_data := (sd_data sd)[511 := v], data_offset := 512, sd_state := sd_programming_state\<rparr>"
  obtain buf b' where w: "sd_blk_write (data_start sd) 512 ?sd1 = Inr (?sd1\<lparr>sd_buf := buf, bdrv := Some b'\<rparr>)"
    and r: "length buf = 512" "disk b' = (sd_view b sd)[sd_pos sd := v]" "disk_wf b'" "inserted b'" "\<not> read_only b'"
      "length (disk b') = length (disk b)"
    using write_block [OF s cmd off] by blast
  have "sd_write_data v sd = (if cmd = 24 then
        Inr ((csd_written ((block_stored v buf b' sd)\<lparr>blk_written := blk_written sd + 1\<rparr>))\<lparr>sd_state := sd_transfer_state\<rparr>)
       else sd_next_block (block_stored v buf b' sd))"
    using s cmd o d(6) w unfolding sd_write_data_receiving [OF s cmd] off o sd_write_full_def Let_def block_stored_def
    by (auto simp: sd_receiving_def)
  moreover have "card_ok b' (block_stored v buf b' sd)" using c r by (simp add: card_ok_def block_stored_def)
  ultimately show ?thesis using r by blast
qed

lemma write_24:
  assumes s: "sd_receiving 24 b sd" and off: "unat (data_offset sd) = 511"
  shows "\<exists>b' sd'. sd_write_data v sd = Inr sd' \<and> card_ready b' sd' \<and> disk b' = (sd_view b sd)[sd_pos sd := v]"
proof -
  obtain b' buf where "disk b' = (sd_view b sd)[sd_pos sd := v]" "card_ok b' (block_stored v buf b' sd)"
    "sd_write_data v sd = Inr ((csd_written ((block_stored v buf b' sd)\<lparr>blk_written := blk_written sd + 1\<rparr>))\<lparr>sd_state := sd_transfer_state\<rparr>)"
    using write_full_last [OF s _ off, of v] by auto
  then show ?thesis by (simp add: card_ready_def card_ok_def csd_written_def)
qed

lemma write_25:
  assumes s: "sd_receiving 25 b sd" and off: "unat (data_offset sd) = 511" and al: "512 dvd unat (data_start sd)"
    and p: "Suc (sd_pos sd) < length (disk b)" and u: "True \<notin> set (wp_groups sd)"
  shows "\<exists>b' sd'. sd_write_data v sd = Inr sd' \<and> sd_receiving 25 b' sd' \<and> sd_pos sd' = Suc (sd_pos sd)
    \<and> sd_view b' sd' = (sd_view b sd)[sd_pos sd := v] \<and> wp_groups sd' = wp_groups sd \<and> length (disk b') = length (disk b)
    \<and> 512 dvd unat (data_start sd') \<and> ocr sd' = ocr sd"
proof -
  have c: "card_ok b sd" using s by (simp add: sd_receiving_def)
  note d = card_okD [OF c]
  have st: "unat (data_start sd) + 1024 \<le> length (disk b)"
    using next_aligned [OF al _ d(2)] p off by (simp add: sd_pos_def)
  then have n: "unat (data_start sd + 512) = unat (data_start sd) + 512" "\<not> data_start sd + 512 + 512 > sd_size sd"
    using d(9,10) by (simp_all add: unat_word_ariths word_less_nat_alt)
  obtain buf b' where b': "disk b' = (sd_view b sd)[sd_pos sd := v]" "\<not> read_only b'" "length (disk b') = length (disk b)"
      "card_ok b' (block_stored v buf b' sd)"
    and w: "sd_write_data v sd = sd_next_block (block_stored v buf b' sd)"
    using write_full_last [OF s _ off, of v] by auto
  note e = block_stored_def
  have i: "unat (drop_bit 21 (ucast (data_start sd + 512) :: u32)) < length (wp_groups sd)"
    using in_range(2) [OF c, of "data_start sd + 512"] n st by simp
  have g: "\<not> wp_groups sd ! unat (drop_bit 21 (ucast (data_start sd + 512) :: u32))"
    using nth_mem [OF i] u by metis
  define sd2 where "sd2 = (csd_written ((block_stored v buf b' sd)\<lparr>blk_written := blk_written sd + 1, data_start := data_start sd + 512, data_offset := 0\<rparr>))
      \<lparr>sd_state := sd_receivingdata_state\<rparr>"
  have "sd_next_block (block_stored v buf b' sd) = Inr sd2"
    using n(2) i g d(6) by (simp add: sd_next_block_def Let_def e sd_wp_addr_def sd2_def)
  moreover have "sd_receiving 25 b' sd2"
    using s b' st n by (simp add: sd_receiving_def card_ok_def no_error_def sd2_def csd_written_def e)
  ultimately show ?thesis
    using w b' n off al by (intro exI [of _ b'] exI [of _ sd2]) (simp add: sd2_def sd_pos_def sd_view_def csd_written_def e)
qed

section \<open>The card as a stream of bytes\<close>

text \<open>
  What a controller relies on when it moves data: while a multiple block command is being served, every byte read is the
  byte at the position of the card, every byte written replaces it, and the position advances.
\<close>

locale byte_card =
  fixes rd :: "'s \<Rightarrow> (u8 \<times> 's) res" and wr :: "u8 \<Rightarrow> 's \<Rightarrow> 's res"
    and sends :: "'s \<Rightarrow> bool" and receives :: "'s \<Rightarrow> bool" and position :: "'s \<Rightarrow> nat" and view :: "'s \<Rightarrow> u8 list"
  assumes rd_byte: "sends s \<Longrightarrow> Suc (position s) < length (view s) \<Longrightarrow>
      \<exists>s'. rd s = Inr (view s ! position s, s') \<and> sends s' \<and> position s' = Suc (position s) \<and> view s' = view s"
    and wr_byte: "receives s \<Longrightarrow> Suc (position s) < length (view s) \<Longrightarrow>
      \<exists>s'. wr v s = Inr s' \<and> receives s' \<and> position s' = Suc (position s) \<and> view s' = (view s)[position s := v]"

definition sd_medium :: "SDState \<Rightarrow> BlockDriverState" where
  "sd_medium sd = the (bdrv sd)"

definition sd_sends :: "SDState \<Rightarrow> bool" where
  "sd_sends sd \<longleftrightarrow> sd_sending 18 (sd_medium sd) sd \<and> 512 dvd unat (data_start sd)"

definition sd_receives :: "u32 \<Rightarrow> SDState \<Rightarrow> bool" where
  "sd_receives v sd \<longleftrightarrow> sd_receiving 25 (sd_medium sd) sd \<and> 512 dvd unat (data_start sd) \<and> True \<notin> set (wp_groups sd)
     \<and> ocr sd = v"

definition card_view :: "SDState \<Rightarrow> u8 list" where
  "card_view sd = (if sd_state sd = sd_receivingdata_state then sd_view (sd_medium sd) sd else disk (sd_medium sd))"

lemma sd_medium_eq: "card_ok b sd \<Longrightarrow> sd_medium sd = b"
  by (simp add: sd_medium_def card_ok_def)

lemma sending_medium: "sd_sending cmd b sd \<Longrightarrow> sd_medium sd = b \<and> card_view sd = disk b"
  by (auto simp: sd_sending_def card_view_def sd_medium_eq)

lemma receiving_medium: "sd_receiving cmd b sd \<Longrightarrow> sd_medium sd = b \<and> card_view sd = sd_view b sd"
  by (auto simp: sd_receiving_def card_view_def sd_medium_eq)

lemma length_sd_view: "sd_receiving cmd b sd \<Longrightarrow> length (sd_view b sd) = length (disk b)"
  using card_okD(4) [of b sd] by (simp add: sd_view_def sd_receiving_def)

interpretation sdc: byte_card sd_read_data sd_write_data sd_sends "sd_receives v" sd_pos card_view
proof
  fix s assume s: "sd_sends s" and p: "Suc (sd_pos s) < length (card_view s)"
  have r: "sd_sending 18 (sd_medium s) s" "512 dvd unat (data_start s)" using s by (simp_all add: sd_sends_def)
  then have v: "card_view s = disk (sd_medium s)" using sending_medium by blast
  obtain s' where "sd_read_data s = Inr (disk (sd_medium s) ! sd_pos s, s')" and n: "sd_sending 18 (sd_medium s) s'"
    "sd_pos s' = Suc (sd_pos s)" "512 dvd unat (data_start s')"
    using read_18 [OF r(1) _ r(2)] p unfolding v by blast
  then show "\<exists>s'. sd_read_data s = Inr (card_view s ! sd_pos s, s') \<and> sd_sends s' \<and> sd_pos s' = Suc (sd_pos s) \<and> card_view s' = card_view s"
    using sending_medium [OF n(1)] v by (auto simp: sd_sends_def)
next
  fix s a assume s: "sd_receives v s" and p: "Suc (sd_pos s) < length (card_view s)"
  have r: "sd_receiving 25 (sd_medium s) s" "512 dvd unat (data_start s)" "True \<notin> set (wp_groups s)" "ocr s = v"
    using s by (simp_all add: sd_receives_def)
  have cv: "card_view s = sd_view (sd_medium s) s" using receiving_medium [OF r(1)] by simp
  have p': "Suc (sd_pos s) < length (disk (sd_medium s))" using p length_sd_view [OF r(1)] cv by simp
  show "\<exists>s'. sd_write_data a s = Inr s' \<and> sd_receives v s' \<and> sd_pos s' = Suc (sd_pos s) \<and> card_view s' = (card_view s)[sd_pos s := a]"
  proof (cases "unat (data_offset s) = 511")
    case True
    obtain b' s' where "sd_write_data a s = Inr s'" and n: "sd_receiving 25 b' s'"
      "sd_pos s' = Suc (sd_pos s)" "sd_view b' s' = (sd_view (sd_medium s) s)[sd_pos s := a]" "wp_groups s' = wp_groups s"
      "512 dvd unat (data_start s')" "ocr s' = ocr s"
      using write_25 [OF r(1) True r(2) p' r(3)] by blast
    then show ?thesis using receiving_medium [OF n(1)] cv r(3,4) by (auto simp: sd_receives_def)
  next
    case False
    then have "unat (data_offset s) < 511" using r(1) by (simp add: sd_receiving_def)
    from write_step [OF r(1) _ this] obtain s' where "sd_write_data a s = Inr s'" and n: "sd_receiving 25 (sd_medium s) s'"
      "sd_pos s' = Suc (sd_pos s)" "data_start s' = data_start s"
      "sd_view (sd_medium s) s' = (sd_view (sd_medium s) s)[sd_pos s := a]" "wp_groups s' = wp_groups s" "ocr s' = ocr s" by blast
    then show ?thesis using receiving_medium [OF n(1)] cv r by (auto simp: sd_receives_def)
  qed
qed

section \<open>The card comes up, and its image\<close>

text \<open>An image of \<open>n\<close> sectors of zeros.\<close>

definition blank_image :: "nat \<Rightarrow> BlockDriverState" where
  "blank_image n = \<lparr>sectors = replicate n (replicate 512 0), read_only = False, inserted = True\<rparr>"

lemma blank_image_simps [simp]: "inserted (blank_image n)" "\<not> read_only (blank_image n)" "length (sectors (blank_image n)) = n"
  "n < 2 ^ 40 \<Longrightarrow> disk_wf (blank_image n)"
  by (simp_all add: blank_image_def disk_wf_def list_all_length)



text \<open>
  Property C4.  The image is a sequence of bytes: an access of at most one sector's length at any address, within a sector
  or across the end of one, reads exactly the bytes of the image at the address into the buffer of the card, and writes
  exactly the bytes of the buffer there, and every other byte of the image keeps its value.
\<close>

theorem sd_image_flat:
  assumes "bdrv sd = Some b" "disk_wf b" "inserted b" "\<not> read_only b" "length (sd_data sd) = 512" "length (sd_buf sd) = 512"
    and "0 < unat len" "unat len \<le> 512" and "unat adr + unat len \<le> length (disk b)"
  shows "(\<exists>buf. sd_blk_read adr len sd
       = Inr (sd\<lparr>sd_buf := buf, sd_data := splice 0 (take (unat len) (drop (unat adr) (disk b))) (sd_data sd)\<rparr>))
    \<and> (\<exists>buf b'. sd_blk_write adr len sd = Inr (sd\<lparr>sd_buf := buf, bdrv := Some b'\<rparr>)
       \<and> disk b' = splice (unat adr) (take (unat len) (sd_data sd)) (disk b) \<and> disk_wf b')"
  using sd_blk_read_flat [OF assms(1-3,5,7-9)] sd_blk_write_flat [OF assms] by blast

theorem sd_image_flat_witness:
  "\<exists>sd. card_ready (blank_image 4) sd \<and> (\<exists>buf b'. sd_blk_write 500 100 sd = Inr (sd\<lparr>sd_buf := buf, bdrv := Some b'\<rparr>)
     \<and> disk b' = splice 500 (take 100 (sd_data sd)) (disk (blank_image 4)))"
proof -
  obtain sd where c: "card_ready (blank_image 4) sd"
    using identified [of "blank_image 4" "replicate 512 0"] by auto
  then have "card_ok (blank_image 4) sd" by (simp add: card_ready_def)
  note d = card_okD [OF this]
  show ?thesis
    using sd_image_flat [OF d(1-3) _ d(4,5), of 100 500] c by (force simp: length_disk)
qed

end
