(* ===== verification/Sd_Safety.thy ===== *)
theory Sd_Safety
  imports Sd_Protocol
begin

text \<open>
  The arrays of the card: an invariant of every reachable card, kept by all its operations, and the exact conditions under
  which one of them leaves an array.
\<close>

section \<open>The arrays of the card\<close>

definition medium_wf :: "BlockDriverState option \<Rightarrow> u64 \<Rightarrow> bool" where
  "medium_wf bs siz \<longleftrightarrow> (case bs of None \<Rightarrow> True | Some b \<Rightarrow> inserted b \<longrightarrow> disk_wf b \<and> unat siz = length (disk b) + 1)"

definition sd_wf :: "SDState \<Rightarrow> bool" where
  "sd_wf sd \<longleftrightarrow> length (sd_data sd) = 512 \<and> length (sd_buf sd) = 512 \<and> length (scr sd) = 8 \<and> length (cid sd) = 16 \<and> length (csd sd) = 16
     \<and> length (sd_status sd) = 64 \<and> length (function_group sd) = 6 \<and> length (pwd sd) = 16 \<and> 0 \<le> pwd_len sd \<and> pwd_len sd \<le> 16
     \<and> blk_len sd \<le> 512 \<and> length (wp_groups sd) = unat (sd_size sd) div 2 ^ 21 + 1 \<and> medium_wf (bdrv sd) (sd_size sd)
     \<and> (sd_state sd \<in> {sd_sendingdata_state, sd_receivingdata_state} \<longrightarrow> data_offset sd < 512)"

definition reply_wf :: "sd_reply \<Rightarrow> bool" where
  "reply_wf m \<longleftrightarrow> (\<exists>rt sd. m = Inr (rt, sd) \<and> sd_wf sd)"

lemma reply_wf_Inr [simp]: "reply_wf (Inr (rt, sd)) \<longleftrightarrow> sd_wf sd"
  by (simp add: reply_wf_def)

lemma reply_wf_if [simp]: "reply_wf (if c then m else m') \<longleftrightarrow> (if c then reply_wf m else reply_wf m')"
  by simp

text \<open>What leaves the invariant alone.\<close>

lemma sd_wf_frame [simp]:
  "sd_wf (sd\<lparr>card_status := w\<rparr>) \<longleftrightarrow> sd_wf sd" "sd_wf (sd\<lparr>sd_mode := mo\<rparr>) \<longleftrightarrow> sd_wf sd" "sd_wf (sd\<lparr>rca := r\<rparr>) \<longleftrightarrow> sd_wf sd"
  "sd_wf (sd\<lparr>vhs := w\<rparr>) \<longleftrightarrow> sd_wf sd" "sd_wf (sd\<lparr>erase_start := w\<rparr>) \<longleftrightarrow> sd_wf sd" "sd_wf (sd\<lparr>erase_end := w\<rparr>) \<longleftrightarrow> sd_wf sd"
  "sd_wf (sd\<lparr>current_cmd := c\<rparr>) \<longleftrightarrow> sd_wf sd" "sd_wf (sd\<lparr>blk_written := w\<rparr>) \<longleftrightarrow> sd_wf sd" "sd_wf (sd\<lparr>data_start := a\<rparr>) \<longleftrightarrow> sd_wf sd"
  "sd_wf (sd\<lparr>sd_cb := l\<rparr>) \<longleftrightarrow> sd_wf sd" "sd_wf (sd\<lparr>enable := e\<rparr>) \<longleftrightarrow> sd_wf sd"
  by (simp_all add: sd_wf_def)

lemma sd_wf_transfer [simp]:
  "sd_wf sd \<Longrightarrow> st \<notin> {sd_sendingdata_state, sd_receivingdata_state} \<Longrightarrow> sd_wf (sd\<lparr>sd_state := st\<rparr>)"
  by (simp add: sd_wf_def)

lemma sd_wf_begin [simp]: "sd_wf sd \<Longrightarrow> sd_wf (sd\<lparr>sd_state := st, data_start := a, data_offset := 0\<rparr>)"
  "sd_wf sd \<Longrightarrow> sd_wf (sd\<lparr>data_offset := 0\<rparr>)" "sd_wf sd \<Longrightarrow> sd_wf (sd\<lparr>data_offset := 0, sd_state := st\<rparr>)"
  by (simp_all add: sd_wf_def)

lemma sd_wf_fail [simp]: "sd_wf (sd_fail e sd) \<longleftrightarrow> sd_wf sd"
  by (simp add: sd_fail_def)

lemma sd_wf_data_begin [simp]: "sd_wf sd \<Longrightarrow> sd_wf (data_begin st a sd)"
  by (simp add: data_begin_def)

lemma sd_wf_check_range [simp]: "sd_wf (check_range sd) \<longleftrightarrow> sd_wf sd"
  by (simp add: check_range_def)

lemma sd_wf_illegal [simp]: "reply_wf (sd_illegal sd) \<longleftrightarrow> sd_wf sd"
  by (simp add: sd_illegal_def)

lemma sd_wf_set_status [simp]: "sd_wf (sd_set_status sd) \<longleftrightarrow> sd_wf sd"
  unfolding sd_set_status_def by (simp add: sd_wf_def)

lemma reply_wf_in_transfer: "sd_wf sd \<Longrightarrow> (sd_state sd = sd_transfer_state \<Longrightarrow> reply_wf m) \<Longrightarrow> reply_wf (in_transfer sd m)"
  by (simp add: in_transfer_def)

lemma data_set_wf:
  "sd_wf sd \<Longrightarrow> pos + length bytes \<le> 512 \<Longrightarrow> \<exists>sd'. data_set pos bytes sd = Inr sd' \<and> sd_wf sd' \<and> function_group sd' = function_group sd
    \<and> sd_data sd' = splice pos bytes (sd_data sd)"
  by (simp add: data_set_ok sd_wf_def)

lemma sd_reset_wf_data:
  assumes "length (sd_data sd) = 512" "length (sd_buf sd) = 512" "length (pwd sd) = 16" and "case bs of None \<Rightarrow> True | Some b \<Rightarrow> inserted b \<longrightarrow> disk_wf b"
  shows "sd_wf (sd_reset bs sd)"
proof -
  define siz where "siz = push_bit 9 (case bs of None \<Rightarrow> 0 | Some b \<Rightarrow> bdrv_get_geometry b) + 1"
  obtain c v d where cd: "length c = 16" "length d = 16" and r: "sd_reset bs sd =
     sd\<lparr>sd_state := sd_idle_state, ocr := v, scr := [0, 0x2f, 0, 0, 0, 0, 0, 0], cid := d, csd := c, rca := 0,
       card_status := 0x100, sd_status := replicate 64 0, wp_switch := (case bs of None \<Rightarrow> False | Some b \<Rightarrow> read_only b),
       wp_groups := replicate (unat (drop_bit 21 siz + 1)) False, sd_size := siz, blk_len := 0x200,
       erase_start := 0, erase_end := 0, pwd_len := 0, function_group := replicate 6 0, bdrv := bs\<rparr>"
    using sd_reset_eq [of bs sd] unfolding Let_def siz_def by blast
  have s: "medium_wf bs siz"
    using assms(4) size_of_image by (auto simp: siz_def medium_wf_def split: option.splits)
  have "unat siz div 2 ^ 21 < 2 ^ 43" using unat_u64_less [of siz] by (simp add: less_mult_imp_div_less)
  then have "unat (drop_bit 21 siz + 1) = unat siz div 2 ^ 21 + 1"
    by (simp add: unat_word_ariths(1) unat_drop_bit_div)
  then show ?thesis using assms(1-3) cd s unfolding r by (simp add: sd_wf_def)
qed

lemma sd_reset_wf:
  assumes "sd_wf sd" and "case bs of None \<Rightarrow> True | Some b \<Rightarrow> inserted b \<longrightarrow> disk_wf b"
  shows "sd_wf (sd_reset bs sd)"
  by (rule sd_reset_wf_data) (use assms in \<open>simp_all add: sd_wf_def\<close>)

lemma sd_switch_step_wf:
  assumes "sd_wf sd" and "i < 6"
  shows "\<exists>sd'. sd_switch_step arg i sd = Inr sd' \<and> sd_wf sd'"
proof -
  let ?f = "drop_bit (i * 4) arg AND 0x0f"
  define sd1 where "sd1 = (if bit arg 31 \<and> ?f \<noteq> 0x0f then sd\<lparr>function_group := (function_group sd)[i := ?f]\<rparr> else sd)"
  have "sd_wf sd1" using assms by (simp add: sd_wf_def sd1_def)
  moreover have "14 + i div 2 + length [x :: u8] \<le> 512" for x using assms(2) by simp
  ultimately obtain sd' where "data_set (14 + i div 2) [ucast (push_bit (if odd i then 4 else 0) ?f)] sd1 = Inr sd'" "sd_wf sd'"
    using data_set_wf [of sd1 "14 + i div 2"] by blast
  moreover have "length (function_group sd) = 6" using assms(1) by (simp add: sd_wf_def)
  ultimately show ?thesis using assms(2) by (auto simp: sd_switch_step_def Let_def sd1_def)
qed

lemma sd_crc16_total:
  assumes "4 * width \<le> length m"
  shows "\<exists>c. sd_crc16 m width = Inr c"
proof -
  have "\<exists>c. sd_crc16 m width = Inr c \<and> True"
    unfolding sd_crc16_def by (rule rfold_total) (use assms in \<open>auto simp: halfword_def\<close>)
  then show ?thesis by simp
qed

lemma sd_function_switch_wf:
  assumes "sd_wf sd"
  shows "\<exists>sd'. sd_function_switch arg sd = Inr sd' \<and> sd_wf sd'"
proof -
  obtain s1 where 1: "data_set 0 [0x00, 0x01, 0x80, 0x01, 0x80, 0x01, 0x80, 0x01, 0x80, 0x01, 0x80, 0x43, 0x80, 0x03] sd = Inr s1" "sd_wf s1"
    using data_set_wf [OF assms, of 0 "[0x00, 0x01, 0x80, 0x01, 0x80, 0x01, 0x80, 0x01, 0x80, 0x01, 0x80, 0x43, 0x80, 0x03]"] by auto
  obtain s2 where 2: "rfold (sd_switch_step arg) [0, 1, 2, 3, 4, 5] s1 = Inr s2" "sd_wf s2"
    using rfold_total [of sd_wf s1 "[0, 1, 2, 3, 4, 5]" "sd_switch_step arg"] 1(2) sd_switch_step_wf by (force simp del: rfold.simps)
  obtain s3 where 3: "data_set 17 (replicate 47 0) s2 = Inr s3" "sd_wf s3"
    using data_set_wf [OF 2(2), of 17 "replicate 47 0"] by auto
  obtain c where 4: "sd_crc16 (sd_data s3) 64 = Inr c"
    using sd_crc16_total [of 64 "sd_data s3"] 3(2) by (auto simp: sd_wf_def)
  obtain s4 where "data_set 65 [ucast (drop_bit 8 c), ucast c] s3 = Inr s4" "sd_wf s4"
    using data_set_wf [OF 3(2), of 65 "[ucast (drop_bit 8 c), ucast c]"] by auto
  then show ?thesis unfolding sd_function_switch_def 1 2 3 4 rbind_Inr by simp
qed

lemma wp_index:
  assumes "sd_wf sd" and "adr < sd_size sd"
  shows "unat (drop_bit 21 adr) < length (wp_groups sd)"
  using assms by (simp add: sd_wf_def unat_drop_bit_div word_less_nat_alt div_le_mono le_imp_less_Suc)

lemma sd_wpbits_total:
  assumes wf: "sd_wf sd"
  shows "\<exists>b. sd_wpbits sd (ucast (arg :: u32)) = Inr b"
proof -
  let ?a = "ucast arg :: u64"
  have i: "unat ((ucast (drop_bit 21 ?a) :: u32) + of_nat i) < length (wp_groups sd)"
    if "?a + of_nat i * 0x200000 < sd_size sd" "i < 32" for i
  proof -
    have a: "unat ?a = unat arg" using unat_u32_less [of arg] by (simp add: unat_ucast_mod)
    have "unat arg + i * 0x200000 < 2 ^ 64" using that(2) unat_u32_less [of arg] by simp
    then have s: "unat (?a + of_nat i * 0x200000) = unat arg + i * 0x200000"
      using a that(2) by (simp add: unat_word_ariths unat_of_nat)
    have "unat (drop_bit 21 (?a + of_nat i * 0x200000)) = unat arg div 2 ^ 21 + i"
      unfolding unat_drop_bit_div s by simp
    moreover have "unat (ucast (drop_bit 21 ?a) :: u32) = unat arg div 2 ^ 21"
      using unat_u32_less [of arg] by (simp add: unat_ucast_mod unat_drop_bit_div a)
    moreover have "unat arg div 2 ^ 21 < 2 ^ 11" using unat_u32_less [of arg] by (simp add: less_mult_imp_div_less)
    ultimately show ?thesis
      using wp_index [OF wf that(1)] that(2) by (simp add: unat_word_ariths unat_of_nat)
  qed
  have "\<exists>b. sd_wpbits sd ?a = Inr b \<and> True"
    unfolding sd_wpbits_def Let_def by (rule rfold_total) (use i in auto)
  then show ?thesis by simp
qed

lemma sd_write_prot_wf:
  assumes "sd_wf sd"
  shows "reply_wf (sd_write_prot p adr sd)"
  using assms wp_index [OF assms, of adr] by (auto simp: sd_write_prot_def sd_wf_def not_le)

lemma sd_erase_wf:
  assumes wf: "sd_wf sd" and e: "unat (drop_bit 21 (erase_end sd)) < length (wp_groups sd)"
  shows "\<exists>sd'. sd_erase sd = Inr sd' \<and> sd_wf sd'"
proof (cases "erase_start sd = 0 \<or> erase_end sd = 0")
  case True
  then show ?thesis using wf by (simp add: sd_erase_def)
next
  case False
  let ?f = "\<lambda>i sd. rbind (arr_get (wp_groups sd) i) (\<lambda>p. Inr (if p then sd_fail WP_ERASE_SKIP sd else sd))"
  let ?s = "sd\<lparr>erase_start := 0, erase_end := 0, csd := (csd sd)[14 := csd sd ! 14 OR 0x40]\<rparr>"
  have "\<exists>sd'. rfold ?f [unat (drop_bit 21 (erase_start sd))..<unat (drop_bit 21 (erase_end sd)) + 1] ?s = Inr sd'
      \<and> sd_wf sd' \<and> wp_groups sd' = wp_groups sd"
    by (rule rfold_total [where P = "\<lambda>s. sd_wf s \<and> wp_groups s = wp_groups sd"])
      (use wf e in \<open>auto simp: sd_wf_def sd_fail_def\<close>)
  then show ?thesis using False unfolding sd_erase_def Let_def by auto
qed

lemma reply_wf_bind:
  assumes "\<exists>x. m = Inr x \<and> P x" and "\<And>x. P x \<Longrightarrow> reply_wf (f x)"
  shows "reply_wf (rbind m f)"
  using assms by auto

lemma reply_wf_data:
  assumes "sd_wf sd" and "pos + length bytes \<le> 512" and "\<And>sd. sd_wf sd \<Longrightarrow> sd_wf (g sd)"
  shows "reply_wf (rbind (data_set pos bytes sd) (\<lambda>sd. Inr (rt, g sd)))"
  using data_set_wf [OF assms(1,2)] assms(3) by auto

lemma sd_basic_command_wf:
  assumes wf: "sd_wf sd" and r: "cmd = 8 \<longrightarrow> ffs (arg AND NOT 0xff) < 32"
  shows "reply_wf (sd_basic_command cmd arg r adr sd)"
proof -
  have m: "case bdrv sd of None \<Rightarrow> True | Some b \<Rightarrow> inserted b \<longrightarrow> disk_wf b" using wf by (auto simp: sd_wf_def medium_wf_def split: option.splits)
  have 0: "sd_wf (sd_reset (bdrv sd) (sd\<lparr>sd_state := sd_idle_state\<rparr>))"
    using wf m by (intro sd_reset_wf) simp_all
  have 3: "sd_wf (sd_set_rca (sd\<lparr>sd_state := sd_standby_state\<rparr>))" using wf by (simp add: sd_set_rca_def)
  have 6: "reply_wf (rbind (sd_function_switch arg sd) (\<lambda>sd. Inr (sd_r1, data_begin sd_sendingdata_state 0 sd)))"
    by (rule reply_wf_bind [OF sd_function_switch_wf [OF wf]]) simp
  have l: "length (csd sd) = 16" "length (cid sd) = 16" using wf by (simp_all add: sd_wf_def)
  have 9: "reply_wf (rbind (data_set 0 (if cmd = 9 then csd sd else cid sd) sd) (\<lambda>sd. Inr (sd_r1, data_begin sd_sendingdata_state adr sd)))"
    using wf l by (intro reply_wf_data) simp_all
  show ?thesis
    unfolding sd_basic_command_def Let_def
    using wf r 0 3 6 9 by (auto intro!: reply_wf_in_transfer simp: not_le)
qed

lemma sd_write_block_wf:
  assumes "sd_wf sd" and "unat (drop_bit 21 (ucast adr :: u32)) < length (wp_groups sd)"
  shows "reply_wf (sd_write_block adr sd)"
  using assms by (simp add: sd_write_block_def Let_def sd_wp_addr_def check_range_def data_begin_def sd_fail_def)

definition request_ok :: "nat \<Rightarrow> u32 \<Rightarrow> SDState \<Rightarrow> bool" where
  "request_ok cmd arg sd \<longleftrightarrow> cmd < 64 \<and> (cmd = 8 \<longrightarrow> ffs (arg AND NOT 0xff) < 32)
     \<and> (cmd = 24 \<or> cmd = 25 \<longrightarrow> unat (drop_bit 21 (ucast (sd_address arg sd) :: u32)) < length (wp_groups sd))
     \<and> (cmd = 38 \<longrightarrow> unat (drop_bit 21 (erase_end sd)) < length (wp_groups sd))"

lemma sd_block_command_wf:
  assumes wf: "sd_wf sd" and r: "request_ok cmd arg sd"
  shows "reply_wf (sd_block_command cmd arg r (sd_address arg sd) sd)"
proof -
  have 16: "arg \<le> 512 \<Longrightarrow> sd_wf (sd\<lparr>blk_len := arg\<rparr>)" using wf by (simp add: sd_wf_def)
  have 24: "cmd = 24 \<or> cmd = 25 \<Longrightarrow> reply_wf (sd_write_block (sd_address arg sd) sd)"
    using sd_write_block_wf [OF wf] r by (auto simp: request_ok_def)
  obtain b where b: "sd_wpbits sd (ucast arg) = Inr b" using sd_wpbits_total [OF wf] by blast
  have 30: "reply_wf (rbind (data_set 0 (rev (word_bytes b)) sd) (\<lambda>sd'. Inr (sd_r1b, data_begin sd_sendingdata_state (sd_address arg sd) sd')))"
    using wf by (intro reply_wf_data) simp_all
  have 38: "cmd = 38 \<Longrightarrow> reply_wf (rbind (sd_erase sd) (\<lambda>sd. Inr (sd_r1b, sd)))"
    using r by (intro reply_wf_bind [OF sd_erase_wf [OF wf]]) (auto simp: request_ok_def)
  show ?thesis
    unfolding sd_block_command_def
    using wf 16 24 30 38 by (auto intro!: reply_wf_in_transfer simp: b not_less sd_write_prot_wf)
qed

lemma request_ok_frame [simp]:
  "request_ok cmd arg (sd\<lparr>card_status := w\<rparr>) = request_ok cmd arg sd" "request_ok cmd arg (sd_set_status sd) = request_ok cmd arg sd"
  by (simp_all add: request_ok_def sd_address_def sd_set_status_def)

lemma sd_normal_command_wf:
  assumes wf: "sd_wf sd" and r: "request_ok (unat cmd) arg sd"
  shows "reply_wf (sd_normal_command cmd arg sd)"
proof -
  have "unat cmd < length sd_cmd_type" "unat cmd = 8 \<longrightarrow> ffs (arg AND NOT 0xff) < 32" using r by (auto simp: request_ok_def)
  then show ?thesis
    using sd_basic_command_wf [OF wf] sd_block_command_wf [OF wf r] unfolding sd_normal_command_def Let_def by simp
qed

lemma sd_app_command_wf:
  assumes wf: "sd_wf sd" and r: "request_ok (unat cmd) arg sd"
  shows "reply_wf (sd_app_command cmd arg sd)"
proof -
  have l: "unat cmd < length sd_cmd_type" using r by (simp add: request_ok_def)
  have 6: "sd_wf (sd\<lparr>sd_status := (sd_status sd)[0 := x]\<rparr>)" for x using wf by (simp add: sd_wf_def)
  have 22: "reply_wf (rbind (data_set 0 (rev (word_bytes (blk_written sd))) sd) (\<lambda>sd. Inr (sd_r1, sd\<lparr>data_start := 0, data_offset := 0\<rparr>)))"
    using wf by (intro reply_wf_data) simp_all
  have n: "reply_wf (sd_normal_command cmd arg (sd\<lparr>card_status := card_status sd AND NOT APP_CMD\<rparr>))"
    using wf r by (intro sd_normal_command_wf) simp_all
  show ?thesis
    using wf l 6 22 n unfolding sd_app_command_def Let_def by auto
qed

lemma sd_respond_wf: "sd_wf sd \<Longrightarrow> sd_wf (snd (sd_respond ls rt sd))"
  by (cases rt) (simp_all add: sd_respond_def sd_response_r1_make_def Let_def)

lemma length_sd_cmd_class [simp]: "length sd_cmd_class = 64"
  by (simp add: sd_cmd_class_def)

lemma sd_locked_out_total: "unat cmd < 64 \<Longrightarrow> \<exists>out. sd_locked_out ls cmd = Inr out"
  by (auto simp: sd_locked_out_def)

lemma sd_do_command_wf:
  assumes wf: "sd_wf sd" and r: "request_ok (unat cmd) arg sd"
  shows "\<exists>resp sd'. sd_do_command cmd arg sd = Inr (resp, sd') \<and> sd_wf sd'"
proof -
  define s where "s = sd_set_status (sd\<lparr>card_status := card_status sd AND NOT CARD_STATUS_B\<rparr>)"
  have c: "unat cmd < 64" using r by (simp add: request_ok_def)
  obtain out where out: "sd_locked_out (card_status sd) cmd = Inr out" using sd_locked_out_total [OF c] by blast
  have wf1: "sd_wf s" "request_ok (unat cmd) arg s" using wf r by (simp_all add: s_def)
  have "\<exists>rt sd1. (if card_status sd AND APP_CMD \<noteq> 0
       then rbind (sd_app_command cmd arg s) (\<lambda>(rt, sd). Inr (rt, sd\<lparr>card_status := card_status sd AND NOT APP_CMD\<rparr>))
       else sd_normal_command cmd arg s) = Inr (rt, sd1) \<and> sd_wf sd1"
    using sd_app_command_wf [OF wf1] sd_normal_command_wf [OF wf1] by (auto simp: reply_wf_def)
  then obtain rt sd1 where e: "(if card_status sd AND APP_CMD \<noteq> 0
       then rbind (sd_app_command cmd arg s) (\<lambda>(rt, sd). Inr (rt, sd\<lparr>card_status := card_status sd AND NOT APP_CMD\<rparr>))
       else sd_normal_command cmd arg s) = Inr (rt, sd1)" and "sd_wf sd1" by blast
  then have "sd_wf (snd (sd_respond (card_status sd) rt (sd1\<lparr>current_cmd := cmd\<rparr>)))" by (intro sd_respond_wf) simp
  then show ?thesis
    using wf wf1(1) unfolding sd_do_command_def Let_def s_def [symmetric] out e rbind_Inr by (auto simp: case_prod_beta)
qed

text \<open>What the access to the image leaves as it was.\<close>

definition same_transfer :: "SDState \<Rightarrow> SDState \<Rightarrow> bool" where
  "same_transfer sd sd' \<longleftrightarrow> sd_state sd' = sd_state sd \<and> data_start sd' = data_start sd \<and> data_offset sd' = data_offset sd
     \<and> blk_len sd' = blk_len sd \<and> sd_size sd' = sd_size sd \<and> wp_groups sd' = wp_groups sd \<and> ocr sd' = ocr sd"

lemma same_transfer_refl [simp]: "same_transfer sd sd"
  by (simp add: same_transfer_def)

lemma same_transfer_trans: "same_transfer a b \<Longrightarrow> same_transfer b c \<Longrightarrow> same_transfer a c"
  by (simp add: same_transfer_def)

lemma bdrv_read_length:
  "(inserted b \<Longrightarrow> disk_wf b) \<Longrightarrow> length buf = 512 \<Longrightarrow> length (snd (bdrv_read b k buf)) = 512"
  by (simp add: bdrv_read_def disk_wf_def list_all_length)

lemma bdrv_write_disk:
  "(inserted b \<Longrightarrow> disk_wf b) \<Longrightarrow> length buf = 512 \<Longrightarrow> inserted (snd (bdrv_write b k buf)) = inserted b
     \<and> (inserted b \<longrightarrow> disk_wf (snd (bdrv_write b k buf)) \<and> length (disk (snd (bdrv_write b k buf))) = length (disk b))"
  using disk_update [of b k buf] length_disk [of b] by (simp add: bdrv_write_def)

lemma bdrv_get_wf:
  "sd_wf sd \<Longrightarrow> sd_wf (snd (bdrv_get adr sd)) \<and> sd_data (snd (bdrv_get adr sd)) = sd_data sd \<and> same_transfer sd (snd (bdrv_get adr sd))"
  using bdrv_read_length by (auto simp: bdrv_get_def sd_wf_def medium_wf_def same_transfer_def case_prod_beta split: option.splits)

lemma bdrv_put_wf:
  "sd_wf sd \<Longrightarrow> sd_wf (snd (bdrv_put adr sd)) \<and> sd_data (snd (bdrv_put adr sd)) = sd_data sd \<and> same_transfer sd (snd (bdrv_put adr sd))"
  using bdrv_write_disk by (auto simp: bdrv_put_def sd_wf_def medium_wf_def same_transfer_def case_prod_beta split: option.splits)

lemma buf_set_wf:
  "sd_wf sd \<Longrightarrow> pos + length bytes \<le> 512 \<Longrightarrow> \<exists>sd'. buf_set pos bytes sd = Inr sd' \<and> sd_wf sd' \<and> sd_data sd' = sd_data sd \<and> same_transfer sd sd'"
  by (simp add: buf_set_ok sd_wf_def same_transfer_def)

lemma data_set_same:
  "sd_wf sd \<Longrightarrow> pos + length bytes \<le> 512 \<Longrightarrow> \<exists>sd'. data_set pos bytes sd = Inr sd' \<and> sd_wf sd' \<and> same_transfer sd sd'"
  by (simp add: data_set_ok sd_wf_def same_transfer_def)

lemma sd_wf_buf: "sd_wf sd \<Longrightarrow> length buf = 512 \<Longrightarrow> sd_wf (sd\<lparr>sd_buf := buf\<rparr>) \<and> same_transfer sd (sd\<lparr>sd_buf := buf\<rparr>)"
  by (simp add: sd_wf_def same_transfer_def)

lemma transfer_offsets:
  assumes "unat (len :: u32) \<le> 512" and "unat adr < 2 ^ 62"
  shows "unat (adr AND 511 :: u64) < 512"
    and "(adr + ucast len > (adr AND NOT 511) + 512) = (unat (adr AND 511) + unat len > 512)"
    and "unat (adr AND 511) + unat len > 512 \<Longrightarrow> unat ((adr + ucast len) AND 511) = unat (adr AND 511) + unat len - 512"
proof -
  show "unat (adr AND 511) < 512" by (simp add: off_and)
  show "(adr + ucast len > (adr AND NOT 511) + 512) = (unat (adr AND 511) + unat len > 512)"
    using transfer_end(2) [of adr len] assms by (simp add: off_and)
  have "unat adr = 512 * (unat adr div 512) + unat (adr AND 511)" by (simp add: off_and)
  then show "unat ((adr + ucast len) AND 511) = unat (adr AND 511) + unat len - 512" if "unat (adr AND 511) + unat len > 512"
    using transfer_across(2) [of adr "unat adr div 512" "unat (adr AND 511)" len] that assms by (simp add: off_and)
qed

text \<open>Any access of at most one block's length, inside the image or outside of it.\<close>

lemma sd_blk_write_wf:
  assumes wf: "sd_wf sd" and len: "unat len \<le> 512" and adr: "unat adr < 2 ^ 62"
  shows "\<exists>sd'. sd_blk_write adr len sd = Inr sd' \<and> sd_wf sd' \<and> same_transfer sd sd'"
proof -
  note t = transfer_offsets [OF len adr]
  define off where "off = unat (adr AND 511)"
  obtain ret sd1 where g: "(if off \<noteq> 0 \<or> len < 512 then bdrv_get adr sd else (0, sd)) = (ret, sd1)" by (metis surj_pair)
  then have 1: "sd_wf sd1" "sd_data sd1 = sd_data sd" "same_transfer sd sd1" "length (sd_data sd) = 512"
    using bdrv_get_wf [OF wf, of adr] wf by (auto simp: sd_wf_def split: if_splits)
  show ?thesis
  proof (cases "off + unat len > 512")
    case False
    then have "off + length (take (unat len) (sd_data sd)) \<le> 512" by simp
    from buf_set_wf [OF 1(1) this]
    obtain sd2 where "buf_set off (take (unat len) (sd_data sd)) sd1 = Inr sd2" "sd_wf sd2" "same_transfer sd1 sd2" by auto
    then show ?thesis
      using False 1 len bdrv_put_wf [of sd2 adr] unfolding sd_blk_write_def Let_def t(2) off_def [symmetric] g
      by (auto simp: slice_ok intro: same_transfer_trans)
  next
    case True
    have j: "unat ((adr + ucast len) AND 511) = off + unat len - 512" using t(3) True by (simp add: off_def)
    have o: "off < 512" using t(1) by (simp add: off_def)
    have "off + length (take (512 - off) (sd_data sd)) \<le> 512" using o by simp
    from buf_set_wf [OF 1(1) this] obtain sd2 where 2: "buf_set off (take (512 - off) (sd_data sd)) sd1 = Inr sd2" "sd_wf sd2"
      "sd_data sd2 = sd_data sd" "same_transfer sd sd2" using 1 same_transfer_trans by auto
    obtain ret3 sd3 where p: "bdrv_put adr sd2 = (ret3, sd3)" by (metis surj_pair)
    then have 3: "sd_wf sd3" "sd_data sd3 = sd_data sd" "same_transfer sd sd3"
      using bdrv_put_wf [OF 2(2), of adr] 2 same_transfer_trans by auto
    obtain ret4 sd4 where g4: "bdrv_get (adr + ucast len) sd3 = (ret4, sd4)" by (metis surj_pair)
    then have 4: "sd_wf sd4" "sd_data sd4 = sd_data sd" "same_transfer sd sd4"
      using bdrv_get_wf [OF 3(1), of "adr + ucast len"] 3 same_transfer_trans by auto
    define y where "y = take (off + unat len - 512) (drop (512 - off) (sd_data sd))"
    have "0 + length y \<le> 512" using o len by (simp add: y_def)
    from buf_set_wf [OF 4(1) this] obtain sd5 where 5: "buf_set 0 y sd4 = Inr sd5" "sd_wf sd5" "same_transfer sd4 sd5" by auto
    have 6: "sd_wf (snd (bdrv_put (adr + ucast len) sd5))" "same_transfer sd (snd (bdrv_put (adr + ucast len) sd5))"
      using bdrv_put_wf [OF 5(2)] same_transfer_trans [OF 4(3) same_transfer_trans [OF 5(3)]] by auto
    have sl: "slice (sd_data sd) 0 (512 - off) = Inr (take (512 - off) (sd_data sd))" "slice (sd_data sd) (512 - off) (off + unat len - 512) = Inr y"
      using 1(4) o len True by (simp_all add: slice_ok y_def)
    show ?thesis
      using True 1(1-3) 2 3 4 5 6 unfolding sd_blk_write_def Let_def t(2) off_def [symmetric] g j
      by (simp add: sl p g4)
  qed
qed

lemma sd_blk_read_wf:
  assumes wf: "sd_wf sd" and len: "unat len \<le> 512" and adr: "unat adr < 2 ^ 62"
  shows "\<exists>sd'. sd_blk_read adr len sd = Inr sd' \<and> sd_wf sd' \<and> same_transfer sd sd'"
proof (cases "bdrv sd")
  case None
  then show ?thesis using wf by (simp add: sd_blk_read_def)
next
  case (Some b)
  note t = transfer_offsets [OF len adr]
  define off where "off = unat (adr AND 511)"
  have bl: "length (snd (bdrv_read b k buf)) = 512" if "length buf = 512" for k buf
    using bdrv_read_length that wf Some by (simp add: sd_wf_def medium_wf_def)
  obtain ret buf where r: "bdrv_read b (unat (drop_bit 9 adr)) (sd_buf sd) = (ret, buf)" by (metis surj_pair)
  then have "length buf = 512" using bl [of "sd_buf sd" "unat (drop_bit 9 adr)"] wf by (simp add: sd_wf_def)
  then have 1: "sd_wf (sd\<lparr>sd_buf := buf\<rparr>)" "same_transfer sd (sd\<lparr>sd_buf := buf\<rparr>)" "length buf = 512" using sd_wf_buf [OF wf] by simp_all
  show ?thesis
  proof (cases "off + unat len > 512")
    case False
    then have "0 + length (take (unat len) (drop off buf)) \<le> 512" using len by simp
    from data_set_same [OF 1(1) this] obtain sd2 where "data_set 0 (take (unat len) (drop off buf)) (sd\<lparr>sd_buf := buf\<rparr>) = Inr sd2"
      "sd_wf sd2" "same_transfer (sd\<lparr>sd_buf := buf\<rparr>) sd2" by auto
    then show ?thesis
      using False 1 same_transfer_trans [OF 1(2)] Some unfolding sd_blk_read_def Let_def t(2) off_def [symmetric]
      by (simp add: r slice_ok)
  next
    case True
    have o: "off < 512" using t(1) by (simp add: off_def)
    have j: "unat ((adr + ucast len) AND 511) = off + unat len - 512" using t(3) True by (simp add: off_def)
    have "0 + length (take (512 - off) (drop off buf)) \<le> 512" by simp
    from data_set_same [OF 1(1) this] obtain sd2 where 2: "data_set 0 (take (512 - off) (drop off buf)) (sd\<lparr>sd_buf := buf\<rparr>) = Inr sd2"
      "sd_wf sd2" "same_transfer (sd\<lparr>sd_buf := buf\<rparr>) sd2" by auto
    obtain ret' buf' where r': "bdrv_read b (unat (drop_bit 9 (adr + ucast len))) (sd_buf sd2) = (ret', buf')" by (metis surj_pair)
    then have l': "length buf' = 512" using bl [of "sd_buf sd2" "unat (drop_bit 9 (adr + ucast len))"] 2(2) by (simp add: sd_wf_def)
    then have 3: "sd_wf (sd2\<lparr>sd_buf := buf'\<rparr>)" "same_transfer sd (sd2\<lparr>sd_buf := buf'\<rparr>)"
      using sd_wf_buf [OF 2(2)] same_transfer_trans [OF 1(2) same_transfer_trans [OF 2(3)]] by simp_all
    have "512 - off + length (take (off + unat len - 512) buf') \<le> 512" using len o True by simp
    from data_set_same [OF 3(1) this] obtain sd3 where "data_set (512 - off) (take (off + unat len - 512) buf') (sd2\<lparr>sd_buf := buf'\<rparr>) = Inr sd3"
      "sd_wf sd3" "same_transfer sd sd3" using same_transfer_trans [OF 3(2)] by auto
    moreover have "slice buf off (512 - off) = Inr (take (512 - off) (drop off buf))" "slice buf' 0 (off + unat len - 512) = Inr (take (off + unat len - 512) buf')"
      using 1(3) l' o len by (simp_all add: slice_ok)
    ultimately show ?thesis
      using True 1 2 3 Some unfolding sd_blk_read_def Let_def t(2) off_def [symmetric] j
      by (simp add: r r' del: take_all_iff take_drop)
  qed
qed

lemma sd_force_erase_wf: "sd_wf sd \<Longrightarrow> sd_wf (sd_force_erase sd)"
  by (simp add: sd_wf_def sd_force_erase_def Let_def unat_drop_bit_div)

lemma sd_set_password_wf:
  assumes wf: "sd_wf sd" and l: "0 < len" "len \<le> 16"
  shows "sd_wf (sd_set_password len sd)"
proof -
  have "pwd_len sd \<le> 16" using wf by (simp add: sd_wf_def)
  then have "nat (2 + pwd_len sd) \<le> 18" by simp
  then have "length (take (nat len) (drop (nat (2 + pwd_len sd)) (sd_data sd)) @ drop (nat len) (pwd sd)) = 16"
    using wf l by (simp add: sd_wf_def)
  then show ?thesis using wf l unfolding sd_wf_def sd_set_password_def by (simp del: length_append)
qed

lemma sd_lock_apply_wf:
  assumes "sd_wf sd" and "0 < len" "len \<le> 16"
  shows "sd_wf (sd_lock_apply flags len sd)"
proof -
  have "sd_wf (s\<lparr>pwd_len := 0\<rparr>)" if "sd_wf s" for s using that by (simp add: sd_wf_def)
  then show ?thesis using assms sd_set_password_wf [OF assms] by (simp add: sd_lock_apply_def Let_def)
qed

lemma sd_lock_command_wf:
  assumes wf: "sd_wf sd"
  shows "sd_wf (sd_lock_command sd)"
proof -
  define l where "l = (if blk_len sd > 1 then uint (sd_data sd ! 1) else 0)"
  have "sd_wf (sd_fail LOCK_UNLOCK_FAILED sd)" "sd_wf (sd_force_erase sd)" using wf by (simp_all add: sd_force_erase_wf)
  then show ?thesis
    unfolding sd_lock_command_def Let_def l_def [symmetric] by (simp add: sd_lock_apply_wf [OF wf])
qed

lemma csd_written_wf [simp]: "sd_wf (csd_written sd) \<longleftrightarrow> sd_wf sd"
  by (simp add: csd_written_def sd_wf_def)

lemma sd_program_wf: "sd_wf sd \<Longrightarrow> sd_wf (sd_program_cid sd)" "sd_wf sd \<Longrightarrow> sd_wf (sd_program_csd sd)"
  by (simp_all add: sd_program_cid_def sd_program_csd_def Let_def sd_wf_def sd_fail_def)

lemma sd_next_block_wf:
  assumes wf: "sd_wf sd" and a: "unat (data_start sd) < 2 ^ 62"
  shows "\<exists>sd'. sd_next_block sd = Inr sd' \<and> sd_wf sd'"
proof -
  let ?a = "data_start sd + ucast (blk_len sd)"
  let ?sd = "sd\<lparr>blk_written := blk_written sd + 1, data_start := ?a, data_offset := 0\<rparr>"
  have l: "unat (blk_len sd) \<le> 512" using wf by (simp add: sd_wf_def word_le_nat_alt)
  have b: "unat (ucast (blk_len sd) :: u64) = unat (blk_len sd)" using unat_u32_less [of "blk_len sd"] by (simp add: unat_ucast_mod)
  have i: "unat (drop_bit 21 (ucast ?a :: u32)) < length (wp_groups sd)" if "\<not> ?a + ucast (blk_len sd) > sd_size sd"
  proof -
    have "unat ?a \<le> unat (sd_size sd)" using that a l b by (simp add: word_less_nat_alt unat_word_ariths)
    moreover have "unat (ucast ?a :: u32) \<le> unat ?a" by (simp add: unat_ucast_mod)
    ultimately show ?thesis using wf by (simp add: sd_wf_def unat_drop_bit_div div_le_mono le_imp_less_Suc)
  qed
  have "sd_wf ?sd" using wf by (simp add: sd_wf_def)
  moreover have "sd_wf ((csd_written ?sd)\<lparr>sd_state := sd_receivingdata_state\<rparr>)"
    using wf by (simp add: sd_wf_def csd_written_def)
  ultimately show ?thesis using i unfolding sd_next_block_def Let_def by (auto simp: sd_wp_addr_def)
qed

text \<open>A full block: the offset may have left the buffer, but the card no longer waits for a byte.\<close>

lemma sd_write_full_wf:
  assumes wf: "sd_wf (sd\<lparr>sd_state := sd_programming_state\<rparr>)" and off: "data_offset sd \<le> 512" and a: "unat (data_start sd) < 2 ^ 62"
    and st: "sd_state sd = sd_receivingdata_state"
  shows "\<exists>sd'. sd_write_full sd = Inr sd' \<and> sd_wf sd'"
proof -
  let ?busy = "sd\<lparr>sd_state := sd_programming_state\<rparr>"
  have bl: "blk_len sd \<le> 512" using wf by (simp add: sd_wf_def)
  have keep: "sd_wf sd" if "\<not> data_offset sd \<ge> n" "n \<le> 512" for n
  proof -
    have "data_offset sd < 512" using that by simp
    then show ?thesis using wf by (simp add: sd_wf_def)
  qed
  have k16: "sd_wf sd" if "\<not> data_offset sd \<ge> 16" using keep [OF that] by simp
  have kb: "sd_wf sd" if "\<not> data_offset sd \<ge> blk_len sd" using keep [OF that bl] .
  have dn: "sd_wf (s\<lparr>sd_state := sd_transfer_state\<rparr>)" if "sd_wf s" for s using that by simp
  have d56: "sd_wf (sd\<lparr>sd_state := sd_transfer_state\<rparr>)" using dn [OF wf] by simp
  obtain sd1 where 1: "sd_blk_write (data_start sd) (data_offset sd) ?busy = Inr sd1" "sd_wf sd1" "same_transfer ?busy sd1"
    using sd_blk_write_wf [OF wf, of "data_offset sd" "data_start sd"] off a by (auto simp: word_le_nat_alt)
  obtain sd2 where 2: "sd_next_block sd1 = Inr sd2" "sd_wf sd2"
    using sd_next_block_wf [OF 1(2)] 1(3) a by (auto simp: same_transfer_def)
  show ?thesis
    unfolding sd_write_full_def Let_def
    using 1 2 kb k16 d56 sd_program_wf [OF wf] sd_lock_command_wf [OF wf] by auto
qed

lemma sd_write_data_wf:
  assumes wf: "sd_wf sd" and a: "unat (data_start sd) < 2 ^ 62"
  shows "\<exists>sd'. sd_write_data v sd = Inr sd' \<and> sd_wf sd'"
proof (cases "\<not> sd_present sd \<or> sd_state sd \<noteq> sd_receivingdata_state \<or> card_status sd AND (ADDRESS_ERROR OR WP_VIOLATION) \<noteq> 0
         \<or> current_cmd sd \<notin> {24, 25, 26, 27, 42, 56}")
  case True
  then show ?thesis using wf unfolding sd_write_data_def by simp
next
  case False
  let ?sd = "sd\<lparr>sd_data := (sd_data sd)[unat (data_offset sd) := v], data_offset := data_offset sd + 1\<rparr>"
  have o: "unat (data_offset sd) < 512" "length (sd_data sd) = 512" using wf False by (simp_all add: sd_wf_def word_less_nat_alt)
  then have "data_offset sd + 1 \<le> 512" by (simp add: word_le_nat_alt unat_word_ariths)
  then have "\<exists>sd'. sd_write_full ?sd = Inr sd' \<and> sd_wf sd'"
    using wf a False by (intro sd_write_full_wf) (simp_all add: sd_wf_def)
  moreover have "sd_put v sd = Inr ?sd" using o by (simp add: sd_put_def)
  ultimately show ?thesis using False unfolding sd_write_data_def by simp
qed

lemma offset_le: "unat (off :: u32) < 512 \<Longrightarrow> \<not> off + 1 \<ge> n \<Longrightarrow> n \<le> 512 \<Longrightarrow> off + 1 < 512"
  by (meson linorder_not_le order_less_le_trans)

lemma sd_wf_step:
  assumes "sd_wf sd" and "n \<le> 512"
  shows "sd_wf (sd_until n (sd\<lparr>data_offset := data_offset sd + 1\<rparr>))"
  using assms offset_le [of "data_offset sd" n] by (auto simp: sd_until_def sd_wf_def word_less_nat_alt word_le_nat_alt)

lemma sd_wf_more:
  assumes "sd_wf sd"
  shows "sd_wf (sd_more (sd\<lparr>data_offset := data_offset sd + 1\<rparr>))"
proof -
  have "io_len (sd\<lparr>data_offset := data_offset sd + 1\<rparr>) \<le> 512" using assms by (simp add: io_len_def sd_wf_def)
  then show ?thesis
    using assms by (auto simp: sd_more_def Let_def sd_wf_def sd_fail_def)
qed

lemma sd_fetch_wf:
  assumes wf: "sd_wf sd" and a: "unat (data_start sd) < 2 ^ 62"
  shows "\<exists>sd'. sd_fetch sd = Inr sd' \<and> sd_wf sd' \<and> same_transfer sd sd'"
proof -
  have "unat (io_len sd) \<le> 512" using wf by (simp add: io_len_def sd_wf_def word_le_nat_alt)
  then show ?thesis using sd_blk_read_wf [OF wf _ a] wf by (simp add: sd_fetch_def)
qed

lemma sd_app_fetch_wf:
  assumes wf: "sd_wf sd"
  shows "\<exists>sd'. sd_app_fetch sd = Inr sd' \<and> sd_wf sd' \<and> same_transfer sd sd'"
proof -
  have "0 + length (replicate (unat (blk_len sd)) (0xec :: u8)) \<le> 512" using wf by (simp add: sd_wf_def word_le_nat_alt)
  from data_set_same [OF wf this] show ?thesis using wf by (simp add: sd_app_fetch_def)
qed

text \<open>The reads that leave an array.\<close>

definition read_overrun :: "SDState \<Rightarrow> bool" where
  "read_overrun sd \<longleftrightarrow> sd_present sd \<and> sd_state sd = sd_sendingdata_state \<and> card_status sd AND (ADDRESS_ERROR OR WP_VIOLATION) = 0
     \<and> (current_cmd sd = 13 \<and> data_offset sd \<ge> 64 \<or> current_cmd sd = 51 \<and> data_offset sd \<ge> 8)"

lemma sd_take_ok: "unat (data_offset sd) < length xs \<Longrightarrow> sd_take xs sd = Inr (xs ! unat (data_offset sd), sd\<lparr>data_offset := data_offset sd + 1\<rparr>)"
  by (simp add: sd_take_def)

lemma sd_read_byte_wf:
  assumes wf: "sd_wf sd" and st: "sd_state sd = sd_sendingdata_state" and a: "unat (data_start sd) < 2 ^ 62"
    and r: "\<not> (current_cmd sd = 13 \<and> data_offset sd \<ge> 64 \<or> current_cmd sd = 51 \<and> data_offset sd \<ge> 8)"
  shows "\<exists>v sd'. sd_read_byte sd = Inr (v, sd') \<and> sd_wf sd'"
proof -
  have off: "unat (data_offset s) < length (sd_data s)" if "sd_wf s" "same_transfer sd s" for s
    using that wf st by (simp add: sd_wf_def same_transfer_def word_less_nat_alt)
  note o = off [OF wf same_transfer_refl]
  obtain s1 where 1: "sd_fetch sd = Inr s1" "sd_wf s1" "same_transfer sd s1" using sd_fetch_wf [OF wf a] by blast
  obtain s2 where 2: "sd_app_fetch sd = Inr s2" "sd_wf s2" "same_transfer sd s2" using sd_app_fetch_wf [OF wf] by blast
  have io: "io_len s \<le> 512" "blk_len s \<le> 512" if "sd_wf s" for s using that by (simp_all add: io_len_def sd_wf_def)
  have st64: "current_cmd sd = 13 \<Longrightarrow> unat (data_offset sd) < length (sd_status sd)"
    and scr8: "current_cmd sd = 51 \<Longrightarrow> unat (data_offset sd) < length (scr sd)"
    using r wf by (simp_all add: sd_wf_def word_le_nat_alt)
  show ?thesis
    unfolding sd_read_byte_def Let_def
    using 1 2 wf st64 scr8 sd_take_ok [OF o] sd_take_ok [OF off [OF 1(2,3)]] sd_take_ok [OF off [OF 2(2,3)]]
      sd_wf_step [OF wf] sd_wf_step [OF 1(2)] sd_wf_step [OF 2(2)] sd_wf_more [OF 1(2)] io [OF 1(2)] io [OF 2(2)]
    by (simp add: sd_take_ok)
qed

lemma sd_read_data_wf:
  assumes wf: "sd_wf sd" and a: "unat (data_start sd) < 2 ^ 62"
  shows "if read_overrun sd then sd_read_data sd = Inl ArrayBounds else \<exists>v sd'. sd_read_data sd = Inr (v, sd') \<and> sd_wf sd'"
proof (cases "read_overrun sd")
  case True
  then have "sd_read_byte sd = Inl ArrayBounds"
    using wf by (auto simp: read_overrun_def sd_read_byte_def sd_take_def Let_def sd_wf_def word_le_nat_alt)
  then show ?thesis using True by (auto simp: sd_read_data_def read_overrun_def)
next
  case False
  then show ?thesis
    using wf sd_read_byte_wf [OF wf _ a] by (auto simp: sd_read_data_def read_overrun_def)
qed

section \<open>Reachable cards\<close>

text \<open>
  Commands are restricted to those whose addresses lie on the card (\<open>request_ok\<close>); the change of the medium may put any
  image, or none, under the card.
\<close>

inductive sd_reach :: "SDState \<Rightarrow> bool" where
  init: "(case bs of None \<Rightarrow> True | Some b \<Rightarrow> inserted b \<longrightarrow> disk_wf b) \<Longrightarrow> length buf0 = 512 \<Longrightarrow> sd_reach (sd_init bs is_spi buf0)"
| cmd: "sd_reach sd \<Longrightarrow> request_ok (unat c) arg sd \<Longrightarrow> sd_do_command c arg sd = Inr (r, sd') \<Longrightarrow> sd_reach sd'"
| wr: "sd_reach sd \<Longrightarrow> unat (data_start sd) < 2 ^ 62 \<Longrightarrow> sd_write_data v sd = Inr sd' \<Longrightarrow> sd_reach sd'"
| rd: "sd_reach sd \<Longrightarrow> unat (data_start sd) < 2 ^ 62 \<Longrightarrow> sd_read_data sd = Inr (v, sd') \<Longrightarrow> sd_reach sd'"
| enab: "sd_reach sd \<Longrightarrow> sd_reach (sd_enable e sd)"
| cb: "sd_reach sd \<Longrightarrow> sd_set_cb sd = Inr sd' \<Longrightarrow> sd_reach sd'"
| change: "sd_reach sd \<Longrightarrow> (inserted b \<longrightarrow> disk_wf b) \<Longrightarrow> sd_cardchange (sd\<lparr>bdrv := Some b\<rparr>) = Inr sd' \<Longrightarrow> sd_reach sd'"

lemma sd_init_wf:
  assumes "case bs of None \<Rightarrow> True | Some b \<Rightarrow> inserted b \<longrightarrow> disk_wf b" and "length buf0 = 512"
  shows "sd_wf (sd_init bs is_spi buf0)"
  unfolding sd_init_def
  by (rule sd_reset_wf_data) (use assms in simp_all)

lemma sd_cardchange_wf:
  assumes wf: "sd_wf sd" and b: "inserted b \<longrightarrow> disk_wf b" and c: "sd_cardchange (sd\<lparr>bdrv := Some b\<rparr>) = Inr sd'"
  shows "sd_wf sd'"
proof (cases "inserted b")
  case True
  have "sd_wf (sd_reset (Some b) (sd\<lparr>bdrv := Some b, sd_cb := l\<rparr>))" for l
    by (rule sd_reset_wf_data) (use wf b in \<open>simp_all add: sd_wf_def\<close>)
  then show ?thesis using c True by (auto simp: sd_cardchange_def Let_def)
next
  case False
  then show ?thesis using c wf by (auto simp: sd_cardchange_def Let_def sd_wf_def medium_wf_def)
qed

lemma sd_reach_wf: "sd_reach sd \<Longrightarrow> sd_wf sd"
proof (induction rule: sd_reach.induct)
  case (init bs buf0 is_spi)
  then show ?case by (rule sd_init_wf)
next
  case (cmd sd c arg r sd')
  then show ?case using sd_do_command_wf by fastforce
next
  case (wr sd v sd')
  then show ?case using sd_write_data_wf [of sd v] by auto
next
  case (rd sd v sd')
  then show ?case using sd_read_data_wf [of sd] by (auto split: if_splits)
next
  case (enab sd e)
  then show ?case by (simp add: sd_enable_def)
next
  case (cb sd sd')
  then show ?case by (auto simp: sd_set_cb_def split: option.splits)
next
  case (change sd b sd')
  then show ?case by (metis sd_cardchange_wf)
qed



end
