(* ===== verification/Sd_Faults.thy ===== *)
theory Sd_Faults
  imports Sd_Safety
begin

text \<open>
  Where the card does not do what it should: protected blocks, the end of the card, locked cards.
\<close>

section \<open>Protected blocks, the end of the card, locked cards\<close>

lemma write_bytes:
  assumes "sd_receiving cmd b sd" and "cmd = 24 \<or> cmd = 25" and "unat (data_offset sd) + length bs < 512"
  shows "\<exists>sd'. rfold sd_write_data bs sd = Inr sd' \<and> sd_receiving cmd b sd' \<and> sd_pos sd' = sd_pos sd + length bs
    \<and> data_start sd' = data_start sd \<and> sd_view b sd' = splice (sd_pos sd) bs (sd_view b sd)"
  using assms
proof (induction bs arbitrary: sd)
  case Nil
  then show ?case by simp
next
  case (Cons v bs)
  then obtain sd1 where 1: "sd_write_data v sd = Inr sd1" "sd_receiving cmd b sd1" "sd_pos sd1 = Suc (sd_pos sd)"
    "data_start sd1 = data_start sd" "sd_view b sd1 = (sd_view b sd)[sd_pos sd := v]"
    using write_step [of cmd b sd v] by auto
  have l: "sd_pos sd + Suc (length bs) \<le> length (sd_view b sd)"
    using Cons.prems length_sd_view [OF Cons.prems(1)] by (simp add: sd_pos_def sd_receiving_def)
  have "unat (data_offset sd1) + length bs < 512" using Cons.prems(3) 1(3,4) by (simp add: sd_pos_def)
  from Cons.IH [OF 1(2) Cons.prems(2) this] obtain sd' where 2: "rfold sd_write_data bs sd1 = Inr sd'" "sd_receiving cmd b sd'"
    "sd_pos sd' = Suc (sd_pos sd) + length bs" "data_start sd' = data_start sd"
    "sd_view b sd' = splice (Suc (sd_pos sd)) bs ((sd_view b sd)[sd_pos sd := v])" using 1(3-5) by auto
  moreover have "splice (Suc (sd_pos sd)) bs ((sd_view b sd)[sd_pos sd := v]) = splice (sd_pos sd) (v # bs) (sd_view b sd)"
    using l by (intro nth_equalityI) (auto simp: splice_nth nth_list_update nth_Cons' Suc_diff_le)
  ultimately show ?case using 1(1) by simp
qed

lemma write_whole_block:
  assumes r: "sd_receiving 24 b sd" and o: "data_offset sd = 0" and l: "length bs = 512"
  shows "\<exists>b' sd'. rfold sd_write_data bs sd = Inr sd' \<and> card_ready b' sd' \<and> disk b' = splice (unat (data_start sd)) bs (disk b)"
proof -
  have bs: "bs = take 511 bs @ [bs ! 511]" using l take_Suc_conv_app_nth [of 511 bs] by simp
  have l1: "unat (data_offset sd) + length (take 511 bs) < 512" using o l by simp
  have p: "sd_pos sd = unat (data_start sd)" "sd_view b sd = disk b" using o by (simp_all add: sd_pos_def sd_view_def)
  obtain sd1 where 1: "rfold sd_write_data (take 511 bs) sd = Inr sd1" "sd_receiving 24 b sd1" "sd_pos sd1 = unat (data_start sd) + 511"
    "data_start sd1 = data_start sd" "sd_view b sd1 = splice (unat (data_start sd)) (take 511 bs) (disk b)"
    using write_bytes [OF r _ l1] l unfolding p by auto
  then have "unat (data_offset sd1) = 511" by (simp add: sd_pos_def)
  from write_24 [OF 1(2) this, of "bs ! 511"] obtain b' sd' where 2: "sd_write_data (bs ! 511) sd1 = Inr sd'" "card_ready b' sd'"
    "disk b' = (splice (unat (data_start sd)) (take 511 bs) (disk b))[unat (data_start sd) + 511 := bs ! 511]"
    unfolding 1(3,5) by blast
  have "disk b' = splice (unat (data_start sd)) bs (disk b)"
    using splice_snoc [of "unat (data_start sd)" "take 511 bs" "disk b" "bs ! 511"] r l unfolding 2(3)
    by (simp add: sd_receiving_def bs [symmetric])
  moreover have "rfold sd_write_data bs sd = Inr sd'"
    using 1(1) 2(1) rfold_append [of sd_write_data "take 511 bs" "[bs ! 511]" sd] by (simp add: bs [symmetric])
  ultimately show ?thesis using 2(2) by blast
qed

text \<open>
  Property C16.  Write protection does not protect: to a write to a block of a protected group the card answers with the
  violation in its status, and then stores the block all the same.
\<close>

theorem sd_protection_ignored:
  assumes "card_ready b sd" "\<not> read_only b" and "unat (sd_address arg sd) + 512 \<le> length (disk b)"
    and "wp_groups sd ! unat (drop_bit 21 (ucast (sd_address arg sd) :: u32))" and "length bs = 512"
  shows "\<exists>r sd1 sd2 b2. sd_do_command 24 arg sd = Inr (r, sd1) \<and> bit (r ! 0) 2 \<and> rfold sd_write_data bs sd1 = Inr sd2
    \<and> card_ready b2 sd2 \<and> disk b2 = splice (unat (sd_address arg sd)) bs (disk b)"
proof -
  obtain sd1 where 1: "sd_do_command 24 arg sd = Inr (word_bytes (((status_in sd OR write_status sd (sd_address arg sd))
       AND NOT (CARD_STATUS_B XOR ILLEGAL_COMMAND)) OR (card_status sd AND (CARD_STATUS_B XOR ILLEGAL_COMMAND))), sd1)"
    (is "_ = Inr (word_bytes ?w, _)") and r: "sd_receiving 24 b sd1" "data_start sd1 = sd_address arg sd" "data_offset sd1 = 0"
    using cmd_write [OF assms(1) _ assms(2,3), of 24] by blast
  have w: "write_status sd (sd_address arg sd) = WP_VIOLATION" using assms(4) by (simp add: write_status_def)
  have "bit (WP_VIOLATION :: u32) 26" by (simp add: bit_numeral_rec)
  then have "bit (word_bytes ?w ! 0) 2" unfolding w by (simp add: word_bytes_def bit_simps)
  moreover obtain b2 sd2 where "rfold sd_write_data bs sd1 = Inr sd2" "card_ready b2 sd2" "disk b2 = splice (unat (sd_address arg sd)) bs (disk b)"
    using write_whole_block [OF r(1,3) assms(5)] r(2) by auto
  ultimately show ?thesis using 1 by blast
qed

theorem sd_protection_ignored_witness:
  "\<exists>sd r sd1 sd2 b2. list_all id (wp_groups sd) \<and> sd_do_command 24 0 sd = Inr (r, sd1) \<and> bit (r ! 0) 2
     \<and> rfold sd_write_data (replicate 512 7) sd1 = Inr sd2 \<and> card_ready b2 sd2
     \<and> disk b2 = splice 0 (replicate 512 7) (disk (blank_image 4))"
proof -
  obtain sd where c: "card_ready (blank_image 4) sd"
    using identified [of "blank_image 4" "replicate 512 0"] by auto
  let ?sd = "sd\<lparr>wp_groups := map (\<lambda>_. True) (wp_groups sd)\<rparr>"
  have r: "card_ready (blank_image 4) ?sd" using c by (simp add: card_ready_def card_ok_def)
  then have a: "unat (sd_address 0 ?sd) = 0" "wp_groups ?sd ! unat (drop_bit 21 (ucast (sd_address 0 ?sd) :: u32))"
    by (simp_all add: sd_address_def card_ready_def card_ok_def)
  have l: "unat (sd_address 0 ?sd) + 512 \<le> length (disk (blank_image 4))" using a by (simp add: length_disk)
  have "list_all id (wp_groups ?sd)" by (simp add: list_all_length)
  then show ?thesis
    using sd_protection_ignored [OF r _ l a(2), of "replicate 512 7"] a(1) by (metis length_replicate blank_image_simps(2))
qed

definition stuck :: "SDState \<Rightarrow> bool" where
  "stuck sd \<longleftrightarrow> sd_state sd \<in> {sd_programming_state, sd_disconnect_state, sd_inactive_state} \<and> \<not> spi sd"

lemma stuck_frame [simp]: "stuck (sd\<lparr>card_status := w\<rparr>) = stuck sd" "stuck (sd\<lparr>current_cmd := c\<rparr>) = stuck sd"
  "stuck (sd_fail e sd) = stuck sd" "stuck (sd_set_status sd) = stuck sd"
  by (simp_all add: stuck_def sd_fail_def sd_set_status_def)

lemma stuck_not [simp]: "stuck sd \<Longrightarrow> sd_state sd \<notin> {sd_transfer_state, sd_sendingdata_state, sd_receivingdata_state, sd_standby_state,
    sd_idle_state, sd_ready_state, sd_identification_state} \<and> \<not> spi sd"
  by (auto simp: stuck_def)

text \<open>Every reply leaves the card stuck.\<close>

definition stuck_reply :: "sd_reply \<Rightarrow> bool" where
  "stuck_reply m \<longleftrightarrow> (\<forall>rt sd. m = Inr (rt, sd) \<longrightarrow> stuck sd)"

lemma stuck_reply_simps [simp]:
  "stuck_reply (Inr (rt, sd)) = stuck sd" "stuck_reply (Inl e)"
  "stuck_reply (if c then m else m') = (if c then stuck_reply m else stuck_reply m')"
  by (simp_all add: stuck_reply_def)

lemma stuck_basic:
  assumes s: "stuck sd" and c: "cmd \<noteq> 0" "cmd \<noteq> 6"
  shows "stuck_reply (sd_basic_command cmd arg r adr sd)"
proof -
  have st: "stuck (sd\<lparr>sd_state := st\<rparr>)" if "st \<in> {sd_programming_state, sd_disconnect_state, sd_inactive_state}" for st
    using s that by (simp add: stuck_def)
  show ?thesis
    using c stuck_not [OF s] st s unfolding sd_basic_command_def Let_def sd_illegal_def in_transfer_def by simp
qed

lemma stuck_block: "stuck sd \<Longrightarrow> stuck_reply (sd_block_command cmd arg r adr sd)"
  using stuck_not [of sd] unfolding sd_block_command_def sd_illegal_def in_transfer_def by simp

lemma stuck_normal:
  assumes s: "stuck sd" and c: "unat cmd \<noteq> 0" "unat cmd \<noteq> 6"
  shows "stuck_reply (sd_normal_command cmd arg sd)"
  using stuck_basic [OF s c] stuck_block [OF s] unfolding sd_normal_command_def Let_def
  by (auto simp: arr_get_def)

lemma stuck_app:
  assumes s: "stuck sd" and c: "unat cmd \<noteq> 0" "unat cmd \<noteq> 6"
  shows "stuck_reply (sd_app_command cmd arg sd)"
  using stuck_normal [of "sd\<lparr>card_status := card_status sd AND NOT APP_CMD\<rparr>" cmd arg] stuck_not [OF s] s c
  unfolding sd_app_command_def Let_def by (auto simp: arr_get_def)

lemma stuck_respond: "stuck sd \<Longrightarrow> stuck (snd (sd_respond ls rt sd))"
  by (cases rt) (simp_all add: sd_respond_def sd_response_r1_make_def Let_def)

lemma stuck_command:
  assumes s: "stuck sd" and c: "unat cmd \<noteq> 0" "unat cmd \<noteq> 6" and e: "sd_do_command cmd arg sd = Inr (r, sd')"
  shows "stuck sd'"
proof -
  define s0 where "s0 = sd_set_status (sd\<lparr>card_status := card_status sd AND NOT CARD_STATUS_B\<rparr>)"
  have s0: "stuck s0" using s by (simp add: s0_def)
  have n: "stuck sd1" if "(if card_status sd AND APP_CMD \<noteq> 0
       then rbind (sd_app_command cmd arg s0) (\<lambda>(rt, sd). Inr (rt, sd\<lparr>card_status := card_status sd AND NOT APP_CMD\<rparr>))
       else sd_normal_command cmd arg s0) = Inr (rt, sd1)" for rt sd1
    using that stuck_app [OF s0 c] stuck_normal [OF s0 c]
    by (auto simp: stuck_reply_def elim!: rbind_InrE split: if_splits)
  have resp: "stuck (snd (sd_respond ls rt (sd1\<lparr>current_cmd := cmd\<rparr>)))" if "stuck sd1" for ls rt sd1
    using that by (intro stuck_respond) simp
  show ?thesis
    using e s s0 n resp unfolding sd_do_command_def Let_def s0_def [symmetric]
    by (auto simp: case_prod_beta split: if_splits elim!: rbind_InrE)
qed

lemma stuck_commands:
  assumes "stuck sd" and "list_all (\<lambda>(c, arg). c \<noteq> 0 \<and> c \<noteq> 6) cs" and "rfold sd_cmd cs sd = Inr sd'"
  shows "stuck sd'"
proof -
  have c: "unat c \<noteq> 0 \<and> unat c \<noteq> 6" if "c \<noteq> 0" "c \<noteq> 6" for c :: u8
    using that unat_word_eqI [of c 6] unat_word_eqI [of c 0] by auto
  show ?thesis
    by (rule rfold_invariant [OF assms(3), of stuck])
      (use assms(1,2) c stuck_command in \<open>fastforce simp: sd_cmd_def list_all_iff elim!: rbind_InrE\<close>)+
qed

lemma write_25_end:
  assumes s: "sd_receiving 25 b sd" and off: "unat (data_offset sd) = 511" and fin: "unat (data_start sd) + 512 = length (disk b)"
  shows "\<exists>b' sd'. sd_write_data v sd = Inr sd' \<and> bdrv sd' = Some b' \<and> disk b' = (sd_view b sd)[sd_pos sd := v]
    \<and> stuck sd' \<and> sd_state sd' = sd_programming_state \<and> card_status sd' = card_status sd OR ADDRESS_ERROR \<and> sd_present sd'"
proof -
  have c: "card_ok b sd" using s by (simp add: sd_receiving_def)
  note d = card_okD [OF c]
  obtain buf b' where b': "disk b' = (sd_view b sd)[sd_pos sd := v]" "card_ok b' (block_stored v buf b' sd)"
    and w: "sd_write_data v sd = sd_next_block (block_stored v buf b' sd)"
    using write_full_last [OF s _ off, of v] by auto
  have "data_start sd + 512 + 512 > sd_size sd"
    using fin d(9,10) by (simp add: word_less_nat_alt unat_word_ariths)
  then have n: "sd_next_block (block_stored v buf b' sd) = Inr (sd_fail ADDRESS_ERROR ((block_stored v buf b' sd)
      \<lparr>blk_written := blk_written sd + 1, data_start := data_start sd + 512, data_offset := 0\<rparr>))"
    using d(6) by (simp add: sd_next_block_def Let_def block_stored_def)
  show ?thesis
    using b' c unfolding w n
    by (intro exI [of _ b'] exI [of _ "sd_fail ADDRESS_ERROR ((block_stored v buf b' sd)
      \<lparr>blk_written := blk_written sd + 1, data_start := data_start sd + 512, data_offset := 0\<rparr>)"])
      (simp add: sd_fail_def block_stored_def stuck_def card_ok_def sd_present_def)
qed

text \<open>
  Property C13.  The end of the card: when a multiple block write stores its last byte in the last block of the card, the
  byte is stored, but the card stays in the programming state.  The command that ends the transfer gets no response, and
  no sequence of commands other than a reset (CMD0) or a function switch (CMD6) makes it transfer data again.
\<close>

theorem sd_write_end_stuck:
  assumes "sd_receiving 25 b sd" and "unat (data_offset sd) = 511" and "unat (data_start sd) + 512 = length (disk b)"
  shows "\<exists>b1 sd1. sd_write_data v sd = Inr sd1 \<and> bdrv sd1 = Some b1 \<and> disk b1 = (sd_view b sd)[sd_pos sd := v]
    \<and> (\<exists>sd2. sd_do_command 12 arg sd1 = Inr ([], sd2))
    \<and> (\<forall>cs sd2. list_all (\<lambda>(c, arg). c \<noteq> 0 \<and> c \<noteq> 6) cs \<and> rfold sd_cmd cs sd1 = Inr sd2 \<longrightarrow>
         sd_state sd2 \<notin> {sd_transfer_state, sd_sendingdata_state, sd_receivingdata_state})"
proof -
  obtain b1 sd1 where 1: "sd_write_data v sd = Inr sd1" "bdrv sd1 = Some b1" "disk b1 = (sd_view b sd)[sd_pos sd := v]"
    and s: "stuck sd1" "sd_state sd1 = sd_programming_state" "card_status sd1 = card_status sd OR ADDRESS_ERROR" "sd_present sd1"
    using write_25_end [OF assms] by blast
  have "card_status sd AND (CARD_IS_LOCKED OR APP_CMD) = 0" using assms(1) by (simp add: sd_receiving_def card_ok_def)
  then have f: "card_status sd1 AND CARD_IS_LOCKED = 0" "card_status sd1 AND APP_CMD = 0"
    unfolding s(3) using status_flags [of "card_status sd"] by (simp_all add: bit.conj_disj_distrib2)
  have "\<exists>sd2. sd_do_command 12 arg sd1 = Inr ([], sd2)"
    using f s by (simp add: sd_do_command_def Let_def sd_locked_out_def sd_normal_command_def arr_get_def sd_basic_command_def
        sd_set_status_def sd_illegal_def sd_respond_def sd_fail_def)
  moreover have "sd_state sd2 \<notin> {sd_transfer_state, sd_sendingdata_state, sd_receivingdata_state}"
    if "list_all (\<lambda>(c, arg). c \<noteq> 0 \<and> c \<noteq> 6) cs" "rfold sd_cmd cs sd1 = Inr sd2" for cs sd2
    using stuck_commands [OF s(1) that] by (auto simp: stuck_def)
  ultimately show ?thesis using 1 by blast
qed

theorem sd_write_end_stuck_witness:
  "\<exists>sd b1 sd1 sd2. card_view sd = disk (blank_image 1) \<and> sd_write_data 7 sd = Inr sd1 \<and> bdrv sd1 = Some b1 \<and> last (disk b1) = 7
     \<and> sd_do_command 12 0 sd1 = Inr ([], sd2)"
proof -
  let ?z = "replicate 511 (0 :: u8)"
  define b where "b = blank_image 1"
  have D: "disk b = replicate 512 0" and w: "\<not> read_only b" by (simp_all add: b_def disk_def blank_image_def)
  obtain s0 where c: "card_ready b s0" using identified [of b "replicate 512 0"] by (auto simp: b_def)
  have a: "sd_address 0 s0 = 0" by (simp add: sd_address_def)
  obtain s1 where s1: "sd_receiving 25 b s1" "data_start s1 = 0" "data_offset s1 = 0"
    using cmd_write [OF c _ w, of 25 0] unfolding a by (auto simp: D)
  obtain sd where sd: "sd_receiving 25 b sd" "sd_pos sd = 511" "data_start sd = 0" "sd_view b sd = splice 0 ?z (disk b)"
    using write_bytes [OF s1(1), of ?z] s1(2,3) by (auto simp: sd_pos_def sd_view_def)
  have v: "sd_view b sd = replicate 512 0"
    unfolding sd(4) D by (rule nth_equalityI) (auto simp: splice_nth)
  have "unat (data_offset sd) = 511" using sd(2,3) by (simp add: sd_pos_def)
  from sd_write_end_stuck [OF sd(1) this, of 7 0] sd(3) obtain b1 sd1 sd2 where
    1: "sd_write_data 7 sd = Inr sd1" "bdrv sd1 = Some b1" "disk b1 = (sd_view b sd)[sd_pos sd := 7]" "sd_do_command 12 0 sd1 = Inr ([], sd2)"
    by (auto simp: D)
  have "last (disk b1) = 7" unfolding 1(3) v sd(2) by (subst last_conv_nth) simp_all
  moreover have "card_view sd = disk b" using receiving_medium [OF sd(1)] v D by simp
  ultimately show ?thesis using 1 unfolding b_def by blast
qed

definition sd_refused :: "SDState \<Rightarrow> SDState" where
  "sd_refused sd = sd_fail ILLEGAL_COMMAND (sd_set_status (sd\<lparr>card_status := card_status sd AND NOT CARD_STATUS_B\<rparr>))"

lemma locked_bit: "(w AND CARD_IS_LOCKED \<noteq> 0) = bit w 25"
  using and_exp_eq_0_iff_not_bit [of w 25] by simp

lemma refused_locked: "card_status sd AND CARD_IS_LOCKED \<noteq> 0 \<Longrightarrow> card_status (sd_refused sd) AND CARD_IS_LOCKED \<noteq> 0"
  unfolding locked_bit by (simp add: sd_refused_def sd_fail_def sd_set_status_def bit_simps)

lemma sd_class_17: "sd_cmd_class ! 17 = 2"
  by (simp add: sd_cmd_class_def)

lemma locked_read:
  assumes p: "sd_present sd" and l: "card_status sd AND CARD_IS_LOCKED \<noteq> 0" "card_status sd AND APP_CMD = 0"
    and t: "sd_state sd = sd_transfer_state"
  shows "\<exists>r sd'. sd_do_command 17 arg sd = Inr (r, sd') \<and> length r = 4 \<and> sd_state sd' = sd_sendingdata_state"
proof -
  define s where "s = sd_set_status (sd\<lparr>card_status := card_status sd AND NOT CARD_STATUS_B\<rparr>)"
  have s: "sd_state s = sd_transfer_state" "card_status s = status_in sd" using t by (simp_all add: s_def sd_set_status_def status_in_def)
  have o: "sd_locked_out (card_status sd) 17 = Inr False" using l sd_class_17 by (simp add: sd_locked_out_def)
  define s2 where "s2 = check_range (data_begin sd_sendingdata_state (sd_address arg s) s)"
  obtain r' where "sd_normal_command 17 arg s = sd_block_command (unat (17 :: u8)) arg r' (sd_address arg s) s"
    by (rule sd_normal_block [of 17 arg s]) simp_all
  then have n: "sd_normal_command 17 arg s = Inr (sd_r1, s2)"
    using s(1) by (simp add: sd_block_command_def in_transfer_def s2_def)
  have s2: "sd_state s2 = sd_sendingdata_state" "card_status s2 = status_in sd \<or> card_status s2 = status_in sd OR ADDRESS_ERROR"
    using s(2) by (auto simp: s2_def check_range_def data_begin_def sd_fail_def)
  have "((card_status sd AND NOT CARD_STATUS_B) AND NOT CURRENT_STATE) AND ILLEGAL_COMMAND = 0"
    by (intro and_sub and_masked) simp
  then have "status_in sd AND ILLEGAL_COMMAND = 0"
    using t unfolding status_in_def bit.conj_disj_distrib2 by (simp add: sd_state_num_def)
  then have "card_status s2 AND ILLEGAL_COMMAND = 0" using s2(2) by (auto simp: bit.conj_disj_distrib2)
  then have i: "status_r1 (card_status s2) AND ILLEGAL_COMMAND = 0" unfolding status_r1_def by (rule and_sub)
  show ?thesis
    using p l i s2(1) unfolding sd_do_command_def Let_def s_def [symmetric] o
    by (simp add: n sd_respond_def sd_response_r1_make_def status_r1_def Let_def)
qed



end
