(* ===== verification/S5pc1xx_Mmc.thy ===== *)
theory S5pc1xx_Mmc
  imports Sd_Protocol
begin

text \<open>
  The SD host controller, \<^verbatim>\<open>hw/s5pc1xx_mmc.c\<close>: registers, commands, the transfer between card and memory, interrupts.
  The memory of the guest is passed along; the pointer to the card is an option.  The bytes of a word in memory are
  those of a little endian host.
\<close>

section \<open>State\<close>

record S5pc1xxMMCState =
  mmc_card :: "SDState option"
  dma_transcpt :: u8
  cmdarg :: u32
  respcmd :: u32
  mmc_response :: "u32 list"
  mmc_irq :: "unit irq_log"
  sysad :: u32
  blksize :: u16
  blkcnt :: u16
  mmc_argument :: u32
  trnmod :: u16
  cmdreg :: u16
  prnsts :: u32
  hostctl :: u8
  pwrcon :: u8
  clkcon :: u16
  timeoutcon :: u8
  swrst :: u8
  norintsts :: u16
  errintsts :: u16
  norintstsen :: u16
  errintstsen :: u16
  norintsigen :: u16
  errintsigen :: u16
  control2 :: u32
  control3 :: u32
  response_timer :: timer
  insert_timer :: timer

type_synonym memory = "hwaddr \<Rightarrow> u8"

abbreviation (input) S5C_HSMMC_NIS_ERR :: u16 where "S5C_HSMMC_NIS_ERR \<equiv> 0x8000"
abbreviation (input) S5C_HSMMC_NIS_CMDCMP :: u16 where "S5C_HSMMC_NIS_CMDCMP \<equiv> 0x0001"
abbreviation (input) S5C_HSMMC_NIS_TRSCMP :: u16 where "S5C_HSMMC_NIS_TRSCMP \<equiv> 0x0002"
abbreviation (input) S5C_HSMMC_NIS_DMA :: u16 where "S5C_HSMMC_NIS_DMA \<equiv> 0x0008"
abbreviation (input) S5C_HSMMC_NIS_INSERT :: u16 where "S5C_HSMMC_NIS_INSERT \<equiv> 0x0040"
abbreviation (input) S5C_HSMMC_NIS_REMOVE :: u16 where "S5C_HSMMC_NIS_REMOVE \<equiv> 0x0080"
abbreviation (input) S5C_HSMMC_EIS_CMDTIMEOUT :: u16 where "S5C_HSMMC_EIS_CMDTIMEOUT \<equiv> 0x0001"
abbreviation (input) S5C_HSMMC_CLOCK_EXT_STABLE :: u16 where "S5C_HSMMC_CLOCK_EXT_STABLE \<equiv> 0x8"
abbreviation (input) S5C_HSMMC_CLOCK_INT_STABLE :: u16 where "S5C_HSMMC_CLOCK_INT_STABLE \<equiv> 0x2"

section \<open>Moving data\<close>

definition mmc_dmaInt :: "S5pc1xxMMCState \<Rightarrow> S5pc1xxMMCState" where
  "mmc_dmaInt s =
     (let s = s\<lparr>norintsts := norintsts s OR (if dma_transcpt s = 1 then S5C_HSMMC_NIS_TRSCMP else S5C_HSMMC_NIS_DMA)\<rparr>
      in s\<lparr>mmc_irq := qemu_set_irq () True (mmc_irq s)\<rparr>)"

definition le_bytes :: "u32 \<Rightarrow> u8 list" where
  "le_bytes w = [ucast w, ucast (drop_bit 8 w), ucast (drop_bit 16 w), ucast (drop_bit 24 w)]"

definition le_word :: "u8 list \<Rightarrow> u32" where
  "le_word b = ucast (b ! 0) OR push_bit 8 (ucast (b ! 1)) OR push_bit 16 (ucast (b ! 2)) OR push_bit 24 (ucast (b ! 3))"

definition mmc_fifo_push :: "u32 \<Rightarrow> u32 \<Rightarrow> u32 \<Rightarrow> memory \<Rightarrow> memory" where
  "mmc_fifo_push adr pos val m = cpu_physical_memory_write m (ucast (adr + pos)) (le_bytes val)"

definition mmc_fifo_pop :: "u32 \<Rightarrow> u32 \<Rightarrow> memory \<Rightarrow> u32" where
  "mmc_fifo_pop adr pos m = le_word (cpu_physical_memory_read m (ucast (adr + pos)) 4)"

text \<open>
  The variables of the loops: the card, the memory, and \<^verbatim>\<open>value\<close>, \<^verbatim>\<open>n\<close> and \<^verbatim>\<open>pos\<close>.  The functions of the card are
  arguments, so that the loops can be studied for any card.
\<close>

record 'c xfer =
  x_card :: 'c
  x_mem :: memory
  x_value :: u32
  x_n :: nat
  x_pos :: u32

definition mmc_read_byte :: "('c \<Rightarrow> (u8 \<times> 'c) res) \<Rightarrow> u32 \<Rightarrow> 'c xfer \<Rightarrow> 'c xfer res" where
  "mmc_read_byte rd adr x =
     rbind (rd (x_card x)) (\<lambda>(v, c).
     let val = x_value x OR push_bit (x_n x * 8) (ucast v); n = x_n x + 1 in
     Inr (if n = 4 then x\<lparr>x_card := c, x_mem := mmc_fifo_push adr (x_pos x) val (x_mem x), x_value := 0, x_n := 0, x_pos := x_pos x + 4\<rparr>
          else x\<lparr>x_card := c, x_value := val, x_n := n\<rparr>))"

text \<open>
  \<^verbatim>\<open>value\<close> is unsigned in \<^verbatim>\<open>mmc_fifo_run\<close> and signed in the copy of the loop in \<^verbatim>\<open>mmc_writel\<close>: the shift is an argument.
\<close>

definition mmc_write_byte :: "(u8 \<Rightarrow> 'c \<Rightarrow> 'c res) \<Rightarrow> (u32 \<Rightarrow> u32) \<Rightarrow> u32 \<Rightarrow> 'c xfer \<Rightarrow> 'c xfer res" where
  "mmc_write_byte wr shr adr x =
     (let x = (if x_n x = 0 then x\<lparr>x_value := mmc_fifo_pop adr (x_pos x) (x_mem x), x_n := 4, x_pos := x_pos x + 4\<rparr> else x) in
      rbind (wr (ucast (x_value x AND 0xff)) (x_card x)) (\<lambda>c.
      Inr (x\<lparr>x_card := c, x_value := shr (x_value x), x_n := x_n x - 1\<rparr>)))"

text \<open>\<^verbatim>\<open>while (datacnt) { ...; datacnt--; }\<close>\<close>

primrec rpow :: "nat \<Rightarrow> ('s \<Rightarrow> 's res) \<Rightarrow> 's \<Rightarrow> 's res" where
  "rpow 0 f s = Inr s"
| "rpow (Suc datacnt) f s = rbind (f s) (rpow datacnt f)"

definition mmc_block :: "(u32 \<Rightarrow> 'c xfer \<Rightarrow> 'c xfer res) \<Rightarrow> nat \<Rightarrow> u32 \<Rightarrow> 'c xfer \<Rightarrow> 'c xfer res" where
  "mmc_block step cnt adr x = rpow cnt (step adr) (x\<lparr>x_pos := 0\<rparr>)"

text \<open>The loop over the blocks, which ends at a boundary of the buffer: the blocks that are left, the address, the variables.\<close>

fun mmc_blocks :: "(u32 \<Rightarrow> 'c xfer \<Rightarrow> 'c xfer res) \<Rightarrow> nat \<Rightarrow> bool \<Rightarrow> nat \<Rightarrow> u32 \<Rightarrow> u32 \<Rightarrow> 'c xfer \<Rightarrow> (nat \<times> u32 \<times> 'c xfer) res" where
  "mmc_blocks step cnt masked 0 boundary_count adr x = Inr (0, adr, x)"
| "mmc_blocks step cnt masked (Suc k) boundary_count adr x =
     rbind (mmc_block step cnt adr x) (\<lambda>x.
     let adr = adr + of_nat cnt; boundary_count = boundary_count - of_nat cnt in
     if boundary_count = 0 \<and> masked then Inr (k, adr, x) else mmc_blocks step cnt masked k boundary_count adr x)"

text \<open>The calls on the pointer to the card.\<close>

definition card_read :: "SDState option \<Rightarrow> (u8 \<times> SDState option) res" where
  "card_read c = (case c of None \<Rightarrow> Inl NullDeref | Some sd \<Rightarrow> rbind (sd_read_data sd) (\<lambda>(v, sd). Inr (v, Some sd)))"

definition card_write :: "u8 \<Rightarrow> SDState option \<Rightarrow> SDState option res" where
  "card_write v c = (case c of None \<Rightarrow> Inl NullDeref | Some sd \<Rightarrow> rbind (sd_write_data v sd) (\<lambda>sd. Inr (Some sd)))"

definition card_data_ready :: "SDState option \<Rightarrow> bool res" where
  "card_data_ready c = (case c of None \<Rightarrow> Inl NullDeref | Some sd \<Rightarrow> Inr (sd_data_ready sd))"

definition mmc_step :: "(u32 \<Rightarrow> u32) \<Rightarrow> bool \<Rightarrow> u32 \<Rightarrow> SDState option xfer \<Rightarrow> SDState option xfer res" where
  "mmc_step shr is_read = (if is_read then mmc_read_byte card_read else mmc_write_byte card_write shr)"

definition mmc_is_read :: "S5pc1xxMMCState \<Rightarrow> bool" where
  "mmc_is_read s \<longleftrightarrow> trnmod s AND 0x10 \<noteq> 0"

definition mmc_datacnt :: "S5pc1xxMMCState \<Rightarrow> nat" where
  "mmc_datacnt s = unat (blksize s AND 0x0fff)"

definition mmc_boundary :: "S5pc1xxMMCState \<Rightarrow> u32" where
  "mmc_boundary s =
     (let dma_buf_boundary = unat (drop_bit 12 (blksize s AND 0xf000)); boundary_chk = push_bit (dma_buf_boundary + 12) 1
      in boundary_chk - (sysad s mod boundary_chk))"

text \<open>The loop over blocks, as \<^verbatim>\<open>mmc_fifo_run\<close> and \<^verbatim>\<open>mmc_writel\<close> run it.\<close>

definition mmc_multi :: "(u32 \<Rightarrow> u32) \<Rightarrow> memory \<times> S5pc1xxMMCState \<Rightarrow> (memory \<times> S5pc1xxMMCState) res" where
  "mmc_multi shr S = (case S of (m, s) \<Rightarrow>
     rbind (mmc_blocks (mmc_step shr (mmc_is_read s)) (mmc_datacnt s) (norintstsen s AND 0x8 \<noteq> 0) (unat (blkcnt s)) (mmc_boundary s) (sysad s)
       \<lparr>x_card = mmc_card s, x_mem = m, x_value = 0, x_n = 0, x_pos = 0\<rparr>) (\<lambda>(k, adr, x).
     Inr (x_mem x, s\<lparr>mmc_card := x_card x, sysad := adr, blkcnt := of_nat k\<rparr>)))"

definition mmc_fifo_run :: "memory \<times> S5pc1xxMMCState \<Rightarrow> (memory \<times> S5pc1xxMMCState) res" where
  "mmc_fifo_run S = (case S of (m, s) \<Rightarrow>
     if blkcnt s = 0 then Inr (m, s)
     else
       rbind (if mmc_is_read s then card_data_ready (mmc_card s) else Inr True) (\<lambda>go.
       if \<not> go then Inr (m, s)
       else if blkcnt s > 1 then
         rbind (mmc_multi (drop_bit 8) (m, s)) (\<lambda>(m, s).
         Inr (m, s\<lparr>norintsts := norintsts s OR (if blkcnt s = 0 then S5C_HSMMC_NIS_TRSCMP else S5C_HSMMC_NIS_DMA)\<rparr>))
       else
         rbind (mmc_block (mmc_step (drop_bit 8) (mmc_is_read s)) (mmc_datacnt s) (sysad s)
           \<lparr>x_card = mmc_card s, x_mem = m, x_value = 0, x_n = 0, x_pos = 0\<rparr>) (\<lambda>x.
         Inr (x_mem x, s\<lparr>mmc_card := x_card x, blkcnt := blkcnt s - 1, norintsts := norintsts s OR S5C_HSMMC_NIS_TRSCMP\<rparr>))))"

section \<open>Commands\<close>

text \<open>\<^verbatim>\<open>RWORD(n)\<close>, with the byte before the first one left out.\<close>

definition RWORD :: "u8 list \<Rightarrow> int \<Rightarrow> u32" where
  "RWORD r n = (if n \<ge> 0 then push_bit 24 (ucast (r ! nat n)) else 0) OR push_bit 16 (ucast (r ! nat (n + 1)))
     OR push_bit 8 (ucast (r ! nat (n + 2))) OR ucast (r ! nat (n + 3))"

definition mmc_send_command :: "u64 \<Rightarrow> S5pc1xxMMCState \<Rightarrow> S5pc1xxMMCState res" where
  "mmc_send_command now s =
     (let s = s\<lparr>errintsts := 0, response_timer := Some now\<rparr> in
      case mmc_card s of None \<Rightarrow> Inr s
      | Some sd \<Rightarrow>
        rbind (sd_do_command (ucast (drop_bit 8 (cmdreg s))) (cmdarg s) sd) (\<lambda>(r, sd).
        let s = s\<lparr>mmc_card := Some sd\<rparr> in
        Inr (if cmdreg s AND 3 \<noteq> 0 then
               if length r \<noteq> 4 \<and> length r \<noteq> 16 then s\<lparr>errintsts := errintsts s OR S5C_HSMMC_EIS_CMDTIMEOUT\<rparr>
               else if length r = 4 then s\<lparr>mmc_response := [RWORD r 0, 0, 0, 0]\<rparr>
               else s\<lparr>mmc_response := [RWORD r 11, RWORD r 7, RWORD r 3, RWORD r (- 1)]\<rparr>
             else s)))"

definition s5pc1xx_mmc_raise_end_command_irq :: "S5pc1xxMMCState \<Rightarrow> S5pc1xxMMCState" where
  "s5pc1xx_mmc_raise_end_command_irq s =
     s\<lparr>mmc_irq := qemu_irq_raise () (mmc_irq s), norintsts := norintsts s OR S5C_HSMMC_NIS_CMDCMP, response_timer := None\<rparr>"

section \<open>Registers\<close>

definition mmc_readb :: "S5pc1xxMMCState \<Rightarrow> hwaddr \<Rightarrow> u32 res" where
  "mmc_readb s offset =
     (let resp = (\<lambda>i. rbind (arr_get (mmc_response s) i) (\<lambda>w. Inr (drop_bit 24 w AND 0xff))) in
      if offset = 0x13 then resp 0
      else if offset = 0x17 then resp 1
      else if offset = 0x1b then resp 2
      else if offset = 0x28 then Inr (ucast (hostctl s))
      else if offset = 0x29 then Inr (ucast (pwrcon s))
      else if offset = 0x2a then Inr 0
      else if offset = 0x2b then Inr 0
      else if offset = 0x2e then Inr (ucast (timeoutcon s))
      else if offset = 0x2f then Inr 0
      else Inl (HwError ''s5pc1xx_mmc: bad read offset''))"

definition mmc_readw :: "S5pc1xxMMCState \<Rightarrow> hwaddr \<Rightarrow> (u32 \<times> S5pc1xxMMCState) res" where
  "mmc_readw s offset =
     (if offset = 0x04 then Inr (ucast (blksize s), s)
      else if offset = 0x06 then Inr (ucast (blkcnt s), s)
      else if offset = 0x0c then Inr (ucast (trnmod s), s)
      else if offset = 0x2c then Inr (ucast (clkcon s), s)
      else if offset = 0x2f then Inr (ucast (swrst s), s)
      else if offset = 0x30 then Inr (ucast (norintsts s), s\<lparr>mmc_irq := qemu_set_irq () False (mmc_irq s)\<rparr>)
      else if offset = 0x34 then Inr (ucast (norintstsen s), s)
      else if offset = 0x3c then Inr (0, s)
      else if offset = 0xfc then Inr (0, s)
      else if offset = 0xfe then Inr (0x2401, s)
      else Inl (HwError ''s5pc1xx_mmc: bad read offset''))"

definition mmc_readl :: "S5pc1xxMMCState \<Rightarrow> hwaddr \<Rightarrow> (u32 \<times> S5pc1xxMMCState) res" where
  "mmc_readl s offset =
     (let resp = (\<lambda>i. rbind (arr_get (mmc_response s) i) (\<lambda>w. Inr (w, s))) in
      if offset = 0x00 then Inr (sysad s, s)
      else if offset = 0x08 then Inr (cmdarg s, s)
      else if offset = 0x10 then resp 0
      else if offset = 0x14 then resp 1
      else if offset = 0x18 then resp 2
      else if offset = 0x1c then resp 3
      else if offset = 0x24 then Inr (prnsts s, s)
      else if offset = 0x30 then
        Inr (push_bit 16 (ucast (errintsts s)) OR ucast (norintsts s), s\<lparr>mmc_irq := qemu_set_irq () False (mmc_irq s)\<rparr>)
      else if offset = 0x34 then Inr (push_bit 16 (ucast (errintstsen s)) OR ucast (norintstsen s), s)
      else if offset = 0x38 then Inr (push_bit 16 (ucast (errintsigen s)) OR ucast (norintsigen s), s)
      else if offset = 0x40 then Inr (0x05E80080, s)
      else if offset = 0x48 then Inr (0, s)
      else if offset = 0x80 then Inr (control2 s, s)
      else if offset = 0x84 then Inr (control3 s, s)
      else Inl (HwError ''s5pc1xx_mmc: bad read offset''))"

definition mmc_writeb :: "S5pc1xxMMCState \<Rightarrow> hwaddr \<Rightarrow> u32 \<Rightarrow> S5pc1xxMMCState res" where
  "mmc_writeb s offset val =
     (if offset = 0x28 then Inr (s\<lparr>hostctl := ucast val\<rparr>)
      else if offset = 0x29 then Inr (s\<lparr>pwrcon := ucast val\<rparr>)
      else if offset = 0x2e then Inr (s\<lparr>timeoutcon := ucast val\<rparr>)
      else if offset = 0x2f then Inr (s\<lparr>swrst := ucast val\<rparr>)
      else Inl (HwError ''s5pc1xx_mmc: bad write offset''))"

text \<open>The status after a command: an error, the end of the command, or the end of the transfer instead of it.\<close>

definition mmc_command_status :: "S5pc1xxMMCState \<Rightarrow> S5pc1xxMMCState" where
  "mmc_command_status s =
     (let n = norintsts s;
          n = (if errintsts s \<noteq> 0 then n OR S5C_HSMMC_NIS_ERR else n);
          n = n OR S5C_HSMMC_NIS_CMDCMP;
          n = (if n AND S5C_HSMMC_NIS_TRSCMP \<noteq> 0 then n AND NOT S5C_HSMMC_NIS_CMDCMP else n);
          n = (if n AND S5C_HSMMC_NIS_DMA \<noteq> 0 then n AND NOT S5C_HSMMC_NIS_CMDCMP else n)
      in s\<lparr>norintsts := n\<rparr>)"

definition mmc_set_clkcon :: "u16 \<Rightarrow> S5pc1xxMMCState \<Rightarrow> S5pc1xxMMCState" where
  "mmc_set_clkcon v s =
     (let v = (if v AND 0x1 \<noteq> 0 then v OR S5C_HSMMC_CLOCK_INT_STABLE else v AND NOT S5C_HSMMC_CLOCK_INT_STABLE);
          v = (if v AND 0x4 \<noteq> 0 then v OR S5C_HSMMC_CLOCK_EXT_STABLE else v AND NOT S5C_HSMMC_CLOCK_EXT_STABLE)
      in s\<lparr>clkcon := v\<rparr>)"

text \<open>A write to the status clears what is written, except for two bits that it sets.\<close>

definition mmc_clear_status :: "u16 \<Rightarrow> S5pc1xxMMCState \<Rightarrow> S5pc1xxMMCState" where
  "mmc_clear_status v s = s\<lparr>norintsts := ((norintsts s AND NOT v) AND NOT 0x8100) OR (v AND 0x8100)\<rparr>"

definition mmc_command :: "u64 \<Rightarrow> memory \<times> S5pc1xxMMCState \<Rightarrow> (memory \<times> S5pc1xxMMCState) res" where
  "mmc_command now S = (case S of (m, s) \<Rightarrow>
     rbind (mmc_send_command now s) (\<lambda>s.
     rbind (mmc_fifo_run (m, s)) (\<lambda>(m, s). Inr (m, mmc_command_status s))))"

definition mmc_writew :: "u64 \<Rightarrow> memory \<times> S5pc1xxMMCState \<Rightarrow> hwaddr \<Rightarrow> u32 \<Rightarrow> (memory \<times> S5pc1xxMMCState) res" where
  "mmc_writew now S offset val = (case S of (m, s) \<Rightarrow>
     if offset = 0x04 then Inr (m, s\<lparr>blksize := ucast val\<rparr>)
     else if offset = 0x06 then Inr (m, s\<lparr>blkcnt := ucast val\<rparr>)
     else if offset = 0x0c then Inr (m, s\<lparr>trnmod := ucast val\<rparr>)
     else if offset = 0x0e then mmc_command now (m, s\<lparr>cmdreg := ucast val\<rparr>)
     else if offset = 0x2c then Inr (m, mmc_set_clkcon (ucast val) s)
     else if offset = 0x30 then Inr (m, mmc_clear_status (ucast val) s)
     else if offset = 0x34 then Inr (m, s\<lparr>norintstsen := ucast val\<rparr>)
     else if offset = 0x38 then Inr (m, s\<lparr>norintsigen := ucast val\<rparr>)
     else Inl (HwError ''s5pc1xx_mmc: bad write offset''))"

text \<open>The address of the buffer: a transfer that has stopped at a boundary goes on.\<close>

definition mmc_set_sysad :: "u32 \<Rightarrow> memory \<times> S5pc1xxMMCState \<Rightarrow> (memory \<times> S5pc1xxMMCState) res" where
  "mmc_set_sysad val S = (case S of (m, s) \<Rightarrow>
     let s = s\<lparr>sysad := val\<rparr> in
     if blkcnt s = 0 then Inr (m, s)
     else rbind (mmc_multi (signed_drop_bit 8) (m, s)) (\<lambda>(m, s).
       Inr (m, mmc_dmaInt (s\<lparr>dma_transcpt := if blkcnt s = 0 then 1 else 0\<rparr>))))"

definition mmc_writel :: "memory \<times> S5pc1xxMMCState \<Rightarrow> hwaddr \<Rightarrow> u32 \<Rightarrow> (memory \<times> S5pc1xxMMCState) res" where
  "mmc_writel S offset val = (case S of (m, s) \<Rightarrow>
     if offset = 0x00 then mmc_set_sysad val (m, s)
     else if offset = 0x08 then Inr (m, s\<lparr>mmc_argument := val, cmdarg := val\<rparr>)
     else if offset = 0x30 then
       let s = mmc_clear_status (ucast val) s; s = s\<lparr>errintsts := errintsts s AND NOT (ucast (drop_bit 16 val))\<rparr>
       in Inr (m, if errintsts s = 0 then s\<lparr>norintsts := norintsts s AND NOT S5C_HSMMC_NIS_ERR\<rparr> else s)
     else if offset = 0x34 then Inr (m, s\<lparr>norintstsen := ucast val, errintstsen := ucast (drop_bit 16 val)\<rparr>)
     else if offset = 0x38 then Inr (m, s\<lparr>norintsigen := ucast val, errintsigen := ucast (drop_bit 16 val)\<rparr>)
     else if offset = 0x80 then Inr (m, s\<lparr>control2 := val\<rparr>)
     else if offset = 0x84 then Inr (m, s\<lparr>control3 := val\<rparr>)
     else if offset = 0x8c then Inr (m, s)
     else Inl (HwError ''s5pc1xx_mmc: bad write offset''))"

section \<open>Reset, insertion and creation\<close>

definition mmc_reset :: "S5pc1xxMMCState \<Rightarrow> S5pc1xxMMCState" where
  "mmc_reset s =
     (let s = (if mmc_card s \<noteq> None then s\<lparr>prnsts := 0x1ff0000, norintsts := norintsts s OR 0x0040\<rparr>
               else s\<lparr>prnsts := 0x1fa0000, norintsts := 0\<rparr>)
      in s\<lparr>cmdarg := 0, respcmd := 0, mmc_response := [0, 0, 0, 0]\<rparr>)"

definition s5pc1xx_mmc_raise_insertion_irq :: "u64 \<Rightarrow> S5pc1xxMMCState \<Rightarrow> S5pc1xxMMCState" where
  "s5pc1xx_mmc_raise_insertion_irq now s =
     (if norintsts s AND S5C_HSMMC_NIS_REMOVE \<noteq> 0 then s\<lparr>insert_timer := Some (now + get_ticks_per_sec)\<rparr>
      else s\<lparr>insert_timer := None, norintsts := norintsts s OR S5C_HSMMC_NIS_INSERT, mmc_irq := qemu_irq_raise () (mmc_irq s)\<rparr>)"

definition s5pc1xx_mmc_insert_eject :: "u64 \<Rightarrow> bool \<Rightarrow> S5pc1xxMMCState \<Rightarrow> S5pc1xxMMCState" where
  "s5pc1xx_mmc_insert_eject now level s =
     (if norintsts s AND S5C_HSMMC_NIS_REMOVE \<noteq> 0 then
        if level then s\<lparr>insert_timer := Some (now + get_ticks_per_sec)\<rparr> else s
      else s\<lparr>norintsts := norintsts s OR (if level then S5C_HSMMC_NIS_INSERT else S5C_HSMMC_NIS_REMOVE),
             mmc_irq := qemu_irq_raise () (mmc_irq s)\<rparr>)"

text \<open>The line the card tells of its insertion is connected to the handler; the line of the write protection to nothing.\<close>

definition mmc_card_lines :: "u64 \<Rightarrow> sd_line irq_log \<Rightarrow> SDState \<Rightarrow> S5pc1xxMMCState \<Rightarrow> S5pc1xxMMCState" where
  "mmc_card_lines now old sd s = fold (\<lambda>(l, level) s. case l of InsertedCb \<Rightarrow> s5pc1xx_mmc_insert_eject now level s | ReadonlyCb \<Rightarrow> s)
     (new_calls old (sd_cb sd)) (s\<lparr>mmc_card := Some sd\<rparr>)"

text \<open>The medium changes under the card.\<close>

definition mmc_medium_changed :: "u64 \<Rightarrow> BlockDriverState \<Rightarrow> S5pc1xxMMCState \<Rightarrow> S5pc1xxMMCState res" where
  "mmc_medium_changed now b s = (case mmc_card s of None \<Rightarrow> Inr s
     | Some sd \<Rightarrow> rbind (sd_cardchange (sd\<lparr>bdrv := Some b\<rparr>)) (\<lambda>sd'. Inr (mmc_card_lines now (sd_cb sd) sd' s)))"

definition s5pc1xx_mmc_init :: "u64 \<Rightarrow> BlockDriverState option \<Rightarrow> u8 list \<Rightarrow> S5pc1xxMMCState res" where
  "s5pc1xx_mmc_init now bd buf0 =
     (let s = \<lparr>mmc_card = None, dma_transcpt = 0, cmdarg = 0, respcmd = 0, mmc_response = [0, 0, 0, 0], mmc_irq = [], sysad = 0,
        blksize = 0, blkcnt = 0, mmc_argument = 0, trnmod = 0, cmdreg = 0, prnsts = 0, hostctl = 0, pwrcon = 0, clkcon = 0,
        timeoutcon = 0, swrst = 0, norintsts = 0, errintsts = 0, norintstsen = 0, errintstsen = 0, norintsigen = 0,
        errintsigen = 0, control2 = 0, control3 = 0, response_timer = None, insert_timer = None\<rparr> in
      case bd of None \<Rightarrow> Inr (mmc_reset s)
      | Some b \<Rightarrow>
        let sd = sd_init (Some b) False buf0 in
        rbind (sd_set_cb sd) (\<lambda>sd'. Inr (mmc_reset (mmc_card_lines now (sd_cb sd) sd' s))))"

end
