(* ===== verification/Mmc_Transfer.thy ===== *)
theory Mmc_Transfer
  imports S5pc1xx_Mmc
begin

text \<open>
  Transfers between the memory of the guest and the card.  The loops of the controller are studied for any card with the
  contract \<open>byte_card\<close>, which the model of the SD card meets, up to a driver of the guest that stores blocks and reads
  them back.
\<close>

lemma rpow_add: "rpow (a + b) f s = rbind (rpow a f s) (rpow b f)"
  by (induction a arbitrary: s) (auto simp: rbind_assoc intro!: rbind_cong)

lemma u8_bits: "8 \<le> k \<Longrightarrow> \<not> bit (x :: u8) k"
  using bit_imp_le_length [of x k] by auto

lemma le_bytes_word: "length b = 4 \<Longrightarrow> le_bytes (le_word b) = b"
proof -
  assume l: "length b = 4"
  have "le_bytes (le_word b) = [b ! 0, b ! 1, b ! 2, b ! 3]"
    by (auto simp: le_bytes_def le_word_def u8_bits intro!: bit_word_eqI simp: bit_simps)
  also have "\<dots> = b" using l by (auto intro!: nth_equalityI simp: less_Suc_eq numeral_eq_Suc)
  finally show ?thesis .
qed

lemma length_le_bytes [simp]: "length (le_bytes w) = 4"
  by (simp add: le_bytes_def)

lemma mem_write_append:
  "cpu_physical_memory_write m a (xs @ ys) = cpu_physical_memory_write (cpu_physical_memory_write m a xs) (a + of_nat (length xs)) ys"
  by (induction xs arbitrary: m a) (simp_all add: add.assoc)

lemma mem_read_add:
  "cpu_physical_memory_read m a (j + k) = cpu_physical_memory_read m a j @ cpu_physical_memory_read m (a + of_nat j) k"
  by (rule nth_equalityI) (auto simp: cpu_physical_memory_read_def nth_append add.assoc)

lemma length_mem_read [simp]: "length (cpu_physical_memory_read m a k) = k"
  by (simp add: cpu_physical_memory_read_def)

text \<open>The four bytes a word is shifted out in.\<close>

definition shifts_bytes :: "(u32 \<Rightarrow> u32) \<Rightarrow> bool" where
  "shifts_bytes shr \<longleftrightarrow> (\<forall>w. le_bytes w = [ucast w, ucast (shr w), ucast (shr (shr w)), ucast (shr (shr (shr w)))])"

lemma shifts_unsigned: "shifts_bytes (drop_bit 8)"
  by (simp add: shifts_bytes_def le_bytes_def)

lemma shifts_signed: "shifts_bytes (signed_drop_bit 8)"
  by (auto simp: shifts_bytes_def le_bytes_def intro!: bit_word_eqI simp: bit_simps)

context byte_card
begin

lemma rd_4:
  assumes "sends s" and "position s + 4 < length (view s)"
  obtains s1 s2 s3 s4 where "rd s = Inr (view s ! position s, s1)" "rd s1 = Inr (view s ! (position s + 1), s2)"
    "rd s2 = Inr (view s ! (position s + 2), s3)" "rd s3 = Inr (view s ! (position s + 3), s4)"
    "sends s4" "position s4 = position s + 4" "view s4 = view s"
proof -
  from assms rd_byte [of s] obtain s1 where 1: "rd s = Inr (view s ! position s, s1)" "sends s1" "position s1 = Suc (position s)" "view s1 = view s" by auto
  with assms rd_byte [of s1] obtain s2 where 2: "rd s1 = Inr (view s ! (position s + 1), s2)" "sends s2" "position s2 = position s + 2" "view s2 = view s" by auto
  with assms rd_byte [of s2] obtain s3 where 3: "rd s2 = Inr (view s ! (position s + 2), s3)" "sends s3" "position s3 = position s + 3" "view s3 = view s" by auto
  with assms rd_byte [of s3] obtain s4 where 4: "rd s3 = Inr (view s ! (position s + 3), s4)" "sends s4" "position s4 = position s + 4" "view s4 = view s" by auto
  show thesis by (rule that [OF 1(1) 2(1) 3(1) 4])
qed

lemma wr_4:
  assumes "receives s" and "position s + 4 < length (view s)"
  obtains s1 s2 s3 s4 where "wr a s = Inr s1" "wr b s1 = Inr s2" "wr c s2 = Inr s3" "wr d s3 = Inr s4"
    "receives s4" "position s4 = position s + 4" "view s4 = splice (position s) [a, b, c, d] (view s)"
proof -
  from assms wr_byte [of s a] obtain s1 where 1: "wr a s = Inr s1" "receives s1" "position s1 = Suc (position s)" "view s1 = (view s)[position s := a]" by auto
  with assms wr_byte [of s1 b] obtain s2 where 2: "wr b s1 = Inr s2" "receives s2" "position s2 = position s + 2" "view s2 = (view s1)[Suc (position s) := b]" by auto
  with assms 1 wr_byte [of s2 c] obtain s3 where 3: "wr c s2 = Inr s3" "receives s3" "position s3 = position s + 3" "view s3 = (view s2)[position s + 2 := c]" by auto
  with assms 1 2 wr_byte [of s3 d] obtain s4 where 4: "wr d s3 = Inr s4" "receives s4" "position s4 = position s + 4" "view s4 = (view s3)[position s + 3 := d]" by auto
  have "view s4 = splice (position s) [a, b, c, d] (view s)"
    using assms(2) unfolding 1(4) 2(4) 3(4) 4(4)
    by (intro nth_equalityI) (auto simp: splice_nth nth_list_update nth_Cons' )
  from that [OF 1(1) 2(1) 3(1) 4(1-3) this] show thesis .
qed

end

lemma address_next:
  assumes "unat (adr :: u32) + k < 2 ^ 32"
  shows "(ucast (adr + of_nat k) :: hwaddr) = ucast adr + of_nat k"
proof (rule unat_word_eqI)
  have "unat (adr + of_nat k) = unat adr + k" using assms by (simp add: unat_word_ariths unat_of_nat)
  then show "unat (ucast (adr + of_nat k) :: hwaddr) = unat (ucast adr + of_nat k :: hwaddr)"
    using assms by (simp add: unat_ucast_mod unat_word_ariths unat_of_nat)
qed

lemma low_byte: "(ucast (z AND 0xff :: u32) :: u8) = ucast z"
proof -
  have m: "0xff = (mask 8 :: u32)" by (simp add: mask_eq_exp_minus_1)
  show ?thesis unfolding m by (rule bit_word_eqI) (auto simp: bit_simps)
qed

context byte_card
begin

lemma read_word:
  assumes c: "sends (x_card x)" and p: "position (x_card x) + 4 < length (view (x_card x))" and n: "x_n x = 0" "x_value x = 0"
  shows "\<exists>c'. rpow 4 (mmc_read_byte rd adr) x = Inr (x\<lparr>x_card := c', x_mem := cpu_physical_memory_write (x_mem x) (ucast (adr + x_pos x))
       (take 4 (drop (position (x_card x)) (view (x_card x)))), x_pos := x_pos x + 4\<rparr>)
     \<and> sends c' \<and> position c' = position (x_card x) + 4 \<and> view c' = view (x_card x)"
proof -
  obtain c0 m pos where x: "x = \<lparr>x_card = c0, x_mem = m, x_value = 0, x_n = 0, x_pos = pos\<rparr>"
    using n by (cases x) simp
  let ?v = "view c0" and ?p = "position c0"
  obtain s1 s2 s3 s4 where r: "rd c0 = Inr (?v ! ?p, s1)" "rd s1 = Inr (?v ! (?p + 1), s2)"
    "rd s2 = Inr (?v ! (?p + 2), s3)" "rd s3 = Inr (?v ! (?p + 3), s4)"
    and s4: "sends s4" "position s4 = ?p + 4" "view s4 = ?v"
    using rd_4 [of c0] c p unfolding x xfer.simps by blast
  define bs where "bs = [?v ! ?p, ?v ! (?p + 1), ?v ! (?p + 2), ?v ! (?p + 3)]"
  have t: "take 4 (drop ?p ?v) = bs"
    using p unfolding bs_def x by (intro nth_equalityI) (auto simp: nth_Cons' less_Suc_eq numeral_eq_Suc)
  have w: "le_bytes (((ucast (?v ! ?p) OR push_bit 8 (ucast (?v ! (?p + 1)))) OR push_bit 16 (ucast (?v ! (?p + 2)))) OR push_bit 24 (ucast (?v ! (?p + 3)))) = bs"
    using le_bytes_word [of bs] by (simp add: le_word_def or.assoc bs_def)
  have f: "(4 :: nat) = Suc (Suc (Suc (Suc 0)))" by simp
  have "rpow 4 (mmc_read_byte rd adr) x = Inr (x\<lparr>x_card := s4, x_mem := cpu_physical_memory_write (x_mem x) (ucast (adr + x_pos x)) bs,
      x_pos := x_pos x + 4\<rparr>)"
    using w unfolding f rpow.simps x
    by (simp add: mmc_read_byte_def r Let_def mmc_fifo_push_def del: One_nat_def Suc_eq_plus1 add_2_eq_Suc add_2_eq_Suc')
  then show ?thesis using s4 t by (auto simp: x)
qed

lemma read_words:
  assumes "sends (x_card x)" and "position (x_card x) + 4 * w < length (view (x_card x))" and "x_n x = 0" "x_value x = 0"
    and "unat (adr + x_pos x) + 4 * w \<le> 2 ^ 32"
  shows "\<exists>c'. rpow (4 * w) (mmc_read_byte rd adr) x = Inr (x\<lparr>x_card := c', x_mem := cpu_physical_memory_write (x_mem x) (ucast (adr + x_pos x))
       (take (4 * w) (drop (position (x_card x)) (view (x_card x)))), x_pos := x_pos x + of_nat (4 * w)\<rparr>)
     \<and> sends c' \<and> position c' = position (x_card x) + 4 * w \<and> view c' = view (x_card x)"
  using assms
proof (induction w)
  case 0
  then show ?case by (cases x) simp
next
  case (Suc w)
  define v p where "v = view (x_card x)" and "p = position (x_card x)"
  define m where "m = cpu_physical_memory_write (x_mem x) (ucast (adr + x_pos x)) (take (4 * w) (drop p v))"
  define q where "q = x_pos x + of_nat (4 * w)"
  obtain c where 1: "rpow (4 * w) (mmc_read_byte rd adr) x = Inr (x\<lparr>x_card := c, x_mem := m, x_pos := q\<rparr>)"
    and c: "sends c" "position c = p + 4 * w" "view c = v"
    using Suc by (auto simp: v_def p_def m_def q_def)
  have a: "(ucast (adr + q) :: hwaddr) = ucast (adr + x_pos x) + of_nat (4 * w)"
    using address_next [of "adr + x_pos x" "4 * w"] Suc.prems(5) by (simp add: q_def add.assoc)
  have t: "take (4 * Suc w) (drop p v) = take (4 * w) (drop p v) @ take 4 (drop (p + 4 * w) v)"
    using take_add [of "4 * w" 4 "drop p v"] by (simp add: add.commute)
  have l: "length (take (4 * w) (drop p v)) = 4 * w" using Suc.prems(2) by (simp add: v_def p_def)
  obtain c' where 2: "rpow 4 (mmc_read_byte rd adr) (x\<lparr>x_card := c, x_mem := m, x_pos := q\<rparr>) = Inr (x\<lparr>x_card := c',
      x_mem := cpu_physical_memory_write m (ucast (adr + q)) (take 4 (drop (p + 4 * w) v)), x_pos := q + 4\<rparr>)"
    and c': "sends c'" "position c' = p + 4 * w + 4" "view c' = v"
    using read_word [of "x\<lparr>x_card := c, x_mem := m, x_pos := q\<rparr>" adr] c Suc.prems by (auto simp: v_def p_def)
  have "rpow (4 * Suc w) (mmc_read_byte rd adr) x = rbind (rpow (4 * w) (mmc_read_byte rd adr) x) (rpow 4 (mmc_read_byte rd adr))"
    using rpow_add [of "4 * w" 4 "mmc_read_byte rd adr" x] by (simp add: add.commute)
  also have "\<dots> = Inr (x\<lparr>x_card := c', x_mem := cpu_physical_memory_write (x_mem x) (ucast (adr + x_pos x)) (take (4 * Suc w) (drop p v)),
      x_pos := x_pos x + of_nat (4 * Suc w)\<rparr>)"
    unfolding 1 rbind_Inr 2 a t mem_write_append l m_def [symmetric] by (simp add: q_def add.assoc)
  finally show ?case
    using c' by (intro exI [of _ c']) (simp add: v_def p_def)
qed

lemma write_word:
  assumes c: "receives (x_card x)" and p: "position (x_card x) + 4 < length (view (x_card x))" and n: "x_n x = 0" and shr: "shifts_bytes shr"
  shows "\<exists>c' val. rpow 4 (mmc_write_byte wr shr adr) x = Inr (x\<lparr>x_card := c', x_value := val, x_pos := x_pos x + 4\<rparr>)
     \<and> receives c' \<and> position c' = position (x_card x) + 4
     \<and> view c' = splice (position (x_card x)) (cpu_physical_memory_read (x_mem x) (ucast (adr + x_pos x)) 4) (view (x_card x))"
proof -
  obtain c0 m v0 pos where x: "x = \<lparr>x_card = c0, x_mem = m, x_value = v0, x_n = 0, x_pos = pos\<rparr>"
    using n by (cases x) simp
  define bs where "bs = cpu_physical_memory_read m (ucast (adr + pos)) 4"
  define w where "w = mmc_fifo_pop adr pos m"
  have b: "bs = [ucast w, ucast (shr w), ucast (shr (shr w)), ucast (shr (shr (shr w)))]"
    using le_bytes_word [of bs] shr unfolding w_def mmc_fifo_pop_def bs_def [symmetric] by (simp add: bs_def shifts_bytes_def)
  obtain s1 s2 s3 s4 where r: "wr (ucast w) c0 = Inr s1" "wr (ucast (shr w)) s1 = Inr s2" "wr (ucast (shr (shr w))) s2 = Inr s3"
      "wr (ucast (shr (shr (shr w)))) s3 = Inr s4"
    and s4: "receives s4" "position s4 = position c0 + 4" "view s4 = splice (position c0) bs (view c0)"
    using wr_4 [of c0] c p unfolding x xfer.simps b by blast
  have f: "(4 :: nat) = Suc (Suc (Suc (Suc 0)))" by simp
  have "rpow 4 (mmc_write_byte wr shr adr) x = Inr (x\<lparr>x_card := s4, x_value := shr (shr (shr (shr w))), x_pos := x_pos x + 4\<rparr>)"
    unfolding f rpow.simps x by (simp add: mmc_write_byte_def r Let_def low_byte w_def [symmetric])
  then show ?thesis using s4 by (auto simp: x bs_def)
qed

lemma write_words:
  assumes "receives (x_card x)" and "position (x_card x) + 4 * w < length (view (x_card x))" and "x_n x = 0"
    and "unat (adr + x_pos x) + 4 * w \<le> 2 ^ 32" and "shifts_bytes shr"
  shows "\<exists>c' val. rpow (4 * w) (mmc_write_byte wr shr adr) x = Inr (x\<lparr>x_card := c', x_value := val, x_pos := x_pos x + of_nat (4 * w)\<rparr>)
     \<and> receives c' \<and> position c' = position (x_card x) + 4 * w
     \<and> view c' = splice (position (x_card x)) (cpu_physical_memory_read (x_mem x) (ucast (adr + x_pos x)) (4 * w)) (view (x_card x))"
  using assms
proof (induction w)
  case 0
  then show ?case by (cases x) (simp add: cpu_physical_memory_read_def)
next
  case (Suc w)
  define v p where "v = view (x_card x)" and "p = position (x_card x)"
  define bs where "bs = cpu_physical_memory_read (x_mem x) (ucast (adr + x_pos x)) (4 * w)"
  define q where "q = x_pos x + of_nat (4 * w)"
  obtain c val where 1: "rpow (4 * w) (mmc_write_byte wr shr adr) x = Inr (x\<lparr>x_card := c, x_value := val, x_pos := q\<rparr>)"
    and c: "receives c" "position c = p + 4 * w" "view c = splice p bs v"
    using Suc by (auto simp: v_def p_def bs_def q_def)
  have a: "(ucast (adr + q) :: hwaddr) = ucast (adr + x_pos x) + of_nat (4 * w)"
    using address_next [of "adr + x_pos x" "4 * w"] Suc.prems(4) by (simp add: q_def add.assoc)
  have l: "length bs = 4 * w" by (simp add: bs_def)
  have le: "p + 4 * w + 4 < length v" using Suc.prems(2) by (simp add: v_def p_def)
  obtain c' val' where 2: "rpow 4 (mmc_write_byte wr shr adr) (x\<lparr>x_card := c, x_value := val, x_pos := q\<rparr>)
      = Inr (x\<lparr>x_card := c', x_value := val', x_pos := q + 4\<rparr>)"
    and c': "receives c'" "position c' = p + 4 * w + 4"
      "view c' = splice (p + 4 * w) (cpu_physical_memory_read (x_mem x) (ucast (adr + q)) 4) (splice p bs v)"
    using write_word [of "x\<lparr>x_card := c, x_value := val, x_pos := q\<rparr>" shr adr] c Suc.prems le l by auto
  have "cpu_physical_memory_read (x_mem x) (ucast (adr + x_pos x)) (4 * Suc w)
      = bs @ cpu_physical_memory_read (x_mem x) (ucast (adr + q)) 4"
    using mem_read_add [of "x_mem x" _ "4 * w" 4] by (simp add: bs_def a add.commute)
  then have 3: "view c' = splice p (cpu_physical_memory_read (x_mem x) (ucast (adr + x_pos x)) (4 * Suc w)) v"
    using splice_splice [of p bs _ v] le unfolding c'(3) l by simp
  have "rpow (4 * Suc w) (mmc_write_byte wr shr adr) x = rbind (rpow (4 * w) (mmc_write_byte wr shr adr) x) (rpow 4 (mmc_write_byte wr shr adr))"
    using rpow_add [of "4 * w" 4 "mmc_write_byte wr shr adr" x] by (simp add: add.commute)
  also have "\<dots> = Inr (x\<lparr>x_card := c', x_value := val', x_pos := x_pos x + of_nat (4 * Suc w)\<rparr>)"
    unfolding 1 rbind_Inr 2 by (simp add: q_def add.assoc)
  finally show ?case
    using c' 3 by (intro exI [of _ c'] exI [of _ val']) (simp add: v_def p_def)
qed

end

lemma address_step:
  assumes "unat (adr :: u32) + Suc k * cnt \<le> 2 ^ 32" and "0 < cnt"
  shows "unat (adr + of_nat cnt) + k * cnt \<le> 2 ^ 32"
    and "k = 0 \<or> (ucast (adr + of_nat cnt) :: hwaddr) = ucast adr + of_nat cnt"
proof -
  show "unat (adr + of_nat cnt) + k * cnt \<le> 2 ^ 32"
    using assms unat_u32_less [of "adr + of_nat cnt"] by (cases "k = 0") (auto simp: unat_word_ariths unat_of_nat)
  show "k = 0 \<or> (ucast (adr + of_nat cnt) :: hwaddr) = ucast adr + of_nat cnt"
  proof (cases "k = 0")
    case False
    then have "0 < k * cnt" using assms(2) by simp
    then have "unat adr + cnt < 2 ^ 32" using assms(1) unfolding mult_Suc by linarith
    then show ?thesis using address_next [of adr cnt] by simp
  qed simp
qed

lemma boundary_step:
  assumes "\<not> masked \<or> Suc k * cnt \<le> unat (bc :: u32)" and "0 < cnt"
  shows "\<not> masked \<or> k * cnt \<le> unat (bc - of_nat cnt)" and "bc - of_nat cnt = 0 \<and> masked \<Longrightarrow> k = 0"
proof -
  have *: "unat (bc - of_nat cnt) = unat bc - cnt" if masked
    using that assms unat_u32_less [of bc] by (subst unat_sub_u32) (simp_all add: unat_of_nat)
  show "\<not> masked \<or> k * cnt \<le> unat (bc - of_nat cnt)" using * assms by auto
  show "k = 0" if "bc - of_nat cnt = 0 \<and> masked"
  proof -
    from that * have "unat bc - cnt = 0" by (metis unat_0)
    moreover have "Suc k * cnt \<le> unat bc" using that assms(1) by blast
    ultimately have "k * cnt = 0" unfolding mult_Suc by linarith
    then show ?thesis using assms(2) by simp
  qed
qed

context byte_card
begin

lemma read_blocks:
  assumes "sends (x_card x)" and "position (x_card x) + k * (4 * w) < length (view (x_card x))" and "x_n x = 0" "x_value x = 0"
    and "unat adr + k * (4 * w) \<le> 2 ^ 32" and "\<not> masked \<or> k * (4 * w) \<le> unat bc" and "0 < w"
  shows "\<exists>c' q. mmc_blocks (mmc_read_byte rd) (4 * w) masked k bc adr x = Inr (0, adr + of_nat (k * (4 * w)),
       x\<lparr>x_card := c', x_mem := cpu_physical_memory_write (x_mem x) (ucast adr) (take (k * (4 * w)) (drop (position (x_card x)) (view (x_card x)))), x_pos := q\<rparr>)
     \<and> sends c' \<and> position c' = position (x_card x) + k * (4 * w) \<and> view c' = view (x_card x)"
  using assms
proof (induction k arbitrary: adr bc x)
  case 0
  then show ?case by (cases x) auto
next
  case (Suc k)
  define cnt where "cnt = 4 * w"
  have cnt0: "0 < cnt" using Suc.prems(7) by (simp add: cnt_def)
  define v p where "v = view (x_card x)" and "p = position (x_card x)"
  have len: "p + Suc k * cnt < length v" using Suc.prems(2) by (simp add: v_def p_def cnt_def)
  define m where "m = cpu_physical_memory_write (x_mem x) (ucast adr) (take cnt (drop p v))"
  obtain c where 1: "mmc_block (mmc_read_byte rd) cnt adr x = Inr (x\<lparr>x_card := c, x_mem := m, x_pos := of_nat cnt\<rparr>)"
    and c: "sends c" "position c = p + cnt" "view c = v"
    using read_words [of "x\<lparr>x_pos := 0\<rparr>" w adr] Suc.prems len
    by (auto simp: mmc_block_def cnt_def v_def p_def m_def)
  note st = address_step [OF Suc.prems(5) [folded cnt_def] cnt0] boundary_step [OF Suc.prems(6) [folded cnt_def] cnt0]
  let ?x = "x\<lparr>x_card := c, x_mem := m, x_pos := of_nat cnt\<rparr>"
  have t: "take (Suc k * cnt) (drop p v) = take cnt (drop p v) @ take (k * cnt) (drop (p + cnt) v)"
    using take_add [of cnt "k * cnt" "drop p v"] by (simp add: add.commute)
  have l: "length (take cnt (drop p v)) = cnt" using len by simp
  obtain c' q where 2: "mmc_blocks (mmc_read_byte rd) cnt masked k (bc - of_nat cnt) (adr + of_nat cnt) ?x
      = Inr (0, adr + of_nat cnt + of_nat (k * cnt), x\<lparr>x_card := c', x_mem := cpu_physical_memory_write m (ucast (adr + of_nat cnt))
          (take (k * cnt) (drop (p + cnt) v)), x_pos := q\<rparr>)"
    and c': "sends c'" "position c' = p + cnt + k * cnt" "view c' = v"
    using Suc.IH [of ?x "adr + of_nat cnt" "bc - of_nat cnt"] c Suc.prems(3,4,7) len st(1,3) unfolding cnt_def by auto
  have m': "cpu_physical_memory_write m (ucast (adr + of_nat cnt)) (take (k * cnt) (drop (p + cnt) v))
      = cpu_physical_memory_write (x_mem x) (ucast adr) (take (Suc k * cnt) (drop p v))"
    using st(2) unfolding t mem_write_append l m_def by auto
  have "mmc_blocks (mmc_read_byte rd) cnt masked (Suc k) bc adr x = Inr (0, adr + of_nat cnt + of_nat (k * cnt),
      x\<lparr>x_card := c', x_mem := cpu_physical_memory_write (x_mem x) (ucast adr) (take (Suc k * cnt) (drop p v)), x_pos := q\<rparr>)"
    (is "_ = Inr (0, _, ?y)")
  proof (cases "bc - of_nat cnt = 0 \<and> masked")
    case True
    then show ?thesis using 1 2 st(4) m' unfolding mmc_blocks.simps by (simp add: Let_def)
  next
    case False
    then show ?thesis using 1 2 m' by (auto simp: Let_def)
  qed
  then show ?case
    using c' by (intro exI [of _ c'] exI [of _ q]) (simp add: v_def p_def cnt_def algebra_simps)
qed

lemma write_blocks:
  assumes "receives (x_card x)" and "position (x_card x) + k * (4 * w) < length (view (x_card x))" and "x_n x = 0"
    and "unat adr + k * (4 * w) \<le> 2 ^ 32" and "\<not> masked \<or> k * (4 * w) \<le> unat bc" and "0 < w" and "shifts_bytes shr"
  shows "\<exists>c' val q. mmc_blocks (mmc_write_byte wr shr) (4 * w) masked k bc adr x = Inr (0, adr + of_nat (k * (4 * w)),
       x\<lparr>x_card := c', x_value := val, x_pos := q\<rparr>)
     \<and> receives c' \<and> position c' = position (x_card x) + k * (4 * w)
     \<and> view c' = splice (position (x_card x)) (cpu_physical_memory_read (x_mem x) (ucast adr) (k * (4 * w))) (view (x_card x))"
  using assms
proof (induction k arbitrary: adr bc x)
  case 0
  then show ?case by (cases x) (auto simp: cpu_physical_memory_read_def)
next
  case (Suc k)
  define cnt where "cnt = 4 * w"
  have cnt0: "0 < cnt" using Suc.prems(6) by (simp add: cnt_def)
  define v p where "v = view (x_card x)" and "p = position (x_card x)"
  have len: "p + Suc k * cnt < length v" using Suc.prems(2) by (simp add: v_def p_def cnt_def)
  define bs where "bs = cpu_physical_memory_read (x_mem x) (ucast adr) cnt"
  have l: "length bs = cnt" by (simp add: bs_def)
  obtain c val where 1: "mmc_block (mmc_write_byte wr shr) cnt adr x = Inr (x\<lparr>x_card := c, x_value := val, x_pos := of_nat cnt\<rparr>)"
    and c: "receives c" "position c = p + cnt" "view c = splice p bs v"
    using write_words [of "x\<lparr>x_pos := 0\<rparr>" w adr shr] Suc.prems len
    by (auto simp: mmc_block_def cnt_def v_def p_def bs_def)
  note st = address_step [OF Suc.prems(4) [folded cnt_def] cnt0] boundary_step [OF Suc.prems(5) [folded cnt_def] cnt0]
  let ?x = "x\<lparr>x_card := c, x_value := val, x_pos := of_nat cnt\<rparr>"
  obtain c' val' q where 2: "mmc_blocks (mmc_write_byte wr shr) cnt masked k (bc - of_nat cnt) (adr + of_nat cnt) ?x
      = Inr (0, adr + of_nat cnt + of_nat (k * cnt), x\<lparr>x_card := c', x_value := val', x_pos := q\<rparr>)"
    and c': "receives c'" "position c' = p + cnt + k * cnt"
      "view c' = splice (p + cnt) (cpu_physical_memory_read (x_mem x) (ucast (adr + of_nat cnt)) (k * cnt)) (splice p bs v)"
    using Suc.IH [of ?x "adr + of_nat cnt" "bc - of_nat cnt"] c Suc.prems(3,6,7) len l st(1,3) unfolding cnt_def by auto
  have "cpu_physical_memory_read (x_mem x) (ucast adr) (Suc k * cnt)
      = bs @ cpu_physical_memory_read (x_mem x) (ucast (adr + of_nat cnt)) (k * cnt)"
    using mem_read_add [of "x_mem x" "ucast adr" cnt "k * cnt"] st(2) by (auto simp: bs_def cpu_physical_memory_read_def)
  then have 3: "view c' = splice p (cpu_physical_memory_read (x_mem x) (ucast adr) (Suc k * cnt)) v"
    using splice_splice [of p bs "cpu_physical_memory_read (x_mem x) (ucast (adr + of_nat cnt)) (k * cnt)" v] len l
    unfolding c'(3) by (simp add: add.assoc)
  have "mmc_blocks (mmc_write_byte wr shr) cnt masked (Suc k) bc adr x = Inr (0, adr + of_nat cnt + of_nat (k * cnt),
      x\<lparr>x_card := c', x_value := val', x_pos := q\<rparr>)"
    using 1 2 st(4) by (cases "bc - of_nat cnt = 0 \<and> masked") (auto simp: Let_def)
  then show ?case
    using c' 3 by (intro exI [of _ c'] exI [of _ val'] exI [of _ q]) (simp add: v_def p_def cnt_def algebra_simps)
qed

end

section \<open>The controller and the card\<close>

text \<open>The pointer to the card satisfies the contract of the card.\<close>

definition mmc_sends :: "SDState option \<Rightarrow> bool" where
  "mmc_sends c \<longleftrightarrow> (case c of None \<Rightarrow> False | Some sd \<Rightarrow> sd_sends sd)"

definition mmc_receives :: "u32 \<Rightarrow> SDState option \<Rightarrow> bool" where
  "mmc_receives v c \<longleftrightarrow> (case c of None \<Rightarrow> False | Some sd \<Rightarrow> sd_receives v sd)"

interpretation mmcc: byte_card card_read card_write mmc_sends "mmc_receives v" "\<lambda>c. sd_pos (the c)" "\<lambda>c. card_view (the c)"
proof
  fix c assume "mmc_sends c" "Suc (sd_pos (the c)) < length (card_view (the c))"
  then show "\<exists>c'. card_read c = Inr (card_view (the c) ! sd_pos (the c), c') \<and> mmc_sends c' \<and> sd_pos (the c') = Suc (sd_pos (the c))
      \<and> card_view (the c') = card_view (the c)"
    using sdc.rd_byte [of "the c"] by (cases c) (auto simp: mmc_sends_def card_read_def)
next
  fix c a assume "mmc_receives v c" "Suc (sd_pos (the c)) < length (card_view (the c))"
  then show "\<exists>c'. card_write a c = Inr c' \<and> mmc_receives v c' \<and> sd_pos (the c') = Suc (sd_pos (the c))
      \<and> card_view (the c') = (card_view (the c))[sd_pos (the c) := a]"
    using sdc.wr_byte [of v "the c" a] by (cases c) (auto simp: mmc_receives_def card_write_def)
qed

lemma blocks_one: "mmc_blocks step cnt False 1 bc adr x = Inr (0, a, y) \<Longrightarrow> mmc_block step cnt adr x = Inr y"
  by (auto simp: Let_def elim!: rbind_InrE split: if_splits)

text \<open>The conditions under which a transfer of \<open>k\<close> blocks runs to its end at once.\<close>

definition transfer_fits :: "S5pc1xxMMCState \<Rightarrow> nat \<Rightarrow> bool" where
  "transfer_fits s k \<longleftrightarrow> 0 < k \<and> unat (blkcnt s) = k \<and> mmc_datacnt s = 512 \<and> unat (sysad s) + k * 512 \<le> 2 ^ 32
     \<and> (norintstsen s AND 0x8 = 0 \<or> k * 512 \<le> unat (mmc_boundary s))"

lemma transfer_fits_count: "transfer_fits s k \<Longrightarrow> blkcnt s \<noteq> 0 \<and> (blkcnt s > 1 \<longleftrightarrow> k > 1)"
  by (auto simp: transfer_fits_def word_less_nat_alt)

lemma mmc_fifo_run_blocks:
  assumes f: "transfer_fits s k" and go: "mmc_is_read s \<Longrightarrow> card_data_ready (mmc_card s) = Inr True"
    and b: "mmc_blocks (mmc_step (drop_bit 8) (mmc_is_read s)) 512 (k > 1 \<and> norintstsen s AND 0x8 \<noteq> 0) k (mmc_boundary s) (sysad s)
      \<lparr>x_card = mmc_card s, x_mem = m, x_value = 0, x_n = 0, x_pos = 0\<rparr> = Inr (0, a, y)"
  shows "mmc_fifo_run (m, s) = Inr (x_mem y, s\<lparr>mmc_card := x_card y, sysad := if k > 1 then a else sysad s, blkcnt := 0,
    norintsts := norintsts s OR S5C_HSMMC_NIS_TRSCMP\<rparr>)"
proof -
  have n: "blkcnt s \<noteq> 0" "blkcnt s > 1 \<longleftrightarrow> k > 1" "unat (blkcnt s) = k" "mmc_datacnt s = 512"
    using transfer_fits_count [OF f] f by (auto simp: transfer_fits_def)
  have g: "(if mmc_is_read s then card_data_ready (mmc_card s) else Inr True) = Inr True" using go by simp
  show ?thesis
  proof (cases "k > 1")
    case True
    with b have "mmc_multi (drop_bit 8) (m, s) = Inr (x_mem y, s\<lparr>mmc_card := x_card y, sysad := a, blkcnt := 0\<rparr>)"
      unfolding mmc_multi_def by (simp add: n(3,4))
    with True n(1,2) show ?thesis unfolding mmc_fifo_run_def by (simp add: g)
  next
    case False
    then have k: "k = 1" using f by (simp add: transfer_fits_def)
    have "blkcnt s - 1 = 0" using n(3) k by (metis diff_self unat_1 unat_word_eqI)
    moreover have "mmc_block (mmc_step (drop_bit 8) (mmc_is_read s)) 512 (sysad s)
        \<lparr>x_card = mmc_card s, x_mem = m, x_value = 0, x_n = 0, x_pos = 0\<rparr> = Inr y"
      using b k by (intro blocks_one) simp
    ultimately show ?thesis using False n unfolding mmc_fifo_run_def by (simp add: g)
  qed
qed

lemma mmc_fifo_run_read:
  assumes c: "mmc_card s = Some sd" "sd_sends sd" and r: "mmc_is_read s" and f: "transfer_fits s k"
    and p: "sd_pos sd + k * 512 < length (card_view sd)"
  shows "\<exists>sd' a. mmc_fifo_run (m, s) = Inr (cpu_physical_memory_write m (ucast (sysad s)) (take (k * 512) (drop (sd_pos sd) (card_view sd))),
       s\<lparr>mmc_card := Some sd', sysad := a, blkcnt := 0, norintsts := norintsts s OR S5C_HSMMC_NIS_TRSCMP\<rparr>)
     \<and> sd_sends sd' \<and> card_view sd' = card_view sd"
proof -
  let ?x = "\<lparr>x_card = mmc_card s, x_mem = m, x_value = 0, x_n = 0, x_pos = 0\<rparr>"
  obtain c' q a where b: "mmc_blocks (mmc_read_byte card_read) 512 (k > 1 \<and> norintstsen s AND 0x8 \<noteq> 0) k (mmc_boundary s) (sysad s) ?x
      = Inr (0, a, ?x\<lparr>x_card := c', x_mem := cpu_physical_memory_write m (ucast (sysad s)) (take (k * 512) (drop (sd_pos sd) (card_view sd))), x_pos := q\<rparr>)"
    and c': "mmc_sends c'" "card_view (the c') = card_view sd"
    using mmcc.read_blocks [of ?x k 128 "sysad s" "k > 1 \<and> norintstsen s AND 0x8 \<noteq> 0" "mmc_boundary s"] f c p
    by (auto simp: transfer_fits_def mmc_sends_def)
  have "card_data_ready (mmc_card s) = Inr True"
    using c by (simp add: card_data_ready_def sd_data_ready_def sd_sends_def sd_sending_def)
  moreover have "mmc_step (drop_bit 8) (mmc_is_read s) = mmc_read_byte card_read" using r by (simp add: mmc_step_def)
  moreover obtain sd' where "c' = Some sd'" "sd_sends sd'" using c'(1) by (auto simp: mmc_sends_def split: option.splits)
  ultimately show ?thesis
    using mmc_fifo_run_blocks [OF f, of m a] b c'(2)
    by (intro exI [of _ sd'] exI [of _ "if k > 1 then a else sysad s"]) simp
qed

lemma mmc_fifo_run_write:
  assumes c: "mmc_card s = Some sd" "sd_receives v sd" and r: "\<not> mmc_is_read s" and f: "transfer_fits s k"
    and p: "sd_pos sd + k * 512 < length (card_view sd)"
  shows "\<exists>sd' a. mmc_fifo_run (m, s) = Inr (m,
       s\<lparr>mmc_card := Some sd', sysad := a, blkcnt := 0, norintsts := norintsts s OR S5C_HSMMC_NIS_TRSCMP\<rparr>)
     \<and> sd_receives v sd' \<and> sd_pos sd' = sd_pos sd + k * 512
     \<and> card_view sd' = splice (sd_pos sd) (cpu_physical_memory_read m (ucast (sysad s)) (k * 512)) (card_view sd)"
proof -
  let ?x = "\<lparr>x_card = mmc_card s, x_mem = m, x_value = 0, x_n = 0, x_pos = 0\<rparr>"
  obtain c' w q a where b: "mmc_blocks (mmc_write_byte card_write (drop_bit 8)) 512 (k > 1 \<and> norintstsen s AND 0x8 \<noteq> 0) k (mmc_boundary s) (sysad s) ?x
      = Inr (0, a, ?x\<lparr>x_card := c', x_value := w, x_pos := q\<rparr>)"
    and c': "mmc_receives v c'" "sd_pos (the c') = sd_pos sd + k * 512"
      "card_view (the c') = splice (sd_pos sd) (cpu_physical_memory_read m (ucast (sysad s)) (k * 512)) (card_view sd)"
    using mmcc.write_blocks [of v ?x k 128 "sysad s" "k > 1 \<and> norintstsen s AND 0x8 \<noteq> 0" "mmc_boundary s" "drop_bit 8"] f c p shifts_unsigned
    by (auto simp: transfer_fits_def mmc_receives_def)
  have "mmc_step (drop_bit 8) (mmc_is_read s) = mmc_write_byte card_write (drop_bit 8)" using r by (simp add: mmc_step_def)
  moreover obtain sd' where "c' = Some sd'" "sd_receives v sd'" using c'(1) by (auto simp: mmc_receives_def split: option.splits)
  ultimately show ?thesis
    using mmc_fifo_run_blocks [OF f, of m a] b c'(2,3) r
    by (intro exI [of _ sd'] exI [of _ "if k > 1 then a else sysad s"]) simp
qed

section \<open>A driver of the guest\<close>

text \<open>
  The register writes of a transfer of \<open>n\<close> blocks of 512 bytes between the buffer at \<open>adr\<close> and the card address \<open>arg\<close>, with
  buffer boundaries every 512 KB: CMD18 to read, CMD25 to write.  CMD12 ends the transfer.
\<close>

definition mmc_transfer :: "u64 \<Rightarrow> bool \<Rightarrow> u32 \<Rightarrow> u32 \<Rightarrow> nat \<Rightarrow> memory \<times> S5pc1xxMMCState \<Rightarrow> (memory \<times> S5pc1xxMMCState) res" where
  "mmc_transfer now rd arg adr n S =
     rbind (mmc_writel S 0x00 adr) (\<lambda>S.
     rbind (mmc_writew now S 0x04 0x7200) (\<lambda>S.
     rbind (mmc_writew now S 0x06 (of_nat n)) (\<lambda>S.
     rbind (mmc_writel S 0x08 arg) (\<lambda>S.
     rbind (mmc_writew now S 0x0c (if rd then 0x37 else 0x27)) (\<lambda>S.
     mmc_writew now S 0x0e (if rd then 0x123a else 0x193a))))))"

definition mmc_stop :: "u64 \<Rightarrow> memory \<times> S5pc1xxMMCState \<Rightarrow> (memory \<times> S5pc1xxMMCState) res" where
  "mmc_stop now S = mmc_writew now S 0x0e 0x0c1b"

definition buffer_ok :: "S5pc1xxMMCState \<Rightarrow> u32 \<Rightarrow> nat \<Rightarrow> bool" where
  "buffer_ok s adr n \<longleftrightarrow> unat adr + n * 512 \<le> 2 ^ 32 \<and> (norintstsen s AND 0x8 = 0 \<or> unat adr mod 2 ^ 19 + n * 512 \<le> 2 ^ 19)"

definition mmc_armed :: "bool \<Rightarrow> u32 \<Rightarrow> u32 \<Rightarrow> nat \<Rightarrow> S5pc1xxMMCState \<Rightarrow> S5pc1xxMMCState" where
  "mmc_armed rd arg adr n s = s\<lparr>sysad := adr, blksize := 0x7200, blkcnt := of_nat n, mmc_argument := arg, cmdarg := arg,
     trnmod := if rd then 0x37 else 0x27, cmdreg := if rd then 0x123a else 0x193a\<rparr>"

lemma ucast_count: "(ucast (of_nat n :: u32) :: u16) = of_nat n"
  by (rule unat_word_eqI) (simp add: unat_ucast_mod unat_of_nat mod_mod_cancel)

lemma trscmp_bit: "(w AND S5C_HSMMC_NIS_TRSCMP \<noteq> 0) = bit w 1"
  using and_exp_eq_0_iff_not_bit [of w 1] by simp

lemma command_status_trscmp:
  "norintsts s AND S5C_HSMMC_NIS_TRSCMP \<noteq> 0 \<Longrightarrow> norintsts (mmc_command_status s) AND S5C_HSMMC_NIS_TRSCMP \<noteq> 0"
  unfolding trscmp_bit by (simp add: mmc_command_status_def Let_def bit_simps)

lemma command_status_frame: "mmc_card (mmc_command_status s) = mmc_card s" "blkcnt (mmc_command_status s) = blkcnt s"
  "norintstsen (mmc_command_status s) = norintstsen s"
  by (simp_all add: mmc_command_status_def Let_def)

lemma mmc_transfer_command:
  "blkcnt s = 0 \<Longrightarrow> mmc_transfer now rd arg adr n (m, s) = mmc_command now (m, mmc_armed rd arg adr n s)"
  by (simp add: mmc_transfer_def mmc_writel_def mmc_writew_def mmc_set_sysad_def mmc_armed_def ucast_count)

lemma armed_fits:
  assumes "buffer_ok s adr n" and "0 < n" "n < 2 ^ 16"
  shows "transfer_fits (mmc_armed rd arg adr n s) n" "mmc_is_read (mmc_armed rd arg adr n s) = rd"
proof -
  have b: "mmc_boundary (mmc_armed rd arg adr n s) = 0x80000 - adr mod 0x80000"
    by (simp add: mmc_boundary_def mmc_armed_def)
  have "adr mod 0x80000 \<le> 0x80000" using word_mod_less_divisor [of "0x80000" adr] by simp
  then have "unat (mmc_boundary (mmc_armed rd arg adr n s)) = 2 ^ 19 - unat adr mod 2 ^ 19"
    unfolding b by (subst unat_sub) (simp_all add: unat_mod_distrib)
  then show "transfer_fits (mmc_armed rd arg adr n s) n"
    using assms by (auto simp: transfer_fits_def buffer_ok_def mmc_armed_def mmc_datacnt_def unat_of_nat)
  show "mmc_is_read (mmc_armed rd arg adr n s) = rd"
    by (simp add: mmc_is_read_def mmc_armed_def)
qed

lemma armed_frame: "norintstsen (mmc_armed rd arg adr n s) = norintstsen s"
  by (simp add: mmc_armed_def)

lemma mmc_send_ok:
  assumes "mmc_card s = Some sd" and "sd_do_command (ucast (drop_bit 8 (cmdreg s))) (cmdarg s) sd = Inr (r, sd')" and "length r = 4"
  shows "\<exists>w. mmc_send_command now s = Inr (s\<lparr>errintsts := 0, response_timer := Some now, mmc_card := Some sd', mmc_response := w\<rparr>)"
proof (cases "cmdreg s AND 3 = 0")
  case True
  with assms show ?thesis by (intro exI [of _ "mmc_response s"]) (simp add: mmc_send_command_def)
next
  case False
  with assms show ?thesis by (intro exI [of _ "[RWORD r 0, 0, 0, 0]"]) (simp add: mmc_send_command_def)
qed

text \<open>A read of \<open>n\<close> blocks puts the bytes of the image into the memory.\<close>

lemma mmc_read_transfer:
  assumes c: "mmc_card s = Some sd" "card_ready b sd" and s: "blkcnt s = 0" and n: "0 < n" "n < 2 ^ 16"
    and a: "512 dvd unat (sd_address arg sd)" "unat (sd_address arg sd) + n * 512 < length (disk b)" and buf: "buffer_ok s adr n"
  shows "\<exists>s' sd'. mmc_transfer now True arg adr n (m, s)
      = Inr (cpu_physical_memory_write m (ucast adr) (take (n * 512) (drop (unat (sd_address arg sd)) (disk b))), s')
    \<and> mmc_card s' = Some sd' \<and> card_view sd' = disk b \<and> norintsts s' AND S5C_HSMMC_NIS_TRSCMP \<noteq> 0"
proof -
  let ?s = "mmc_armed True arg adr n s"
  have "n * 512 \<ge> 512" using n by simp
  then have r: "unat (sd_address arg sd) + 512 \<le> length (disk b)" using a(2) by linarith
  obtain resp sd1 where d: "sd_do_command 18 arg sd = Inr (resp, sd1)" "length resp = 4" and s1: "sd_sending 18 b sd1"
      "data_start sd1 = sd_address arg sd" "data_offset sd1 = 0"
    using cmd_read [OF c(2), of 18] r by blast
  obtain w where w: "mmc_send_command now ?s = Inr (?s\<lparr>errintsts := 0, response_timer := Some now, mmc_card := Some sd1, mmc_response := w\<rparr>)"
    (is "_ = Inr ?s1") using mmc_send_ok [of ?s sd resp sd1 now] c d by (auto simp: mmc_armed_def)
  have m1: "sd_sends sd1" "card_view sd1 = disk b" "sd_pos sd1 = unat (sd_address arg sd)"
    using s1 a sending_medium [OF s1(1)] by (simp_all add: sd_sends_def sd_pos_def)
  have f: "transfer_fits ?s1 n" "mmc_is_read ?s1"
    using armed_fits [OF buf n, of True arg] by (simp_all add: transfer_fits_def mmc_boundary_def mmc_is_read_def mmc_datacnt_def)
  obtain sd2 q where "mmc_fifo_run (m, ?s1) = Inr (cpu_physical_memory_write m (ucast adr) (take (n * 512) (drop (unat (sd_address arg sd)) (disk b))),
       ?s1\<lparr>mmc_card := Some sd2, sysad := q, blkcnt := 0, norintsts := norintsts ?s1 OR S5C_HSMMC_NIS_TRSCMP\<rparr>)"
    "card_view sd2 = disk b"
    using mmc_fifo_run_read [OF _ m1(1) f(2,1)] a(2) unfolding m1 by (fastforce simp: mmc_armed_def)
  then show ?thesis
    unfolding mmc_transfer_command [OF s] mmc_command_def by (simp add: w command_status_frame command_status_trscmp)
qed

text \<open>A write of \<open>n\<close> blocks puts the bytes of the memory into the image, and leaves the card waiting for more.\<close>

lemma mmc_write_transfer:
  assumes c: "mmc_card s = Some sd" "card_ready b sd" "\<not> read_only b" "True \<notin> set (wp_groups sd)" and s: "blkcnt s = 0" and n: "0 < n" "n < 2 ^ 16"
    and a: "512 dvd unat (sd_address arg sd)" "unat (sd_address arg sd) + n * 512 < length (disk b)" and buf: "buffer_ok s adr n"
  shows "\<exists>s' sd'. mmc_transfer now False arg adr n (m, s) = Inr (m, s') \<and> mmc_card s' = Some sd' \<and> blkcnt s' = 0 \<and> norintstsen s' = norintstsen s
    \<and> sd_receives (ocr sd) sd' \<and> sd_pos sd' = unat (sd_address arg sd) + n * 512
    \<and> card_view sd' = splice (unat (sd_address arg sd)) (cpu_physical_memory_read m (ucast adr) (n * 512)) (disk b)
    \<and> norintsts s' AND S5C_HSMMC_NIS_TRSCMP \<noteq> 0"
proof -
  let ?s = "mmc_armed False arg adr n s"
  have "n * 512 \<ge> 512" using n by simp
  then have r: "unat (sd_address arg sd) + 512 \<le> length (disk b)" using a(2) by linarith
  obtain x sd1 where d: "sd_do_command 25 arg sd = Inr (word_bytes x, sd1)" and s1: "sd_receiving 25 b sd1"
      "data_start sd1 = sd_address arg sd" "data_offset sd1 = 0" "wp_groups sd1 = wp_groups sd" "ocr sd1 = ocr sd"
    using cmd_write [OF c(2) _ c(3) r, of 25] by blast
  obtain w where w: "mmc_send_command now ?s = Inr (?s\<lparr>errintsts := 0, response_timer := Some now, mmc_card := Some sd1, mmc_response := w\<rparr>)"
    (is "_ = Inr ?s1") using mmc_send_ok [of ?s sd "word_bytes x" sd1 now] c d by (auto simp: mmc_armed_def)
  have m1: "sd_receives (ocr sd) sd1" "card_view sd1 = disk b" "sd_pos sd1 = unat (sd_address arg sd)"
    using s1 a c(4) receiving_medium [OF s1(1)] by (simp_all add: sd_receives_def sd_pos_def sd_view_def)
  have f: "transfer_fits ?s1 n" "\<not> mmc_is_read ?s1"
    using armed_fits [OF buf n, of False arg] by (simp_all add: transfer_fits_def mmc_boundary_def mmc_is_read_def mmc_datacnt_def)
  obtain sd2 q where "mmc_fifo_run (m, ?s1) = Inr (m,
       ?s1\<lparr>mmc_card := Some sd2, sysad := q, blkcnt := 0, norintsts := norintsts ?s1 OR S5C_HSMMC_NIS_TRSCMP\<rparr>)"
    "sd_receives (ocr sd) sd2" "sd_pos sd2 = unat (sd_address arg sd) + n * 512"
    "card_view sd2 = splice (unat (sd_address arg sd)) (cpu_physical_memory_read m (ucast adr) (n * 512)) (disk b)"
    using mmc_fifo_run_write [OF _ m1(1) f(2,1)] a(2) unfolding m1 by (fastforce simp: mmc_armed_def)
  then show ?thesis
    unfolding mmc_transfer_command [OF s] mmc_command_def by (simp add: w command_status_frame command_status_trscmp armed_frame)
qed

lemma receives_aligned:
  assumes "sd_receives v sd" and "512 dvd sd_pos sd"
  shows "card_view sd = disk (sd_medium sd)"
proof -
  have r: "sd_receiving 25 (sd_medium sd) sd" "512 dvd unat (data_start sd)" using assms by (simp_all add: sd_receives_def)
  have "512 dvd unat (data_offset sd)" using r(2) assms(2) by (simp add: sd_pos_def dvd_add_right_iff)
  moreover have "unat (data_offset sd) < 512" using r(1) by (simp add: sd_receiving_def)
  ultimately have "unat (data_offset sd) = 0" by (metis dvd_imp_le leD neq0_conv)
  then show ?thesis using receiving_medium [OF r(1)] by (simp add: sd_view_def)
qed

lemma mmc_stop_ok:
  assumes c: "mmc_card s = Some sd" "sd_receives v sd" "512 dvd sd_pos sd" and s: "blkcnt s = 0"
  shows "\<exists>s' sd' b. mmc_stop now (m, s) = Inr (m, s') \<and> mmc_card s' = Some sd' \<and> blkcnt s' = 0 \<and> norintstsen s' = norintstsen s
    \<and> card_ready b sd' \<and> ocr sd' = v \<and> disk b = card_view sd"
proof -
  have r: "sd_receiving 25 (sd_medium sd) sd" "ocr sd = v" using c by (simp_all add: sd_receives_def)
  let ?s = "s\<lparr>cmdreg := 0x0c1b\<rparr>"
  obtain resp sd1 where d: "sd_do_command 12 (cmdarg s) sd = Inr (resp, sd1)" "length resp = 4" "card_ready (sd_medium sd) sd1" "ocr sd1 = v"
    using cmd_stop [of "sd_medium sd" sd "cmdarg s"] r by (auto simp: sd_receiving_def)
  obtain w where w: "mmc_send_command now ?s = Inr (?s\<lparr>errintsts := 0, response_timer := Some now, mmc_card := Some sd1, mmc_response := w\<rparr>)"
    (is "_ = Inr ?s1") using mmc_send_ok [of ?s sd resp sd1 now] c d by auto
  have "mmc_stop now (m, s) = Inr (m, mmc_command_status ?s1)"
    using s w by (simp add: mmc_stop_def mmc_writew_def mmc_command_def mmc_fifo_run_def)
  then show ?thesis
    using d receives_aligned [OF c(2,3)] s
    by (intro exI [of _ "mmc_command_status ?s1"] exI [of _ sd1] exI [of _ "sd_medium sd"]) (simp add: command_status_frame)
qed



lemma no_card_block: "0 < cnt \<Longrightarrow> x_card x = None \<Longrightarrow> mmc_block (mmc_step shr rd) cnt adr x = Inl NullDeref"
  by (cases cnt) (auto simp: mmc_block_def mmc_step_def mmc_read_byte_def mmc_write_byte_def card_read_def card_write_def Let_def)

lemma empty_blocks: "\<exists>k a y. mmc_blocks step 0 masked n bc adr x = Inr (k, a, y)"
  by (induction n arbitrary: x) (auto simp: mmc_block_def Let_def)

text \<open>
  Property C39.  A controller without a card: a command that a guest gives while the block count is not zero follows the
  null pointer to the card if it reads, or if it writes blocks that are not empty; every other command is accepted
  without the time out that an empty slot should report.
\<close>

theorem mmc_no_card:
  assumes "mmc_card s = None"
  shows "if blkcnt s \<noteq> 0 \<and> (mmc_is_read s \<or> mmc_datacnt s \<noteq> 0) then mmc_writew now (m, s) 0x0e val = Inl NullDeref
    else \<exists>m' s'. mmc_writew now (m, s) 0x0e val = Inr (m', s') \<and> errintsts s' = 0"
proof -
  define s1 where "s1 = s\<lparr>cmdreg := ucast val, errintsts := 0, response_timer := Some now\<rparr>"
  have w: "mmc_writew now (m, s) 0x0e val = rbind (mmc_fifo_run (m, s1)) (\<lambda>(m, s). Inr (m, mmc_command_status s))"
    using assms by (simp add: mmc_writew_def mmc_command_def mmc_send_command_def s1_def)
  have f: "blkcnt s1 = blkcnt s" "mmc_is_read s1 = mmc_is_read s" "mmc_datacnt s1 = mmc_datacnt s" "mmc_card s1 = None" "errintsts s1 = 0"
    using assms by (simp_all add: s1_def mmc_is_read_def mmc_datacnt_def)
  have e: "errintsts (mmc_command_status t) = errintsts t" for t by (simp add: mmc_command_status_def Let_def)
  let ?x = "\<lparr>x_card = mmc_card s1, x_mem = m, x_value = 0, x_n = 0, x_pos = 0\<rparr>"
  show ?thesis
  proof (cases "blkcnt s = 0 \<or> mmc_is_read s")
    case True
    then show ?thesis unfolding w using f e by (auto simp: mmc_fifo_run_def card_data_ready_def)
  next
    case False
    then have n: "unat (blkcnt s) = Suc (unat (blkcnt s) - 1)" by (simp add: unat_gt_0 Suc_diff_1)
    show ?thesis
    proof (cases "mmc_datacnt s = 0")
      case True
      then show ?thesis
        unfolding w using False f e empty_blocks [of "mmc_step (drop_bit 8) False" "norintstsen s1 AND 8 \<noteq> 0" "unat (blkcnt s)" "mmc_boundary s1" "sysad s1" ?x]
        by (auto simp: mmc_fifo_run_def mmc_multi_def mmc_block_def)
    next
      case nz: False
      have "mmc_blocks (mmc_step (drop_bit 8) False) (mmc_datacnt s) masked (unat (blkcnt s)) bc (sysad s1) ?x = Inl NullDeref" for masked bc
        using nz f(4) by (subst n) (simp add: no_card_block)
      then show ?thesis
        unfolding w using False nz f no_card_block [of "mmc_datacnt s" ?x "drop_bit 8" False "sysad s1"]
        by (auto simp: mmc_fifo_run_def mmc_multi_def)
    qed
  qed
qed

theorem mmc_no_card_witness:
  "\<exists>s. s5pc1xx_mmc_init 0 None [] = Inr s \<and> mmc_writew 0 (ucast, s\<lparr>blkcnt := 1, trnmod := 0x10\<rparr>) 0x0e 0x1100 = Inl NullDeref"
proof -
  obtain s where s: "s5pc1xx_mmc_init 0 None [] = Inr s" "mmc_card s = None"
    by (simp add: s5pc1xx_mmc_init_def mmc_reset_def Let_def)
  then show ?thesis
    using mmc_no_card [of "s\<lparr>blkcnt := 1, trnmod := 0x10\<rparr>", where now = 0 and m = ucast and val = "0x1100"] by (simp add: mmc_is_read_def)
qed

end
