(* ===== verification/Spec2Isabelle.thy ===== *)
theory Spec2Isabelle
  imports S5pc1xx_Uart Pl192 Pl330 S5pc1xx_Rtc S5pc1xx_Clk Qemu_Timer S5pc1xx_Wdt S5pc1xx_St S5pc1xx_Pwm S5pc1xx_Board Bitbang_I2c S5pc1xx_I2c Ak8973
    S5pc1xx_Gpio S5pc1xx_Keyif Gpio_I2c Gpio_Devices Sd_Faults Mmc_Transfer
begin

text \<open>
  \<^bold>\<open>Verification of the device models of the S5PC110 board\<close>

  The program is a QEMU of the 0.12 era with a board that upstream does not have: the Samsung
  S5PC110 (\<^verbatim>\<open>hw/s5pc1xx.c\<close>).  The development covers the code that was written for this board
  and the generic code of the emulator that this code rests on.

  \<^bold>\<open>The parts and how they interact.\<close>  A device is a C structure with register access functions that
  the guest reaches through memory mapped registers, callbacks that the main loop or a back end
  calls, and interrupt lines (\<^verbatim>\<open>qemu_irq\<close>) that it drives.  A timer device owns a
  \<^verbatim>\<open>QEMUTimer\<close> in the list of active timers of \<^verbatim>\<open>vl.c\<close>, from which the main loop calls it when
  it is due.  The lines of the devices end at the inputs of four PL192 interrupt controllers, which
  are chained to each other and drive the two interrupt inputs of the CPU; the lines of a DMA
  controller are joined by a multiplexer before.  The timers take their frequencies from the clock
  controller.  Slave devices sit on I2C buses, whose masters are a controller with registers or two
  pins that the guest moves bit by bit.  The pins of the board belong to the GPIO controller, which
  passes their configuration and data to the handlers that other devices have registered and joins
  their interrupts into two lines.

  \<^bold>\<open>The theories.\<close>

  \<^item> \<open>Qemu_Prelude\<close>: the integers of C as words, the faults and the result type \<open>'a res\<close>, checked
    arrays, interrupt lines as logs of calls (\<^verbatim>\<open>hw/irq.c\<close>), and the helpers \<^verbatim>\<open>muldiv64\<close>,
    \<^verbatim>\<open>to_bcd\<close>, \<^verbatim>\<open>from_bcd\<close>.
  \<^item> \<open>Cyclic_Queue\<close>: ring buffers over an array with one or no free cell, and the locale
    \<open>byte_fifo\<close> of their contract, interpreted for the UART and for the DMA controller.
  \<^item> \<open>S5pc1xx_Uart\<close> (\<^verbatim>\<open>hw/s5pc1xx_uart.c\<close>): the receive queue, the registers, the receive callback
    and the interrupt line.  Its lemmas show that the line is high exactly when an unmasked source is
    pending, in every reachable state, and that bytes are read back in the order they came.
  \<^item> \<open>Pl192\<close> (\<^verbatim>\<open>hw/pl192.c\<close>): priority sorter, daisy chain, priority stack, registers.  The
    controllers are a list, pointers between them are positions.  The mutual recursion of raise,
    lower and update runs on fuel, two calls per controller of the chain and two more; every
    reachable chain needs no more, and the result is that of a structural recursion.
  \<^item> \<open>Pl330_Queues\<close> and \<open>Pl330\<close> (\<^verbatim>\<open>hw/pl330.c\<close>): the data FIFO, the read and write queues, all
    instructions of the DMA engine, the execution loops, the debug interface and the registers.
    The loop of one channel has no bound in the code, since a program may loop for ever; it has fuel,
    and the theorem on transfers says how many turns a transfer takes.
  \<^item> \<open>S5pc1xx_Clk\<close> (\<^verbatim>\<open>hw/s5pc1xx_clk.c\<close>): the clock tree as a table from the clocks to their
    records, the multiplexer, divisor and PLL registers, and the rates of the board as it starts.
  \<^item> \<open>Qemu_Timer\<close> (\<^verbatim>\<open>vl.c\<close>): the list of active timers and its refinement to a map; the loop of
    \<^verbatim>\<open>qemu_run_timers\<close> has fuel, and one turn for every due timer and one for the end are enough.
    The locale \<open>timer_queue\<close> is the contract of the list, the locale \<open>timer_device\<close> that of a
    device with one timer; the latter gives that a pass of the main loop serves the device once.
  \<^item> \<open>S5pc1xx_Rtc\<close>, \<open>S5pc1xx_Wdt\<close>, \<open>S5pc1xx_St\<close>, \<open>S5pc1xx_Pwm\<close>: the real time clock, the watchdog,
    the system timer and the PWM timers of the files with the same names, the last three as
    interpretations of \<open>timer_device\<close>.
  \<^item> \<open>S5pc1xx_Board\<close> (\<^verbatim>\<open>hw/s5pc1xx.c\<close>): the multiplexers and the numbering of the inputs, with the
    locale \<open>irq_sink\<close> of everything that receives interrupt lines.
  \<^item> \<open>I2c_Bus\<close> (\<^verbatim>\<open>hw/i2c.c\<close>, \<^verbatim>\<open>hw/i2c-addressable.c\<close>): the bus, the slaves with addressable registers, and the
    locale \<open>i2c_master\<close> of a bus master, extended to \<open>register_master\<close> for such slaves, in which a
    register that is written is shown to be read back.
  \<^item> \<open>Bitbang_I2c\<close> (\<^verbatim>\<open>hw/bitbang_i2c.c\<close>, \<^verbatim>\<open>hw/s5pc1xx_i2c_gpio.c\<close>) and \<open>S5pc1xx_I2c\<close>
    (\<^verbatim>\<open>hw/s5pc1xx_i2c.c\<close>): the two masters, both interpretations of the locale for the driver of a
    guest that is written out in the theory; the pins are proved equivalent to the calls on the bus.
  \<^item> \<open>Ak8973\<close> (\<^verbatim>\<open>hw/ak8973.c\<close>): a slave, used through the controller.
  \<^item> \<open>S5pc1xx_Gpio\<close> (\<^verbatim>\<open>hw/s5pc1xx_gpio.c\<close>): the table of the pins, the registration of handlers, the
    configuration, data and interrupt registers and the interrupt inputs.  The state of the devices
    behind the pins is a parameter of the model.  Its lemmas show that the two lines follow the pending
    registers, which interrupts a guest can acknowledge, and which it cannot.
  \<^item> \<open>S5pc1xx_Keyif\<close> (\<^verbatim>\<open>hw/s5pc1xx_keyif.c\<close>): the keypad, as a refinement of the set of held keys.
  \<^item> \<open>Gpio_I2c\<close>: the masters of \<open>Bitbang_I2c\<close> behind the GPIO controller.  The driver of the pins is
    run on the registers of the controller; the locale \<open>pin_sim\<close> says when another pair of pin
    operations simulates the pins, and its interpretation carries the equivalence with the bus over to
    the registers.
  \<^item> \<open>Gpio_Devices\<close>: UARTs, PWM timers and keypad behind the pins.
  \<^item> \<open>Sd_Card\<close> (\<^verbatim>\<open>hw/sd.c\<close>): the memory card with its registers, every command and application
    command, and the data streams.  The image behind it is a list of sectors.  \<open>Sd_Image\<close> reads this
    image as one sequence of bytes, in which the accesses of the card are a slice and a splice.
    \<open>Sd_Protocol\<close> follows the card from power on through identification and the transfer of blocks,
    and interprets the locale \<open>byte_card\<close>, the contract of a card that moves its data byte by byte.
    \<open>Sd_Safety\<close> has the invariant of the reachable cards and the conditions under which the card
    leaves an array; \<open>Sd_Faults\<close> what the card does with protected blocks, at its end, and when it
    is locked.
  \<^item> \<open>S5pc1xx_Mmc\<close> (\<^verbatim>\<open>hw/s5pc1xx_mmc.c\<close>): the host controller in front of the card, with its
    registers, its two ways to move data, the DMA engine and the interrupt line.  \<open>Mmc_Transfer\<close>
    studies its loops for any \<open>byte_card\<close> and shows that blocks which a driver of the guest stores
    through the controller are read back into the memory of the guest.  The loops of a
    transfer are recursions over the block count and the bytes of a block, which bound them in the code.
  \<^item> This theory: the compositions, from a device through the main loop, the wiring and the interrupt
    controllers to the CPU.

  \<^bold>\<open>How the code is modelled.\<close>  The structures are records with the fields of the C structures, the
  operations are functions that return the new state; a call of a library function that ends the
  emulator (\<^verbatim>\<open>hw_error\<close>, \<^verbatim>\<open>abort\<close>), an access outside of an array, a division by zero, a null
  pointer or a shift out of range is a fault, the left summand of \<open>'a res\<close>.  A line is the list
  of the calls made on it, most recent first.  Time is an argument of the operations that ask for
  it.  Reachable states are inductive predicates over all operations of a device with arbitrary
  arguments, so that the invariants hold for every guest.

  \<^bold>\<open>What is not modelled.\<close>  The CPU emulation and the code generator, the other targets and boards,
  the image formats of the block layer, the network, audio and display back ends and the user-mode emulators are
  upstream or vendored code that the devices above do not call.  The back ends of the modelled
  devices are arguments: the bytes of the character device, the date and the time of the host, the
  memory of the guest; of the block layer the card uses the size, the read and the write of sectors,
  which are modelled on a list of sectors.  Of the devices of the board, display, JPEG, audio, USB, modem and debugging
  port end in host input and output or in libraries that are not part of the sources.  The memory
  map of the board and the loading of the kernel are calls into the emulator core.

  The touchscreen, the touchkeys and the converter, the flash controllers, the power management and
  SPI are register files and bus slaves of the kind that is modelled, and are left out for now.
\<close>

section \<open>From the devices to the CPU\<close>

definition S5PC1XX_IRQ_UART0 :: nat where "S5PC1XX_IRQ_UART0 = 42"
definition S5PC1XX_IRQ_WDT :: nat where "S5PC1XX_IRQ_WDT = 27"
definition S5PC1XX_IRQ_GPIOINT :: nat where "S5PC1XX_IRQ_GPIOINT = 30"
definition S5PC1XX_IRQ_EXTEND :: nat where "S5PC1XX_IRQ_EXTEND = 16"

text \<open>The calls a device made on its line between two of its states, run on the board.\<close>

definition connect_irq :: "nat \<Rightarrow> unit irq_log \<Rightarrow> unit irq_log \<Rightarrow> board_irqs \<Rightarrow> board_irqs res" where
  "connect_irq n old new = rfold (\<lambda>(_, b). board_set_irq (VicLine n) b) (new_calls old new)"

text \<open>The two lines of the GPIO controller.\<close>

definition gpio_input :: "gpio_line \<Rightarrow> nat" where
  "gpio_input l = (case l of GpioInt \<Rightarrow> S5PC1XX_IRQ_GPIOINT | Extend \<Rightarrow> S5PC1XX_IRQ_EXTEND)"

definition connect_gpio :: "gpio_line irq_log \<Rightarrow> gpio_line irq_log \<Rightarrow> board_irqs \<Rightarrow> board_irqs res" where
  "connect_gpio old new = rfold (\<lambda>(l, b). board_set_irq (VicLine (gpio_input l)) b) (new_calls old new)"

text \<open>The guest accepts input \<open>n\<close>: its source is enabled as IRQ and nothing else is pending or in service.\<close>

definition vic_accepts :: "nat \<Rightarrow> vic_sys \<Rightarrow> bool" where
  "vic_accepts n S \<longleftrightarrow> (\<forall>j \<le> n div 32. vic_idle (vics S ! j))
     \<and> bit (intenable (vics S ! (n div 32))) (n mod 32) \<and> \<not> bit (intselect (vics S ! (n div 32))) (n mod 32)"

lemma connect_raise:
  assumes "board_reach log B" and "n < 128" and "n \<notin> {18, 19, 20}" and "vic_accepts n (vic_chain B)"
  shows "\<exists>B'. connect_irq n old (qemu_irq_raise () old) B = Inr B' \<and> irq_level (cpu (vic_chain B')) (CpuIrq 0)
    \<and> pl192_state.address (vics (vic_chain B') ! 0) = vect_addr (vics (vic_chain B) ! (n div 32)) ! (n mod 32)"
  using board_interrupts [OF assms(1-3)] assms(4)
  by (fastforce simp: connect_irq_def new_calls_def qemu_irq_raise_def qemu_set_irq_def vic_accepts_def
      simp del: board_set_irq.simps)

lemma masked_bits_pending:
  assumes "x AND m \<noteq> 0" and "w AND m = 0"
  shows "x AND NOT w \<noteq> (0 :: 'a::len word)"
proof
  assume "x AND NOT w = 0"
  have "x AND m = (x AND NOT w) AND m OR (x AND (w AND m))"
    by (rule bit_word_eqI) (auto simp: bit_simps)
  with \<open>x AND NOT w = 0\<close> assms show False by simp
qed

text \<open>
  Property C2.  Serial input interrupts the CPU: a message that arrives at UART \<open>u\<close> in FIFO mode with
  the receive interrupt unmasked is appended to the receive queue, and the call the UART makes on
  its line reaches the interrupt controllers as input 42 + \<open>u\<close>, which raise the CPU interrupt and
  present the vector address the guest has programmed for it.
\<close>

theorem uart_interrupts_cpu:
  assumes "uart_reach s" and "ufcon s AND 1 \<noteq> 0" and "msg \<noteq> []" and "int (length msg) \<le> s5pc1xx_uart_can_receive s"
    and "uintm s AND INT_RXD = 0" and "u < 4"
    and "board_reach log B" and "vic_accepts (S5PC1XX_IRQ_UART0 + u) (vic_chain B)"
  shows "\<exists>s' B'. s5pc1xx_uart_receive s msg = Inr s' \<and> queue_contents (rx s') = queue_contents (rx s) @ msg
    \<and> connect_irq (S5PC1XX_IRQ_UART0 + u) (uart_irq s) (uart_irq s') B = Inr B'
    \<and> irq_level (cpu (vic_chain B')) (CpuIrq 0)
    \<and> pl192_state.address (vics (vic_chain B') ! 0) = vect_addr (vics (vic_chain B) ! 1) ! (10 + u)"
proof -
  let ?n = "S5PC1XX_IRQ_UART0 + u"
  have "uart_inv s" using assms(1) by (rule uart_reach_inv)
  from uart_receive_fifo [OF this assms(2,4)] obtain s' where s': "s5pc1xx_uart_receive s msg = Inr s'" "uart_inv s'"
    "queue_contents (rx s') = queue_contents (rx s) @ msg" "uintsp s' AND INT_RXD \<noteq> 0" "uintm s' = uintm s"
    "uart_irq s' = (if uintp s' \<noteq> 0 then qemu_irq_raise () (uart_irq s) else qemu_irq_lower () (uart_irq s))"
    using assms(3) by auto
  have "uintp s' \<noteq> 0"
    using s'(2,4,5) assms(5) masked_bits_pending [of "uintsp s'" INT_RXD "uintm s"] by (auto simp: uart_inv_def)
  then have raise: "uart_irq s' = qemu_irq_raise () (uart_irq s)" using s'(6) by simp
  have "u = 0 \<or> u = 1 \<or> u = 2 \<or> u = 3" using assms(6) by auto
  then have n: "?n < 128" "?n \<notin> {18, 19, 20}" "?n div 32 = 1" "?n mod 32 = 10 + u"
    by (auto simp: S5PC1XX_IRQ_UART0_def)
  show ?thesis
    using connect_raise [OF assms(7) n(1,2) assms(8), of "uart_irq s"] s'(1,3) raise n(3,4) by auto
qed

text \<open>The board as it starts, after the guest enabled input \<open>n\<close>.\<close>

definition board_enabled :: "nat \<Rightarrow> board_irqs res" where
  "board_enabled n = rbind s5pc110_irqs (\<lambda>B.
     rbind (pl192_write (n div 32) 0x10 (push_bit (n mod 32) 1) (vic_chain B)) (\<lambda>S. Inr (B\<lparr>vic_chain := S\<rparr>)))"

lemma board_enabled_accepts:
  assumes "n = 42 \<or> n = 27 \<or> n = 30"
  shows "\<exists>B. board_enabled n = Inr B \<and> board_reach [] B \<and> vic_accepts n (vic_chain B)"
proof -
  have "(case board_enabled n of Inl e \<Rightarrow> False | Inr B \<Rightarrow> vic_accepts n (vic_chain B))"
    using assms by (elim disjE) (hypsubst, code_simp)+
  moreover have "board_enabled n = Inr B \<Longrightarrow> board_reach [] B" for B
    by (auto simp: board_enabled_def elim!: rbind_InrE intro: board_start board_write)
  ultimately show ?thesis by (auto split: sum.splits)
qed

theorem uart_interrupts_cpu_witness:
  "\<exists>s s' B B'. s5pc1xx_uart_mm_write (s5pc1xx_uart_init1 0 256 None) 0x08 1 = Inr s
    \<and> s5pc1xx_uart_receive s [7] = Inr s' \<and> board_enabled 42 = Inr B
    \<and> connect_irq 42 (uart_irq s) (uart_irq s') B = Inr B' \<and> irq_level (cpu (vic_chain B')) (CpuIrq 0)"
proof -
  let ?s0 = "s5pc1xx_uart_init1 0 256 None"
  have "(case s5pc1xx_uart_mm_write ?s0 0x08 1 of Inl e \<Rightarrow> False
      | Inr s \<Rightarrow> ufcon s AND 1 \<noteq> 0 \<and> 1 \<le> s5pc1xx_uart_can_receive s \<and> uintm s AND INT_RXD = 0)" by code_simp
  then obtain s where s: "s5pc1xx_uart_mm_write ?s0 0x08 1 = Inr s" "ufcon s AND 1 \<noteq> 0"
    "int (length [7 :: u8]) \<le> s5pc1xx_uart_can_receive s" "uintm s AND INT_RXD = 0"
    by (auto split: sum.splits)
  have "uart_reach ?s0" by (rule uart_start) simp_all
  then have reach: "uart_reach s" using s(1) by (rule uart_write)
  obtain B where B: "board_enabled 42 = Inr B" "board_reach [] B" "vic_accepts (S5PC1XX_IRQ_UART0 + 0) (vic_chain B)"
    using board_enabled_accepts [of 42] by (auto simp: S5PC1XX_IRQ_UART0_def)
  from uart_interrupts_cpu [OF reach s(2) _ s(3,4) _ B(2,3)] s(1) B(1) show ?thesis
    by (auto simp: S5PC1XX_IRQ_UART0_def)
qed

text \<open>
  The watchdog interrupts the CPU: when its timer is due, the pass of the main loop over the
  active timers calls it once, and the call it makes on its line reaches the first interrupt
  controller as input 27, which raises the CPU interrupt and presents the vector address the
  guest has programmed for it.
\<close>

lemma wdt_interrupts_cpu:
  assumes "timers_ok l" and "map_of l ts = Some e" "sint e \<le> sint now"
    and "\<forall>t' e'. t' \<noteq> ts \<longrightarrow> map_of l t' = Some e' \<longrightarrow> sint now < sint e'"
    and "wtcon s AND WDT_EN \<noteq> 0" and "wtcon s AND S5pc1xx_Wdt.INT_EN \<noteq> 0" and "wdt_ready now s"
    and "board_reach log B" and "vic_accepts S5PC1XX_IRQ_WDT (vic_chain B)"
  shows "\<exists>s' l' B'. qemu_run_timers 2 (device_callback ts s5pc1xx_wdt_tick wdt_timer now) now (s, l) = Inr (s', l')
    \<and> connect_irq S5PC1XX_IRQ_WDT (wdt_irq s) (wdt_irq s') B = Inr B'
    \<and> irq_level (cpu (vic_chain B')) (CpuIrq 0)
    \<and> pl192_state.address (vics (vic_chain B') ! 0) = vect_addr (vics (vic_chain B) ! 0) ! 27"
proof -
  have "S5pc1xxWDTState.freq_out s \<noteq> 0" using assms(7) by (auto simp: wdt_ready_def)
  then obtain s' l' where s': "qemu_run_timers 2 (device_callback ts s5pc1xx_wdt_tick wdt_timer now) now (s, l) = Inr (s', l')"
    "wdt_irq s' = qemu_irq_raise () (wdt_irq s)"
    using wdt_dev.served_once [OF assms(7,1) vm.due_single [OF assms(2-4)]] assms(5,6)
    by (auto simp: wdt_tick_eq)
  with connect_raise [OF assms(8), of 27 "wdt_irq s"] assms(9) show ?thesis
    by (auto simp: S5PC1XX_IRQ_WDT_def)
qed

text \<open>
  Property C32.  A pin interrupts the CPU: an event on a pin that the guest has configured as an unmasked
  interrupt source, and whose interrupt is not already pending, becomes pending in the register of
  its group, and the call that the GPIO controller makes on its line reaches the first interrupt
  controller as input 30, which raises the CPU interrupt and presents the vector address the guest
  has programmed for it.
\<close>

theorem gpio_interrupts_cpu:
  assumes "gpio_reach T (s, w)" and "g < 23" and "pin < 8"
    and "drop_bit (pin * 4) (con s ! g) AND 0xF = GIPIO_CONF_INT" and "\<not> bit (int_mask s ! g) pin" and "\<not> bit (int_pend s ! g) pin"
    and "board_reach log B" and "vic_accepts S5PC1XX_IRQ_GPIOINT (vic_chain B)"
  shows "\<exists>s' B'. s5pc1xx_gpio_irq_handler (32 + 8 * g + pin) True s = Inr s' \<and> bit (int_pend s' ! g) pin
    \<and> connect_gpio (gpio_irq s) (gpio_irq s') B = Inr B' \<and> irq_level (cpu (vic_chain B')) (CpuIrq 0)
    \<and> pl192_state.address (vics (vic_chain B') ! 0) = vect_addr (vics (vic_chain B) ! 0) ! 30"
proof -
  have len: "length (con s) = 100" "length (int_mask s) = 23" "length (int_pend s) = 23"
    using gpio_reach_inv [OF assms(1)] by (simp_all add: gpio_inv_def gpio_ok_def)
  have idx: "(32 + 8 * g + pin - 32) div 8 = g" "(32 + 8 * g + pin - 32) mod 8 = pin" using assms(3) by simp_all
  have h: "s5pc1xx_gpio_irq_handler (32 + 8 * g + pin) True s =
    Inr (s\<lparr>int_pend := (int_pend s)[g := int_pend s ! g OR push_bit pin 1], gpio_irq := qemu_irq_raise GpioInt (gpio_irq s)\<rparr>)"
    using len assms(2-6) by (simp add: s5pc1xx_gpio_irq_handler_def idx [simplified])
  have "bit (int_pend s ! g OR push_bit pin 1) pin" unfolding bit_or_iff bit_push_bit_iff using assms(3) by simp
  moreover obtain B' where "board_set_irq (VicLine 30) True B = Inr B'" "irq_level (cpu (vic_chain B')) (CpuIrq 0)"
    "pl192_state.address (vics (vic_chain B') ! 0) = vect_addr (vics (vic_chain B) ! 0) ! 30"
    using board_interrupts [OF assms(7), of 30] assms(8) by (auto simp: vic_accepts_def S5PC1XX_IRQ_GPIOINT_def)
  moreover have "new_calls (gpio_irq s) (qemu_irq_raise GpioInt (gpio_irq s)) = [(GpioInt, True)]"
    by (simp add: new_calls_def qemu_irq_raise_def qemu_set_irq_def)
  ultimately show ?thesis
    using h len(3) assms(2) by (simp add: connect_gpio_def gpio_input_def S5PC1XX_IRQ_GPIOINT_def del: board_set_irq.simps)
qed

text \<open>Pin 0 of GPB after it was configured and unmasked as in the demonstration of the GPIO controller.\<close>

theorem gpio_interrupts_cpu_witness:
  "\<exists>s s' B B'. gpio_setup = Inr (s, ()) \<and> s5pc1xx_gpio_irq_handler 48 True s = Inr s' \<and> board_enabled 30 = Inr B
    \<and> connect_gpio (gpio_irq s) (gpio_irq s') B = Inr B' \<and> irq_level (cpu (vic_chain B')) (CpuIrq 0)"
proof -
  obtain B where B: "board_enabled 30 = Inr B" "board_reach [] B" "vic_accepts S5PC1XX_IRQ_GPIOINT (vic_chain B)"
    using board_enabled_accepts [of 30] by (auto simp: S5PC1XX_IRQ_GPIOINT_def)
  obtain s where s: "gpio_setup = Inr (s, ())" "gpio_reach gpio_bare (s, ())" "con s ! 2 = 0xF" "int_mask s ! 2 = 0xFE" "int_pend s ! 2 = 0"
    by (rule gpio_demo_ready)
  have "\<not> bit (int_mask s ! 2) 0" "\<not> bit (int_pend s ! 2) 0" "drop_bit (0 * 4) (con s ! 2) AND 0xF = GIPIO_CONF_INT"
    using s(3-5) by (simp_all add: bit_0 GIPIO_CONF_INT_def)
  from gpio_interrupts_cpu [OF s(2) _ _ this(3,1,2) B(2,3)] s(1) B(1) show ?thesis by auto
qed

end
